(* ===== verification/Prelude.thy ===== *)
theory Prelude
  imports Main "HOL-Library.Word" "HOL-Library.Sublist"
begin

text \<open>
  Shared vocabulary of the development: the types the Rust code is translated to (byte strings,
  fixed-width words, \<open>Result\<close>, \<open>Cow\<close>), the operations of \<open>str\<close> and slices that the sources call
  (\<open>split\<close>, \<open>split_once\<close>, \<open>trim\<close>, \<open>strip_prefix\<close>, \<open>memchr\<close>, \<open>starts_with\<close>, \<open>ends_with\<close>), the
  ordered association list that stands for \<open>IndexMap\<close> and \<open>HashMap\<close>, and the lemmas on them that
  every component uses.

  A Rust \<open>str\<close> is modelled by the list of its UTF-8 bytes, a HOL \<open>string\<close>; ASCII tests on bytes and on
  characters agree in that encoding, and lengths are byte lengths, as in Rust.
\<close>

named_theorems str_simps \<open>rewrite rules for the string library\<close>

section \<open>Types\<close>

type_synonym str = string
type_synonym byte = char
type_synonym u8 = "8 word"
type_synonym u16 = "16 word"
type_synonym u32 = "32 word"
type_synonym ('a, 'e) result = "'e + 'a"

abbreviation Ok :: "'a \<Rightarrow> ('a, 'e) result" where "Ok \<equiv> Inr"
abbreviation Err :: "'e \<Rightarrow> ('a, 'e) result" where "Err \<equiv> Inl"

text \<open>\<open>std::borrow::Cow\<close>: the two variants are observable by pattern matching.\<close>

datatype 'a cow = Borrowed 'a | Owned 'a

fun cow_val :: "'a cow \<Rightarrow> 'a" where
  "cow_val (Borrowed x) = x"
| "cow_val (Owned x) = x"

section \<open>String operations of the Rust standard library\<close>

definition starts_with :: "str \<Rightarrow> str \<Rightarrow> bool" where
  "starts_with s p = prefix p s"

definition ends_with :: "str \<Rightarrow> str \<Rightarrow> bool" where
  "ends_with s p = suffix p s"

fun strip_prefix :: "byte \<Rightarrow> str \<Rightarrow> str option" where
  "strip_prefix c [] = None"
| "strip_prefix c (x # xs) = (if x = c then Some xs else None)"

text \<open>\<open>str::split(char)\<close>: an empty string has one empty piece.\<close>

fun split :: "'a \<Rightarrow> 'a list \<Rightarrow> 'a list list" where
  "split c [] = [[]]"
| "split c (x # xs) =
     (if x = c then [] # split c xs
      else (case split c xs of [] \<Rightarrow> [[x]] | y # ys \<Rightarrow> (x # y) # ys))"

fun join :: "'a \<Rightarrow> 'a list list \<Rightarrow> 'a list" where
  "join c [] = []"
| "join c [x] = x"
| "join c (x # y # ys) = x @ c # join c (y # ys)"

text \<open>\<open>memchr(b, bytes)\<close> and \<open>str::find\<close>: the index of the first byte that matches.\<close>

fun find_index :: "('a \<Rightarrow> bool) \<Rightarrow> 'a list \<Rightarrow> nat option" where
  "find_index P [] = None"
| "find_index P (x # xs) = (if P x then Some 0 else map_option Suc (find_index P xs))"

abbreviation memchr :: "'a \<Rightarrow> 'a list \<Rightarrow> nat option" where
  "memchr b \<equiv> find_index (\<lambda>x. x = b)"

fun split_once :: "'a \<Rightarrow> 'a list \<Rightarrow> ('a list \<times> 'a list) option" where
  "split_once c [] = None"
| "split_once c (x # xs) =
     (if x = c then Some ([], xs)
      else map_option (\<lambda>(a, b). (x # a, b)) (split_once c xs))"

text \<open>
  \<open>char::is_whitespace\<close> is the Unicode property \<open>White_Space\<close>; these are the UTF-8 encodings of the
  code points that have it.
\<close>

definition ws_scalars :: "str list" where
  "ws_scalars = map (map char_of)
     ([[9], [10], [11], [12], [13], [32], [194, 133], [194, 160], [225, 154, 128],
       [226, 128, 128], [226, 128, 129], [226, 128, 130], [226, 128, 131], [226, 128, 132],
       [226, 128, 133], [226, 128, 134], [226, 128, 135], [226, 128, 136], [226, 128, 137],
       [226, 128, 138], [226, 128, 168], [226, 128, 169], [226, 128, 175], [226, 129, 159],
       [227, 128, 128]] :: nat list list)"

lemma ws_scalars_nonempty: "w \<in> set ws_scalars \<Longrightarrow> w \<noteq> []"
  by (auto simp: ws_scalars_def)

function trim_front :: "str list \<Rightarrow> str \<Rightarrow> str" where
  "trim_front ws s =
     (case find (\<lambda>w. w \<noteq> [] \<and> prefix w s) ws of
        None \<Rightarrow> s
      | Some w \<Rightarrow> trim_front ws (drop (length w) s))"
  by pat_completeness auto
termination
proof (relation "measure (\<lambda>(ws, s). length s)", simp)
  fix ws :: "str list" and s w
  assume "find (\<lambda>w. w \<noteq> [] \<and> prefix w s) ws = Some w"
  then have "w \<noteq> [] \<and> prefix w s" by (auto simp: find_Some_iff)
  then have "w \<noteq> []" and "length w \<le> length s" by (auto dest: prefix_length_le)
  then show "((ws, drop (length w) s), ws, s) \<in> measure (\<lambda>(ws, s). length s)" by (cases w) auto
qed

declare trim_front.simps [simp del]

definition trim_start :: "str \<Rightarrow> str" where
  "trim_start s = trim_front ws_scalars s"

definition trim_end :: "str \<Rightarrow> str" where
  "trim_end s = rev (trim_front (map rev ws_scalars) (rev s))"

definition trim :: "str \<Rightarrow> str" where
  "trim s = trim_end (trim_start s)"

text \<open>\<open>Display\<close> of an unsigned integer.\<close>

fun nat_to_string :: "nat \<Rightarrow> str" where
  "nat_to_string n =
     (if n < 10 then [char_of (48 + n)] else nat_to_string (n div 10) @ [char_of (48 + n mod 10)])"

declare nat_to_string.simps [simp del]

definition is_ascii :: "byte \<Rightarrow> bool" where
  "is_ascii c = (of_char c < (128::nat))"

section \<open>Lemmas on splitting and joining\<close>

lemma split_nonempty [simp]: "split c s \<noteq> []"
  by (induction s) (auto split: list.splits)

lemma split_no_sep: "c \<notin> set s \<Longrightarrow> split c s = [s]"
  by (induction s) auto

lemma split_append_sep: "c \<notin> set a \<Longrightarrow> split c (a @ c # s) = a # split c s"
  by (induction a) (auto split: list.splits)

lemma split_pieces: "p \<in> set (split c s) \<Longrightarrow> c \<notin> set p"
proof (induction s arbitrary: p)
  case (Cons x xs)
  then show ?case
    by (cases "split c xs") (auto split: if_splits)
qed simp

lemma split_subset: "p \<in> set (split c s) \<Longrightarrow> set p \<subseteq> set s"
proof (induction s arbitrary: p)
  case (Cons x xs)
  then show ?case
    by (cases "split c xs") (fastforce split: if_splits)+
qed simp

lemma join_Cons: "ys \<noteq> [] \<Longrightarrow> join c (x # ys) = x @ c # join c ys"
  by (cases ys) auto

lemma join_split [simp]: "join c (split c s) = s"
proof (induction s)
  case (Cons x xs)
  then show ?case
  proof (cases "split c xs")
    case (Cons y ys)
    with Cons.IH show ?thesis by (cases ys) (auto simp: join_Cons)
  qed simp
qed simp

lemma split_join:
  "xs \<noteq> [] \<Longrightarrow> (\<And>x. x \<in> set xs \<Longrightarrow> c \<notin> set x) \<Longrightarrow> split c (join c xs) = xs"
proof (induction c xs rule: join.induct)
  case (3 c x y ys)
  then show ?case by (simp add: split_append_sep)
qed (auto simp: split_no_sep)

lemma split_append_last:
  "split c (a @ c # b) = split c a @ split c b"
proof (induction a)
  case (Cons x xs)
  then show ?case by (cases "split c xs") (auto split: list.splits)
qed simp

lemma last_split_snoc_sep: "last (split c (s @ [c])) = []"
  using split_append_last [of c s "[]"] by simp

lemma last_split_eq_Nil: "last (split c s) = [] \<longleftrightarrow> s = [] \<or> last s = c"
proof (cases "s = []")
  case False
  then obtain t x where s: "s = t @ [x]" by (metis rev_exhaust)
  show ?thesis
  proof (cases "x = c")
    case True
    then show ?thesis using s last_split_snoc_sep by simp
  next
    case False
    have "last (split c (t @ [x])) \<noteq> []"
    proof (induction t)
      case Nil
      then show ?case using False by simp
    next
      case (Cons y t)
      then show ?case by (cases "split c (t @ [x])") (auto split: list.splits)
    qed
    then show ?thesis using False s by simp
  qed
qed simp

lemma split_once_None: "split_once c s = None \<longleftrightarrow> c \<notin> set s"
  by (induction s) auto

lemma split_once_Some:
  "split_once c s = Some (a, b) \<longleftrightarrow> s = a @ c # b \<and> c \<notin> set a"
proof (induction s arbitrary: a)
  case (Cons x xs)
  show ?case
  proof (cases a)
    case Nil
    then show ?thesis by (auto split: option.splits)
  next
    case (Cons y ys)
    then show ?thesis using Cons.IH [of ys] by auto
  qed
qed simp

section \<open>Lemmas on searching\<close>

lemma find_index_None: "find_index P xs = None \<longleftrightarrow> (\<forall>x \<in> set xs. \<not> P x)"
  by (induction xs) auto

lemma find_index_Some:
  "find_index P xs = Some i \<longleftrightarrow> i < length xs \<and> P (xs ! i) \<and> (\<forall>j < i. \<not> P (xs ! j))"
proof (induction xs arbitrary: i)
  case (Cons x xs)
  then show ?case
    by (cases i) (auto simp: less_Suc_eq_0_disj)
qed simp

lemma find_index_take:
  "find_index P xs = Some i \<Longrightarrow> (\<forall>x \<in> set (take i xs). \<not> P x) \<and> xs = take i xs @ xs ! i # drop (Suc i) xs"
  by (auto simp: find_index_Some in_set_conv_nth id_take_nth_drop [symmetric])

section \<open>Lemmas on trimming\<close>

lemma trim_front_fixed:
  "(\<And>w. w \<in> set ws \<Longrightarrow> w \<noteq> [] \<Longrightarrow> \<not> prefix w s) \<Longrightarrow> trim_front ws s = s"
  by (subst trim_front.simps) (auto split: option.splits simp: find_Some_iff)

lemma trim_front_done:
  "w \<in> set ws \<Longrightarrow> w \<noteq> [] \<Longrightarrow> \<not> prefix w (trim_front ws s)"
proof (induction ws s rule: trim_front.induct)
  case (1 ws s)
  show ?case
  proof (cases "find (\<lambda>w. w \<noteq> [] \<and> prefix w s) ws")
    case None
    then have "trim_front ws s = s" by (subst trim_front.simps) simp
    moreover have "\<not> prefix w s" using None 1 by (auto simp: find_None_iff)
    ultimately show ?thesis by simp
  next
    case (Some v)
    then have "trim_front ws s = trim_front ws (drop (length v) s)" by (subst trim_front.simps) simp
    with Some 1 show ?thesis by simp
  qed
qed

lemma trim_front_suffix: "suffix (trim_front ws s) s"
proof (induction ws s rule: trim_front.induct)
  case (1 ws s)
  show ?case
  proof (cases "find (\<lambda>w. w \<noteq> [] \<and> prefix w s) ws")
    case None
    then show ?thesis by (subst trim_front.simps) auto
  next
    case (Some v)
    then have "suffix (trim_front ws (drop (length v) s)) (drop (length v) s)" using 1 by simp
    then have "suffix (trim_front ws (drop (length v) s)) s"
      using suffix_drop suffix_order.trans by blast
    then show ?thesis using Some by (subst trim_front.simps) auto
  qed
qed

lemma trim_front_idem: "trim_front ws (trim_front ws s) = trim_front ws s"
  by (rule trim_front_fixed) (simp add: trim_front_done)

text \<open>A byte that occurs in no scalar of \<open>ws\<close> stops the trimming.\<close>

lemma trim_front_barrier:
  "(\<And>w. w \<in> set ws \<Longrightarrow> c \<notin> set w) \<Longrightarrow>
   trim_front ws (a @ c # b) = trim_front ws a @ c # b"
proof (induction ws a rule: trim_front.induct)
  case (1 ws a)
  have pre: "prefix w (a @ c # b) \<longleftrightarrow> prefix w a" if "w \<in> set ws" for w
    using that 1(2) [of w] by (auto simp: prefix_append prefix_Cons)
  have eq: "find (\<lambda>w. w \<noteq> [] \<and> prefix w (a @ c # b)) ws = find (\<lambda>w. w \<noteq> [] \<and> prefix w a) ws"
    by (rule find_cong) (auto simp: pre)
  show ?case
  proof (cases "find (\<lambda>w. w \<noteq> [] \<and> prefix w a) ws")
    case None
    then show ?thesis
      using eq by (simp add: trim_front.simps [of ws "a @ c # b"] trim_front.simps [of ws a])
  next
    case (Some v)
    then have "prefix v a" by (auto simp: find_Some_iff)
    then have "length v \<le> length a" by (rule prefix_length_le)
    then show ?thesis
      using Some eq 1 by (simp add: trim_front.simps [of ws "a @ c # b"] trim_front.simps [of ws a])
  qed
qed

lemma trim_start_Cons:
  "(\<And>w. w \<in> set ws_scalars \<Longrightarrow> c \<notin> set w) \<Longrightarrow> trim_start (c # b) = c # b"
  using trim_front_barrier [of ws_scalars c "[]" b] trim_front_fixed [of ws_scalars "[]"]
  by (simp add: trim_start_def)

lemma trim_end_barrier:
  "(\<And>w. w \<in> set ws_scalars \<Longrightarrow> c \<notin> set w) \<Longrightarrow> trim_end (a @ c # b) = a @ c # trim_end b"
proof -
  assume "\<And>w. w \<in> set ws_scalars \<Longrightarrow> c \<notin> set w"
  then have "trim_front (map rev ws_scalars) (rev b @ c # rev a)
      = trim_front (map rev ws_scalars) (rev b) @ c # rev a"
    by (intro trim_front_barrier) auto
  then show ?thesis by (simp add: trim_end_def)
qed

lemma trim_end_prefix: "prefix (trim_end s) s"
  unfolding trim_end_def by (metis suffix_to_prefix rev_rev_ident trim_front_suffix)

lemma trim_end_idem [simp]: "trim_end (trim_end s) = trim_end s"
  by (simp add: trim_end_def trim_front_idem)

lemma trim_end_Nil [simp]: "trim_end [] = []"
  by (simp add: trim_end_def trim_front_fixed)

lemma trim_Nil [simp]: "trim [] = []"
  by (simp add: trim_def trim_start_def trim_front_fixed)

text \<open>Bytes of a whitespace scalar are below \<open>!\<close> or above \<open>~\<close>, so printable ASCII is never trimmed.\<close>

definition printable :: "byte \<Rightarrow> bool" where
  "printable c = (33 \<le> (of_char c :: nat) \<and> (of_char c :: nat) < 127)"

lemma ws_not_printable: "w \<in> set ws_scalars \<Longrightarrow> printable c \<Longrightarrow> c \<notin> set w"
  by (auto simp: ws_scalars_def printable_def)

lemma trim_start_printable: "printable c \<Longrightarrow> trim_start (c # b) = c # b"
  by (rule trim_start_Cons) (simp add: ws_not_printable)

lemma trim_end_printable: "printable c \<Longrightarrow> trim_end (a @ c # b) = a @ c # trim_end b"
  by (rule trim_end_barrier) (simp add: ws_not_printable)

lemma trim_printable_ends:
  assumes "s \<noteq> [] \<Longrightarrow> printable (hd s) \<and> printable (last s)"
  shows "trim s = s"
proof (cases s rule: rev_cases)
  case (snoc t x)
  then have "printable x" and "printable (hd s)" using assms by auto
  then have "trim_start s = s" using trim_start_printable [of "hd s" "tl s"] snoc by simp
  moreover have "trim_end s = s" using trim_end_printable [of x t "[]"] \<open>printable x\<close> snoc by simp
  ultimately show ?thesis by (simp add: trim_def)
qed simp

lemma trim_slash: "trim (CHR ''/'' # s) = CHR ''/'' # trim_end s"
  using trim_start_printable [of "CHR ''/''" s] trim_end_printable [of "CHR ''/''" "[]" s]
  by (simp add: trim_def printable_def)

lemma trim_end_slash: "trim_end (a @ CHR ''/'' # b) = a @ CHR ''/'' # trim_end b"
  by (rule trim_end_printable) (simp add: printable_def)

lemma trim_end_snoc_printable: "printable c \<Longrightarrow> trim_end (a @ [c]) = a @ [c]"
  using trim_end_printable [of c a "[]"] by simp

lemma set_trim_end: "set (trim_end s) \<subseteq> set s"
  using trim_end_prefix set_mono_prefix by blast

lemma trim_start_suffix: "suffix (trim_start s) s"
  by (simp add: trim_start_def trim_front_suffix)

lemma set_trim: "set (trim s) \<subseteq> set s"
  using set_trim_end [of "trim_start s"] set_mono_suffix [OF trim_start_suffix [of s]]
  by (auto simp: trim_def)

lemma trim_idem [simp]: "trim (trim s) = trim s"
proof -
  have "trim_start (trim_end (trim_start s)) = trim_end (trim_start s)"
    unfolding trim_start_def [of "trim_end (trim_start s)"]
  proof (rule trim_front_fixed)
    fix w :: str
    assume "w \<in> set ws_scalars" and "w \<noteq> []"
    then have "\<not> prefix w (trim_start s)" by (simp add: trim_start_def trim_front_done)
    then show "\<not> prefix w (trim_end (trim_start s))"
      using trim_end_prefix prefix_order.trans by blast
  qed
  then show ?thesis by (simp add: trim_def)
qed

section \<open>Decimal numbers\<close>

lemma nat_to_string_nonempty: "nat_to_string n \<noteq> []"
  by (cases "n < 10") (simp_all add: nat_to_string.simps [of n])

text \<open>Reading the digits back.\<close>

definition digits_value :: "str \<Rightarrow> nat" where
  "digits_value s = foldl (\<lambda>a c. 10 * a + (of_char c - 48)) 0 s"

lemma nat_to_string_value:
  "digits_value (nat_to_string n) = n \<and> list_all (\<lambda>c. 48 \<le> (of_char c :: nat) \<and> of_char c \<le> (57 :: nat)) (nat_to_string n)"
proof (induction n rule: nat_to_string.induct)
  case (1 n)
  show ?case
  proof (cases "n < 10")
    case True
    then show ?thesis by (simp add: nat_to_string.simps [of n] digits_value_def)
  next
    case False
    then show ?thesis
      using 1 by (simp add: nat_to_string.simps [of n] digits_value_def)
  qed
qed

end
