(* ===== verification/RawStr.thy ===== *)
theory RawStr
  imports Prelude
begin

text \<open>
  \<open>core/http/src/raw_str.rs\<close>: the operations of \<open>RawStr\<close> that compute something of their own, that is
  percent and form decoding, \<open>+\<close> replacement, HTML escaping and splitting at a byte. The decoder of the
  \<open>percent_encoding\<close> crate, \<open>percent_decode(bytes).decode_utf8_lossy()\<close>, is the parameter \<open>pd\<close> of every
  definition that calls it, and \<open>pdu\<close> is its checked form \<open>decode_utf8()\<close>.
\<close>

section \<open>Decoding\<close>

type_synonym lossy_decoder = "str \<Rightarrow> str cow"
type_synonym 'e checked_decoder = "str \<Rightarrow> (str cow, 'e) result"

definition percent_decode :: "'e checked_decoder \<Rightarrow> str \<Rightarrow> (str cow, 'e) result" where
  "percent_decode pdu s = (if s = [] then Ok (Borrowed s) else pdu s)"

definition percent_decode_lossy :: "lossy_decoder \<Rightarrow> str \<Rightarrow> str cow" where
  "percent_decode_lossy pd s = (if s = [] then Borrowed s else pd s)"

text \<open>
  \<open>_replace_plus\<close>: \<open>allocated\<close> stays empty (and unallocated) until the first \<open>+\<close> is found by
  \<open>memchr_iter\<close>; every index it yields is overwritten with a space.
\<close>

fun memchr_iter_from :: "nat \<Rightarrow> byte \<Rightarrow> str \<Rightarrow> nat list" where
  "memchr_iter_from k b [] = []"
| "memchr_iter_from k b (x # xs) =
     (if x = b then k # memchr_iter_from (Suc k) b xs else memchr_iter_from (Suc k) b xs)"

definition memchr_iter :: "byte \<Rightarrow> str \<Rightarrow> nat list" where
  "memchr_iter b s = memchr_iter_from 0 b s"

fun replace_plus_loop :: "str \<Rightarrow> str \<Rightarrow> nat list \<Rightarrow> str" where
  "replace_plus_loop string allocated [] = allocated"
| "replace_plus_loop string allocated (i # is) =
     (let allocated = (if allocated = [] then string else allocated)
      in replace_plus_loop string (allocated[i := CHR '' '']) is)"

definition replace_plus :: "str \<Rightarrow> str cow" where
  "replace_plus string =
     (let allocated = replace_plus_loop string [] (memchr_iter (CHR ''+'') string)
      in if allocated = [] then Borrowed string else Owned allocated)"

definition url_decode :: "'e checked_decoder \<Rightarrow> str \<Rightarrow> (str cow, 'e) result" where
  "url_decode pdu s =
     (let string = replace_plus s
      in case pdu (cow_val string) of
           Err e \<Rightarrow> Err e
         | Ok (Owned t) \<Rightarrow> Ok (Owned t)
         | Ok (Borrowed _) \<Rightarrow> Ok string)"

definition url_decode_lossy :: "lossy_decoder \<Rightarrow> str \<Rightarrow> str cow" where
  "url_decode_lossy pd s =
     (let string = replace_plus s
      in case pd (cow_val string) of Owned t \<Rightarrow> Owned t | Borrowed _ \<Rightarrow> string)"

section \<open>HTML escaping\<close>





section \<open>Splitting\<close>

definition split_at_byte :: "byte \<Rightarrow> str \<Rightarrow> str \<times> str" where
  "split_at_byte b s =
     (if \<not> is_ascii b then (s, [])
      else case memchr b s of
             Some i \<Rightarrow> (take i s, take (length s - (i + 1)) (drop (i + 1) s))
           | None \<Rightarrow> (s, []))"

section \<open>Lemmas\<close>

lemma memchr_iter_from_ge: "i \<in> set (memchr_iter_from k b s) \<Longrightarrow> k \<le> i \<and> i < k + length s"
  by (induction k b s rule: memchr_iter_from.induct) (fastforce split: if_splits)+

lemma memchr_iter_mem: "i \<in> set (memchr_iter b s) \<longleftrightarrow> i < length s \<and> s ! i = b"
proof -
  have "i \<in> set (memchr_iter_from k b s) \<longleftrightarrow> k \<le> i \<and> i < k + length s \<and> s ! (i - k) = b" for k
  proof (induction s arbitrary: k)
    case (Cons x xs)
    then show ?case
      by (auto simp: nth_Cons' Suc_diff_Suc [symmetric] not_less_eq_eq split: if_splits)
  qed simp
  from this [of 0] show ?thesis by (simp add: memchr_iter_def)
qed

lemma replace_plus_loop_nth:
  assumes "allocated = [] \<or> length allocated = length s"
    and "s \<noteq> []" and "\<forall>i \<in> set is. i < length s"
  shows "replace_plus_loop s allocated is =
    (if is = [] then allocated
     else map (\<lambda>j. if j \<in> set is then CHR '' '' else (if allocated = [] then s else allocated) ! j)
            [0 ..< length s])"
  using assms
proof (induction s allocated "is" rule: replace_plus_loop.induct)
  case (2 s allocated i "is")
  let ?a = "if allocated = [] then s else allocated"
  have len: "length (?a[i := CHR '' '']) = length s" using 2(2,3) by auto
  then have ne: "?a[i := CHR '' ''] \<noteq> []" using 2(3) by (metis length_0_conv)
  have ih: "replace_plus_loop s (?a[i := CHR '' '']) is =
      (if is = [] then ?a[i := CHR '' '']
       else map (\<lambda>j. if j \<in> set is then CHR '' '' else ?a[i := CHR '' ''] ! j) [0 ..< length s])"
    using 2(1) [OF refl] 2(3,4) len ne by auto
  show ?case
  proof (cases "is = []")
    case True
    then have "replace_plus_loop s allocated (i # is) = ?a[i := CHR '' '']" by (simp add: Let_def)
    also have "\<dots> = map (\<lambda>j. if j \<in> {i} then CHR '' '' else ?a ! j) [0 ..< length s]"
      using 2(4) len by (intro nth_equalityI) (auto simp: nth_list_update)
    finally show ?thesis using True by simp
  next
    case False
    then show ?thesis
      using ih 2(4) len by (auto simp: Let_def nth_list_update)
  qed
qed simp

lemma replace_plus_eq:
  "replace_plus s =
    (if CHR ''+'' \<in> set s then Owned (map (\<lambda>c. if c = CHR ''+'' then CHR '' '' else c) s) else Borrowed s)"
proof (cases "CHR ''+'' \<in> set s")
  case True
  let ?is = "memchr_iter (CHR ''+'') s"
  have ne: "s \<noteq> []" using True by auto
  have mem: "\<And>i. i \<in> set ?is \<longleftrightarrow> i < length s \<and> s ! i = CHR ''+''" by (rule memchr_iter_mem)
  then have isne: "?is \<noteq> []" using True by (auto simp: in_set_conv_nth)
  have "replace_plus_loop s [] ?is = map (\<lambda>j. if j \<in> set ?is then CHR '' '' else s ! j) [0 ..< length s]"
    using replace_plus_loop_nth [of "[]" s ?is] ne isne mem by auto
  also have "\<dots> = map (\<lambda>c. if c = CHR ''+'' then CHR '' '' else c) s"
    by (rule nth_equalityI) (auto simp: mem)
  finally show ?thesis using True ne by (simp add: replace_plus_def)
next
  case False
  then have "memchr_iter (CHR ''+'') s = []"
    using memchr_iter_mem [of _ "CHR ''+''" s] by (metis list.set_intros(1) neq_Nil_conv nth_mem)
  with False show ?thesis by (simp add: replace_plus_def)
qed



lemma split_at_byte_eq:
  "is_ascii b \<Longrightarrow> split_at_byte b s = (case split_once b s of Some p \<Rightarrow> p | None \<Rightarrow> (s, []))"
proof (cases "memchr b s")
  case None
  then have "split_once b s = None" by (auto simp: find_index_None split_once_None)
  with None show "is_ascii b \<Longrightarrow> ?thesis" by (simp add: split_at_byte_def)
next
  case (Some i)
  then have "s ! i = b" by (simp add: find_index_Some)
  then have "s = take i s @ b # drop (Suc i) s \<and> b \<notin> set (take i s)"
    using find_index_take [OF Some] by auto
  then have "split_once b s = Some (take i s, drop (Suc i) s)" by (simp add: split_once_Some)
  with Some show "is_ascii b \<Longrightarrow> ?thesis" by (simp add: split_at_byte_def)
qed







section \<open>Properties\<close>


end
