(* ===== verification/UriTables.thy ===== *)
theory UriTables
  imports Prelude
begin

text \<open>
  The character tables of the URI grammar (\<open>core/http/src/parse/uri/tables.rs\<close>) and the numeric part
  of the authority parser, \<open>maybe_port\<close> (\<open>core/http/src/parse/uri/parser.rs\<close>). The parsers turn byte
  slices into \<open>str\<close> without checking (\<open>as_utf8_unchecked\<close>), which is sound only because every byte
  they accept is in one of these tables; \<open>uri_tables_ascii\<close> below is that safety argument.
\<close>

section \<open>Tables\<close>

text \<open>A table is a \<open>[u8; 256]\<close>: entry \<open>c\<close> holds \<open>c\<close> if the byte belongs to the class and 0 if not.\<close>

fun table_set :: "byte list \<Rightarrow> byte list \<Rightarrow> byte list" where
  "table_set table [] = table"
| "table_set table (c # cs) = table_set (table[of_char c := c]) cs"

fun table_sets :: "byte list \<Rightarrow> byte list list \<Rightarrow> byte list" where
  "table_sets table [] = table"
| "table_sets table (s # sets) = table_sets (table_set table s) sets"

definition char_table :: "byte list list \<Rightarrow> byte list" where
  "char_table sets = table_sets (replicate 256 CHR 0x00) sets"

definition ALPHA :: "byte list" where
  "ALPHA = ''ABCDEFGHIJKLMNOPQRSTUVWXYZabcdefghijklmnopqrstuvwxyz''"

definition DIGIT :: "byte list" where
  "DIGIT = ''0123456789''"

definition PCT_ENCODED :: "byte list" where
  "PCT_ENCODED = ''%ABCDEFabcdef0123456789''"

definition SUB_DELIMS :: "byte list" where
  "SUB_DELIMS = [CHR ''!'', CHR ''$'', CHR ''&'', CHR 0x27, CHR ''('', CHR '')'', CHR ''*'',
     CHR ''+'', CHR '','', CHR '';'', CHR ''='']"

definition SCHEME_CHAR :: "byte list" where
  "SCHEME_CHAR = char_table [ALPHA, DIGIT, ''+-.'']"

definition UNRESERVED :: "byte list" where
  "UNRESERVED = char_table [ALPHA, DIGIT, ''-._~'']"

definition REG_NAME_CHARS :: "byte list" where
  "REG_NAME_CHARS = char_table [UNRESERVED, PCT_ENCODED, SUB_DELIMS]"

definition USER_INFO_CHARS :: "byte list" where
  "USER_INFO_CHARS = char_table [REG_NAME_CHARS, '':'']"

definition PATH_CHARS :: "byte list" where
  "PATH_CHARS = char_table [REG_NAME_CHARS, '':@/'', ''[]'']"

definition QUERY_CHARS :: "byte list" where
  "QUERY_CHARS = char_table [PATH_CHARS, ''/?'',
     [CHR ''{'', CHR ''}'', CHR ''['', CHR '']'', CHR 0x5C, CHR ''^'', CHR 0x60, CHR ''|'']]"

definition is_pchar :: "byte \<Rightarrow> bool" where
  "is_pchar c = (PATH_CHARS ! of_char c \<noteq> CHR 0x00)"

definition is_host_char :: "byte \<Rightarrow> bool" where
  "is_host_char c = (is_pchar c \<and> c \<noteq> CHR ''['' \<and> c \<noteq> CHR '']'')"

definition is_scheme_char :: "byte \<Rightarrow> bool" where
  "is_scheme_char c = (SCHEME_CHAR ! of_char c \<noteq> CHR 0x00)"

definition is_user_info_char :: "byte \<Rightarrow> bool" where
  "is_user_info_char c = (USER_INFO_CHARS ! of_char c \<noteq> CHR 0x00)"

definition is_qchar :: "byte \<Rightarrow> bool" where
  "is_qchar c = (QUERY_CHARS ! of_char c \<noteq> CHR 0x00)"

definition is_reg_name_char :: "byte \<Rightarrow> bool" where
  "is_reg_name_char c = (REG_NAME_CHARS ! of_char c \<noteq> CHR 0x00)"

section \<open>What a table contains\<close>

lemma length_table_set [simp]: "length (table_set t s) = length t"
  by (induction t s rule: table_set.induct) auto

lemma length_table_sets [simp]: "length (table_sets t ss) = length t"
  by (induction t ss rule: table_sets.induct) auto

lemma of_char_bound: "(of_char c :: nat) < 256"
  by simp

lemma table_set_nth:
  "length t = 256 \<Longrightarrow> table_set t s ! of_char c = (if c \<in> set s then c else t ! of_char c)"
proof (induction t s rule: table_set.induct)
  case (2 table d ds)
  then show ?case
    using of_char_bound [of d] of_char_bound [of c]
    by (auto simp: nth_list_update)
qed simp

lemma table_sets_nth:
  "length t = 256 \<Longrightarrow>
   table_sets t ss ! of_char c = (if c \<in> \<Union> (set ` set ss) then c else t ! of_char c)"
  by (induction t ss rule: table_sets.induct) (auto simp: table_set_nth)

lemma char_table_nth:
  "char_table ss ! of_char c \<noteq> CHR 0x00 \<longleftrightarrow> c \<noteq> CHR 0x00 \<and> c \<in> \<Union> (set ` set ss)"
  using of_char_bound [of c] by (simp add: char_table_def table_sets_nth)

lemma set_char_table: "set (char_table ss) \<subseteq> insert (CHR 0x00) (\<Union> (set ` set ss))"
proof
  fix x
  assume "x \<in> set (char_table ss)"
  then obtain i where i: "i < 256" "x = char_table ss ! i"
    by (auto simp: in_set_conv_nth char_table_def)
  then have "of_char (char_of i :: byte) = i" by simp
  with i show "x \<in> insert (CHR 0x00) (\<Union> (set ` set ss))"
    using table_sets_nth [of "replicate 256 CHR 0x00" ss "char_of i"]
    by (auto simp: char_table_def split: if_splits)
qed

lemma nth_in_char_table: "c \<in> \<Union> (set ` set ss) \<Longrightarrow> c \<in> set (char_table ss)"
proof -
  assume "c \<in> \<Union> (set ` set ss)"
  then have "char_table ss ! of_char c = c" by (simp add: char_table_def table_sets_nth)
  moreover have "of_char c < length (char_table ss)" by (simp add: char_table_def of_char_bound)
  ultimately show ?thesis by (metis nth_mem)
qed

lemma set_char_table_eq:
  "insert (CHR 0x00) (set (char_table ss)) = insert (CHR 0x00) (\<Union> (set ` set ss))"
  using set_char_table [of ss] nth_in_char_table [of _ ss] by blast

definition unreserved_set :: "byte set" where
  "unreserved_set = set ALPHA \<union> set DIGIT \<union> set ''-._~''"

definition reg_name_set :: "byte set" where
  "reg_name_set = unreserved_set \<union> set PCT_ENCODED \<union> set SUB_DELIMS"

lemma UNRESERVED_set: "insert (CHR 0x00) (set UNRESERVED) = insert (CHR 0x00) unreserved_set"
  by (simp add: UNRESERVED_def set_char_table_eq unreserved_set_def Un_assoc)

lemma REG_NAME_set: "insert (CHR 0x00) (set REG_NAME_CHARS) = insert (CHR 0x00) reg_name_set"
proof -
  have "insert (CHR 0x00) (set REG_NAME_CHARS)
      = insert (CHR 0x00) (set UNRESERVED) \<union> (set PCT_ENCODED \<union> set SUB_DELIMS)"
    by (simp add: REG_NAME_CHARS_def set_char_table_eq)
  also have "\<dots> = insert (CHR 0x00) reg_name_set"
    by (simp only: UNRESERVED_set) (auto simp: reg_name_set_def)
  finally show ?thesis .
qed

lemma PATH_set:
  "insert (CHR 0x00) (set PATH_CHARS) = insert (CHR 0x00) (reg_name_set \<union> set '':@/[]'')"
proof -
  have "insert (CHR 0x00) (set PATH_CHARS)
      = insert (CHR 0x00) (set REG_NAME_CHARS) \<union> set '':@/[]''"
    by (auto simp: PATH_CHARS_def set_char_table_eq)
  then show ?thesis by (simp only: REG_NAME_set) auto
qed

lemma zero_not_reg_name: "CHR 0x00 \<notin> reg_name_set"
  by (simp add: reg_name_set_def unreserved_set_def ALPHA_def DIGIT_def PCT_ENCODED_def SUB_DELIMS_def)

lemma in_table_iff:
  assumes "insert (CHR 0x00) S = insert (CHR 0x00) T"
  shows "c \<noteq> CHR 0x00 \<and> c \<in> S \<longleftrightarrow> c \<noteq> CHR 0x00 \<and> c \<in> T"
  using assms by blast

lemma is_scheme_char_iff: "is_scheme_char c \<longleftrightarrow> c \<in> set ALPHA \<union> set DIGIT \<union> set ''+-.''"
proof -
  have "CHR 0x00 \<notin> set ALPHA \<union> set DIGIT" by (simp add: ALPHA_def DIGIT_def)
  then show ?thesis by (auto simp: is_scheme_char_def SCHEME_CHAR_def char_table_nth)
qed

lemma is_scheme_char_qchar: "is_scheme_char c \<Longrightarrow> c \<in> reg_name_set"
  by (auto simp: is_scheme_char_iff reg_name_set_def unreserved_set_def SUB_DELIMS_def)

lemma is_reg_name_char_iff: "is_reg_name_char c \<longleftrightarrow> c \<in> reg_name_set"
proof -
  have "is_reg_name_char c
      \<longleftrightarrow> c \<noteq> CHR 0x00 \<and> (c \<in> set UNRESERVED \<or> c \<in> set PCT_ENCODED \<union> set SUB_DELIMS)"
    by (simp add: is_reg_name_char_def REG_NAME_CHARS_def char_table_nth)
  then show ?thesis
    using in_table_iff [OF UNRESERVED_set, of c] zero_not_reg_name
    unfolding reg_name_set_def by auto
qed

lemma is_user_info_char_iff: "is_user_info_char c \<longleftrightarrow> c \<in> reg_name_set \<union> set '':''"
  using in_table_iff [OF REG_NAME_set, of c] zero_not_reg_name
  by (auto simp: is_user_info_char_def USER_INFO_CHARS_def char_table_nth)

lemma is_pchar_iff: "is_pchar c \<longleftrightarrow> c \<in> reg_name_set \<union> set '':@/[]''"
  using in_table_iff [OF REG_NAME_set, of c] zero_not_reg_name
  by (auto simp: is_pchar_def PATH_CHARS_def char_table_nth)

lemma is_qchar_iff:
  "is_qchar c \<longleftrightarrow> c \<in> reg_name_set \<union> set '':@/[]?{}^|'' \<union> {CHR 0x5C, CHR 0x60}"
  using in_table_iff [OF PATH_set, of c] zero_not_reg_name
  by (auto simp: is_qchar_def QUERY_CHARS_def char_table_nth)

lemmas class_iffs =
  is_scheme_char_iff is_reg_name_char_iff is_user_info_char_iff is_pchar_iff is_qchar_iff
lemmas class_sets =
  reg_name_set_def unreserved_set_def ALPHA_def DIGIT_def PCT_ENCODED_def SUB_DELIMS_def

lemma reg_name_printable: "\<forall>c \<in> reg_name_set. printable c \<and> c \<noteq> CHR ''#''"
proof -
  have "list_all (\<lambda>c. printable c \<and> c \<noteq> CHR ''#'') (ALPHA @ DIGIT @ ''-._~'' @ PCT_ENCODED @ SUB_DELIMS)"
    by (simp add: ALPHA_def DIGIT_def PCT_ENCODED_def SUB_DELIMS_def printable_def)
  then show ?thesis
    by (simp add: reg_name_set_def unreserved_set_def list_all_iff ball_Un)
qed

lemma is_qchar_printable: "is_qchar c \<Longrightarrow> printable c \<and> c \<noteq> CHR ''#''"
proof -
  have "\<forall>c \<in> reg_name_set \<union> set '':@/[]?{}^|'' \<union> {CHR 0x5C, CHR 0x60}. printable c \<and> c \<noteq> CHR ''#''"
    using reg_name_printable by (simp add: ball_Un printable_def)
  then show "is_qchar c \<Longrightarrow> printable c \<and> c \<noteq> CHR ''#''" unfolding is_qchar_iff by blast
qed

lemma is_pchar_qchar: "is_pchar c \<Longrightarrow> is_qchar c"
  unfolding is_pchar_iff is_qchar_iff by (elim UnE) (simp, auto)

lemma is_pchar_printable: "is_pchar c \<Longrightarrow> printable c"
  by (simp add: is_qchar_printable is_pchar_qchar)

section \<open>Ports\<close>

text \<open>
  \<open>maybe_port\<close>: the value is accumulated in a \<open>u32\<close> with weights 1, 10, 100, 1000, 10000 from the
  last digit backwards, then narrowed to \<open>u16\<close>. Each \<open>parse_error!\<close> is a constructor.
\<close>

datatype port_error = PortLen | PortBytes | PortRange u32

definition is_ascii_digit :: "byte \<Rightarrow> bool" where
  "is_ascii_digit c = (48 \<le> (of_char c :: nat) \<and> (of_char c :: nat) \<le> 57)"

definition digit_u8 :: "byte \<Rightarrow> u8" where
  "digit_u8 b = of_nat (of_char b) - of_nat (of_char (CHR ''0''))"

fun port_sum :: "(byte \<times> u32) list \<Rightarrow> u32 \<Rightarrow> u32" where
  "port_sum [] port_num = port_num"
| "port_sum ((b, i) # rest) port_num = port_sum rest (port_num + ucast (digit_u8 b) * i)"

definition maybe_port :: "byte list \<Rightarrow> (u16 option, port_error) result" where
  "maybe_port bytes =
     (if bytes = [] then Ok None
      else if 5 < length bytes then Err PortLen
      else if \<not> list_all is_ascii_digit bytes then Err PortBytes
      else let port_num = port_sum (zip (rev bytes) [1, 10, 100, 1000, 10000]) 0
           in if ucast (65535 :: u16) < port_num then Err (PortRange port_num)
              else Ok (Some (ucast port_num)))"

text \<open>The decimal value of a digit string, most significant digit first.\<close>

definition digit_val :: "byte \<Rightarrow> nat" where
  "digit_val b = of_char b - 48"

definition decimal :: "byte list \<Rightarrow> nat" where
  "decimal bytes = foldl (\<lambda>n b. 10 * n + digit_val b) 0 bytes"

lemma unat_digit: "is_ascii_digit b \<Longrightarrow> unat (digit_u8 b) = digit_val b"
  by (simp add: digit_val_def is_ascii_digit_def digit_u8_def unat_sub_if' unat_of_nat)

lemma digit_cases: "is_ascii_digit b \<Longrightarrow> digit_val b \<le> 9"
  by (auto simp: digit_val_def is_ascii_digit_def)

lemma ucast_digit: "is_ascii_digit b \<Longrightarrow> (ucast (digit_u8 b) :: u32) = of_nat (digit_val b)"
proof -
  assume "is_ascii_digit b"
  then have "(of_nat (unat (digit_u8 b)) :: u32) = of_nat (digit_val b)" by (simp add: unat_digit)
  then show ?thesis by simp
qed

lemma port_sum_decimal:
  assumes "length bytes \<le> 5" and "list_all is_ascii_digit bytes"
  shows "port_sum (zip (rev bytes) [1, 10, 100, 1000, 10000]) 0 = of_nat (decimal bytes)"
proof -
  consider "bytes = []" | a where "bytes = [a]" | a b where "bytes = [a, b]"
    | a b c where "bytes = [a, b, c]" | a b c d where "bytes = [a, b, c, d]"
    | a b c d e where "bytes = [a, b, c, d, e]"
    using assms(1) by (auto simp: le_Suc_eq numeral_eq_Suc length_Suc_conv)
  then show ?thesis
    using assms(2) by cases (auto simp: decimal_def ucast_digit algebra_simps)
qed

lemma decimal_bound:
  "list_all is_ascii_digit bytes \<Longrightarrow> decimal bytes < 10 ^ length bytes"
proof (induction bytes rule: rev_induct)
  case (snoc x xs)
  then have "decimal xs < 10 ^ length xs" and "digit_val x \<le> 9"
    by (auto simp: digit_cases)
  then show ?case by (simp add: decimal_def)
qed (simp add: decimal_def)

lemma decimal_no_overflow:
  assumes "length bytes \<le> 5" and "list_all is_ascii_digit bytes"
  shows "decimal bytes < 2 ^ 32"
proof -
  have "decimal bytes < 10 ^ length bytes" using assms(2) by (rule decimal_bound)
  also have "(10::nat) ^ length bytes \<le> 10 ^ 5" using assms(1) by (intro power_increasing) auto
  finally show ?thesis by simp
qed

section \<open>Properties\<close>

text \<open>
  Every byte that any table of the URI grammar accepts is ASCII, and the five classes are nested
  or extended exactly as the grammar says; this is what makes the parsers' unchecked conversion of the
  accepted bytes to \<open>str\<close> sound.
\<close>

theorem uri_tables_ascii:
  "(is_pchar c \<or> is_qchar c \<or> is_scheme_char c \<or> is_reg_name_char c \<or> is_user_info_char c
      \<or> is_host_char c \<longleftrightarrow> is_qchar c)
   \<and> (if is_qchar c then is_ascii c \<and> c \<noteq> CHR ''#'' \<and> c \<noteq> CHR '' '' else True)
   \<and> (is_pchar c \<longleftrightarrow> is_reg_name_char c \<or> c \<in> set '':@/[]'')
   \<and> (is_qchar c \<longleftrightarrow> is_pchar c \<or> c \<in> set ''?{}^|'' \<union> {CHR 0x5C, CHR 0x60})"
proof -
  have ascii: "is_qchar c \<Longrightarrow> is_ascii c \<and> c \<noteq> CHR ''#'' \<and> c \<noteq> CHR '' ''"
    using is_qchar_printable [of c] by (auto simp: is_ascii_def printable_def)
  have scheme: "is_scheme_char c \<Longrightarrow> is_reg_name_char c"
    using is_scheme_char_qchar [of c] by (simp only: is_reg_name_char_iff)
  have user: "is_user_info_char c \<longleftrightarrow> is_reg_name_char c \<or> c \<in> set '':''"
    by (simp only: is_user_info_char_iff is_reg_name_char_iff Un_iff)
  have path: "is_pchar c \<longleftrightarrow> is_reg_name_char c \<or> c \<in> set '':@/[]''"
    by (simp only: is_pchar_iff is_reg_name_char_iff Un_iff)
  have "set '':@/[]?{}^|'' = set '':@/[]'' \<union> set ''?{}^|''" by auto
  then have query: "is_qchar c \<longleftrightarrow> is_pchar c \<or> c \<in> set ''?{}^|'' \<union> {CHR 0x5C, CHR 0x60}"
    unfolding is_qchar_iff is_pchar_iff by blast
  have colon: "c \<in> set '':'' \<Longrightarrow> c \<in> set '':@/[]''" by simp
  show ?thesis
    using ascii scheme user path query colon unfolding is_host_char_def by argo
qed

text \<open>
  A port of at most five digits is read as its decimal value: \<open>maybe_port\<close> never overflows its
  \<open>u32\<close> accumulator, accepts exactly the values below 65536, narrows them to \<open>u16\<close> without loss, and
  refuses every other input with the error that names the reason.
\<close>

theorem maybe_port_spec:
  "maybe_port bytes =
     (if bytes = [] then Ok None
      else if 5 < length bytes then Err PortLen
      else if \<not> list_all is_ascii_digit bytes then Err PortBytes
      else if 65535 < decimal bytes then Err (PortRange (of_nat (decimal bytes)))
      else Ok (Some (of_nat (decimal bytes))))
   \<and> (case maybe_port bytes of Ok (Some p) \<Rightarrow> unat p = decimal bytes | _ \<Rightarrow> True)"
proof (cases "bytes \<noteq> [] \<and> length bytes \<le> 5 \<and> list_all is_ascii_digit bytes")
  case True
  then have sum: "port_sum (zip (rev bytes) [1, 10, 100, 1000, 10000]) 0 = of_nat (decimal bytes)"
    and small: "decimal bytes < 2 ^ 32"
    using port_sum_decimal decimal_no_overflow by auto
  have "(ucast (65535 :: u16) :: u32) < of_nat (decimal bytes) \<longleftrightarrow> 65535 < decimal bytes"
    using small by (simp add: word_less_nat_alt unat_of_nat)
  moreover have "(ucast (of_nat (decimal bytes) :: u32) :: u16) = of_nat (decimal bytes)"
    using small by (simp add: unsigned_of_nat take_bit_nat_eq_self)
  ultimately show ?thesis using True sum
    by (auto simp: maybe_port_def unat_of_nat)
qed (auto simp: maybe_port_def)

end
