(* ===== verification/UriPath.thy ===== *)
theory UriPath
  imports RawStr UriTables
begin

text \<open>
  Paths, queries and origin URIs: \<open>core/http/src/uri/path_query.rs\<close>, \<open>segments.rs\<close> and \<open>origin.rs\<close>.

  \<open>Origin\<close> stores its path and query either as indices into the parsed source or as strings of their own;
  every operation reads them through \<open>raw()\<close>, which yields the string in both cases, so an origin is
  modelled by the two strings. The decoded segments that \<open>Path::segments\<close> and \<open>Query::segments\<close> cache in
  an \<open>InitCell\<close> are recomputed by the model: the cache is filled once from the immutable path. The
  parameter \<open>pd\<close> is the lossy percent decoder (see \<open>RawStr\<close>).
\<close>

section \<open>Paths\<close>

abbreviation slash :: byte where "slash \<equiv> CHR ''/''"
abbreviation amp :: byte where "amp \<equiv> CHR ''&''"

definition path_raw_segments :: "str \<Rightarrow> str list" where
  "path_raw_segments p =
     (let raw = trim p
      in split slash (case strip_prefix slash raw of Some r \<Rightarrow> r | None \<Rightarrow> raw))"

definition path_is_normalized :: "bool \<Rightarrow> str \<Rightarrow> bool" where
  "path_is_normalized absolute p =
     (if absolute \<and> \<not> starts_with p ''/'' then False
      else list_all (\<lambda>s. s \<noteq> []) (drop 1 (rev (path_raw_segments p))))"

text \<open>The \<open>for (i, segment) in segments.enumerate()\<close> loop: a separator before all but the first.\<close>

fun push_segments :: "byte \<Rightarrow> nat \<Rightarrow> str list \<Rightarrow> str \<Rightarrow> str" where
  "push_segments sep i [] path = path"
| "push_segments sep i (segment # rest) path =
     (let path = (if i \<noteq> 0 then path @ [sep] else path)
      in push_segments sep (Suc i) rest (path @ segment))"

definition path_to_normalized :: "bool \<Rightarrow> bool \<Rightarrow> str \<Rightarrow> str" where
  "path_to_normalized absolute trail p =
     (let raw = trim p;
          path = (if absolute \<or> starts_with raw ''/'' then ''/'' else []);
          path = push_segments slash 0 (filter (\<lambda>s. s \<noteq> []) (path_raw_segments p)) path
      in if trail \<and> 1 < length raw \<and> ends_with raw ''/'' \<and> \<not> ends_with path ''/''
         then path @ ''/'' else path)"

text \<open>\<open>decode_to_indexed_str\<close> at the level of the decoded text.\<close>

definition decode_path :: "lossy_decoder \<Rightarrow> str \<Rightarrow> str" where
  "decode_path pd value = cow_val (percent_decode_lossy pd value)"

definition decode_query :: "lossy_decoder \<Rightarrow> str \<Rightarrow> str" where
  "decode_query pd value = cow_val (url_decode_lossy pd value)"

text \<open>The peekable loop of \<open>Path::segments\<close>: an empty segment is kept only if it is the last one.\<close>

fun path_segments_loop :: "lossy_decoder \<Rightarrow> str list \<Rightarrow> str list" where
  "path_segments_loop pd [] = []"
| "path_segments_loop pd (s # rest) =
     (if s = [] \<and> rest \<noteq> [] then path_segments_loop pd rest
      else decode_path pd s # path_segments_loop pd rest)"

definition path_segments :: "lossy_decoder \<Rightarrow> str \<Rightarrow> str list" where
  "path_segments pd p = path_segments_loop pd (path_raw_segments p)"

section \<open>Queries\<close>

definition query_raw_segments :: "str \<Rightarrow> str list" where
  "query_raw_segments q = (if trim q = [] then [] else split amp (trim q))"

definition query_is_normalized :: "str \<Rightarrow> bool" where
  "query_is_normalized q = list_all (\<lambda>s. s \<noteq> []) (query_raw_segments q)"

definition query_to_normalized :: "str \<Rightarrow> str" where
  "query_to_normalized q = push_segments amp 0 (filter (\<lambda>s. s \<noteq> []) (query_raw_segments q)) []"

definition query_segments :: "lossy_decoder \<Rightarrow> str \<Rightarrow> (str \<times> str) list" where
  "query_segments pd q =
     map (\<lambda>(k, v). (decode_query pd k, decode_query pd v))
       (map (split_at_byte (CHR ''='')) (filter (\<lambda>s. s \<noteq> []) (query_raw_segments q)))"

section \<open>The segment iterator\<close>

record 'a segments =
  segs :: "'a list"
  pos :: nat

definition segments_new :: "'a list \<Rightarrow> 'a segments" where
  "segments_new xs = \<lparr>segs = xs, pos = 0\<rparr>"

definition segments_num :: "'a segments \<Rightarrow> nat" where
  "segments_num s = (let max_pos = min (pos s) (length (segs s)) in length (segs s) - max_pos)"

definition segments_is_empty :: "'a segments \<Rightarrow> bool" where
  "segments_is_empty s = (segments_num s = 0)"

definition segments_skip :: "nat \<Rightarrow> 'a segments \<Rightarrow> 'a segments" where
  "segments_skip n s = s\<lparr>pos := min (pos s + n) (length (segs s))\<rparr>"

definition segments_get :: "nat \<Rightarrow> 'a segments \<Rightarrow> 'a option" where
  "segments_get n s = (if pos s + n < length (segs s) then Some (segs s ! (pos s + n)) else None)"

definition segments_next :: "'a segments \<Rightarrow> 'a option \<times> 'a segments" where
  "segments_next s =
     (case segments_get 0 s of None \<Rightarrow> (None, s) | Some item \<Rightarrow> (Some item, s\<lparr>pos := pos s + 1\<rparr>))"

text \<open>What the iterator still yields: \<open>next\<close> called until it returns \<open>None\<close>.\<close>

function segments_items :: "'a segments \<Rightarrow> 'a list" where
  "segments_items s =
     (case segments_next s of (None, _) \<Rightarrow> [] | (Some x, s') \<Rightarrow> x # segments_items s')"
  by pat_completeness auto
termination
  by (relation "measure (\<lambda>s. length (segs s) - pos s)")
     (auto simp: segments_next_def segments_get_def split: if_splits)

declare segments_items.simps [simp del]

definition prefix_of :: "str segments \<Rightarrow> str segments \<Rightarrow> bool" where
  "prefix_of self other =
     (if segments_num other < segments_num self then False
      else list_all (\<lambda>(a, b). a = [] \<or> a = b) (zip (segments_items self) (segments_items other)))"

text \<open>
  \<open>to_path_buf\<close>: a \<open>PathBuf\<close> is the list of its components; pushing a relative component appends it,
  pushing an empty one leaves the components alone, \<open>pop\<close> removes the last component if there is one.
  \<open>windows\<close> is \<open>cfg!(windows)\<close>.
\<close>

datatype path_error = BadStart byte | BadChar byte | BadEnd byte

definition pathbuf_push :: "str list \<Rightarrow> str \<Rightarrow> str list" where
  "pathbuf_push buf seg = (if seg = [] then buf else buf @ [seg])"

fun to_path_buf_loop ::
  "bool \<Rightarrow> bool \<Rightarrow> str list \<Rightarrow> str list \<Rightarrow> (str list, path_error) result" where
  "to_path_buf_loop windows allow_dotfiles [] buf = Ok buf"
| "to_path_buf_loop windows allow_dotfiles (segment # rest) buf =
     (if segment = ''.'' then to_path_buf_loop windows allow_dotfiles rest buf
      else if segment = ''..'' then to_path_buf_loop windows allow_dotfiles rest (butlast buf)
      else if \<not> allow_dotfiles \<and> starts_with segment ''.'' then Err (BadStart (CHR ''.''))
      else if starts_with segment ''*'' then Err (BadStart (CHR ''*''))
      else if ends_with segment '':'' then Err (BadEnd (CHR '':''))
      else if ends_with segment ''>'' then Err (BadEnd (CHR ''>''))
      else if ends_with segment ''<'' then Err (BadEnd (CHR ''<''))
      else if slash \<in> set segment then Err (BadChar slash)
      else if windows \<and> CHR 0x5C \<in> set segment then Err (BadChar (CHR 0x5C))
      else if windows \<and> CHR '':'' \<in> set segment then Err (BadChar (CHR '':''))
      else to_path_buf_loop windows allow_dotfiles rest (pathbuf_push buf segment))"

definition to_path_buf :: "bool \<Rightarrow> bool \<Rightarrow> str segments \<Rightarrow> (str list, path_error) result" where
  "to_path_buf windows allow_dotfiles s =
     to_path_buf_loop windows allow_dotfiles (segments_items s) []"

section \<open>Origins\<close>

record origin =
  o_path :: str
  o_query :: "str option"

definition origin_root :: origin where
  "origin_root = \<lparr>o_path = ''/'', o_query = None\<rparr>"

definition origin_new :: "str \<Rightarrow> str option \<Rightarrow> origin" where
  "origin_new path query = \<lparr>o_path = path, o_query = query\<rparr>"

text \<open>\<open>uri::Error\<close>: the expected token, the byte found and the index.\<close>

record uri_error =
  expected :: "byte option"
  found :: "byte option"
  index :: nat

definition parse_route :: "str \<Rightarrow> (origin, uri_error) result" where
  "parse_route s =
     (if \<not> starts_with s ''/'' then
        Err \<lparr>expected = Some slash, found = (case s of [] \<Rightarrow> None | b # _ \<Rightarrow> Some b), index = 0\<rparr>
      else (case split_once (CHR ''?'') s of
              Some (path, query) \<Rightarrow> Ok (origin_new path (Some query))
            | None \<Rightarrow> Ok (origin_new s None)))"

definition map_path :: "(str \<Rightarrow> str) \<Rightarrow> origin \<Rightarrow> origin option" where
  "map_path f self =
     (let path = f (o_path self)
      in if \<not> starts_with path ''/'' \<or> \<not> list_all is_pchar path then None
         else Some (self\<lparr>o_path := path\<rparr>))"

definition clear_query :: "origin \<Rightarrow> origin" where
  "clear_query self = self\<lparr>o_query := None\<rparr>"

definition is_normalized :: "origin \<Rightarrow> bool" where
  "is_normalized self =
     (path_is_normalized True (o_path self)
      \<and> (case o_query self of None \<Rightarrow> True | Some q \<Rightarrow> query_is_normalized q))"

definition normalize_with :: "bool \<Rightarrow> origin \<Rightarrow> origin" where
  "normalize_with allow_trail self =
     (let self = (if \<not> path_is_normalized True (o_path self)
                  then self\<lparr>o_path := path_to_normalized True allow_trail (o_path self)\<rparr> else self)
      in case o_query self of
           None \<Rightarrow> self
         | Some q \<Rightarrow> if \<not> query_is_normalized q then self\<lparr>o_query := Some (query_to_normalized q)\<rparr>
                    else self)"

definition into_normalized :: "origin \<Rightarrow> origin" where
  "into_normalized self = normalize_with True self"

definition has_trailing_slash :: "origin \<Rightarrow> bool" where
  "has_trailing_slash self = (1 < length (o_path self) \<and> ends_with (o_path self) ''/'')"

definition is_normalized_nontrailing :: "origin \<Rightarrow> bool" where
  "is_normalized_nontrailing self = (is_normalized self \<and> \<not> has_trailing_slash self)"

definition into_normalized_nontrailing :: "origin \<Rightarrow> origin" where
  "into_normalized_nontrailing self =
     (if \<not> is_normalized_nontrailing self then
        if is_normalized self \<and> has_trailing_slash self
        then self\<lparr>o_path := butlast (o_path self)\<rparr>
        else normalize_with False self
      else self)"

definition origin_display :: "origin \<Rightarrow> str" where
  "origin_display self = o_path self @ (case o_query self of None \<Rightarrow> [] | Some q \<Rightarrow> ''?'' @ q)"

section \<open>Lemmas: the segment iterator\<close>

lemma segments_items_drop: "segments_items s = drop (pos s) (segs s)"
proof (induction s rule: segments_items.induct)
  case (1 s)
  show ?case
  proof (cases "pos s < length (segs s)")
    case True
    then have nx: "segments_next s = (Some (segs s ! pos s), s\<lparr>pos := pos s + 1\<rparr>)"
      by (simp add: segments_next_def segments_get_def)
    then have "segments_items s = segs s ! pos s # segments_items (s\<lparr>pos := pos s + 1\<rparr>)"
      by (subst segments_items.simps) simp
    also have "\<dots> = segs s ! pos s # drop (pos s + 1) (segs s)"
      using 1 [OF nx [symmetric]] by simp
    also have "\<dots> = drop (pos s) (segs s)" using True by (simp add: Cons_nth_drop_Suc)
    finally show ?thesis .
  next
    case False
    then have "segments_next s = (None, s)" by (simp add: segments_next_def segments_get_def)
    then have "segments_items s = []" by (subst segments_items.simps) simp
    with False show ?thesis by simp
  qed
qed

lemma segments_new_items [simp]: "segments_items (segments_new xs) = xs"
  by (simp add: segments_items_drop segments_new_def)

lemma segments_num_items: "segments_num s = length (segments_items s)"
  by (simp add: segments_num_def segments_items_drop Let_def min_def)

lemma segments_skip_items: "segments_items (segments_skip n s) = drop n (segments_items s)"
  by (simp add: segments_skip_def segments_items_drop min_def add.commute)

lemma segments_get_items:
  "segments_get n s = (if n < length (segments_items s) then Some (segments_items s ! n) else None)"
  by (auto simp: segments_get_def segments_items_drop)

lemma prefix_of_new:
  "prefix_of (segments_new xs) (segments_new ys) \<longleftrightarrow>
     length xs \<le> length ys \<and> list_all2 (\<lambda>a b. a = [] \<or> a = b) xs (take (length xs) ys)"
  by (auto simp: prefix_of_def segments_num_items list_all2_conv_all_nth list_all_length)

section \<open>Lemmas: raw segments and normalization\<close>

lemma push_segments_Suc: "push_segments c (Suc i) xs p = p @ concat (map (\<lambda>x. c # x) xs)"
  by (induction xs arbitrary: i p) (auto simp: Let_def)

lemma join_append_hd: "join c ((p @ a) # xs) = p @ join c (a # xs)"
  by (cases xs) auto

lemma concat_join: "x @ concat (map (\<lambda>x. c # x) xs) = join c (x # xs)"
  by (induction xs arbitrary: x) (simp_all add: join_append_hd [of c "[c]", simplified])

lemma push_segments_join: "push_segments c 0 xs p = p @ join c xs"
  by (cases xs) (simp_all add: Let_def push_segments_Suc concat_join [symmetric])

lemma starts_with_slash: "starts_with p ''/'' \<longleftrightarrow> p \<noteq> [] \<and> hd p = slash"
  by (cases p) (auto simp: starts_with_def)

lemma ends_with_singleton: "ends_with p [c] \<longleftrightarrow> p \<noteq> [] \<and> last p = c"
  by (cases p rule: rev_cases) (auto simp: ends_with_def)

lemma raw_segments_slash: "path_raw_segments (slash # t) = split slash (trim_end t)"
  by (simp add: path_raw_segments_def trim_slash)

lemma raw_segments_nonempty [simp]: "path_raw_segments p \<noteq> []"
  by (simp add: path_raw_segments_def Let_def)

lemma raw_segments_pieces: "x \<in> set (path_raw_segments p) \<Longrightarrow> slash \<notin> set x"
  by (auto simp: path_raw_segments_def Let_def dest: split_pieces split: option.splits)

lemma trim_end_join:
  "xs \<noteq> [] \<Longrightarrow> trim_end (join slash xs) = join slash (butlast xs @ [trim_end (last xs)])"
proof (induction slash xs rule: join.induct)
  case (3 x y ys)
  then show ?case by (simp add: trim_end_slash join_Cons)
qed auto

text \<open>The trimmed text of a path, without its leading slash, is the join of the raw segments.\<close>

lemma raw_segments_last_trimmed: "trim_end (last (path_raw_segments p)) = last (path_raw_segments p)"
proof -
  let ?t = "case strip_prefix slash (trim p) of Some r \<Rightarrow> r | None \<Rightarrow> trim p"
  have fix_raw: "trim_end (trim p) = trim p" by (simp add: trim_def)
  have "trim_end ?t = ?t"
  proof (cases "trim p")
    case (Cons c r)
    show ?thesis
    proof (cases "c = slash")
      case True
      then show ?thesis using Cons fix_raw trim_end_slash [of "[]" r] by simp
    next
      case False
      then show ?thesis using Cons fix_raw by simp
    qed
  qed simp
  moreover have "join slash (path_raw_segments p) = ?t" by (simp add: path_raw_segments_def Let_def)
  ultimately have "join slash (butlast (path_raw_segments p) @ [trim_end (last (path_raw_segments p))])
      = join slash (path_raw_segments p)"
    using trim_end_join [of "path_raw_segments p"] by simp
  moreover have "slash \<notin> set (trim_end (last (path_raw_segments p)))"
    using raw_segments_pieces set_trim_end by (meson last_in_set raw_segments_nonempty subsetD)
  ultimately have "butlast (path_raw_segments p) @ [trim_end (last (path_raw_segments p))]
      = path_raw_segments p"
    using split_join [of "path_raw_segments p" slash]
      split_join [of "butlast (path_raw_segments p) @ [trim_end (last (path_raw_segments p))]" slash]
    by (metis Un_iff append_is_Nil_conv empty_iff empty_set in_set_butlastD list.distinct(1)
        raw_segments_nonempty raw_segments_pieces set_ConsD set_append)
  then show ?thesis by (metis last_snoc)
qed

lemma raw_segments_last_Nil:
  "last (path_raw_segments p) = [] \<longleftrightarrow> trim p = [] \<or> last (trim p) = slash"
  by (cases "trim p") (auto simp: path_raw_segments_def last_split_eq_Nil)

lemma raw_segments_join:
  assumes "xs \<noteq> []" and "\<And>x. x \<in> set xs \<Longrightarrow> slash \<notin> set x"
  shows "path_raw_segments (slash # join slash xs) = butlast xs @ [trim_end (last xs)]"
proof -
  have "slash \<notin> set x" if "x \<in> set (butlast xs @ [trim_end (last xs)])" for x
    using that assms set_trim_end by (auto dest: in_set_butlastD) (meson assms last_in_set subsetD)
  then have "split slash (join slash (butlast xs @ [trim_end (last xs)]))
      = butlast xs @ [trim_end (last xs)]"
    by (intro split_join) auto
  then show ?thesis using assms by (simp add: raw_segments_slash trim_end_join)
qed

lemma raw_segments_join_slash:
  assumes "xs \<noteq> []" and "\<And>x. x \<in> set xs \<Longrightarrow> slash \<notin> set x"
  shows "path_raw_segments (slash # join slash xs @ ''/'') = xs @ [[]]"
  using assms split_join [of xs slash] split_append_last [of slash "join slash xs" "[]"]
  by (simp add: raw_segments_slash trim_end_slash)

lemma last_join: "xs \<noteq> [] \<Longrightarrow> last xs \<noteq> [] \<Longrightarrow> join c xs \<noteq> [] \<and> last (join c xs) = last (last xs)"
proof (induction c xs rule: join.induct)
  case (3 c x y ys)
  then show ?case by (auto split: if_splits)
qed auto

lemma nonempty_last: "filter (\<lambda>s. s \<noteq> []) ps \<noteq> [] \<Longrightarrow> last (filter (\<lambda>s. s \<noteq> []) ps) \<noteq> []"
  using last_in_set [of "filter (\<lambda>s. s \<noteq> []) ps"] by auto

text \<open>The normalized path, written out over its nonempty segments.\<close>

lemma path_to_normalized_eq:
  "path_to_normalized True trail p =
     (let xs = filter (\<lambda>s. s \<noteq> []) (path_raw_segments p)
      in slash # join slash xs
         @ (if trail \<and> xs \<noteq> [] \<and> last (path_raw_segments p) = [] then ''/'' else []))"
proof -
  let ?xs = "filter (\<lambda>s. s \<noteq> []) (path_raw_segments p)"
  have ends: "ends_with (slash # join slash ?xs) ''/'' \<longleftrightarrow> ?xs = []"
  proof (cases "?xs = []")
    case False
    then have "join slash ?xs \<noteq> [] \<and> last (join slash ?xs) = last (last ?xs)"
      by (intro last_join nonempty_last)
    moreover have "last (last ?xs) \<noteq> slash"
    proof -
      have "last ?xs \<in> set ?xs" using False by (rule last_in_set)
      then have "slash \<notin> set (last ?xs)" using raw_segments_pieces [of "last ?xs" p] by auto
      moreover have "last (last ?xs) \<in> set (last ?xs)"
        using nonempty_last [OF False] by (rule last_in_set)
      ultimately show ?thesis by auto
    qed
    ultimately show ?thesis using False by (simp add: ends_with_singleton)
  qed (simp add: ends_with_singleton)
  have raw: "1 < length (trim p) \<and> ends_with (trim p) ''/'' \<longleftrightarrow> last (path_raw_segments p) = []"
    if ne: "?xs \<noteq> []"
  proof -
    have "trim p \<noteq> []" "trim p \<noteq> ''/''" using ne by (auto simp: path_raw_segments_def)
    then have "last (trim p) = slash \<Longrightarrow> 1 < length (trim p)"
      by (cases "trim p"; cases "tl (trim p)") auto
    with \<open>trim p \<noteq> []\<close> show ?thesis by (auto simp: raw_segments_last_Nil ends_with_singleton)
  qed
  show ?thesis
    using ends raw unfolding path_to_normalized_def push_segments_join Let_def
    by (cases "?xs = []") simp_all
qed

lemma path_segments_loop_eq:
  "ps \<noteq> [] \<Longrightarrow> path_segments_loop pd ps =
     map (decode_path pd) (filter (\<lambda>s. s \<noteq> []) (butlast ps) @ [last ps])"
  by (induction pd ps rule: path_segments_loop.induct) auto

lemma path_segments_eq:
  "path_segments pd p =
     map (decode_path pd)
       (filter (\<lambda>s. s \<noteq> []) (butlast (path_raw_segments p)) @ [last (path_raw_segments p)])"
  by (simp add: path_segments_def path_segments_loop_eq)

lemma path_is_normalized_iff:
  "path_is_normalized absolute p \<longleftrightarrow>
     (absolute \<longrightarrow> p \<noteq> [] \<and> hd p = slash) \<and> [] \<notin> set (butlast (path_raw_segments p))"
  by (auto simp: path_is_normalized_def starts_with_slash butlast_conv_take drop_rev list_all_iff)

lemma path_to_normalized_raw_segments:
  "path_raw_segments (path_to_normalized True trail p) =
    (let xs = filter (\<lambda>s. s \<noteq> []) (path_raw_segments p)
     in if xs = [] then [[]]
        else if trail \<and> last (path_raw_segments p) = [] then xs @ [[]]
        else butlast xs @ [trim_end (last xs)])"
proof -
  let ?xs = "filter (\<lambda>s. s \<noteq> []) (path_raw_segments p)"
  have no: "\<And>x. x \<in> set ?xs \<Longrightarrow> slash \<notin> set x" by (auto simp: raw_segments_pieces)
  consider "?xs = []" | "?xs \<noteq> []" "trail \<and> last (path_raw_segments p) = []"
    | "?xs \<noteq> []" "\<not> (trail \<and> last (path_raw_segments p) = [])" by blast
  then show ?thesis
  proof cases
    case 1
    then show ?thesis by (simp only: path_to_normalized_eq Let_def) (simp add: raw_segments_slash)
  next
    case 2
    then show ?thesis
      using raw_segments_join_slash [OF 2(1) no] by (simp add: path_to_normalized_eq Let_def)
  next
    case 3
    then have "path_to_normalized True trail p = slash # join slash ?xs"
      unfolding path_to_normalized_eq Let_def by auto
    then show ?thesis using raw_segments_join [OF 3(1) no] 3 by (auto simp: Let_def)
  qed
qed

lemma butlast_filter_nonempty:
  "last ps \<noteq> [] \<Longrightarrow> ps \<noteq> [] \<Longrightarrow> filter (\<lambda>s. s \<noteq> []) ps = filter (\<lambda>s. s \<noteq> []) (butlast ps) @ [last ps]"
  by (cases ps rule: rev_cases) auto

lemma to_normalized_is_normalized: "path_is_normalized True (path_to_normalized True trail p)"
proof -
  let ?xs = "filter (\<lambda>s. s \<noteq> []) (path_raw_segments p)"
  have hd: "path_to_normalized True trail p \<noteq> [] \<and> hd (path_to_normalized True trail p) = slash"
    by (simp add: path_to_normalized_eq Let_def)
  have "[] \<notin> set (butlast (path_raw_segments (path_to_normalized True trail p)))"
    by (auto simp: path_to_normalized_raw_segments Let_def dest: in_set_butlastD)
  with hd show ?thesis by (simp add: path_is_normalized_iff)
qed

lemma to_normalized_segments:
  "path_segments pd (path_to_normalized True True p) = path_segments pd p"
proof -
  let ?ps = "path_raw_segments p" and ?xs = "filter (\<lambda>s. s \<noteq> []) (path_raw_segments p)"
  consider "?xs = []" | "?xs \<noteq> []" "last ?ps = []" | "?xs \<noteq> []" "last ?ps \<noteq> []" by blast
  then show ?thesis
  proof cases
    case 1
    then have all: "\<forall>x \<in> set ?ps. x = []" by (simp add: filter_empty_conv)
    then have "last ?ps = []" by simp
    moreover have "filter (\<lambda>s. s \<noteq> []) (butlast ?ps) = []"
      using all by (auto simp: filter_empty_conv dest: in_set_butlastD)
    ultimately show ?thesis
      using 1 by (simp add: path_segments_eq path_to_normalized_raw_segments Let_def)
  next
    case 2
    then have "?xs = filter (\<lambda>s. s \<noteq> []) (butlast ?ps)"
      by (cases ?ps rule: rev_cases) auto
    with 2 show ?thesis by (simp add: path_segments_eq path_to_normalized_raw_segments Let_def)
  next
    case 3
    then have "?xs = filter (\<lambda>s. s \<noteq> []) (butlast ?ps) @ [last ?ps]"
      by (simp add: butlast_filter_nonempty)
    with 3 show ?thesis
      by (simp add: path_segments_eq path_to_normalized_raw_segments Let_def raw_segments_last_trimmed)
  qed
qed

section \<open>Lemmas: queries\<close>

lemma trim_printable: "\<forall>c \<in> set q. printable c \<Longrightarrow> trim q = q"
  by (rule trim_printable_ends) auto

lemma query_raw_segments_printable:
  "\<forall>c \<in> set q. printable c \<Longrightarrow> query_raw_segments q = (if q = [] then [] else split amp q)"
  by (simp add: query_raw_segments_def trim_printable)

lemma set_join: "set (join c xs) \<subseteq> insert c (\<Union> (set ` set xs))"
  by (induction c xs rule: join.induct) auto

lemma query_raw_segments_pieces: "x \<in> set (query_raw_segments q) \<Longrightarrow> amp \<notin> set x \<and> set x \<subseteq> set q"
  using set_trim [of q]
  by (auto simp: query_raw_segments_def dest: split_pieces split_subset split: if_splits)

text \<open>
  Every query an \<open>Origin\<close> parser accepts is made of \<open>is_qchar\<close> bytes, which are printable; only a
  route URI written in source code can contain the whitespace that \<open>trim\<close> removes.
\<close>

lemma printable_amp: "printable amp"
  by (simp add: printable_def)

lemma query_to_normalized_join:
  "query_to_normalized q = join amp (filter (\<lambda>s. s \<noteq> []) (query_raw_segments q))"
  by (simp add: query_to_normalized_def push_segments_join)

lemma query_to_normalized_printable:
  assumes "\<forall>c \<in> set q. printable c"
  shows "\<forall>c \<in> set (query_to_normalized q). printable c"
proof -
  let ?xs = "filter (\<lambda>s. s \<noteq> []) (query_raw_segments q)"
  have "(\<Union> (set ` set ?xs)) \<subseteq> set q"
    by (rule UN_least) (simp add: query_raw_segments_pieces)
  then have "set (join amp ?xs) \<subseteq> insert amp (set q)"
    using set_join [of amp ?xs] by (meson insert_mono order_trans)
  moreover have "\<forall>c \<in> insert amp (set q). printable c" using assms printable_amp by simp
  ultimately show ?thesis unfolding query_to_normalized_join by blast
qed

lemma query_to_normalized_segments:
  assumes "\<forall>c \<in> set q. printable c"
  shows "query_raw_segments (query_to_normalized q) = filter (\<lambda>s. s \<noteq> []) (query_raw_segments q)"
proof -
  let ?xs = "filter (\<lambda>s. s \<noteq> []) (query_raw_segments q)"
  note pr = query_to_normalized_printable [OF assms, unfolded query_to_normalized_join]
  show ?thesis
  proof (cases "?xs = []")
    case True
    then show ?thesis by (simp add: query_to_normalized_join query_raw_segments_def)
  next
    case False
    then have "join amp ?xs \<noteq> []"
      using last_join [OF False nonempty_last [OF False]] by simp
    moreover have "split amp (join amp ?xs) = ?xs"
      using False by (rule split_join) (auto dest: query_raw_segments_pieces)
    ultimately show ?thesis
      unfolding query_to_normalized_join query_raw_segments_printable [OF pr] by (simp only: if_False)
  qed
qed

lemma query_to_normalized_is_normalized:
  "\<forall>c \<in> set q. printable c \<Longrightarrow> query_is_normalized (query_to_normalized q)"
  by (simp add: query_is_normalized_def query_to_normalized_segments list_all_iff)

lemma query_to_normalized_pairs:
  "\<forall>c \<in> set q. printable c \<Longrightarrow> query_segments pd (query_to_normalized q) = query_segments pd q"
  by (simp add: query_segments_def query_to_normalized_segments)

section \<open>Lemmas: trailing slashes\<close>

lemma butlast_trailing_normalized:
  assumes "path_is_normalized True p" and "1 < length p" and "ends_with p ''/''"
  shows "path_is_normalized True (butlast p) \<and> \<not> (1 < length (butlast p) \<and> ends_with (butlast p) ''/'')"
proof -
  from assms obtain t where p: "p = slash # t @ ''/''"
    by (cases p rule: rev_cases)
       (auto simp: path_is_normalized_def starts_with_slash ends_with_singleton hd_append neq_Nil_conv
         split: if_splits)
  have segs: "path_raw_segments p = split slash t @ [[]]"
    using split_append_last [of slash t "[]"] by (simp add: p raw_segments_slash trim_end_slash)
  then have ne: "[] \<notin> set (split slash t)" using assms(1) by (simp add: path_is_normalized_iff)
  have t: "trim_end t = join slash (butlast (split slash t) @ [trim_end (last (split slash t))])"
    using trim_end_join [of "split slash t"] by simp
  have "path_raw_segments (butlast p) = butlast (split slash t) @ [trim_end (last (split slash t))]"
    using raw_segments_join [of "split slash t", OF split_nonempty split_pieces]
    by (simp add: p butlast_append)
  then have "path_is_normalized True (butlast p)"
    using ne by (auto simp: path_is_normalized_iff p butlast_append dest: in_set_butlastD)
  moreover have "t \<noteq> [] \<and> last t \<noteq> slash"
    using ne last_split_eq_Nil [of slash t] by (metis last_in_set split_nonempty)
  ultimately show ?thesis by (auto simp: p butlast_append ends_with_singleton)
qed

lemma to_normalized_nontrailing:
  "\<not> (1 < length (path_to_normalized True False p) \<and> ends_with (path_to_normalized True False p) ''/'')"
proof -
  let ?xs = "filter (\<lambda>s. s \<noteq> []) (path_raw_segments p)"
  have eq: "path_to_normalized True False p = slash # join slash ?xs"
    by (simp add: path_to_normalized_eq Let_def)
  show ?thesis
  proof (cases "?xs = []")
    case False
    have "last ?xs \<in> set ?xs" using False by (rule last_in_set)
    have "last ?xs \<noteq> []" using False by (rule nonempty_last)
    from \<open>last ?xs \<in> set ?xs\<close> have "slash \<notin> set (last ?xs)" using raw_segments_pieces [of "last ?xs" p] by auto
    then have "last (last ?xs) \<noteq> slash" using \<open>last ?xs \<noteq> []\<close> last_in_set by metis
    moreover have "join slash ?xs \<noteq> [] \<and> last (join slash ?xs) = last (last ?xs)"
      using False \<open>last ?xs \<noteq> []\<close> by (rule last_join)
    ultimately show ?thesis using eq by (simp add: ends_with_singleton)
  qed (simp add: eq)
qed

section \<open>Lemmas: file system paths\<close>

definition safe_component :: "bool \<Rightarrow> bool \<Rightarrow> str \<Rightarrow> bool" where
  "safe_component windows allow_dotfiles c =
     (c \<noteq> [] \<and> c \<noteq> ''.'' \<and> c \<noteq> ''..'' \<and> slash \<notin> set c
      \<and> (\<not> allow_dotfiles \<longrightarrow> hd c \<noteq> CHR ''.'') \<and> hd c \<noteq> CHR ''*''
      \<and> last c \<noteq> CHR '':'' \<and> last c \<noteq> CHR ''>'' \<and> last c \<noteq> CHR ''<''
      \<and> (windows \<longrightarrow> CHR 0x5C \<notin> set c \<and> CHR '':'' \<notin> set c))"

lemma starts_with_singleton: "starts_with s [c] \<longleftrightarrow> s \<noteq> [] \<and> hd s = c"
  by (cases s) (auto simp: starts_with_def)

lemma to_path_buf_loop_safe:
  "to_path_buf_loop w d xs buf = Ok out \<Longrightarrow> list_all (safe_component w d) buf \<Longrightarrow>
   list_all (safe_component w d) out"
proof (induction w d xs buf rule: to_path_buf_loop.induct)
  case (2 w d x xs buf)
  from 2(5) have "list_all (safe_component w d) (butlast buf)"
    by (auto simp: list_all_iff dest: in_set_butlastD)
  with 2 show ?case
    by (auto simp: pathbuf_push_def safe_component_def [of _ _ x] starts_with_singleton
        ends_with_singleton split: if_splits)
qed simp

section \<open>Properties\<close>

text \<open>The rules that evaluate the normalization of a concrete URI.\<close>

lemmas uri_eval = is_normalized_def path_is_normalized_def path_raw_segments_def path_to_normalized_def
  query_is_normalized_def query_raw_segments_def query_to_normalized_def has_trailing_slash_def
  trim_printable_ends printable_def starts_with_def ends_with_singleton Let_def

definition printable_query :: "origin \<Rightarrow> bool" where
  "printable_query self = (case o_query self of None \<Rightarrow> True | Some q \<Rightarrow> list_all printable q)"

lemma normalize_path:
  "o_path (normalize_with trail u) =
     (if path_is_normalized True (o_path u) then o_path u else path_to_normalized True trail (o_path u))"
  by (simp add: normalize_with_def Let_def split: option.splits)

lemma normalize_query:
  "o_query (normalize_with trail u) =
     map_option (\<lambda>q. if query_is_normalized q then q else query_to_normalized q) (o_query u)"
  by (simp add: normalize_with_def Let_def split: option.splits)

lemma normalize_is_normalized: "printable_query u \<Longrightarrow> is_normalized (normalize_with trail u)"
  by (cases "o_query u")
     (simp_all add: is_normalized_def normalize_path normalize_query to_normalized_is_normalized
        query_to_normalized_is_normalized printable_query_def list_all_iff)

lemma normalize_printable: "printable_query u \<Longrightarrow> printable_query (normalize_with trail u)"
  using query_to_normalized_printable
  by (cases "o_query u") (simp_all add: printable_query_def normalize_query list_all_iff)

text \<open>
  C19. \<open>Origin::into_normalized\<close> (\<open>origin.rs\<close>) makes the URI normalized, is the identity on a URI that
  already is (so it is idempotent), and changes neither the decoded path segments nor the decoded
  query pairs that routing and the segment iterators see, for every percent decoder \<open>pd\<close>.
\<close>

theorem into_normalized_correct:
  assumes "printable_query u"
  shows "is_normalized (into_normalized u)
    \<and> into_normalized (into_normalized u) = into_normalized u
    \<and> path_segments pd (o_path (into_normalized u)) = path_segments pd (o_path u)
    \<and> map_option (query_segments pdu) (o_query (into_normalized u)) =
        map_option (query_segments pdu) (o_query u)"
proof -
  have n: "is_normalized (into_normalized u)"
    unfolding into_normalized_def using assms by (rule normalize_is_normalized)
  have "normalize_with True v = v" if "is_normalized v" for v
    using that by (simp add: normalize_with_def is_normalized_def split: option.splits)
  with n have "into_normalized (into_normalized u) = into_normalized u"
    by (simp add: into_normalized_def)
  moreover have "path_segments pd (o_path (into_normalized u)) = path_segments pd (o_path u)"
    by (simp add: into_normalized_def normalize_path to_normalized_segments)
  moreover have "map_option (query_segments pdu) (o_query (into_normalized u)) =
      map_option (query_segments pdu) (o_query u)"
    using assms by (cases "o_query u")
      (simp_all add: into_normalized_def normalize_query query_to_normalized_pairs printable_query_def
        list_all_iff)
  ultimately show ?thesis using n by blast
qed

theorem into_normalized_correct_witness:
  "is_normalized (into_normalized \<lparr>o_path = ''//a//b/'', o_query = Some ''x=1&&y''\<rparr>)
   \<and> into_normalized \<lparr>o_path = ''//a//b/'', o_query = Some ''x=1&&y''\<rparr> =
       \<lparr>o_path = ''/a/b/'', o_query = Some ''x=1&y''\<rparr>"
proof
  have "printable_query \<lparr>o_path = ''//a//b/'', o_query = Some ''x=1&&y''\<rparr>" by code_simp
  from into_normalized_correct [OF this]
  show "is_normalized (into_normalized \<lparr>o_path = ''//a//b/'', o_query = Some ''x=1&&y''\<rparr>)" by blast
  show "into_normalized \<lparr>o_path = ''//a//b/'', o_query = Some ''x=1&&y''\<rparr> =
       \<lparr>o_path = ''/a/b/'', o_query = Some ''x=1&y''\<rparr>"
    by (simp add: into_normalized_def normalize_with_def uri_eval)
qed

lemma normalized_nontrailing_bad:
  assumes "path_is_normalized True (o_path u)" and "has_trailing_slash u" and "\<not> is_normalized u"
  shows "has_trailing_slash (into_normalized_nontrailing u)"
  using assms
  by (simp add: into_normalized_nontrailing_def is_normalized_nontrailing_def has_trailing_slash_def
      normalize_path)

lemma normalized_nontrailing_good:
  assumes "printable_query u"
    and "\<not> (path_is_normalized True (o_path u) \<and> has_trailing_slash u \<and> \<not> is_normalized u)"
  shows "is_normalized_nontrailing (into_normalized_nontrailing u)"
proof -
  consider "is_normalized_nontrailing u" | "is_normalized u" "has_trailing_slash u"
    | "\<not> is_normalized u" by (auto simp: is_normalized_nontrailing_def)
  then show ?thesis
  proof cases
    case 1
    then show ?thesis by (simp add: into_normalized_nontrailing_def)
  next
    case 2
    then have "into_normalized_nontrailing u = u\<lparr>o_path := butlast (o_path u)\<rparr>"
      by (simp add: into_normalized_nontrailing_def is_normalized_nontrailing_def)
    with 2 show ?thesis
      using butlast_trailing_normalized [of "o_path u"]
      by (simp add: is_normalized_nontrailing_def is_normalized_def has_trailing_slash_def)
  next
    case 3
    then have eq: "into_normalized_nontrailing u = normalize_with False u"
      by (simp add: into_normalized_nontrailing_def is_normalized_nontrailing_def)
    have "\<not> has_trailing_slash (normalize_with False u)"
      using assms(2) 3 to_normalized_nontrailing [of "o_path u"]
      by (simp add: has_trailing_slash_def normalize_path)
    then show ?thesis
      using eq normalize_is_normalized [OF assms(1)] by (simp add: is_normalized_nontrailing_def)
  qed
qed

text \<open>
  \<open>Origin::into_normalized_nontrailing\<close> (\<open>origin.rs\<close>) returns a URI that is normalized and has no
  trailing slash in every case but one: when the path already is normalized and ends in a slash while
  the query is not normalized, the slash stays.  The method's documentation promises the result
  without that exception.
\<close>

theorem into_normalized_nontrailing_iff:
  assumes "printable_query u"
  shows "is_normalized_nontrailing (into_normalized_nontrailing u) \<longleftrightarrow>
    \<not> (path_is_normalized True (o_path u) \<and> has_trailing_slash u \<and> \<not> is_normalized u)"
  using assms normalized_nontrailing_bad normalized_nontrailing_good
  by (auto simp: is_normalized_nontrailing_def)

theorem into_normalized_nontrailing_iff_witness:
  "is_normalized_nontrailing (into_normalized_nontrailing \<lparr>o_path = ''//a/'', o_query = Some ''x&&y''\<rparr>)
   \<and> \<not> is_normalized_nontrailing (into_normalized_nontrailing \<lparr>o_path = ''/a/'', o_query = Some ''x&&y''\<rparr>)"
proof
  have p: "printable_query \<lparr>o_path = ''//a/'', o_query = Some ''x&&y''\<rparr>" by (simp add: uri_eval printable_query_def)
  have "\<not> path_is_normalized True ''//a/''" by (simp add: uri_eval printable_query_def)
  then show "is_normalized_nontrailing (into_normalized_nontrailing \<lparr>o_path = ''//a/'', o_query = Some ''x&&y''\<rparr>)"
    using into_normalized_nontrailing_iff [OF p] by simp
  have q: "printable_query \<lparr>o_path = ''/a/'', o_query = Some ''x&&y''\<rparr>" by (simp add: uri_eval printable_query_def)
  have "path_is_normalized True ''/a/''" by (simp add: uri_eval printable_query_def)
  moreover have "has_trailing_slash \<lparr>o_path = ''/a/'', o_query = Some ''x&&y''\<rparr>" by (simp add: uri_eval printable_query_def)
  moreover have "\<not> is_normalized \<lparr>o_path = ''/a/'', o_query = Some ''x&&y''\<rparr>" by (simp add: uri_eval printable_query_def)
  ultimately show "\<not> is_normalized_nontrailing (into_normalized_nontrailing \<lparr>o_path = ''/a/'', o_query = Some ''x&&y''\<rparr>)"
    using into_normalized_nontrailing_iff [OF q] by simp
qed

text \<open>
  C20. \<open>Segments<Path>::to_path_buf\<close> (\<open>segments.rs\<close>) never yields a path that leaves the directory it
  is joined to: every component is nonempty, is neither \<open>.\<close> nor \<open>..\<close>, has no slash, no leading \<open>*\<close>,
  none of the three endings it refuses, no leading dot unless dotfiles are allowed, and on Windows
  neither a backslash nor a colon.
\<close>

theorem to_path_buf_safe:
  assumes "to_path_buf windows allow_dotfiles s = Ok out"
  shows "list_all (safe_component windows allow_dotfiles) out"
  using assms unfolding to_path_buf_def by (rule to_path_buf_loop_safe) simp

theorem to_path_buf_safe_witness:
  "to_path_buf False False (segments_new [''a'', ''..'', ''..'', ''b'', ''c.txt'']) = Ok [''b'', ''c.txt'']
   \<and> list_all (safe_component False False) [''b'', ''c.txt'']"
proof -
  have "to_path_buf False False (segments_new [''a'', ''..'', ''..'', ''b'', ''c.txt'']) = Ok [''b'', ''c.txt'']"
    by (simp add: to_path_buf_def pathbuf_push_def starts_with_def ends_with_def suffix_def)
  then show ?thesis using to_path_buf_safe by blast
qed

end
