(* ===== verification/Method.thy ===== *)
theory Method
  imports Prelude
begin

text \<open>
  HTTP methods (\<open>core/http/src/method.rs\<close>).  The rows of the \<open>define_methods!\<close> table are the
  constructors of \<open>Method\<close>; each function the macro expands to is a function with one equation per
  row, and \<open>TryFrom<&[u8]>\<close> tries the rows in order against the upper-case and the lower-case name.
\<close>

section \<open>Model\<close>

datatype Method =
    Get | Head | Post | Put | Delete | Connect | Options | Trace | Patch | Acl |
    BaselineControl | Bind | CheckIn | CheckOut | Copy | Label | Link | Lock | Merge |
    MkActivity | MkCalendar | MkCol | MkRedirectRef | MkWorkspace | Move | OrderPatch |
    PropFind | PropPatch | Rebind | Report | Search | Unbind | Uncheckout | Unlink | Unlock |
    Update | UpdateRedirectRef | VersionControl

definition ALL_VARIANTS :: "Method list" where
  "ALL_VARIANTS = [
    Get, Head, Post, Put, Delete, Connect, Options, Trace, Patch, Acl, BaselineControl, Bind,
    CheckIn, CheckOut, Copy, Label, Link, Lock, Merge, MkActivity, MkCalendar, MkCol,
    MkRedirectRef, MkWorkspace, Move, OrderPatch, PropFind, PropPatch, Rebind, Report, Search,
    Unbind, Uncheckout, Unlink, Unlock, Update, UpdateRedirectRef, VersionControl]"

primrec as_str :: "Method \<Rightarrow> str" where
  "as_str Get = ''GET''"
| "as_str Head = ''HEAD''"
| "as_str Post = ''POST''"
| "as_str Put = ''PUT''"
| "as_str Delete = ''DELETE''"
| "as_str Connect = ''CONNECT''"
| "as_str Options = ''OPTIONS''"
| "as_str Trace = ''TRACE''"
| "as_str Patch = ''PATCH''"
| "as_str Acl = ''ACL''"
| "as_str BaselineControl = ''BASELINE-CONTROL''"
| "as_str Bind = ''BIND''"
| "as_str CheckIn = ''CHECKIN''"
| "as_str CheckOut = ''CHECKOUT''"
| "as_str Copy = ''COPY''"
| "as_str Label = ''LABEL''"
| "as_str Link = ''LINK''"
| "as_str Lock = ''LOCK''"
| "as_str Merge = ''MERGE''"
| "as_str MkActivity = ''MKACTIVITY''"
| "as_str MkCalendar = ''MKCALENDAR''"
| "as_str MkCol = ''MKCOL''"
| "as_str MkRedirectRef = ''MKREDIRECTREF''"
| "as_str MkWorkspace = ''MKWORKSPACE''"
| "as_str Move = ''MOVE''"
| "as_str OrderPatch = ''ORDERPATCH''"
| "as_str PropFind = ''PROPFIND''"
| "as_str PropPatch = ''PROPPATCH''"
| "as_str Rebind = ''REBIND''"
| "as_str Report = ''REPORT''"
| "as_str Search = ''SEARCH''"
| "as_str Unbind = ''UNBIND''"
| "as_str Uncheckout = ''UNCHECKOUT''"
| "as_str Unlink = ''UNLINK''"
| "as_str Unlock = ''UNLOCK''"
| "as_str Update = ''UPDATE''"
| "as_str UpdateRedirectRef = ''UPDATEREDIRECTREF''"
| "as_str VersionControl = ''VERSION-CONTROL''"

definition ALL_NAMES :: "str list" where
  "ALL_NAMES = map as_str ALL_VARIANTS"

primrec is_safe :: "Method \<Rightarrow> bool" where
  "is_safe Get = True"
| "is_safe Head = True"
| "is_safe Post = False"
| "is_safe Put = False"
| "is_safe Delete = False"
| "is_safe Connect = False"
| "is_safe Options = True"
| "is_safe Trace = True"
| "is_safe Patch = False"
| "is_safe Acl = False"
| "is_safe BaselineControl = False"
| "is_safe Bind = False"
| "is_safe CheckIn = False"
| "is_safe CheckOut = False"
| "is_safe Copy = False"
| "is_safe Label = False"
| "is_safe Link = False"
| "is_safe Lock = False"
| "is_safe Merge = False"
| "is_safe MkActivity = False"
| "is_safe MkCalendar = False"
| "is_safe MkCol = False"
| "is_safe MkRedirectRef = False"
| "is_safe MkWorkspace = False"
| "is_safe Move = False"
| "is_safe OrderPatch = False"
| "is_safe PropFind = True"
| "is_safe PropPatch = False"
| "is_safe Rebind = False"
| "is_safe Report = True"
| "is_safe Search = True"
| "is_safe Unbind = False"
| "is_safe Uncheckout = False"
| "is_safe Unlink = False"
| "is_safe Unlock = False"
| "is_safe Update = False"
| "is_safe UpdateRedirectRef = False"
| "is_safe VersionControl = False"

primrec is_idempotent :: "Method \<Rightarrow> bool" where
  "is_idempotent Get = True"
| "is_idempotent Head = True"
| "is_idempotent Post = False"
| "is_idempotent Put = True"
| "is_idempotent Delete = True"
| "is_idempotent Connect = False"
| "is_idempotent Options = True"
| "is_idempotent Trace = True"
| "is_idempotent Patch = False"
| "is_idempotent Acl = True"
| "is_idempotent BaselineControl = True"
| "is_idempotent Bind = True"
| "is_idempotent CheckIn = True"
| "is_idempotent CheckOut = True"
| "is_idempotent Copy = True"
| "is_idempotent Label = True"
| "is_idempotent Link = True"
| "is_idempotent Lock = False"
| "is_idempotent Merge = True"
| "is_idempotent MkActivity = True"
| "is_idempotent MkCalendar = True"
| "is_idempotent MkCol = True"
| "is_idempotent MkRedirectRef = True"
| "is_idempotent MkWorkspace = True"
| "is_idempotent Move = True"
| "is_idempotent OrderPatch = True"
| "is_idempotent PropFind = True"
| "is_idempotent PropPatch = True"
| "is_idempotent Rebind = True"
| "is_idempotent Report = True"
| "is_idempotent Search = True"
| "is_idempotent Unbind = True"
| "is_idempotent Uncheckout = True"
| "is_idempotent Unlink = True"
| "is_idempotent Unlock = True"
| "is_idempotent Update = True"
| "is_idempotent UpdateRedirectRef = True"
| "is_idempotent VersionControl = True"

primrec allows_request_body :: "Method \<Rightarrow> bool option" where
  "allows_request_body Get = None"
| "allows_request_body Head = None"
| "allows_request_body Post = Some True"
| "allows_request_body Put = Some True"
| "allows_request_body Delete = None"
| "allows_request_body Connect = None"
| "allows_request_body Options = None"
| "allows_request_body Trace = Some False"
| "allows_request_body Patch = Some True"
| "allows_request_body Acl = Some True"
| "allows_request_body BaselineControl = Some True"
| "allows_request_body Bind = Some True"
| "allows_request_body CheckIn = Some True"
| "allows_request_body CheckOut = None"
| "allows_request_body Copy = None"
| "allows_request_body Label = Some True"
| "allows_request_body Link = None"
| "allows_request_body Lock = Some True"
| "allows_request_body Merge = Some True"
| "allows_request_body MkActivity = Some True"
| "allows_request_body MkCalendar = Some True"
| "allows_request_body MkCol = Some True"
| "allows_request_body MkRedirectRef = Some True"
| "allows_request_body MkWorkspace = Some True"
| "allows_request_body Move = None"
| "allows_request_body OrderPatch = Some True"
| "allows_request_body PropFind = Some True"
| "allows_request_body PropPatch = Some True"
| "allows_request_body Rebind = Some True"
| "allows_request_body Report = Some True"
| "allows_request_body Search = Some True"
| "allows_request_body Unbind = Some True"
| "allows_request_body Uncheckout = None"
| "allows_request_body Unlink = None"
| "allows_request_body Unlock = None"
| "allows_request_body Update = Some True"
| "allows_request_body UpdateRedirectRef = Some True"
| "allows_request_body VersionControl = Some True"

definition supports_payload :: "Method \<Rightarrow> bool" where
  "supports_payload self = (case allows_request_body self of Some v \<Rightarrow> v | None \<Rightarrow> False)"

text \<open>\<open>u8::to_ascii_lowercase\<close> and the macro \<open>lowercase!\<close>.\<close>

definition to_ascii_lowercase :: "byte \<Rightarrow> byte" where
  "to_ascii_lowercase c =
     (if 65 \<le> (of_char c :: nat) \<and> (of_char c :: nat) \<le> 90 then char_of ((of_char c :: nat) + 32) else c)"

definition lowercase :: "str \<Rightarrow> str" where
  "lowercase s = map to_ascii_lowercase s"

datatype parse_method_error = ParseMethodError

fun match_method :: "str \<Rightarrow> Method list \<Rightarrow> (Method, parse_method_error) result" where
  "match_method bs [] = Err ParseMethodError"
| "match_method bs (v # vs) =
     (if bs = as_str v \<or> bs = lowercase (as_str v) then Ok v else match_method bs vs)"

definition method_try_from :: "str \<Rightarrow> (Method, parse_method_error) result" where
  "method_try_from bs = match_method bs ALL_VARIANTS"

section \<open>Lemmas\<close>

lemma ALL_VARIANTS_complete: "m \<in> set ALL_VARIANTS"
  by (cases m) (simp_all add: ALL_VARIANTS_def)

lemma ALL_VARIANTS_distinct: "distinct ALL_VARIANTS"
  by (simp add: ALL_VARIANTS_def)

lemma lowercase_idem [simp]: "lowercase (lowercase s) = lowercase s"
proof -
  have "to_ascii_lowercase (to_ascii_lowercase c) = to_ascii_lowercase c" for c
    by (auto simp: to_ascii_lowercase_def)
  then show ?thesis by (simp add: lowercase_def)
qed

lemma lower_names_distinct: "distinct (map (\<lambda>m. lowercase (as_str m)) ALL_VARIANTS)"
  by (simp add: ALL_VARIANTS_def lowercase_def to_ascii_lowercase_def)

lemma lower_name_inj: "lowercase (as_str m) = lowercase (as_str n) \<Longrightarrow> m = n"
  using lower_names_distinct ALL_VARIANTS_complete by (auto simp: distinct_map inj_on_def)

lemma match_method_Ok:
  "match_method bs vs = Ok m \<Longrightarrow> m \<in> set vs \<and> (bs = as_str m \<or> bs = lowercase (as_str m))"
  by (induction vs) (auto split: if_splits)

lemma match_method_hit:
  "m \<in> set vs \<Longrightarrow> bs = as_str m \<or> bs = lowercase (as_str m) \<Longrightarrow> match_method bs vs = Ok m"
proof (induction vs)
  case (Cons v vs)
  show ?case
  proof (cases "bs = as_str v \<or> bs = lowercase (as_str v)")
    case True
    then have "lowercase (as_str v) = lowercase (as_str m)" using Cons.prems(2) by (metis lowercase_idem)
    then have "v = m" by (rule lower_name_inj)
    then show ?thesis using True by simp
  next
    case False
    then show ?thesis using Cons by auto
  qed
qed simp

section \<open>Properties\<close>

text \<open>
  Method names (\<open>TryFrom<&[u8]> for Method\<close>, \<open>method.rs\<close>): a byte string parses to \<open>m\<close> exactly when
  it is the name of \<open>m\<close> in upper case or in lower case, so printing and parsing are inverse, no two
  methods share a name, and a mixed-case name is an error.
\<close>

theorem method_parse_iff:
  "method_try_from bs = Ok m \<longleftrightarrow> bs = as_str m \<or> bs = lowercase (as_str m)"
  unfolding method_try_from_def
  using match_method_Ok [of bs ALL_VARIANTS m] match_method_hit [of m ALL_VARIANTS bs]
    ALL_VARIANTS_complete by blast

lemma safe_idempotent: "is_safe m \<Longrightarrow> is_idempotent m"
  by (cases m) simp_all

end
