(* ===== verification/MediaTypes.thy ===== *)
theory MediaTypes
  imports Complex_Main Method
begin

text \<open>
  Media types, content types and \<open>Accept\<close> (\<open>core/http/src/header\<close>: \<open>media_type.rs\<close>,
  \<open>known_media_types.rs\<close>, \<open>content_type.rs\<close>, \<open>accept.rs\<close>).

  The text of a media type's parts is what \<open>Indexed::from_source\<close> resolves to (see the theory
  \<open>Indexed\<close>).  Names are compared through \<open>UncasedStr\<close>, a type of the crate \<open>uncased\<close>: its equality is
  equality of a key, and the key function \<open>uc\<close> is a parameter of every definition that compares.
  Quality values are \<open>f32\<close> and are only compared, so they are rational numbers here.
\<close>

section \<open>Model: media types\<close>

type_synonym uncased_key = "str \<Rightarrow> str"

datatype Source = Known str | Custom "str cow" | SourceNone

record MediaType =
  mt_source :: Source
  mt_top :: str
  mt_sub :: str
  mt_params :: "(str \<times> str) list"

definition mt_new :: "str \<Rightarrow> str \<Rightarrow> MediaType" where
  "mt_new tp sub = \<lparr>mt_source = SourceNone, mt_top = tp, mt_sub = sub, mt_params = []\<rparr>"

definition with_params :: "MediaType \<Rightarrow> (str \<times> str) list \<Rightarrow> MediaType" where
  "with_params self ps = self\<lparr>mt_params := ps\<rparr>"

definition const_new :: "str \<Rightarrow> str \<Rightarrow> (str \<times> str) list \<Rightarrow> MediaType" where
  "const_new tp sub params =
     \<lparr>mt_source = SourceNone, mt_top = tp, mt_sub = sub, mt_params = params\<rparr>"

definition new_known :: "str \<Rightarrow> str \<Rightarrow> str \<Rightarrow> (str \<times> str) list \<Rightarrow> MediaType" where
  "new_known source tp sub params =
     \<lparr>mt_source = Known source, mt_top = tp, mt_sub = sub, mt_params = params\<rparr>"

fun source_as_str :: "Source \<Rightarrow> str option" where
  "source_as_str (Known s) = Some s"
| "source_as_str (Custom s) = Some (cow_val s)"
| "source_as_str SourceNone = None"

definition known_source :: "MediaType \<Rightarrow> str option" where
  "known_source self =
     (case mt_source self of Known s \<Rightarrow> Some s | Custom (Borrowed s) \<Rightarrow> Some s | _ \<Rightarrow> None)"

definition mt_eq :: "uncased_key \<Rightarrow> MediaType \<Rightarrow> MediaType \<Rightarrow> bool" where
  "mt_eq uc a b = (uc (mt_top a) = uc (mt_top b) \<and> uc (mt_sub a) = uc (mt_sub b))"

definition exact_eq :: "uncased_key \<Rightarrow> MediaType \<Rightarrow> MediaType \<Rightarrow> bool" where
  "exact_eq uc a b =
     (mt_eq uc a b \<and>
      map (\<lambda>(k, v). (uc k, v)) (mt_params a) = map (\<lambda>(k, v). (uc k, v)) (mt_params b))"

definition specificity :: "uncased_key \<Rightarrow> MediaType \<Rightarrow> nat" where
  "specificity uc self =
     (if uc (mt_top self) \<noteq> uc ''*'' then 1 else 0) + (if uc (mt_sub self) \<noteq> uc ''*'' then 1 else 0)"

definition mt_param :: "uncased_key \<Rightarrow> str \<Rightarrow> MediaType \<Rightarrow> str option" where
  "mt_param uc name self =
     (case filter (\<lambda>(k, v). uc k = uc name) (mt_params self) of [] \<Rightarrow> None | (k, v) # _ \<Rightarrow> Some v)"

definition mt_display :: "MediaType \<Rightarrow> str" where
  "mt_display self =
     (case known_source self of
        Some src \<Rightarrow> src
      | None \<Rightarrow> mt_top self @ ''/'' @ mt_sub self
               @ concat (map (\<lambda>(k, v). ''; '' @ k @ ''='' @ v) (mt_params self)))"

section \<open>Model: the known media types\<close>

definition MT_Any :: MediaType where
  "MT_Any = new_known ''*/*'' ''*'' ''*'' []"
definition MT_Binary :: MediaType where
  "MT_Binary = new_known ''application/octet-stream'' ''application'' ''octet-stream'' []"
definition MT_Bytes :: MediaType where
  "MT_Bytes = new_known ''application/octet-stream'' ''application'' ''octet-stream'' []"
definition MT_HTML :: MediaType where
  "MT_HTML = new_known ''text/html; charset=utf-8'' ''text'' ''html'' [(''charset'', ''utf-8'')]"
definition MT_Plain :: MediaType where
  "MT_Plain = new_known ''text/plain; charset=utf-8'' ''text'' ''plain'' [(''charset'', ''utf-8'')]"
definition MT_Text :: MediaType where
  "MT_Text = new_known ''text/plain; charset=utf-8'' ''text'' ''plain'' [(''charset'', ''utf-8'')]"
definition MT_JSON :: MediaType where
  "MT_JSON = new_known ''application/json'' ''application'' ''json'' []"
definition MT_MsgPack :: MediaType where
  "MT_MsgPack = new_known ''application/msgpack'' ''application'' ''msgpack'' []"
definition MT_Form :: MediaType where
  "MT_Form = new_known ''application/x-www-form-urlencoded'' ''application'' ''x-www-form-urlencoded'' []"
definition MT_JavaScript :: MediaType where
  "MT_JavaScript = new_known ''text/javascript'' ''text'' ''javascript'' []"
definition MT_CSS :: MediaType where
  "MT_CSS = new_known ''text/css; charset=utf-8'' ''text'' ''css'' [(''charset'', ''utf-8'')]"
definition MT_FormData :: MediaType where
  "MT_FormData = new_known ''multipart/form-data'' ''multipart'' ''form-data'' []"
definition MT_XML :: MediaType where
  "MT_XML = new_known ''text/xml; charset=utf-8'' ''text'' ''xml'' [(''charset'', ''utf-8'')]"
definition MT_OPF :: MediaType where
  "MT_OPF = new_known ''application/oebps-package+xml'' ''application'' ''oebps-package+xml'' []"
definition MT_XHTML :: MediaType where
  "MT_XHTML = new_known ''application/xhtml+xml'' ''application'' ''xhtml+xml'' []"
definition MT_CSV :: MediaType where
  "MT_CSV = new_known ''text/csv; charset=utf-8'' ''text'' ''csv'' [(''charset'', ''utf-8'')]"
definition MT_PNG :: MediaType where
  "MT_PNG = new_known ''image/png'' ''image'' ''png'' []"
definition MT_GIF :: MediaType where
  "MT_GIF = new_known ''image/gif'' ''image'' ''gif'' []"
definition MT_BMP :: MediaType where
  "MT_BMP = new_known ''image/bmp'' ''image'' ''bmp'' []"
definition MT_JPEG :: MediaType where
  "MT_JPEG = new_known ''image/jpeg'' ''image'' ''jpeg'' []"
definition MT_WEBP :: MediaType where
  "MT_WEBP = new_known ''image/webp'' ''image'' ''webp'' []"
definition MT_AVIF :: MediaType where
  "MT_AVIF = new_known ''image/avif'' ''image'' ''avif'' []"
definition MT_SVG :: MediaType where
  "MT_SVG = new_known ''image/svg+xml'' ''image'' ''svg+xml'' []"
definition MT_Icon :: MediaType where
  "MT_Icon = new_known ''image/x-icon'' ''image'' ''x-icon'' []"
definition MT_WEBM :: MediaType where
  "MT_WEBM = new_known ''video/webm'' ''video'' ''webm'' []"
definition MT_WEBA :: MediaType where
  "MT_WEBA = new_known ''audio/webm'' ''audio'' ''webm'' []"
definition MT_OGG :: MediaType where
  "MT_OGG = new_known ''video/ogg'' ''video'' ''ogg'' []"
definition MT_FLAC :: MediaType where
  "MT_FLAC = new_known ''audio/flac'' ''audio'' ''flac'' []"
definition MT_WAV :: MediaType where
  "MT_WAV = new_known ''audio/wav'' ''audio'' ''wav'' []"
definition MT_PDF :: MediaType where
  "MT_PDF = new_known ''application/pdf'' ''application'' ''pdf'' []"
definition MT_TTF :: MediaType where
  "MT_TTF = new_known ''application/font-sfnt'' ''application'' ''font-sfnt'' []"
definition MT_OTF :: MediaType where
  "MT_OTF = new_known ''application/font-sfnt'' ''application'' ''font-sfnt'' []"
definition MT_WOFF :: MediaType where
  "MT_WOFF = new_known ''application/font-woff'' ''application'' ''font-woff'' []"
definition MT_WOFF2 :: MediaType where
  "MT_WOFF2 = new_known ''font/woff2'' ''font'' ''woff2'' []"
definition MT_JsonApi :: MediaType where
  "MT_JsonApi = new_known ''application/vnd.api+json'' ''application'' ''vnd.api+json'' []"
definition MT_WASM :: MediaType where
  "MT_WASM = new_known ''application/wasm'' ''application'' ''wasm'' []"
definition MT_TIFF :: MediaType where
  "MT_TIFF = new_known ''image/tiff'' ''image'' ''tiff'' []"
definition MT_AAC :: MediaType where
  "MT_AAC = new_known ''audio/aac'' ''audio'' ''aac'' []"
definition MT_Calendar :: MediaType where
  "MT_Calendar = new_known ''text/calendar'' ''text'' ''calendar'' []"
definition MT_MPEG :: MediaType where
  "MT_MPEG = new_known ''video/mpeg'' ''video'' ''mpeg'' []"
definition MT_TAR :: MediaType where
  "MT_TAR = new_known ''application/x-tar'' ''application'' ''x-tar'' []"
definition MT_GZIP :: MediaType where
  "MT_GZIP = new_known ''application/gzip'' ''application'' ''gzip'' []"
definition MT_MOV :: MediaType where
  "MT_MOV = new_known ''video/quicktime'' ''video'' ''quicktime'' []"
definition MT_MP3 :: MediaType where
  "MT_MP3 = new_known ''audio/mpeg'' ''audio'' ''mpeg'' []"
definition MT_MP4 :: MediaType where
  "MT_MP4 = new_known ''video/mp4'' ''video'' ''mp4'' []"
definition MT_ZIP :: MediaType where
  "MT_ZIP = new_known ''application/zip'' ''application'' ''zip'' []"
definition MT_CBZ :: MediaType where
  "MT_CBZ = new_known ''application/vnd.comicbook+zip'' ''application'' ''vnd.comicbook+zip'' []"
definition MT_CBR :: MediaType where
  "MT_CBR = new_known ''application/vnd.comicbook-rar'' ''application'' ''vnd.comicbook-rar'' []"
definition MT_RAR :: MediaType where
  "MT_RAR = new_known ''application/vnd.rar'' ''application'' ''vnd.rar'' []"
definition MT_EPUB :: MediaType where
  "MT_EPUB = new_known ''application/epub+zip'' ''application'' ''epub+zip'' []"
definition MT_EventStream :: MediaType where
  "MT_EventStream = new_known ''text/event-stream'' ''text'' ''event-stream'' []"
definition MT_Markdown :: MediaType where
  "MT_Markdown = new_known ''text/markdown; charset=utf-8'' ''text'' ''markdown'' [(''charset'', ''utf-8'')]"
definition MT_EXE :: MediaType where
  "MT_EXE = new_known ''application/vnd.microsoft.portable-executable'' ''application'' ''vnd.microsoft.portable-executable'' []"

definition known_media_types :: "MediaType list" where
  "known_media_types = [
    MT_Any, MT_Binary, MT_Bytes, MT_HTML, MT_Plain, MT_Text, MT_JSON, MT_MsgPack, MT_Form,
    MT_JavaScript, MT_CSS, MT_FormData, MT_XML, MT_OPF, MT_XHTML, MT_CSV, MT_PNG, MT_GIF,
    MT_BMP, MT_JPEG, MT_WEBP, MT_AVIF, MT_SVG, MT_Icon, MT_WEBM, MT_WEBA, MT_OGG, MT_FLAC,
    MT_WAV, MT_PDF, MT_TTF, MT_OTF, MT_WOFF, MT_WOFF2, MT_JsonApi, MT_WASM, MT_TIFF, MT_AAC,
    MT_Calendar, MT_MPEG, MT_TAR, MT_GZIP, MT_MOV, MT_MP3, MT_MP4, MT_ZIP, MT_CBZ, MT_CBR,
    MT_RAR, MT_EPUB, MT_EventStream, MT_Markdown, MT_EXE]"

definition known_extensions :: "(str \<times> MediaType) list" where
  "known_extensions = [
    (''txt'', MT_Plain), (''html'', MT_HTML), (''htm'', MT_HTML), (''xml'', MT_XML),
    (''opf'', MT_OPF), (''xhtml'', MT_XHTML), (''csv'', MT_CSV), (''js'', MT_JavaScript),
    (''mjs'', MT_JavaScript), (''css'', MT_CSS), (''json'', MT_JSON), (''png'', MT_PNG),
    (''gif'', MT_GIF), (''bmp'', MT_BMP), (''jpeg'', MT_JPEG), (''jpg'', MT_JPEG),
    (''webp'', MT_WEBP), (''avif'', MT_AVIF), (''svg'', MT_SVG), (''ico'', MT_Icon),
    (''flac'', MT_FLAC), (''wav'', MT_WAV), (''webm'', MT_WEBM), (''weba'', MT_WEBA),
    (''ogg'', MT_OGG), (''ogv'', MT_OGG), (''pdf'', MT_PDF), (''ttf'', MT_TTF),
    (''otf'', MT_OTF), (''woff'', MT_WOFF), (''woff2'', MT_WOFF2), (''mp3'', MT_MP3),
    (''mp4'', MT_MP4), (''mpeg4'', MT_MP4), (''wasm'', MT_WASM), (''aac'', MT_AAC),
    (''ics'', MT_Calendar), (''bin'', MT_Binary), (''iso'', MT_Binary), (''dmg'', MT_Binary),
    (''mpg'', MT_MPEG), (''mpeg'', MT_MPEG), (''tar'', MT_TAR), (''gz'', MT_GZIP),
    (''tif'', MT_TIFF), (''tiff'', MT_TIFF), (''mov'', MT_MOV), (''zip'', MT_ZIP),
    (''cbz'', MT_CBZ), (''cbr'', MT_CBR), (''rar'', MT_RAR), (''epub'', MT_EPUB),
    (''md'', MT_Markdown), (''markdown'', MT_Markdown), (''exe'', MT_EXE)]"

definition known_shorthands :: "(str \<times> MediaType) list" where
  "known_shorthands = [
    (''any'', MT_Any), (''binary'', MT_Binary), (''bytes'', MT_Bytes), (''html'', MT_HTML),
    (''plain'', MT_Plain), (''text'', MT_Text), (''json'', MT_JSON),
    (''msgpack'', MT_MsgPack), (''form'', MT_Form), (''js'', MT_JavaScript),
    (''css'', MT_CSS), (''multipart'', MT_FormData), (''xml'', MT_XML), (''pdf'', MT_PDF),
    (''markdown'', MT_Markdown), (''md'', MT_Markdown)]"

definition is_known :: "uncased_key \<Rightarrow> MediaType \<Rightarrow> bool" where
  "is_known uc self =
     (case mt_source self of Known _ \<Rightarrow> True | _ \<Rightarrow> list_ex (mt_eq uc self) known_media_types)"

fun lookup_uncased :: "uncased_key \<Rightarrow> str \<Rightarrow> (str \<times> MediaType) list \<Rightarrow> MediaType option" where
  "lookup_uncased uc x [] = None"
| "lookup_uncased uc x ((e, mt) # rest) =
     (if uc x = uc e then Some mt else lookup_uncased uc x rest)"

definition from_extension :: "uncased_key \<Rightarrow> str \<Rightarrow> MediaType option" where
  "from_extension uc ext = lookup_uncased uc ext known_extensions"

fun extension_in :: "uncased_key \<Rightarrow> MediaType \<Rightarrow> (str \<times> MediaType) list \<Rightarrow> str option" where
  "extension_in uc self [] = None"
| "extension_in uc self ((e, mt) # rest) =
     (if mt_eq uc self mt then Some e else extension_in uc self rest)"

definition extension :: "uncased_key \<Rightarrow> MediaType \<Rightarrow> str option" where
  "extension uc self = extension_in uc self known_extensions"

text \<open>\<open>MediaType::from_str\<close> is the generated parser \<open>parse_media_type\<close>, a parameter.\<close>

definition parse_flexible ::
  "(str \<Rightarrow> (MediaType, str) result) \<Rightarrow> uncased_key \<Rightarrow> str \<Rightarrow> MediaType option" where
  "parse_flexible from_str uc name =
     (case lookup_uncased uc name known_shorthands of
        Some mt \<Rightarrow> Some mt
      | None \<Rightarrow> (case from_str name of Ok mt \<Rightarrow> Some mt | Err _ \<Rightarrow> None))"

section \<open>Model: content types\<close>

datatype ContentType = ContentType (ct_media_type: MediaType)

definition ct_from_extension :: "uncased_key \<Rightarrow> str \<Rightarrow> ContentType option" where
  "ct_from_extension uc ext = map_option ContentType (from_extension uc ext)"

definition ct_extension :: "uncased_key \<Rightarrow> ContentType \<Rightarrow> str option" where
  "ct_extension uc self = extension_in uc (ct_media_type self) known_extensions"

definition ct_parse_flexible ::
  "(str \<Rightarrow> (MediaType, str) result) \<Rightarrow> uncased_key \<Rightarrow> str \<Rightarrow> ContentType option" where
  "ct_parse_flexible from_str uc name = map_option ContentType (parse_flexible from_str uc name)"

definition ct_new :: "str \<Rightarrow> str \<Rightarrow> ContentType" where
  "ct_new tp sub = ContentType (mt_new tp sub)"

definition ct_with_params :: "ContentType \<Rightarrow> (str \<times> str) list \<Rightarrow> ContentType" where
  "ct_with_params self ps = ContentType (with_params (ct_media_type self) ps)"

definition ct_default :: ContentType where
  "ct_default = ContentType MT_Any"

definition content_type_header :: "ContentType \<Rightarrow> str \<times> str" where
  "content_type_header ct =
     (case known_source (ct_media_type ct) of
        Some src \<Rightarrow> (''Content-Type'', src)
      | None \<Rightarrow> (''Content-Type'', mt_display (ct_media_type ct)))"

section \<open>Model: Accept\<close>

datatype QMediaType = QMediaType (q_mt: MediaType) (q_weight: "rat option")

type_synonym Accept = "QMediaType list"

definition weight_or :: "QMediaType \<Rightarrow> rat \<Rightarrow> rat" where
  "weight_or self dflt = (case q_weight self of Some q \<Rightarrow> q | None \<Rightarrow> dflt)"

definition qmt_from :: "MediaType \<Rightarrow> QMediaType" where
  "qmt_from mt = QMediaType mt None"

definition accept_new :: "MediaType list \<Rightarrow> Accept" where
  "accept_new items = map qmt_from items"

definition accept_add :: "Accept \<Rightarrow> QMediaType \<Rightarrow> Accept" where
  "accept_add self mt = self @ [mt]"

definition qmt_eq :: "uncased_key \<Rightarrow> QMediaType \<Rightarrow> QMediaType \<Rightarrow> bool" where
  "qmt_eq uc a b = (mt_eq uc (q_mt a) (q_mt b) \<and> q_weight a = q_weight b)"

definition prefer_step :: "uncased_key \<Rightarrow> QMediaType \<Rightarrow> QMediaType \<Rightarrow> QMediaType" where
  "prefer_step uc media_type preferred =
     (if q_weight media_type = None \<and> q_weight preferred \<noteq> None then media_type
      else if weight_or media_type 0 > weight_or preferred 1 then media_type
      else if specificity uc (q_mt media_type) > specificity uc (q_mt preferred) then media_type
      else if qmt_eq uc media_type preferred
              \<and> length (mt_params (q_mt media_type)) > length (mt_params (q_mt preferred))
           then media_type
      else preferred)"

definition preferred :: "uncased_key \<Rightarrow> Accept \<Rightarrow> QMediaType" where
  "preferred uc self =
     (case self of
        [] \<Rightarrow> QMediaType MT_Any None
      | m # ms \<Rightarrow> fold (prefer_step uc) ms m)"

definition accept_first :: "Accept \<Rightarrow> QMediaType option" where
  "accept_first self = (case self of [] \<Rightarrow> None | m # _ \<Rightarrow> Some m)"

definition media_types :: "Accept \<Rightarrow> MediaType list" where
  "media_types self = map q_mt self"

fun accept_display_loop :: "nat \<Rightarrow> Accept \<Rightarrow> str" where
  "accept_display_loop i [] = []"
| "accept_display_loop i (m # ms) =
     (if i \<ge> 1 then '', '' @ mt_display (q_mt m) else mt_display (q_mt m)) @ accept_display_loop (i + 1) ms"

definition accept_display :: "Accept \<Rightarrow> str" where
  "accept_display self = accept_display_loop 0 self"

definition accept_header :: "Accept \<Rightarrow> str \<times> str" where
  "accept_header self = (''Accept'', accept_display self)"

section \<open>Lemmas\<close>

lemma mt_eq_equivp: "equivp (mt_eq uc)"
  by (auto intro!: equivpI reflpI sympI transpI simp: mt_eq_def)

lemma lookup_uncased_None: "lookup_uncased uc x t = None \<longleftrightarrow> (\<forall>e \<in> fst ` set t. uc x \<noteq> uc e)"
  by (induction uc x t rule: lookup_uncased.induct) auto

lemma lookup_uncased_hit:
  "inj_on uc (fst ` set t) \<Longrightarrow> distinct (map fst t) \<Longrightarrow> (e, mt) \<in> set t \<Longrightarrow> lookup_uncased uc e t = Some mt"
proof (induction uc e t rule: lookup_uncased.induct)
  case (2 uc x e' mt' rest)
  have "x \<in> fst ` set ((e', mt') # rest)" using 2(4) by force
  then have "uc x = uc e' \<longleftrightarrow> x = e'" using 2(2) by (auto simp: inj_on_def)
  moreover have "x = e' \<Longrightarrow> mt = mt'" using 2(3,4) by force
  ultimately show ?case using 2 by auto
qed simp

lemma extension_in_Some: "extension_in uc m t = Some e \<Longrightarrow> \<exists>mt. (e, mt) \<in> set t \<and> mt_eq uc m mt"
  by (induction uc m t rule: extension_in.induct) (auto split: if_splits)

lemma known_extensions_keys:
  "distinct (map fst known_extensions) \<and> list_all (\<lambda>e. lowercase e = e) (map fst known_extensions)"
  by (simp add: known_extensions_def lowercase_def to_ascii_lowercase_def)

lemma known_shorthands_keys: "distinct (map fst known_shorthands)"
  by (simp add: known_shorthands_def)

text \<open>The weight order of \<open>preferred\<close>: no weight is above every weight.\<close>

definition weight_le :: "QMediaType \<Rightarrow> QMediaType \<Rightarrow> bool" where
  "weight_le a b = (case q_weight b of None \<Rightarrow> True
     | Some q \<Rightarrow> (case q_weight a of None \<Rightarrow> False | Some p \<Rightarrow> p \<le> q))"

lemma weight_le_trans: "weight_le a b \<Longrightarrow> weight_le b c \<Longrightarrow> weight_le a c"
  by (auto simp: weight_le_def split: option.splits)

lemma weight_le_refl: "weight_le a a"
  by (auto simp: weight_le_def split: option.splits)

lemma prefer_cases: "prefer_step uc m p = m \<or> prefer_step uc m p = p"
  by (simp add: prefer_step_def)

lemma prefer_upper:
  assumes "specificity uc (q_mt m) = specificity uc (q_mt p)" and "weight_or m 0 \<le> 1"
  shows "weight_le m (prefer_step uc m p) \<and> weight_le p (prefer_step uc m p)"
  using assms by (auto simp: prefer_step_def weight_le_def weight_or_def qmt_eq_def split: option.splits)

lemma fold_prefer_in: "fold (prefer_step uc) ms p \<in> set (p # ms)"
proof (induction ms arbitrary: p)
  case (Cons m ms)
  show ?case using Cons.IH [of "prefer_step uc m p"] prefer_cases [of uc m p] by (elim disjE) auto
qed simp

lemma fold_prefer_upper:
  assumes "\<forall>m \<in> set ms. specificity uc (q_mt m) = n \<and> weight_or m 0 \<le> 1"
    and "specificity uc (q_mt p) = n" and "x \<in> set (p # ms)"
  shows "weight_le x (fold (prefer_step uc) ms p)"
  using assms
proof (induction ms arbitrary: p x)
  case Nil
  then show ?case by (simp add: weight_le_refl)
next
  case (Cons m ms)
  let ?p = "prefer_step uc m p"
  have up: "weight_le m ?p \<and> weight_le p ?p" using Cons.prems by (intro prefer_upper) simp_all
  have sp: "specificity uc (q_mt ?p) = n" using prefer_cases [of uc m p] Cons.prems by auto
  have all: "\<And>y. y \<in> set (?p # ms) \<Longrightarrow> weight_le y (fold (prefer_step uc) ms ?p)"
    using Cons.IH [OF _ sp] Cons.prems(1) by simp
  from Cons.prems(3) consider "x \<in> set ms" | "x = m \<or> x = p" by auto
  then show ?case
  proof cases
    case 2
    then have "weight_le x ?p" using up by auto
    then show ?thesis using all [of ?p] weight_le_trans by simp
  qed (simp add: all)
qed

section \<open>Properties\<close>

text \<open>
  Extensions (\<open>MediaType::extension\<close>, \<open>MediaType::from_extension\<close>): the extension the table gives a
  media type is one that maps back to an equal media type, whatever the key function, as long as it is
  injective on names without upper-case letters.
\<close>

theorem extension_round_trip:
  assumes uncased_lower: "inj_on uc {s. lowercase s = s}" and "extension uc mt = Some e"
  shows "\<exists>mt'. from_extension uc e = Some mt' \<and> mt_eq uc mt mt'"
proof -
  from assms(2) obtain mt' where mt': "(e, mt') \<in> set known_extensions" "mt_eq uc mt mt'"
    unfolding extension_def using extension_in_Some by blast
  have "fst ` set known_extensions \<subseteq> {s. lowercase s = s}"
    using known_extensions_keys by (auto simp: list_all_iff)
  then have "inj_on uc (fst ` set known_extensions)" by (rule inj_on_subset [OF uncased_lower])
  then show ?thesis
    using mt' lookup_uncased_hit [of uc known_extensions e mt'] known_extensions_keys
    by (auto simp: from_extension_def)
qed

theorem extension_round_trip_witness:
  "extension lowercase (mt_new ''IMAGE'' ''Jpeg'') = Some ''jpeg''
   \<and> (\<exists>mt'. from_extension lowercase ''jpeg'' = Some mt' \<and> mt_eq lowercase (mt_new ''IMAGE'' ''Jpeg'') mt')"
proof -
  have "extension lowercase (mt_new ''IMAGE'' ''Jpeg'') = Some ''jpeg''" by code_simp
  moreover have "inj_on lowercase {s. lowercase s = s}" by (auto simp: inj_on_def)
  ultimately show ?thesis using extension_round_trip by blast
qed

text \<open>
  \<open>Accept::preferred\<close> (\<open>accept.rs\<close>): the result is one of the listed media types, \<open>*/*\<close> when there is
  none; and when all the listed types are equally specific and no weight exceeds 1, no listed type
  outweighs it, where a type without a weight is above every weighted one.
\<close>

theorem preferred_maximal:
  assumes "\<forall>m \<in> set acc. specificity uc (q_mt m) = n \<and> weight_or m 0 \<le> 1" and "x \<in> set acc"
  shows "preferred uc acc \<in> set acc \<and> weight_le x (preferred uc acc)"
proof -
  from assms(2) obtain m ms where acc: "acc = m # ms" by (cases acc) auto
  then show ?thesis
    using assms fold_prefer_in [of uc ms m] fold_prefer_upper [of ms uc n m x] by (simp add: preferred_def)
qed

theorem preferred_maximal_witness:
  "preferred lowercase [QMediaType MT_JSON (Some (3 / 10)), QMediaType MT_HTML (Some (9 / 10))]
     = QMediaType MT_HTML (Some (9 / 10))
   \<and> weight_le (QMediaType MT_JSON (Some (3 / 10)))
      (preferred lowercase [QMediaType MT_JSON (Some (3 / 10)), QMediaType MT_HTML (Some (9 / 10))])"
proof -
  let ?a = "[QMediaType MT_JSON (Some (3 / 10)), QMediaType MT_HTML (Some (9 / 10))]"
  have sp: "specificity lowercase MT_JSON = 2" "specificity lowercase MT_HTML = 2" by code_simp+
  then have "\<forall>m \<in> set ?a. specificity lowercase (q_mt m) = 2 \<and> weight_or m 0 \<le> 1"
    by (simp add: weight_or_def)
  then have "weight_le (QMediaType MT_JSON (Some (3 / 10))) (preferred lowercase ?a)"
    using preferred_maximal [of ?a lowercase 2 "QMediaType MT_JSON (Some (3 / 10))"] by simp
  moreover have "preferred lowercase ?a = QMediaType MT_HTML (Some (9 / 10))"
    by (simp add: preferred_def prefer_step_def weight_or_def)
  ultimately show ?thesis by simp
qed

text \<open>
  Specificity overrides weight: of \<open>*/*, text/html; q=0.1\<close> the weighted type is chosen, although
  the comment in \<open>preferred\<close> says that types without a \<open>q\<close> parameter are preferred.
\<close>

lemma preferred_specific_over_weight:
  "preferred lowercase [QMediaType MT_Any None, QMediaType MT_HTML (Some (1 / 10))]
     = QMediaType MT_HTML (Some (1 / 10))"
proof -
  have "specificity lowercase MT_Any = 0" "specificity lowercase MT_HTML = 2" by code_simp+
  then show ?thesis by (simp add: preferred_def prefer_step_def weight_or_def)
qed

end
