(* ===== verification/Headers.thy ===== *)
theory Headers
  imports MediaTypes "HOL-Library.Multiset"
begin

text \<open>
  Headers (\<open>core/http/src/header\<close>: \<open>header.rs\<close>, \<open>proxy_proto.rs\<close>).

  A \<open>HeaderMap\<close> wraps an \<open>IndexMap\<close> from uncased names to vectors of values.  The map is its ordered
  list of entries, with the behaviour \<open>IndexMap\<close> documents: \<open>insert\<close> on an existing key keeps the key and
  its place and replaces the value, \<open>entry(k).or_default()\<close> appends a new key, and \<open>swap_remove\<close> moves the
  last entry into the removed entry's place.  Names are equal when their keys under \<open>uc\<close> are.
\<close>

section \<open>Model: ordered maps\<close>

type_synonym ('k, 'v) index_map = "('k \<times> 'v) list"

fun im_get :: "('k \<Rightarrow> 'q) \<Rightarrow> 'k \<Rightarrow> ('k, 'v) index_map \<Rightarrow> 'v option" where
  "im_get uc k [] = None"
| "im_get uc k ((k', v) # m) = (if uc k' = uc k then Some v else im_get uc k m)"

fun im_insert :: "('k \<Rightarrow> 'q) \<Rightarrow> 'k \<Rightarrow> 'v \<Rightarrow> ('k, 'v) index_map \<Rightarrow> ('k, 'v) index_map" where
  "im_insert uc k v [] = [(k, v)]"
| "im_insert uc k v ((k', v') # m) =
     (if uc k' = uc k then (k', v) # m else (k', v') # im_insert uc k v m)"

text \<open>\<open>f(map.entry(k).or_insert(d))\<close>.\<close>

fun im_entry :: "('k \<Rightarrow> 'q) \<Rightarrow> 'k \<Rightarrow> 'v \<Rightarrow> ('v \<Rightarrow> 'v) \<Rightarrow> ('k, 'v) index_map \<Rightarrow> ('k, 'v) index_map" where
  "im_entry uc k d f [] = [(k, f d)]"
| "im_entry uc k d f ((k', v') # m) =
     (if uc k' = uc k then (k', f v') # m else (k', v') # im_entry uc k d f m)"

definition im_swap_remove :: "('k \<Rightarrow> 'q) \<Rightarrow> 'k \<Rightarrow> ('k, 'v) index_map \<Rightarrow> ('k, 'v) index_map" where
  "im_swap_remove uc k m =
     (case find_index (\<lambda>(k', v). uc k' = uc k) m of
        None \<Rightarrow> m
      | Some i \<Rightarrow> if i = length m - 1 then butlast m else butlast (m[i := last m]))"

section \<open>Model: headers\<close>

record Header =
  h_name :: str
  h_value :: str

definition header_new :: "str \<Rightarrow> str \<Rightarrow> Header" where
  "header_new name val = \<lparr>h_name = name, h_value = val\<rparr>"

definition is_ascii_alphanumeric :: "byte \<Rightarrow> bool" where
  "is_ascii_alphanumeric b =
     (let n = of_char b :: nat
      in (48 \<le> n \<and> n \<le> 57) \<or> (65 \<le> n \<and> n \<le> 90) \<or> (97 \<le> n \<and> n \<le> 122))"

definition is_tchar :: "byte \<Rightarrow> bool" where
  "is_tchar b =
     (is_ascii_alphanumeric b \<or>
      b \<in> set (''!#$%&'' @ [CHR 0x27] @ ''*+-.^_'' @ [CHR 0x60] @ ''|~''))"

fun valid_name_loop :: "nat \<Rightarrow> str \<Rightarrow> bool" where
  "valid_name_loop i [] = (i > 0)"
| "valid_name_loop i (b # bytes) = (if \<not> is_tchar b then False else valid_name_loop (i + 1) bytes)"

definition is_valid_name :: "str \<Rightarrow> bool" where
  "is_valid_name name = valid_name_loop 0 name"

definition is_valid_start :: "byte \<Rightarrow> bool" where
  "is_valid_start b = (33 \<le> (of_char b :: nat) \<and> (of_char b :: nat) \<le> 126)"

definition is_valid_continue :: "byte \<Rightarrow> bool" where
  "is_valid_continue b = (is_valid_start b \<or> b = CHR '' '' \<or> b = CHR 0x09)"

fun valid_value_loop :: "bool \<Rightarrow> nat \<Rightarrow> str \<Rightarrow> bool" where
  "valid_value_loop allow_empty i [] = (allow_empty \<or> i > 0)"
| "valid_value_loop allow_empty i (b # bytes) =
     (if i = 0 \<and> \<not> is_valid_start b then False
      else if i > 0 \<and> \<not> is_valid_continue b then False
      else valid_value_loop allow_empty (i + 1) bytes)"

definition is_valid_value :: "str \<Rightarrow> bool \<Rightarrow> bool" where
  "is_valid_value val allow_empty = valid_value_loop allow_empty 0 val"

definition header_display :: "Header \<Rightarrow> str" where
  "header_display self = h_name self @ '': '' @ h_value self"

section \<open>Model: header maps\<close>

type_synonym HeaderMap = "(str, str list) index_map"

definition hm_new :: HeaderMap where
  "hm_new = []"

definition hm_contains :: "uncased_key \<Rightarrow> str \<Rightarrow> HeaderMap \<Rightarrow> bool" where
  "hm_contains uc name self = (im_get uc name self \<noteq> None)"

definition hm_len :: "HeaderMap \<Rightarrow> nat" where
  "hm_len self = length (concat (map snd self))"

definition hm_is_empty :: "HeaderMap \<Rightarrow> bool" where
  "hm_is_empty self = (self = [])"

definition hm_get :: "uncased_key \<Rightarrow> str \<Rightarrow> HeaderMap \<Rightarrow> str list" where
  "hm_get uc name self = (case im_get uc name self of None \<Rightarrow> [] | Some values \<Rightarrow> values)"

definition hm_get_one :: "uncased_key \<Rightarrow> str \<Rightarrow> HeaderMap \<Rightarrow> str option" where
  "hm_get_one uc name self =
     (case im_get uc name self of
        None \<Rightarrow> None
      | Some values \<Rightarrow> if values \<noteq> [] then Some (values ! 0) else None)"

definition hm_replace :: "uncased_key \<Rightarrow> Header \<Rightarrow> HeaderMap \<Rightarrow> bool \<times> HeaderMap" where
  "hm_replace uc header self =
     (im_get uc (h_name header) self \<noteq> None, im_insert uc (h_name header) [h_value header] self)"

definition hm_replace_raw :: "uncased_key \<Rightarrow> str \<Rightarrow> str \<Rightarrow> HeaderMap \<Rightarrow> bool \<times> HeaderMap" where
  "hm_replace_raw uc name val self = hm_replace uc (header_new name val) self"

definition hm_replace_all :: "uncased_key \<Rightarrow> str \<Rightarrow> str list \<Rightarrow> HeaderMap \<Rightarrow> HeaderMap" where
  "hm_replace_all uc name values self = im_insert uc name values self"

definition hm_add :: "uncased_key \<Rightarrow> Header \<Rightarrow> HeaderMap \<Rightarrow> HeaderMap" where
  "hm_add uc header self = im_entry uc (h_name header) [] (\<lambda>vs. vs @ [h_value header]) self"

definition hm_add_raw :: "uncased_key \<Rightarrow> str \<Rightarrow> str \<Rightarrow> HeaderMap \<Rightarrow> HeaderMap" where
  "hm_add_raw uc name val self = hm_add uc (header_new name val) self"

text \<open>\<open>Vec::append\<close> empties its argument, which is returned.\<close>

definition hm_add_all :: "uncased_key \<Rightarrow> str \<Rightarrow> str list \<Rightarrow> HeaderMap \<Rightarrow> str list \<times> HeaderMap" where
  "hm_add_all uc name values self = ([], im_entry uc name [] (\<lambda>vs. vs @ values) self)"

definition hm_remove :: "uncased_key \<Rightarrow> str \<Rightarrow> HeaderMap \<Rightarrow> HeaderMap" where
  "hm_remove uc name self = im_swap_remove uc name self"

definition hm_iter :: "HeaderMap \<Rightarrow> Header list" where
  "hm_iter self = concat (map (\<lambda>(key, values). map (header_new key) values) self)"

text \<open>The consuming iterator and its \<open>next\<close>, whose \<open>loop\<close> takes map entries until one has a value.\<close>

record IntoIter =
  it_headers :: HeaderMap
  it_current :: "(str \<times> str list) option"

definition hm_into_iter :: "HeaderMap \<Rightarrow> IntoIter" where
  "hm_into_iter self = \<lparr>it_headers = self, it_current = None\<rparr>"

fun into_iter_next_loop :: "HeaderMap \<Rightarrow> (str \<times> str list) option \<Rightarrow> Header option \<times> IntoIter" where
  "into_iter_next_loop hs (Some (name, val # vals)) =
     (Some \<lparr>h_name = name, h_value = val\<rparr>, \<lparr>it_headers = hs, it_current = Some (name, vals)\<rparr>)"
| "into_iter_next_loop [] cur = (None, \<lparr>it_headers = [], it_current = cur\<rparr>)"
| "into_iter_next_loop ((name, values) # hs) cur = into_iter_next_loop hs (Some (name, values))"

definition into_iter_next :: "IntoIter \<Rightarrow> Header option \<times> IntoIter" where
  "into_iter_next self = into_iter_next_loop (it_headers self) (it_current self)"

definition it_size :: "IntoIter \<Rightarrow> nat" where
  "it_size it = hm_len (it_headers it) + (case it_current it of None \<Rightarrow> 0 | Some (_, vs) \<Rightarrow> length vs)"

lemma into_iter_next_loop_size:
  "into_iter_next_loop hs cur = (Some h, it) \<Longrightarrow>
   it_size it < it_size \<lparr>it_headers = hs, it_current = cur\<rparr>"
  by (induction hs cur rule: into_iter_next_loop.induct)
     (auto simp: it_size_def hm_len_def split: option.splits prod.splits)

lemma into_iter_next_size: "(Some h, it') = into_iter_next it \<Longrightarrow> it_size it' < it_size it"
  using into_iter_next_loop_size [of "it_headers it" "it_current it" h it']
  by (simp add: into_iter_next_def it_size_def)

function into_iter_collect :: "IntoIter \<Rightarrow> Header list" where
  "into_iter_collect it =
     (case into_iter_next it of (None, _) \<Rightarrow> [] | (Some h, it') \<Rightarrow> h # into_iter_collect it')"
  by pat_completeness auto
termination
  by (relation "measure it_size") (auto dest: into_iter_next_size)

declare into_iter_collect.simps [simp del]

definition hm_remove_all :: "HeaderMap \<Rightarrow> Header list \<times> HeaderMap" where
  "hm_remove_all self = (into_iter_collect (hm_into_iter self), hm_new)"

section \<open>Model: proxy protocol\<close>

datatype ProxyProto = PHttp | PHttps | PUnknown str

definition proxy_proto_from :: "uncased_key \<Rightarrow> str \<Rightarrow> ProxyProto" where
  "proxy_proto_from uc val =
     (if uc val = uc ''http'' then PHttp else if uc val = uc ''https'' then PHttps else PUnknown val)"

definition is_https :: "ProxyProto \<Rightarrow> bool" where
  "is_https self = (self = PHttps)"

fun proxy_proto_display :: "ProxyProto \<Rightarrow> str" where
  "proxy_proto_display PHttp = ''http''"
| "proxy_proto_display PHttps = ''https''"
| "proxy_proto_display (PUnknown s) = s"

section \<open>Lemmas: ordered maps\<close>

definition im_keys :: "('k \<Rightarrow> 'q) \<Rightarrow> ('k, 'v) index_map \<Rightarrow> 'q list" where
  "im_keys uc m = map (\<lambda>(k, v). uc k) m"

definition im_inv :: "('k \<Rightarrow> 'q) \<Rightarrow> ('k, 'v) index_map \<Rightarrow> bool" where
  "im_inv uc m = distinct (im_keys uc m)"

lemma im_get_None: "im_get uc k m = None \<longleftrightarrow> uc k \<notin> set (im_keys uc m)"
  by (induction uc k m rule: im_get.induct) (auto simp: im_keys_def)

lemma im_get_insert: "im_get uc k (im_insert uc n v m) = (if uc n = uc k then Some v else im_get uc k m)"
  by (induction uc n v m rule: im_insert.induct) auto

lemma im_get_entry:
  "im_get uc k (im_entry uc n d f m) =
     (if uc n = uc k then Some (f (case im_get uc k m of None \<Rightarrow> d | Some v \<Rightarrow> v)) else im_get uc k m)"
  by (induction uc n d f m rule: im_entry.induct) auto

lemma im_keys_insert:
  "im_keys uc (im_insert uc n v m) = (if uc n \<in> set (im_keys uc m) then im_keys uc m else im_keys uc m @ [uc n])"
  by (induction uc n v m rule: im_insert.induct) (auto simp: im_keys_def)

lemma im_keys_entry:
  "im_keys uc (im_entry uc n d f m) =
     (if uc n \<in> set (im_keys uc m) then im_keys uc m else im_keys uc m @ [uc n])"
  by (induction uc n d f m rule: im_entry.induct) (auto simp: im_keys_def)

lemma im_get_iff:
  "im_inv uc m \<Longrightarrow> im_get uc k m = Some v \<longleftrightarrow> (\<exists>k'. (k', v) \<in> set m \<and> uc k' = uc k)"
  by (induction uc k m rule: im_get.induct) (auto simp: im_inv_def im_keys_def, force)

lemma im_get_cong_set:
  assumes "im_inv uc m" "im_inv uc m'"
    and "\<And>k' v. uc k' = uc k \<Longrightarrow> (k', v) \<in> set m \<longleftrightarrow> (k', v) \<in> set m'"
  shows "im_get uc k m = im_get uc k m'"
proof (rule option.expand)
  have "im_get uc k m = Some v \<longleftrightarrow> im_get uc k m' = Some v" for v
    using assms by (auto simp: im_get_iff)
  then show "(im_get uc k m = None) = (im_get uc k m' = None)" by (metis not_Some_eq)
  show "im_get uc k m \<noteq> None \<Longrightarrow> im_get uc k m' \<noteq> None \<Longrightarrow> the (im_get uc k m) = the (im_get uc k m')"
    using \<open>\<And>v. im_get uc k m = Some v \<longleftrightarrow> im_get uc k m' = Some v\<close> by force
qed

text \<open>\<open>swap_remove\<close> drops exactly the entry it finds, up to the order of the rest.\<close>

lemma swap_remove_split:
  assumes "find_index (\<lambda>(k', v). uc k' = uc k) m = Some i"
  obtains xs n v ys where "m = xs @ (n, v) # ys" and "uc n = uc k"
    and "im_swap_remove uc k m = xs @ (if ys = [] then [] else last ys # butlast ys)"
proof -
  obtain n v where nv: "m ! i = (n, v)" by (cases "m ! i")
  have i: "i < length m" "uc n = uc k" using assms nv by (auto simp: find_index_Some)
  have m: "m = take i m @ (n, v) # drop (Suc i) m" using i(1) nv by (metis id_take_nth_drop)
  have "im_swap_remove uc k m = take i m @ (if drop (Suc i) m = [] then []
      else last (drop (Suc i) m) # butlast (drop (Suc i) m))"
  proof (cases "drop (Suc i) m = []")
    case True
    then have "i = length m - 1" using i(1) by simp
    moreover have "butlast m = take i m" using True m by (metis butlast_snoc)
    ultimately show ?thesis using assms True by (simp add: im_swap_remove_def)
  next
    case False
    then have "i \<noteq> length m - 1" by auto
    moreover have "m[i := last m] = take i m @ last m # drop (Suc i) m"
      using i(1) by (simp add: upd_conv_take_nth_drop)
    ultimately show ?thesis
      using assms False by (simp add: im_swap_remove_def butlast_append)
  qed
  with m i that show thesis by blast
qed

lemma im_swap_remove_laws:
  assumes "im_inv uc m"
  shows "im_inv uc (im_swap_remove uc k m)
    \<and> im_get uc n (im_swap_remove uc k m) = (if uc k = uc n then None else im_get uc n m)"
proof (cases "find_index (\<lambda>(k', v). uc k' = uc k) m")
  case None
  then have "uc k \<notin> set (im_keys uc m)" by (auto simp: find_index_None im_keys_def)
  then have "uc k = uc n \<Longrightarrow> im_get uc n m = None" by (simp add: im_get_None)
  with None assms show ?thesis by (auto simp: im_swap_remove_def)
next
  case (Some i)
  then obtain xs a v ys where m: "m = xs @ (a, v) # ys" "uc a = uc k"
    and r: "im_swap_remove uc k m = xs @ (if ys = [] then [] else last ys # butlast ys)"
    by (rule swap_remove_split)
  let ?r = "im_swap_remove uc k m" and ?t = "if ys = [] then [] else last ys # butlast ys"
  have t: "mset ?t = mset ys" by (cases ys rule: rev_cases) simp_all
  then have "mset (im_keys uc ?r) = mset (im_keys uc (xs @ ys))"
    by (simp only: r im_keys_def map_append mset_append mset_map)
  moreover have d: "distinct (im_keys uc (xs @ ys))" and k: "uc k \<notin> set (im_keys uc (xs @ ys))"
    using assms m by (auto simp: im_inv_def im_keys_def)
  ultimately have inv: "im_inv uc ?r" unfolding im_inv_def by (metis mset_eq_imp_distinct_iff)
  have st: "set ?r = set (xs @ ys)" using t r by (metis mset_append mset_eq_setD)
  have "im_get uc n ?r = None" if "uc k = uc n"
    using k that st by (auto simp: im_get_None im_keys_def)
  moreover have "im_get uc n ?r = im_get uc n m" if "uc k \<noteq> uc n"
    by (rule im_get_cong_set [OF inv assms]) (use st that m in auto)
  ultimately show ?thesis using inv by simp
qed

end
