(* ===== verification/HeaderLaws.thy ===== *)
theory HeaderLaws
  imports Headers
begin

text \<open>
  The contract of a header collection, as a locale over the operations its clients call (\<open>Request\<close>,
  \<open>Response\<close>), its interpretation by \<open>HeaderMap\<close>, and the properties of \<open>header.rs\<close>.
\<close>

section \<open>The interface\<close>

text \<open>
  \<open>same\<close> is equality of names, \<open>get\<close> the values of a name in insertion order.
\<close>

locale header_store =
  fixes inv :: "'m \<Rightarrow> bool"
    and same :: "str \<Rightarrow> str \<Rightarrow> bool"
    and get :: "str \<Rightarrow> 'm \<Rightarrow> str list"
    and add :: "Header \<Rightarrow> 'm \<Rightarrow> 'm"
    and replace :: "Header \<Rightarrow> 'm \<Rightarrow> bool \<times> 'm"
    and remove :: "str \<Rightarrow> 'm \<Rightarrow> 'm"
  assumes same_refl: "same n n"
    and inv_add: "inv m \<Longrightarrow> inv (add h m)"
    and inv_replace: "inv m \<Longrightarrow> inv (snd (replace h m))"
    and inv_remove: "inv m \<Longrightarrow> inv (remove n m)"
    and get_add: "inv m \<Longrightarrow> get n (add h m) = (if same (h_name h) n then get n m @ [h_value h] else get n m)"
    and get_replace: "inv m \<Longrightarrow> get n (snd (replace h m)) = (if same (h_name h) n then [h_value h] else get n m)"
    and get_remove: "inv m \<Longrightarrow> get n (remove k m) = (if same k n then [] else get n m)"
begin

definition get_first :: "str \<Rightarrow> 'm \<Rightarrow> str option" where
  "get_first n m = (case get n m of [] \<Rightarrow> None | v # _ \<Rightarrow> Some v)"

text \<open>Adding to a name that has a value keeps its first value, which is what the request caches rely on.\<close>

lemma get_first_add:
  "inv m \<Longrightarrow> get_first n (add h m) =
     (if same (h_name h) n \<and> get_first n m = None then Some (h_value h) else get_first n m)"
  by (auto simp: get_first_def get_add split: list.splits)

lemma get_first_replace:
  "inv m \<Longrightarrow> get_first n (snd (replace h m)) =
     (if same (h_name h) n then Some (h_value h) else get_first n m)"
  by (simp add: get_first_def get_replace)

lemma inv_fold_add: "inv m \<Longrightarrow> inv (fold add hs m)"
  by (induction hs arbitrary: m) (auto simp: inv_add)

lemma get_fold_add:
  "inv m \<Longrightarrow> get n (fold add hs m) = get n m @ map h_value (filter (\<lambda>h. same (h_name h) n) hs)"
  by (induction hs arbitrary: m) (auto simp: inv_add get_add)

end

section \<open>Header maps provide it\<close>

lemma hm_get_add:
  "hm_get uc n (hm_add uc h m) =
     (if uc (h_name h) = uc n then hm_get uc n m @ [h_value h] else hm_get uc n m)"
  by (auto simp: hm_get_def hm_add_def im_get_entry split: option.splits)

lemma hm_get_replace:
  "hm_get uc n (snd (hm_replace uc h m)) =
     (if uc (h_name h) = uc n then [h_value h] else hm_get uc n m)"
  by (auto simp: hm_get_def hm_replace_def im_get_insert)

lemma hm_get_remove:
  "im_inv uc m \<Longrightarrow> hm_get uc n (hm_remove uc k m) = (if uc k = uc n then [] else hm_get uc n m)"
  by (simp add: hm_get_def hm_remove_def im_swap_remove_laws)

lemma hm_inv_add: "im_inv uc m \<Longrightarrow> im_inv uc (hm_add uc h m)"
  by (simp add: im_inv_def hm_add_def im_keys_entry)

lemma hm_inv_replace: "im_inv uc m \<Longrightarrow> im_inv uc (snd (hm_replace uc h m))"
  by (simp add: im_inv_def hm_replace_def im_keys_insert)

lemma hm_inv_remove: "im_inv uc m \<Longrightarrow> im_inv uc (hm_remove uc n m)"
  by (simp add: hm_remove_def im_swap_remove_laws)

interpretation hm: header_store "im_inv uc" "\<lambda>a b. uc a = uc b" "hm_get uc" "hm_add uc" "hm_replace uc"
    "hm_remove uc" for uc
  by unfold_locales
     (simp_all add: hm_get_add hm_get_replace hm_get_remove hm_inv_add hm_inv_replace hm_inv_remove)

lemma hm_get_one_first: "hm_get_one uc n m = hm.get_first uc n m"
  by (auto simp: hm_get_one_def hm.get_first_def hm_get_def split: option.splits list.splits)

section \<open>Lemmas\<close>

text \<open>The headers an iterator still has to yield.\<close>

definition it_pending :: "IntoIter \<Rightarrow> Header list" where
  "it_pending it =
     (case it_current it of None \<Rightarrow> [] | Some (name, vals) \<Rightarrow> map (header_new name) vals)
     @ hm_iter (it_headers it)"

lemma into_iter_next_loop_pending:
  "it_pending \<lparr>it_headers = hs, it_current = cur\<rparr> =
     (case into_iter_next_loop hs cur of (None, _) \<Rightarrow> [] | (Some h, it) \<Rightarrow> h # it_pending it)"
  by (induction hs cur rule: into_iter_next_loop.induct)
     (auto simp: it_pending_def hm_iter_def header_new_def split: option.splits prod.splits)

lemma into_iter_collect_pending: "into_iter_collect it = it_pending it"
proof (induction it rule: into_iter_collect.induct)
  case (1 it)
  have "it_pending it = (case into_iter_next it of (None, _) \<Rightarrow> [] | (Some h, it) \<Rightarrow> h # it_pending it)"
    using into_iter_next_loop_pending by (cases it) (simp add: into_iter_next_def)
  then show ?case
    using 1 by (subst into_iter_collect.simps) (auto split: prod.splits option.splits)
qed

lemma hm_iter_len: "length (hm_iter m) = hm_len m"
  by (induction m) (auto simp: hm_iter_def hm_len_def)

lemma valid_name_loop_iff: "valid_name_loop i bs \<longleftrightarrow> list_all is_tchar bs \<and> (i > 0 \<or> bs \<noteq> [])"
  by (induction i bs rule: valid_name_loop.induct) auto

lemma valid_value_loop_Suc: "valid_value_loop e (Suc i) bs \<longleftrightarrow> list_all is_valid_continue bs"
  by (induction bs arbitrary: i) auto

lemma not_tchar:
  "\<not> is_tchar (CHR 0x0A) \<and> \<not> is_tchar (CHR 0x0D) \<and> \<not> is_tchar (CHR 0x00) \<and> \<not> is_tchar (CHR '':'')"
  by code_simp

lemma not_valid_continue:
  "\<not> is_valid_continue (CHR 0x0A) \<and> \<not> is_valid_continue (CHR 0x0D) \<and> \<not> is_valid_continue (CHR 0x00)"
  by code_simp

section \<open>Properties\<close>

text \<open>
  C17. \<open>HeaderMap\<close> (\<open>header.rs\<close>): the map keeps one entry per uncased name under every operation, and the
  values of any name \<open>n\<close> after \<open>add\<close>, \<open>replace\<close>, \<open>replace_all\<close>, \<open>add_all\<close> and \<open>remove\<close> are exactly
  those a map from uncased names to value lists has; \<open>replace\<close> reports whether the name was present.
\<close>

theorem header_map_laws:
  assumes "im_inv uc m"
  shows "im_inv uc (hm_add uc h m) \<and> im_inv uc (snd (hm_replace uc h m))
      \<and> im_inv uc (hm_remove uc k m) \<and> im_inv uc (hm_replace_all uc k vs m)
      \<and> im_inv uc (snd (hm_add_all uc k vs m))
    \<and> hm_get uc n (hm_add uc h m) =
        (if uc (h_name h) = uc n then hm_get uc n m @ [h_value h] else hm_get uc n m)
    \<and> hm_get uc n (snd (hm_replace uc h m)) =
        (if uc (h_name h) = uc n then [h_value h] else hm_get uc n m)
    \<and> (fst (hm_replace uc h m) \<longleftrightarrow> hm_contains uc (h_name h) m)
    \<and> hm_get uc n (hm_replace_all uc k vs m) = (if uc k = uc n then vs else hm_get uc n m)
    \<and> hm_get uc n (snd (hm_add_all uc k vs m)) =
        (if uc k = uc n then hm_get uc n m @ vs else hm_get uc n m)
    \<and> hm_get uc n (hm_remove uc k m) = (if uc k = uc n then [] else hm_get uc n m)"
proof -
  have "hm_get uc n (hm_replace_all uc k vs m) = (if uc k = uc n then vs else hm_get uc n m)"
    by (simp add: hm_get_def hm_replace_all_def im_get_insert)
  moreover have "hm_get uc n (snd (hm_add_all uc k vs m)) =
      (if uc k = uc n then hm_get uc n m @ vs else hm_get uc n m)"
    by (auto simp: hm_get_def hm_add_all_def im_get_entry split: option.splits)
  moreover have "im_inv uc (hm_replace_all uc k vs m) \<and> im_inv uc (snd (hm_add_all uc k vs m))"
    using assms by (simp add: im_inv_def hm_replace_all_def hm_add_all_def im_keys_insert im_keys_entry)
  moreover have "fst (hm_replace uc h m) \<longleftrightarrow> hm_contains uc (h_name h) m"
    by (simp add: hm_replace_def hm_contains_def)
  ultimately show ?thesis
    using hm.inv_add [OF assms] hm.inv_replace [OF assms] hm.inv_remove [OF assms]
      hm.get_add [OF assms] hm.get_replace [OF assms] hm.get_remove [OF assms] by simp
qed

theorem header_map_laws_witness:
  "hm_get lowercase ''vary'' (hm_remove lowercase ''X'' [(''x'', [''1'']), (''Vary'', [''a'', ''b''])]) = [''a'', ''b'']"
proof -
  have "im_inv lowercase [(''x'', [''1'']), (''Vary'', [''a'', ''b''])]" by code_simp
  note L = header_map_laws [OF this, of undefined "''X''" undefined "''vary''"]
  have "hm_get lowercase ''vary'' [(''x'', [''1'']), (''Vary'', [''a'', ''b''])] = [''a'', ''b'']"
    and "lowercase ''X'' \<noteq> lowercase ''vary''" by code_simp+
  then show ?thesis using L by simp
qed

text \<open>
  Iteration (\<open>header.rs\<close>): the consuming iterator, which takes map entries until it finds a value,
  ends and yields exactly the headers of \<open>iter\<close> in the same order, \<open>len\<close> of them, also when some names
  have no value; \<open>remove_all\<close> returns them and leaves the map empty.
\<close>

theorem header_map_iteration:
  "into_iter_collect (hm_into_iter m) = hm_iter m \<and> length (hm_iter m) = hm_len m
   \<and> hm_remove_all m = (hm_iter m, hm_new) \<and> hm_is_empty (snd (hm_remove_all m))"
  by (simp add: into_iter_collect_pending it_pending_def hm_into_iter_def hm_iter_len hm_remove_all_def
      hm_is_empty_def hm_new_def)

text \<open>
  C18. Validation (\<open>Header::is_valid_name\<close>, \<open>Header::is_valid_value\<close>): a header whose name and value are
  accepted renders as one line: no line break and no NUL byte, and the first colon is the separator, so
  the name and the value can be read back.
\<close>

theorem header_no_injection:
  assumes "is_valid_name n" and "is_valid_value v e"
  shows "CHR 0x0A \<notin> set (header_display (header_new n v)) \<and> CHR 0x0D \<notin> set (header_display (header_new n v))
    \<and> CHR 0x00 \<notin> set (header_display (header_new n v)) \<and> n \<noteq> []
    \<and> split_once (CHR '':'') (header_display (header_new n v)) = Some (n, CHR '' '' # v)"
proof -
  have n: "list_all is_tchar n" "n \<noteq> []"
    using assms(1) by (auto simp: is_valid_name_def valid_name_loop_iff)
  have v: "list_all is_valid_continue v"
    using assms(2) by (cases v)
      (auto simp: is_valid_value_def valid_value_loop_Suc [of e 0, simplified] is_valid_continue_def split: if_splits)
  have "CHR 0x0A \<notin> set n \<and> CHR 0x0D \<notin> set n \<and> CHR 0x00 \<notin> set n \<and> CHR '':'' \<notin> set n"
    using n(1) not_tchar unfolding list_all_iff by blast
  moreover have "CHR 0x0A \<notin> set v \<and> CHR 0x0D \<notin> set v \<and> CHR 0x00 \<notin> set v"
    using v not_valid_continue unfolding list_all_iff by blast
  moreover have "split_once (CHR '':'') (n @ CHR '':'' # CHR '' '' # v) = Some (n, CHR '' '' # v)"
    using calculation by (simp add: split_once_Some)
  ultimately show ?thesis using n(2) by (simp add: header_display_def header_new_def)
qed

theorem header_no_injection_witness:
  "is_valid_name ''X-Id'' \<and> is_valid_value ''a b'' False
   \<and> split_once (CHR '':'') (header_display (header_new ''X-Id'' ''a b'')) = Some (''X-Id'', '' a b'')"
proof -
  have "is_valid_name ''X-Id''" and "is_valid_value ''a b'' False" by code_simp+
  then show ?thesis using header_no_injection [of "''X-Id''" "''a b''" False] by blast
qed

end
