(* ===== verification/Status.thy ===== *)
theory Status
  imports Prelude
begin

text \<open>
  Response statuses (\<open>core/http/src/status.rs\<close>).  \<open>Status\<close> wraps a \<open>u16\<close>; the rows of \<open>ctrs!\<close> are the
  table \<open>known_statuses\<close>, which \<open>from_code\<close> and \<open>reason\<close> search in the order of the match arms.
\<close>

section \<open>Model\<close>

datatype StatusClass = Informational | Success | Redirection | ClientError | ServerError | Unknown

record Status =
  code :: u16

definition status_new :: "u16 \<Rightarrow> Status" where
  "status_new c = \<lparr>code = c\<rparr>"

definition status_default :: Status where
  "status_default = status_new 200"

definition status_class :: "Status \<Rightarrow> StatusClass" where
  "status_class self =
     (let d = code self div 100
      in if d = 1 then Informational else if d = 2 then Success else if d = 3 then Redirection
         else if d = 4 then ClientError else if d = 5 then ServerError else Unknown)"

definition known_statuses :: "(u16 \<times> str) list" where
  "known_statuses = [
    (100, ''Continue''), (101, ''Switching Protocols''), (102, ''Processing''), (200, ''OK''),
    (201, ''Created''), (202, ''Accepted''), (203, ''Non-Authoritative Information''),
    (204, ''No Content''), (205, ''Reset Content''), (206, ''Partial Content''),
    (207, ''Multi-Status''), (208, ''Already Reported''), (226, ''IM Used''),
    (300, ''Multiple Choices''), (301, ''Moved Permanently''), (302, ''Found''),
    (303, ''See Other''), (304, ''Not Modified''), (305, ''Use Proxy''),
    (307, ''Temporary Redirect''), (308, ''Permanent Redirect''), (400, ''Bad Request''),
    (401, ''Unauthorized''), (402, ''Payment Required''), (403, ''Forbidden''),
    (404, ''Not Found''), (405, ''Method Not Allowed''), (406, ''Not Acceptable''),
    (407, ''Proxy Authentication Required''), (408, ''Request Timeout''), (409, ''Conflict''),
    (410, ''Gone''), (411, ''Length Required''), (412, ''Precondition Failed''),
    (413, ''Payload Too Large''), (414, ''URI Too Long''), (415, ''Unsupported Media Type''),
    (416, ''Range Not Satisfiable''), (417, ''Expectation Failed''), (418, ''I'm a teapot''),
    (421, ''Misdirected Request''), (422, ''Unprocessable Entity''), (423, ''Locked''),
    (424, ''Failed Dependency''), (426, ''Upgrade Required''),
    (428, ''Precondition Required''), (429, ''Too Many Requests''),
    (431, ''Request Header Fields Too Large''), (451, ''Unavailable For Legal Reasons''),
    (500, ''Internal Server Error''), (501, ''Not Implemented''), (502, ''Bad Gateway''),
    (503, ''Service Unavailable''), (504, ''Gateway Timeout''),
    (505, ''HTTP Version Not Supported''), (506, ''Variant Also Negotiates''),
    (507, ''Insufficient Storage''), (508, ''Loop Detected''), (510, ''Not Extended''),
    (511, ''Network Authentication Required'')]"

definition from_code :: "u16 \<Rightarrow> Status option" where
  "from_code c = map_option (\<lambda>_. status_new c) (map_of known_statuses c)"

definition reason :: "Status \<Rightarrow> str option" where
  "reason self = map_of known_statuses (code self)"

definition reason_lossy :: "Status \<Rightarrow> str" where
  "reason_lossy self =
     (case reason self of
        Some lossless \<Rightarrow> lossless
      | None \<Rightarrow> (case status_class self of
            Informational \<Rightarrow> ''Informational'' | Success \<Rightarrow> ''Success'' | Redirection \<Rightarrow> ''Redirection''
          | ClientError \<Rightarrow> ''Client Error'' | ServerError \<Rightarrow> ''Server Error'' | Unknown \<Rightarrow> ''Unknown''))"

abbreviation Status_Ok :: Status where "Status_Ok \<equiv> \<lparr>code = 200\<rparr>"
abbreviation Status_NoContent :: Status where "Status_NoContent \<equiv> \<lparr>code = 204\<rparr>"
abbreviation Status_NotModified :: Status where "Status_NotModified \<equiv> \<lparr>code = 304\<rparr>"
abbreviation Status_BadRequest :: Status where "Status_BadRequest \<equiv> \<lparr>code = 400\<rparr>"
abbreviation Status_NotFound :: Status where "Status_NotFound \<equiv> \<lparr>code = 404\<rparr>"
abbreviation Status_PayloadTooLarge :: Status where "Status_PayloadTooLarge \<equiv> \<lparr>code = 413\<rparr>"
abbreviation Status_UnprocessableEntity :: Status where "Status_UnprocessableEntity \<equiv> \<lparr>code = 422\<rparr>"
abbreviation Status_InternalServerError :: Status where "Status_InternalServerError \<equiv> \<lparr>code = 500\<rparr>"
abbreviation Status_ServiceUnavailable :: Status where "Status_ServiceUnavailable \<equiv> \<lparr>code = 503\<rparr>"

text \<open>
  Deserialization (\<open>visit_i64\<close>, \<open>visit_u64\<close>): integers outside the range from 100 to 599 are refused
  before the narrowing cast.
\<close>

definition visit_i64 :: "int \<Rightarrow> (Status, int) result" where
  "visit_i64 v = (if v < 100 \<or> v \<ge> 600 then Err v else Ok (status_new (of_int v)))"

definition visit_u64 :: "nat \<Rightarrow> (Status, nat) result" where
  "visit_u64 v = (if v < 100 \<or> v \<ge> 600 then Err v else Ok (status_new (of_nat v)))"

section \<open>Lemmas\<close>

lemma unat_div_100: "unat ((c :: u16) div 100) = unat c div 100"
  by (simp add: unat_div)

lemma u16_eq_iff: "(a :: u16) = b \<longleftrightarrow> unat a = unat b"
  by (simp add: word_unat_eq_iff)

lemma status_class_unat:
  "status_class s =
     (let d = unat (code s) div 100
      in if d = 1 then Informational else if d = 2 then Success else if d = 3 then Redirection
         else if d = 4 then ClientError else if d = 5 then ServerError else Unknown)"
  by (simp add: status_class_def Let_def u16_eq_iff unat_div_100)

lemma known_status_range: "list_all (\<lambda>(c, r). 100 \<le> c \<and> c < 600 \<and> r \<noteq> []) known_statuses"
  by (simp add: known_statuses_def)

section \<open>Properties\<close>

text \<open>
  Status codes (\<open>status.rs\<close>): the class is \<open>Unknown\<close> exactly outside 100 to 599; a code that
  \<open>from_code\<close> knows is wrapped unchanged, has a nonempty reason phrase and a known class; \<open>reason_lossy\<close>
  is never empty; and deserializing an integer in range gives the status with exactly that code, with
  no truncation by the cast.
\<close>

theorem status_codes:
  "(status_class s = Unknown \<longleftrightarrow> unat (code s) < 100 \<or> 600 \<le> unat (code s))
   \<and> (from_code c = Some s \<longleftrightarrow> code s = c \<and> reason s \<noteq> None)
   \<and> (if reason s \<noteq> None then status_class s \<noteq> Unknown else True)
   \<and> reason_lossy s \<noteq> []
   \<and> (visit_i64 v = Ok s \<longleftrightarrow> 100 \<le> v \<and> v < 600 \<and> int (unat (code s)) = v)"
proof -
  have cls: "status_class s = Unknown \<longleftrightarrow> unat (code s) < 100 \<or> 600 \<le> unat (code s)"
    by (auto simp: status_class_unat Let_def)
  have known: "100 \<le> code s \<and> code s < 600 \<and> r \<noteq> []" if "reason s = Some r" for r
    using that known_status_range by (auto simp: reason_def list_all_iff dest!: map_of_SomeD)
  have "from_code c = Some s \<longleftrightarrow> code s = c \<and> reason s \<noteq> None"
    by (auto simp: from_code_def reason_def status_new_def)
  moreover have "status_class s \<noteq> Unknown" if "reason s \<noteq> None"
    using that known cls by (auto simp: word_le_nat_alt word_less_nat_alt)
  moreover have "reason_lossy s \<noteq> []"
    using known by (auto simp: reason_lossy_def split: option.split StatusClass.split)
  moreover have "visit_i64 v = Ok s \<longleftrightarrow> 100 \<le> v \<and> v < 600 \<and> int (unat (code s)) = v"
    by (auto simp: visit_i64_def status_new_def unsigned_of_int take_bit_int_eq_self_iff)
  ultimately show ?thesis using cls by auto
qed

end
