(* ===== verification/RouteModel.thy ===== *)
theory RouteModel
  imports UriPath HeaderLaws Status
begin

text \<open>
  Routes and catchers as values (\<open>core/lib/src/route\<close>: \<open>segment.rs\<close>, \<open>uri.rs\<close>, \<open>route.rs\<close>;
  \<open>core/lib/src/catcher/catcher.rs\<close>): how route URIs are composed and classified, how ranks are
  computed, and how routes and catchers are rebased.

  The record \<open>ext\<close> gathers the code these files call that the model takes as given: percent decoding
  (crate \<open>percent-encoding\<close>), the key of uncased names (crate \<open>uncased\<close>), and the parsers of origins,
  content types and \<open>Accept\<close> headers, which are generated with the crate \<open>pear\<close>.  Handlers are values of
  an arbitrary type \<open>'h\<close>.  A panic (\<open>expect\<close>, \<open>assert!\<close>) is an error result.
\<close>

section \<open>External code\<close>

record ext =
  x_pd :: lossy_decoder
  x_uc :: uncased_key
  x_origin_parse :: "str \<Rightarrow> (origin, uri_error) result"
  x_content_type_parse :: "str \<Rightarrow> (ContentType, str) result"
  x_accept_parse :: "str \<Rightarrow> (Accept, str) result"

text \<open>
  What the code relies on: decoding a nonempty text does not give the empty text, and an origin that
  parses starts with a slash, consists of path and query bytes, and prints back as the text parsed.
\<close>

definition pd_nonempty :: "lossy_decoder \<Rightarrow> bool" where
  "pd_nonempty pd = (\<forall>s. s \<noteq> [] \<longrightarrow> cow_val (pd s) \<noteq> [])"

definition origin_ok :: "origin \<Rightarrow> bool" where
  "origin_ok u =
     (starts_with (o_path u) ''/'' \<and> list_all is_pchar (o_path u)
      \<and> (case o_query u of None \<Rightarrow> True | Some q \<Rightarrow> list_all is_qchar q))"

definition origin_parse_sound :: "(str \<Rightarrow> (origin, uri_error) result) \<Rightarrow> bool" where
  "origin_parse_sound oparse =
     (\<forall>s u. oparse s = Ok u \<longrightarrow> origin_ok u \<and> origin_display u = s)"

section \<open>Model: route segments\<close>

record Segment =
  seg_value :: str
  seg_dynamic :: bool
  seg_dynamic_trail :: bool

definition segment_from :: "str \<Rightarrow> Segment" where
  "segment_from segment =
     (if starts_with segment ''<'' \<and> ends_with segment ''>'' then
        let val = take (length segment - 2) (drop 1 segment)
        in if ends_with val ''..''
           then \<lparr>seg_value = take (length val - 2) val, seg_dynamic = True, seg_dynamic_trail = True\<rparr>
           else \<lparr>seg_value = val, seg_dynamic = True, seg_dynamic_trail = False\<rparr>
      else \<lparr>seg_value = segment, seg_dynamic = False, seg_dynamic_trail = False\<rparr>)"

section \<open>Model: route URIs\<close>

datatype Color = Static | Partial | Wild

fun color_u8 :: "Color \<Rightarrow> u8" where
  "color_u8 Static = 3"
| "color_u8 Partial = 2"
| "color_u8 Wild = 1"

record Metadata =
  uri_segments :: "Segment list"
  base_len :: nat
  static_query_fields :: "(str \<times> str) list"
  path_color :: Color
  query_color :: "Color option"
  dynamic_trail :: bool

record RouteUri =
  ru_base :: origin
  ru_unmounted :: origin
  ru_uri :: origin
  ru_metadata :: Metadata

text \<open>\<open>ValueField::parse\<close>: the field is split at its first \<open>=\<close>.\<close>

definition value_field_parse :: "str \<Rightarrow> str \<times> str" where
  "value_field_parse field = split_at_byte (CHR ''='') field"

definition color_of :: "bool \<Rightarrow> bool \<Rightarrow> Color" where
  "color_of is_static is_wild = (if is_static then Static else if is_wild then Wild else Partial)"

definition metadata_from :: "lossy_decoder \<Rightarrow> origin \<Rightarrow> origin \<Rightarrow> Metadata" where
  "metadata_from pd base uri =
     (let uri_segs = map segment_from (path_raw_segments (o_path uri));
          query_segs = (case o_query uri of None \<Rightarrow> [] | Some q \<Rightarrow> map segment_from (query_raw_segments q));
          fields = map (\<lambda>s. value_field_parse (seg_value s)) (filter (\<lambda>s. \<not> seg_dynamic s) query_segs);
          static_path = list_all (\<lambda>s. \<not> seg_dynamic s) uri_segs;
          wild_path = (uri_segs \<noteq> [] \<and> list_all seg_dynamic uri_segs);
          q_color = (if query_segs \<noteq> []
                     then Some (color_of (list_all (\<lambda>s. \<not> seg_dynamic s) query_segs) (list_all seg_dynamic query_segs))
                     else None);
          trail = (if uri_segs = [] then False else seg_dynamic_trail (last uri_segs));
          base_segs = path_segments pd (o_path base);
          num_empty = length (filter (\<lambda>s. s = []) base_segs)
      in \<lparr>uri_segments = uri_segs, base_len = length base_segs - num_empty,
          static_query_fields = fields, path_color = color_of static_path wild_path,
          query_color = q_color, dynamic_trail = trail\<rparr>)"

definition try_new :: "ext \<Rightarrow> str \<Rightarrow> str \<Rightarrow> (RouteUri, uri_error) result" where
  "try_new x base uri =
     (case x_origin_parse x base of
        Err e \<Rightarrow> Err e
      | Ok b \<Rightarrow>
          let base = clear_query (into_normalized b)
          in case parse_route uri of
               Err e \<Rightarrow> Err e
             | Ok r \<Rightarrow>
                 let origin = into_normalized r;
                     route_uri = (if o_path origin = ''/'' \<and> \<not> has_trailing_slash base
                                  then (case o_query origin of
                                          Some query \<Rightarrow> origin_display base @ ''?'' @ query
                                        | None \<Rightarrow> origin_display base)
                                  else origin_display base @ origin_display origin)
                 in case parse_route route_uri of
                      Err e \<Rightarrow> Err e
                    | Ok u \<Rightarrow>
                        let uri = into_normalized u
                        in Ok \<lparr>ru_base = base, ru_unmounted = origin, ru_uri = uri,
                               ru_metadata = metadata_from (x_pd x) base uri\<rparr>)"

definition default_rank :: "RouteUri \<Rightarrow> int" where
  "default_rank self =
     (let raw_path_weight = color_u8 (path_color (ru_metadata self));
          raw_query_weight = (case query_color (ru_metadata self) of None \<Rightarrow> 0 | Some c \<Rightarrow> color_u8 c);
          raw_weight = or (push_bit 2 raw_path_weight) raw_query_weight
      in - (uint raw_weight - 3))"

section \<open>Model: routes\<close>

record 'h Route =
  rt_name :: "str option"
  rt_method :: "Method option"
  rt_handler :: 'h
  rt_uri :: RouteUri
  rt_rank :: int
  rt_format :: "MediaType option"

definition ranked :: "ext \<Rightarrow> int option \<Rightarrow> Method option \<Rightarrow> str \<Rightarrow> 'h \<Rightarrow> ('h Route, uri_error) result" where
  "ranked x rank m uri handler =
     (case try_new x ''/'' uri of
        Err e \<Rightarrow> Err e
      | Ok u \<Rightarrow> Ok \<lparr>rt_name = None, rt_method = m, rt_handler = handler, rt_uri = u,
                  rt_rank = (case rank of Some r \<Rightarrow> r | None \<Rightarrow> default_rank u), rt_format = None\<rparr>)"

definition route_new :: "ext \<Rightarrow> Method option \<Rightarrow> str \<Rightarrow> 'h \<Rightarrow> ('h Route, uri_error) result" where
  "route_new x m uri handler = ranked x None m uri handler"

definition route_rebase :: "ext \<Rightarrow> origin \<Rightarrow> 'h Route \<Rightarrow> ('h Route, uri_error) result" where
  "route_rebase x base self =
     (let new_base = (if o_path (ru_base (rt_uri self)) = ''/'' then o_path base
                      else o_path base @ o_path (ru_base (rt_uri self)))
      in case try_new x new_base (origin_display (ru_unmounted (rt_uri self))) of
           Err e \<Rightarrow> Err e
         | Ok u \<Rightarrow> Ok (self\<lparr>rt_uri := u\<rparr>))"

definition route_map_base :: "ext \<Rightarrow> (origin \<Rightarrow> str) \<Rightarrow> 'h Route \<Rightarrow> ('h Route, uri_error) result" where
  "route_map_base x mapper self =
     (case try_new x (mapper (ru_base (rt_uri self))) (origin_display (ru_unmounted (rt_uri self))) of
        Err e \<Rightarrow> Err e
      | Ok u \<Rightarrow> Ok (self\<lparr>rt_uri := u\<rparr>))"

record 'h RouteStaticInfo =
  ri_name :: str
  ri_method :: "Method option"
  ri_uri :: str
  ri_format :: "MediaType option"
  ri_handler :: 'h
  ri_rank :: "int option"

definition route_from_info :: "ext \<Rightarrow> 'h RouteStaticInfo \<Rightarrow> ('h Route, uri_error) result" where
  "route_from_info x info =
     (case try_new x ''/'' (ri_uri info) of
        Err e \<Rightarrow> Err e
      | Ok u \<Rightarrow> Ok \<lparr>rt_name = Some (ri_name info), rt_method = ri_method info, rt_handler = ri_handler info,
                  rt_uri = u, rt_rank = (case ri_rank info of Some r \<Rightarrow> r | None \<Rightarrow> default_rank u),
                  rt_format = ri_format info\<rparr>)"

section \<open>Model: catchers\<close>

record 'h Catcher =
  ca_name :: "str option"
  ca_code :: "u16 option"
  ca_handler :: 'h
  ca_base :: origin
  ca_rank :: int

datatype catcher_panic = BadCatcherCode u16 | BadRebase uri_error

definition catcher_rank :: "lossy_decoder \<Rightarrow> str \<Rightarrow> int" where
  "catcher_rank pd path = - int (length (filter (\<lambda>s. s \<noteq> []) (path_segments pd path)))"

definition catcher_new :: "ext \<Rightarrow> u16 option \<Rightarrow> 'h \<Rightarrow> ('h Catcher, catcher_panic) result" where
  "catcher_new x cd handler =
     (let c = \<lparr>ca_name = None, ca_code = cd, ca_handler = handler, ca_base = origin_root,
               ca_rank = catcher_rank (x_pd x) (o_path origin_root)\<rparr>
      in case cd of
           Some n \<Rightarrow> if 400 \<le> n \<and> n < 600 then Ok c else Err (BadCatcherCode n)
         | None \<Rightarrow> Ok c)"

definition catcher_rebase :: "ext \<Rightarrow> origin \<Rightarrow> 'h Catcher \<Rightarrow> ('h Catcher, catcher_panic) result" where
  "catcher_rebase x base self =
     (let with_base = (\<lambda>b. self\<lparr>ca_base := b, ca_rank := catcher_rank (x_pd x) (o_path b)\<rparr>)
      in if o_path (ca_base self) = ''/'' then
           Ok (with_base (into_normalized_nontrailing (clear_query base)))
         else (case x_origin_parse x (o_path base @ origin_display (ca_base self)) of
                 Err e \<Rightarrow> Err (BadRebase e)
               | Ok u \<Rightarrow> Ok (with_base (into_normalized_nontrailing u))))"

definition catcher_map_base :: "ext \<Rightarrow> (origin \<Rightarrow> str) \<Rightarrow> 'h Catcher \<Rightarrow> ('h Catcher, uri_error) result" where
  "catcher_map_base x mapper self =
     (case x_origin_parse x (mapper (ca_base self)) of
        Err e \<Rightarrow> Err e
      | Ok u \<Rightarrow>
          let b = clear_query (into_normalized_nontrailing u)
          in Ok (self\<lparr>ca_base := b, ca_rank := catcher_rank (x_pd x) (o_path b)\<rparr>))"

definition catcher_default :: "ext \<Rightarrow> 'h \<Rightarrow> ('h Catcher, catcher_panic) result" where
  "catcher_default x handler =
     (case catcher_new x None handler of
        Err e \<Rightarrow> Err e
      | Ok c \<Rightarrow> Ok (c\<lparr>ca_name := Some ''<Rocket Catcher>''\<rparr>))"

record 'h CatcherStaticInfo =
  ci_name :: str
  ci_code :: "u16 option"
  ci_handler :: 'h

definition catcher_from_info :: "ext \<Rightarrow> 'h CatcherStaticInfo \<Rightarrow> ('h Catcher, catcher_panic) result" where
  "catcher_from_info x info =
     (case catcher_new x (ci_code info) (ci_handler info) of
        Err e \<Rightarrow> Err e
      | Ok c \<Rightarrow> Ok (c\<lparr>ca_name := Some (ci_name info)\<rparr>))"

section \<open>Lemmas: ranks\<close>

lemma color_u8_range: "color_u8 c \<in> {1, 2, 3}"
  by (cases c) simp_all

lemma default_rank_eq:
  "default_rank u =
     3 - (4 * uint (color_u8 (path_color (ru_metadata u)))
          + (case query_color (ru_metadata u) of None \<Rightarrow> 0 | Some c \<Rightarrow> uint (color_u8 c)))"
proof -
  have "uint (or (push_bit 2 (color_u8 c)) (color_u8 d)) = 4 * uint (color_u8 c) + uint (color_u8 d)" for c d
    by (cases c; cases d) (simp_all add: push_bit_of_1)
  moreover have "uint (or (push_bit 2 (color_u8 c)) 0) = 4 * uint (color_u8 c)" for c
    by (cases c) simp_all
  ultimately show ?thesis
    by (simp add: default_rank_def Let_def split: option.split)
qed

text \<open>The weight of a colour as the documentation orders it: static above partial above wild above none.\<close>

fun color_weight :: "Color option \<Rightarrow> nat" where
  "color_weight None = 0"
| "color_weight (Some Wild) = 1"
| "color_weight (Some Partial) = 2"
| "color_weight (Some Static) = 3"

text \<open>
  Default ranks (\<open>RouteUri::default_rank\<close>, \<open>uri.rs\<close>): the rank computed on \<open>u8\<close> by shifting the path
  colour over the query colour lies between -12 and -1 and orders routes lexicographically: the route
  with the more specific path goes first, and among equally specific paths the one with the more
  specific query.
\<close>

theorem default_rank_order:
  "-12 \<le> default_rank u \<and> default_rank u \<le> -1
   \<and> (default_rank u < default_rank v \<longleftrightarrow>
        color_weight (Some (path_color (ru_metadata v))) < color_weight (Some (path_color (ru_metadata u)))
        \<or> path_color (ru_metadata v) = path_color (ru_metadata u)
          \<and> color_weight (query_color (ru_metadata v)) < color_weight (query_color (ru_metadata u)))"
proof -
  have c: "uint (color_u8 c) = int (color_weight (Some c))" for c by (cases c) simp_all
  have q: "(case qc of None \<Rightarrow> 0 | Some c \<Rightarrow> uint (color_u8 c)) = int (color_weight qc)" for qc
    by (simp add: c split: option.split)
  have b: "1 \<le> color_weight (Some c) \<and> color_weight (Some c) \<le> 3" for c by (cases c) simp_all
  have bq: "color_weight qc \<le> 3" for qc by (cases qc) (use b in auto)
  have inj: "c = d \<longleftrightarrow> color_weight (Some c) = color_weight (Some d)" for c d by (cases c; cases d) simp_all
  show ?thesis
    unfolding default_rank_eq q unfolding c inj
    using b [of "path_color (ru_metadata u)"] b [of "path_color (ru_metadata v)"]
      bq [of "query_color (ru_metadata u)"] bq [of "query_color (ru_metadata v)"] by linarith
qed

section \<open>Lemmas: mounting\<close>

lemma decode_path_Nil [simp]: "decode_path pd [] = []"
  by (simp add: decode_path_def percent_decode_lossy_def)

lemma decode_path_nonempty: "pd_nonempty pd \<Longrightarrow> decode_path pd s = [] \<longleftrightarrow> s = []"
  by (simp add: decode_path_def percent_decode_lossy_def pd_nonempty_def)

lemma filter_decode:
  "pd_nonempty pd \<Longrightarrow> filter (\<lambda>s. s \<noteq> []) (map (decode_path pd) xs) = map (decode_path pd) (filter (\<lambda>s. s \<noteq> []) xs)"
  by (induction xs) (auto simp: decode_path_nonempty)

lemma trim_end_all_printable: "list_all printable s \<Longrightarrow> trim_end s = s"
  by (cases s rule: rev_cases) (auto simp: trim_end_snoc_printable)

lemma raw_segments_printable: "list_all printable t \<Longrightarrow> path_raw_segments (slash # t) = split slash t"
  by (simp add: raw_segments_slash trim_end_all_printable)

lemma path_segments_append:
  assumes "pd_nonempty pd" and "list_all printable b" and "list_all printable p"
  shows "path_segments pd (slash # b @ slash # p) =
    filter (\<lambda>s. s \<noteq> []) (path_segments pd (slash # b)) @ path_segments pd (slash # p)"
proof -
  have pr: "list_all printable (b @ slash # p)" using assms by (simp add: printable_def)
  have "filter (\<lambda>s. s \<noteq> []) (filter (\<lambda>s. s \<noteq> []) (butlast xs) @ [last xs]) = filter (\<lambda>s. s \<noteq> []) xs"
    if "xs \<noteq> []" for xs :: "str list"
    using that by (cases xs rule: rev_cases) auto
  from this [OF split_nonempty]
  have ne: "filter (\<lambda>s. s \<noteq> []) (path_segments pd (slash # b)) =
      map (decode_path pd) (filter (\<lambda>s. s \<noteq> []) (split slash b))"
    by (simp only: path_segments_eq raw_segments_printable [OF assms(2)] filter_decode [OF assms(1)])
  have "path_raw_segments (slash # b @ slash # p) = split slash b @ split slash p"
    using raw_segments_printable [OF pr] split_append_last [of slash b p] by simp
  then show ?thesis
    unfolding ne by (simp add: path_segments_eq raw_segments_printable assms butlast_append)
qed

lemma set_push_normalized: "set (path_to_normalized True trail p) \<subseteq> insert slash (set p)"
proof -
  let ?xs = "filter (\<lambda>s. s \<noteq> []) (path_raw_segments p)"
  have "set x \<subseteq> set p" if "x \<in> set (path_raw_segments p)" for x
  proof -
    have "set x \<subseteq> set (case strip_prefix slash (trim p) of Some r \<Rightarrow> r | None \<Rightarrow> trim p)"
      using that split_subset [of x slash] unfolding path_raw_segments_def Let_def by blast
    also have "\<dots> \<subseteq> set (trim p)" by (cases "trim p") auto
    finally show ?thesis using set_trim by blast
  qed
  then have "(\<Union> (set ` set ?xs)) \<subseteq> set p" by (intro UN_least) simp
  then have "set (join slash ?xs) \<subseteq> insert slash (set p)"
    using set_join [of slash ?xs] by (meson insert_mono order_trans)
  then show ?thesis unfolding path_to_normalized_eq Let_def by simp blast
qed

lemma into_normalized_path_set: "set (o_path (into_normalized u)) \<subseteq> insert slash (set (o_path u))"
  using set_push_normalized by (auto simp: into_normalized_def normalize_path)

lemma list_all_normalized:
  "P slash \<Longrightarrow> list_all P (o_path u) \<Longrightarrow> list_all P (o_path (into_normalized u))"
  using into_normalized_path_set [of u] unfolding list_all_iff by blast

lemma into_normalized_slash: "starts_with (o_path u) ''/'' \<Longrightarrow> \<exists>t. o_path (into_normalized u) = slash # t"
  by (auto simp: into_normalized_def normalize_path path_to_normalized_eq Let_def starts_with_def prefix_def)

lemma into_normalized_segments: "path_segments pd (o_path (into_normalized u)) = path_segments pd (o_path u)"
  by (simp add: into_normalized_def normalize_path to_normalized_segments)

lemma question_not_pchar: "\<not> is_pchar (CHR ''?'')"
  by (simp add: is_pchar_iff class_sets)

lemma slash_classes: "is_pchar slash \<and> printable slash \<and> slash \<noteq> CHR ''?''"
  by (simp add: is_pchar_iff class_sets printable_def)

lemma parse_route_display:
  assumes "starts_with (o_path u) ''/''" and "CHR ''?'' \<notin> set (o_path u)"
  shows "parse_route (origin_display u) = Ok u"
proof (cases "o_query u")
  case None
  then have "split_once (CHR ''?'') (origin_display u) = None"
    using assms(2) by (simp add: split_once_None origin_display_def)
  then show ?thesis using assms(1) None by (simp add: parse_route_def origin_display_def origin_new_def)
next
  case (Some q)
  then have "split_once (CHR ''?'') (origin_display u) = Some (o_path u, q)"
    using assms(2) by (simp add: split_once_Some origin_display_def)
  moreover have "starts_with (origin_display u) ''/''"
    using assms(1) by (auto simp: starts_with_def origin_display_def prefix_def)
  ultimately show ?thesis using Some by (simp add: parse_route_def origin_new_def)
qed

lemma parse_route_Ok:
  assumes "parse_route s = Ok u"
  shows "s = origin_display u \<and> starts_with (o_path u) ''/'' \<and> CHR ''?'' \<notin> set (o_path u)"
proof -
  have st: "starts_with s ''/''" using assms by (auto simp: parse_route_def split: if_splits)
  show ?thesis
  proof (cases "split_once (CHR ''?'') s")
    case None
    then have "u = origin_new s None" using assms st by (simp add: parse_route_def)
    moreover have "CHR ''?'' \<notin> set s" using None by (simp add: split_once_None)
    ultimately show ?thesis using st by (simp add: origin_new_def origin_display_def)
  next
    case (Some ab)
    obtain a b where ab: "ab = (a, b)" by (cases ab)
    with Some have s: "s = a @ CHR ''?'' # b" "CHR ''?'' \<notin> set a" by (simp_all add: split_once_Some)
    have "u = origin_new a (Some b)" using assms st Some ab by (simp add: parse_route_def)
    moreover have "starts_with a ''/''" using st s by (cases a) (auto simp: starts_with_def)
    ultimately show ?thesis using s by (simp add: origin_new_def origin_display_def)
  qed
qed

text \<open>The origin a route is mounted at, before the last normalization.\<close>

definition mounted :: "origin \<Rightarrow> origin \<Rightarrow> origin" where
  "mounted base origin =
     \<lparr>o_path = (if o_path origin = ''/'' \<and> \<not> has_trailing_slash base then o_path base
                else o_path base @ o_path origin),
      o_query = o_query origin\<rparr>"

lemma mounted_display:
  "o_query base = None \<Longrightarrow>
   (if o_path origin = ''/'' \<and> \<not> has_trailing_slash base
    then (case o_query origin of Some query \<Rightarrow> origin_display base @ ''?'' @ query | None \<Rightarrow> origin_display base)
    else origin_display base @ origin_display origin) = origin_display (mounted base origin)"
  by (auto simp: mounted_def origin_display_def split: option.split)

lemma try_new_OkE:
  assumes "origin_parse_sound (x_origin_parse x)" and "try_new x base uri = Ok u"
  obtains b r where "x_origin_parse x base = Ok b" and "parse_route uri = Ok r"
    and "ru_base u = clear_query (into_normalized b)" and "ru_unmounted u = into_normalized r"
    and "ru_uri u = into_normalized (mounted (ru_base u) (ru_unmounted u))"
    and "ru_metadata u = metadata_from (x_pd x) (ru_base u) (ru_uri u)"
proof -
  from assms(2) obtain b r v where 1: "x_origin_parse x base = Ok b" "parse_route uri = Ok r"
    and v: "parse_route (origin_display (mounted (clear_query (into_normalized b)) (into_normalized r))) = Ok v"
    and u: "u = \<lparr>ru_base = clear_query (into_normalized b), ru_unmounted = into_normalized r,
      ru_uri = into_normalized v,
      ru_metadata = metadata_from (x_pd x) (clear_query (into_normalized b)) (into_normalized v)\<rparr>"
    unfolding try_new_def Let_def
    by (subst (asm) mounted_display) (auto simp: clear_query_def split: sum.splits)
  let ?m = "mounted (clear_query (into_normalized b)) (into_normalized r)"
  have b: "origin_ok b" using assms(1) 1(1) by (simp add: origin_parse_sound_def)
  have r: "starts_with (o_path r) ''/''" "CHR ''?'' \<notin> set (o_path r)"
    using parse_route_Ok [OF 1(2)] by simp_all
  have nq: "list_all (\<lambda>c. c \<noteq> CHR ''?'') (o_path b)"
    using b question_not_pchar unfolding origin_ok_def list_all_iff by blast
  have "list_all (\<lambda>c. c \<noteq> CHR ''?'') (o_path r)" using r(2) unfolding list_all_iff by blast
  then have "list_all (\<lambda>c. c \<noteq> CHR ''?'') (o_path (into_normalized r))"
    by (rule list_all_normalized [rotated]) simp
  moreover have "list_all (\<lambda>c. c \<noteq> CHR ''?'') (o_path (into_normalized b))"
    using nq by (rule list_all_normalized [rotated]) simp
  ultimately have "list_all (\<lambda>c. c \<noteq> CHR ''?'') (o_path ?m)"
    by (simp add: mounted_def clear_query_def)
  moreover have "starts_with (o_path ?m) ''/''"
    using into_normalized_slash [of b] b
    by (auto simp: mounted_def clear_query_def origin_ok_def starts_with_def)
  ultimately have "parse_route (origin_display ?m) = Ok ?m"
    by (intro parse_route_display) (simp_all only: list_all_iff, blast)
  with v have "v = ?m" by simp
  with 1 u that show thesis by simp
qed


lemma base_len_eq:
  "base_len (metadata_from pd base uri) = length (filter (\<lambda>s. s \<noteq> []) (path_segments pd (o_path base)))"
proof -
  have "length (filter P xs) = length xs - length (filter (\<lambda>s. \<not> P s) xs)" for P and xs :: "str list"
    using sum_length_filter_compl [of P xs] by linarith
  from this [of "\<lambda>s. s \<noteq> []"] show ?thesis by (simp add: metadata_from_def Let_def)
qed

lemma path_segments_nontrailing:
  assumes "pd_nonempty pd" and "path_is_normalized True p" and "list_all printable p"
    and "\<not> (1 < length p \<and> ends_with p ''/'')" and "p \<noteq> ''/''"
  shows "filter (\<lambda>s. s \<noteq> []) (path_segments pd p) = path_segments pd p"
proof -
  obtain t where p: "p = slash # t" "t \<noteq> []"
    using assms(2,5) by (cases p) (auto simp: path_is_normalized_iff)
  then have "last t \<noteq> slash" using assms(4) by (simp add: ends_with_singleton)
  then have "last (split slash t) \<noteq> []" using p(2) by (simp add: last_split_eq_Nil)
  then show ?thesis
    using assms p by (simp add: path_segments_eq raw_segments_printable filter_decode [OF assms(1), symmetric]
        decode_path_nonempty del: map_append)
qed

text \<open>The text of the path a route is mounted at: that of the base followed by that of the route.\<close>

lemma try_new_paths:
  assumes "origin_parse_sound (x_origin_parse x)" and "list_all printable uri" and "try_new x base uri = Ok u"
  obtains tb tr where "o_path (ru_base u) = slash # tb" and "list_all printable tb"
    and "o_path (ru_unmounted u) = slash # tr" and "list_all printable tr"
proof -
  obtain b r where p: "x_origin_parse x base = Ok b" "parse_route uri = Ok r"
    and b: "ru_base u = clear_query (into_normalized b)" and r: "ru_unmounted u = into_normalized r"
    using assms(1,3) by (rule try_new_OkE)
  have okb: "origin_ok b" using assms(1) p(1) by (simp add: origin_parse_sound_def)
  have pb: "list_all printable (o_path b)"
    using okb is_pchar_printable unfolding origin_ok_def list_all_iff by blast
  have "uri = origin_display r" using parse_route_Ok [OF p(2)] by simp
  then have pr: "list_all printable (o_path r)"
    using assms(2) by (auto simp: origin_display_def split: option.splits)
  obtain tb where tb: "o_path (ru_base u) = slash # tb"
    using into_normalized_slash [of b] okb by (auto simp: b clear_query_def origin_ok_def)
  obtain tr where tr: "o_path (ru_unmounted u) = slash # tr"
    using into_normalized_slash [of r] parse_route_Ok [OF p(2)] by (auto simp: r)
  have "list_all printable tb"
    using list_all_normalized [OF _ pb] slash_classes tb by (simp add: b clear_query_def)
  moreover have "list_all printable tr" using list_all_normalized [OF _ pr] slash_classes tr by (simp add: r)
  ultimately show thesis using tb tr that by blast
qed

lemma try_new_segments:
  assumes "origin_parse_sound (x_origin_parse x)" and "pd_nonempty (x_pd x)"
    and "list_all printable uri" and "try_new x base uri = Ok u"
  shows "path_segments (x_pd x) (o_path (ru_uri u)) =
      (if o_path (ru_unmounted u) = ''/'' \<and> \<not> has_trailing_slash (ru_base u)
       then path_segments (x_pd x) (o_path (ru_base u))
       else filter (\<lambda>s. s \<noteq> []) (path_segments (x_pd x) (o_path (ru_base u)))
            @ path_segments (x_pd x) (o_path (ru_unmounted u)))"
    and "base_len (ru_metadata u) = length (filter (\<lambda>s. s \<noteq> []) (path_segments (x_pd x) (o_path (ru_base u))))"
proof -
  obtain b r where m: "ru_uri u = into_normalized (mounted (ru_base u) (ru_unmounted u))"
    and md: "ru_metadata u = metadata_from (x_pd x) (ru_base u) (ru_uri u)"
    using assms(1,4) by (rule try_new_OkE)
  obtain tb tr where t: "o_path (ru_base u) = slash # tb" "list_all printable tb"
      "o_path (ru_unmounted u) = slash # tr" "list_all printable tr"
    using assms(1,3,4) by (rule try_new_paths)
  show "path_segments (x_pd x) (o_path (ru_uri u)) =
      (if o_path (ru_unmounted u) = ''/'' \<and> \<not> has_trailing_slash (ru_base u)
       then path_segments (x_pd x) (o_path (ru_base u))
       else filter (\<lambda>s. s \<noteq> []) (path_segments (x_pd x) (o_path (ru_base u)))
            @ path_segments (x_pd x) (o_path (ru_unmounted u)))"
    using path_segments_append [OF assms(2) t(2,4)] t(1,3)
    by (simp add: m into_normalized_segments mounted_def)
  show "base_len (ru_metadata u) = length (filter (\<lambda>s. s \<noteq> []) (path_segments (x_pd x) (o_path (ru_base u))))"
    by (simp add: md base_len_eq)
qed

section \<open>Properties\<close>

text \<open>
  C15. Mounting (\<open>RouteUri::try_new\<close>, \<open>uri.rs\<close>): the base, the unmounted URI and the mounted URI are
  normalized; the path segments of the mounted URI are the nonempty segments of the base followed by
  those of the route, with a route \<open>/\<close> adding none under a base without trailing slash; and skipping
  \<open>base_len\<close> of them, as \<open>Request::routed_segments\<close> does, leaves exactly the route's own segments.
\<close>

theorem try_new_mounts:
  assumes "origin_parse_sound (x_origin_parse x)" and "pd_nonempty (x_pd x)"
    and "list_all printable uri" and "try_new x base uri = Ok u"
  shows "is_normalized (ru_base u) \<and> is_normalized (ru_unmounted u) \<and> is_normalized (ru_uri u)
    \<and> path_segments (x_pd x) (o_path (ru_uri u)) =
        (if o_path (ru_unmounted u) = ''/'' \<and> \<not> has_trailing_slash (ru_base u)
         then path_segments (x_pd x) (o_path (ru_base u))
         else filter (\<lambda>s. s \<noteq> []) (path_segments (x_pd x) (o_path (ru_base u)))
              @ path_segments (x_pd x) (o_path (ru_unmounted u)))
    \<and> drop (base_len (ru_metadata u)) (path_segments (x_pd x) (o_path (ru_uri u))) =
        (if o_path (ru_unmounted u) = ''/'' \<and> \<not> has_trailing_slash (ru_base u) \<and> o_path (ru_base u) \<noteq> ''/''
         then [] else path_segments (x_pd x) (o_path (ru_unmounted u)))"
proof -
  obtain b r where p: "x_origin_parse x base = Ok b" "parse_route uri = Ok r"
    and b: "ru_base u = clear_query (into_normalized b)" and r: "ru_unmounted u = into_normalized r"
    and m: "ru_uri u = into_normalized (mounted (ru_base u) (ru_unmounted u))"
    using assms(1,4) by (rule try_new_OkE)
  let ?pd = "x_pd x" and ?B = "o_path (ru_base u)" and ?R = "o_path (ru_unmounted u)"
  have okb: "origin_ok b" using assms(1) p(1) by (simp add: origin_parse_sound_def)
  have pq: "printable_query r"
    using assms(3) parse_route_Ok [OF p(2)]
    by (auto simp: origin_display_def printable_query_def split: option.splits)
  have nb: "is_normalized (into_normalized b)"
  proof -
    have "printable_query b"
      using okb is_qchar_printable unfolding origin_ok_def printable_query_def list_all_iff
      by (auto split: option.splits)
    then show ?thesis unfolding into_normalized_def by (rule normalize_is_normalized)
  qed
  then have norm_b: "is_normalized (ru_base u)" by (simp add: b clear_query_def is_normalized_def)
  have norm_r: "is_normalized (ru_unmounted u)"
    unfolding r into_normalized_def using pq by (rule normalize_is_normalized)
  obtain tb tr where tb: "?B = slash # tb" "list_all printable tb"
    using assms(1,3,4) by (rule try_new_paths)
  have "printable_query (mounted (ru_base u) (ru_unmounted u))"
    using normalize_printable [OF pq, of True] by (simp add: mounted_def printable_query_def r into_normalized_def)
  then have norm_m: "is_normalized (ru_uri u)" unfolding m into_normalized_def by (rule normalize_is_normalized)
  let ?short = "?R = ''/'' \<and> \<not> has_trailing_slash (ru_base u)"
  have "filter (\<lambda>s. s \<noteq> []) (path_segments ?pd ?B) = path_segments ?pd ?B" if "?short" "?B \<noteq> ''/''"
    using that norm_b tb slash_classes
    by (intro path_segments_nontrailing [OF assms(2)]) (auto simp: is_normalized_def has_trailing_slash_def)
  moreover have "path_segments ?pd ''/'' = [[]]"
    by (simp add: path_segments_eq raw_segments_printable)
  ultimately show ?thesis
    using norm_b norm_r norm_m try_new_segments [OF assms] by (cases "?B = ''/''") auto
qed

text \<open>
  A concrete instance of the external code for the witnesses: the identity decoder, ASCII lower-casing,
  and the parser that accepts exactly the origins of well-formed bytes.
\<close>

definition plain_origin_parse :: "str \<Rightarrow> (origin, uri_error) result" where
  "plain_origin_parse s =
     (case parse_route s of
        Err e \<Rightarrow> Err e
      | Ok u \<Rightarrow> if origin_ok u then Ok u else Err \<lparr>expected = None, found = None, index = 0\<rparr>)"

definition plain_ext :: ext where
  "plain_ext =
     \<lparr>x_pd = Borrowed, x_uc = lowercase, x_origin_parse = plain_origin_parse,
      x_content_type_parse = (\<lambda>s. case split_once slash s of
          Some (t, u) \<Rightarrow> Ok (ct_new t u) | None \<Rightarrow> Err ''content type''),
      x_accept_parse = (\<lambda>s. case split_once slash s of
          Some (t, u) \<Rightarrow> Ok [qmt_from (mt_new t u)] | None \<Rightarrow> Err ''accept'')\<rparr>"

lemma plain_origin_parse_sound: "origin_parse_sound (x_origin_parse plain_ext)"
  by (auto simp: origin_parse_sound_def plain_ext_def plain_origin_parse_def split: sum.splits if_splits
      dest: parse_route_Ok)

lemma plain_pd_nonempty: "pd_nonempty (x_pd plain_ext)"
  by (simp add: pd_nonempty_def plain_ext_def)

lemmas plain_eval = plain_ext_def plain_origin_parse_def parse_route_def origin_new_def origin_ok_def
  into_normalized_def normalize_with_def clear_query_def origin_display_def is_pchar_iff class_sets uri_eval

theorem try_new_mounts_witness:
  "\<exists>u. try_new plain_ext ''/api'' ''/a/<id>'' = Ok u \<and> is_normalized (ru_uri u)
       \<and> drop (base_len (ru_metadata u)) (path_segments (x_pd plain_ext) (o_path (ru_uri u))) =
           path_segments (x_pd plain_ext) (o_path (ru_unmounted u))"
proof -
  have "\<exists>u. try_new plain_ext ''/api'' ''/a/<id>'' = Ok u \<and> o_path (ru_unmounted u) = ''/a/<id>''"
    by (simp add: try_new_def plain_eval)
  then obtain u where u: "try_new plain_ext ''/api'' ''/a/<id>'' = Ok u" "o_path (ru_unmounted u) = ''/a/<id>''"
    by blast
  have "list_all printable ''/a/<id>''" by (simp add: printable_def)
  note T = try_new_mounts [OF plain_origin_parse_sound plain_pd_nonempty this u(1)]
  have "is_normalized (ru_uri u)" using T by blast
  moreover note T [THEN conjunct2, THEN conjunct2, THEN conjunct2, THEN conjunct2]
  ultimately show ?thesis using u by simp
qed

section \<open>Lemmas: well-formed routes and catchers\<close>

text \<open>
  The metadata of a route's URI is always that of its segments: every constructor goes through
  \<open>try_new\<close>, and the field is private to the crate.
\<close>

definition metadata_wf :: "Metadata \<Rightarrow> bool" where
  "metadata_wf m =
     (dynamic_trail m = (if uri_segments m = [] then False else seg_dynamic_trail (last (uri_segments m))))"

definition route_wf :: "'h Route \<Rightarrow> bool" where
  "route_wf r = metadata_wf (ru_metadata (rt_uri r))"

lemma metadata_from_wf: "metadata_wf (metadata_from pd base uri)"
  by (simp add: metadata_wf_def metadata_from_def Let_def)

lemma try_new_wf: "try_new x base uri = Ok u \<Longrightarrow> metadata_wf (ru_metadata u)"
  by (auto simp: try_new_def Let_def metadata_from_wf split: sum.splits)

lemma ranked_wf: "ranked x rk m uri h = Ok r \<Longrightarrow> route_wf r"
  by (auto simp: ranked_def route_wf_def try_new_wf split: sum.splits)

lemma route_new_wf: "route_new x m uri h = Ok r \<Longrightarrow> route_wf r"
  unfolding route_new_def by (rule ranked_wf)

lemma route_rebase_wf: "route_rebase x base r = Ok r' \<Longrightarrow> route_wf r'"
  by (auto simp: route_rebase_def route_wf_def Let_def try_new_wf split: sum.splits)

lemma route_map_base_wf: "route_map_base x f r = Ok r' \<Longrightarrow> route_wf r'"
  by (auto simp: route_map_base_def route_wf_def try_new_wf split: sum.splits)

lemma route_from_info_wf: "route_from_info x info = Ok r \<Longrightarrow> route_wf r"
  by (auto simp: route_from_info_def route_wf_def try_new_wf split: sum.splits)

lemmas route_constructors_wf =
  ranked_wf route_new_wf route_rebase_wf route_map_base_wf route_from_info_wf

definition catcher_wf :: "lossy_decoder \<Rightarrow> 'h Catcher \<Rightarrow> bool" where
  "catcher_wf pd c =
     (ca_rank c = catcher_rank pd (o_path (ca_base c)) \<and> o_query (ca_base c) = None
      \<and> is_normalized_nontrailing (ca_base c) \<and> list_all is_pchar (o_path (ca_base c)))"

lemma origin_root_nontrailing: "is_normalized_nontrailing origin_root"
  by (simp add: is_normalized_nontrailing_def origin_root_def uri_eval)

lemma catcher_new_wf: "catcher_new x cd h = Ok c \<Longrightarrow> catcher_wf (x_pd x) c"
  by (auto simp: catcher_new_def catcher_wf_def Let_def origin_root_nontrailing [unfolded origin_root_def]
      origin_root_def is_pchar_iff class_sets split: option.splits if_splits)

lemma nontrailing_pchar:
  assumes "list_all is_pchar (o_path u)" shows "list_all is_pchar (o_path (into_normalized_nontrailing u))"
proof -
  have "set (o_path (into_normalized_nontrailing u)) \<subseteq> insert slash (set (o_path u))"
    using set_push_normalized [of False "o_path u"]
    by (auto simp: into_normalized_nontrailing_def normalize_path dest: in_set_butlastD)
  then show ?thesis using assms slash_classes unfolding list_all_iff by blast
qed

lemma nontrailing_no_query:
  "o_query u = None \<Longrightarrow> is_normalized_nontrailing (into_normalized_nontrailing u)
     \<and> o_query (into_normalized_nontrailing u) = None"
  using normalized_nontrailing_good [of u]
  by (auto simp: printable_query_def is_normalized_def into_normalized_nontrailing_def normalize_query)

lemma catcher_rebase_wf:
  assumes "origin_parse_sound (x_origin_parse x)" and "catcher_wf (x_pd x) c"
    and "list_all is_pchar (o_path base)" and "catcher_rebase x base c = Ok c'"
  shows "catcher_wf (x_pd x) c'"
proof (cases "o_path (ca_base c) = ''/''")
  case True
  have "list_all is_pchar (o_path (into_normalized_nontrailing (clear_query base)))"
    using assms(3) by (intro nontrailing_pchar) (simp add: clear_query_def)
  then show ?thesis
    using assms(4) True nontrailing_no_query [of "clear_query base"]
    by (auto simp: catcher_rebase_def catcher_wf_def Let_def clear_query_def)
next
  case False
  then obtain u where u: "x_origin_parse x (o_path base @ origin_display (ca_base c)) = Ok u"
    and c': "c' = c\<lparr>ca_base := into_normalized_nontrailing u,
                   ca_rank := catcher_rank (x_pd x) (o_path (into_normalized_nontrailing u))\<rparr>"
    using assms(4) by (auto simp: catcher_rebase_def Let_def split: sum.splits)
  have ok: "origin_ok u" and d: "origin_display u = o_path base @ o_path (ca_base c)"
    using assms(1,2) u by (auto simp: origin_parse_sound_def catcher_wf_def origin_display_def)
  have "list_all is_pchar (origin_display u)" using d assms(2,3) by (simp add: catcher_wf_def)
  then have "o_query u = None" using question_not_pchar by (cases "o_query u") (auto simp: origin_display_def)
  then show ?thesis
    using c' ok nontrailing_no_query [of u] nontrailing_pchar [of u]
    by (simp add: catcher_wf_def origin_ok_def)
qed

end
