(* ===== verification/RequestModel.thy ===== *)
theory RequestModel
  imports RouteModel
begin

text \<open>
  Requests (\<open>core/lib/src/request/request.rs\<close>): method, URI, headers with the two lazily parsed headers
  that routing reads, the matched route, and the secure flag of the cookie jar.

  \<open>InitCell\<close> is an optional cached value: \<open>None\<close> before the first \<open>get_or_init\<close>.  \<open>content_type\<close> and
  \<open>accept\<close> fill their cell, so they return the request with it, and \<open>add_header\<close> and \<open>replace_header\<close>
  empty a cell when the header they change is the cached one.  Connection data, cookies other than the
  flag, the type-keyed cache and the reference to the server are not part of the record.
\<close>

section \<open>Model\<close>

record 'h Request =
  rq_method :: Method
  rq_uri :: origin
  rq_headers :: HeaderMap
  rq_accept :: "Accept option option"
  rq_content_type :: "ContentType option option"
  rq_route :: "'h Route option"
  rq_secure :: bool
  rq_proxy_header :: "str option"

text \<open>
  \<open>proxy_header\<close> is the configured header name and \<open>secure\<close> whether every endpoint of the server uses TLS,
  which is what \<open>CookieJar::new\<close> starts from.
\<close>

definition request_new :: "str option \<Rightarrow> bool \<Rightarrow> Method \<Rightarrow> origin \<Rightarrow> 'h Request" where
  "request_new proxy_header secure m uri =
     \<lparr>rq_method = m, rq_uri = uri, rq_headers = hm_new, rq_accept = None, rq_content_type = None,
      rq_route = None, rq_secure = secure, rq_proxy_header = proxy_header\<rparr>"

definition set_method :: "Method \<Rightarrow> 'h Request \<Rightarrow> 'h Request" where
  "set_method m self = self\<lparr>rq_method := m\<rparr>"

definition set_uri :: "origin \<Rightarrow> 'h Request \<Rightarrow> 'h Request" where
  "set_uri uri self = self\<lparr>rq_uri := uri\<rparr>"

definition set_route :: "'h Route \<Rightarrow> 'h Request \<Rightarrow> 'h Request" where
  "set_route r self = self\<lparr>rq_route := Some r\<rparr>"

definition ok_opt :: "('a, 'e) result \<Rightarrow> 'a option" where
  "ok_opt r = (case r of Ok v \<Rightarrow> Some v | Err _ \<Rightarrow> None)"

definition parse_header :: "ext \<Rightarrow> (str \<Rightarrow> ('a, str) result) \<Rightarrow> str \<Rightarrow> HeaderMap \<Rightarrow> 'a option" where
  "parse_header x parse name headers =
     (case hm_get_one (x_uc x) name headers of None \<Rightarrow> None | Some v \<Rightarrow> ok_opt (parse v))"

definition content_type :: "ext \<Rightarrow> 'h Request \<Rightarrow> ContentType option \<times> 'h Request" where
  "content_type x self =
     (case rq_content_type self of
        Some v \<Rightarrow> (v, self)
      | None \<Rightarrow> let v = parse_header x (x_content_type_parse x) ''Content-Type'' (rq_headers self)
               in (v, self\<lparr>rq_content_type := Some v\<rparr>))"

definition accept :: "ext \<Rightarrow> 'h Request \<Rightarrow> Accept option \<times> 'h Request" where
  "accept x self =
     (case rq_accept self of
        Some v \<Rightarrow> (v, self)
      | None \<Rightarrow> let v = parse_header x (x_accept_parse x) ''Accept'' (rq_headers self)
               in (v, self\<lparr>rq_accept := Some v\<rparr>))"

definition bust_header_cache :: "ext \<Rightarrow> Header \<Rightarrow> bool \<Rightarrow> 'h Request \<Rightarrow> 'h Request" where
  "bust_header_cache x header replace self =
     (let uc = x_uc x
      in if uc (h_name header) = uc ''Content-Type'' then
           let (ct, self) = content_type x self
           in if ct = None \<or> replace then self\<lparr>rq_content_type := None\<rparr> else self
         else if uc (h_name header) = uc ''Accept'' then
           let (acc, self) = accept x self
           in if acc = None \<or> replace then self\<lparr>rq_accept := None\<rparr> else self
         else if map_option uc (rq_proxy_header self) = Some (uc (h_name header)) then
           if \<not> rq_secure self \<or> replace
           then self\<lparr>rq_secure := rq_secure self \<or> is_https (proxy_proto_from uc (h_value header))\<rparr>
           else self
         else self)"

definition add_header :: "ext \<Rightarrow> Header \<Rightarrow> 'h Request \<Rightarrow> 'h Request" where
  "add_header x header self =
     (let self = bust_header_cache x header False self
      in self\<lparr>rq_headers := hm_add (x_uc x) header (rq_headers self)\<rparr>)"

definition replace_header :: "ext \<Rightarrow> Header \<Rightarrow> 'h Request \<Rightarrow> 'h Request" where
  "replace_header x header self =
     (let self = bust_header_cache x header True self
      in self\<lparr>rq_headers := snd (hm_replace (x_uc x) header (rq_headers self))\<rparr>)"

definition format :: "ext \<Rightarrow> 'h Request \<Rightarrow> MediaType option \<times> 'h Request" where
  "format x self =
     (if (case allows_request_body (rq_method self) of Some b \<Rightarrow> b | None \<Rightarrow> False) then
        let (ct, self) = content_type x self in (map_option ct_media_type ct, self)
      else
        let (acc, self) = accept x self
        in (case acc of Some a \<Rightarrow> Some (q_mt (preferred (x_uc x) a)) | None \<Rightarrow> Some MT_Any, self))"

definition routed_segments :: "ext \<Rightarrow> nat \<Rightarrow> 'h Request \<Rightarrow> str segments" where
  "routed_segments x start self =
     (let mount_segments = (case rq_route self of Some r \<Rightarrow> base_len (ru_metadata (rt_uri r)) | None \<Rightarrow> 0)
      in segments_skip (mount_segments + start) (segments_new (path_segments (x_pd x) (o_path (rq_uri self)))))"

definition routed_segment :: "ext \<Rightarrow> nat \<Rightarrow> 'h Request \<Rightarrow> str option" where
  "routed_segment x n self = segments_get n (routed_segments x 0 self)"

definition query_fields :: "ext \<Rightarrow> 'h Request \<Rightarrow> (str \<times> str) list" where
  "query_fields x self = (case o_query (rq_uri self) of Some q \<Rightarrow> query_segments (x_pd x) q | None \<Rightarrow> [])"

section \<open>Lemmas\<close>

text \<open>A cell is coherent when it is empty or holds what parsing the current header gives.\<close>

definition caches_coherent :: "ext \<Rightarrow> 'h Request \<Rightarrow> bool" where
  "caches_coherent x r =
     (im_inv (x_uc x) (rq_headers r)
      \<and> (case rq_content_type r of None \<Rightarrow> True
         | Some v \<Rightarrow> v = parse_header x (x_content_type_parse x) ''Content-Type'' (rq_headers r))
      \<and> (case rq_accept r of None \<Rightarrow> True
         | Some v \<Rightarrow> v = parse_header x (x_accept_parse x) ''Accept'' (rq_headers r)))"

lemma content_type_value:
  "caches_coherent x r \<Longrightarrow>
   fst (content_type x r) = parse_header x (x_content_type_parse x) ''Content-Type'' (rq_headers r)"
  by (auto simp: content_type_def caches_coherent_def Let_def split: option.splits)

lemma accept_value:
  "caches_coherent x r \<Longrightarrow> fst (accept x r) = parse_header x (x_accept_parse x) ''Accept'' (rq_headers r)"
  by (auto simp: accept_def caches_coherent_def Let_def split: option.splits)

lemma content_type_coherent: "caches_coherent x r \<Longrightarrow> caches_coherent x (snd (content_type x r))"
  by (auto simp: content_type_def caches_coherent_def Let_def split: option.splits)

lemma accept_coherent: "caches_coherent x r \<Longrightarrow> caches_coherent x (snd (accept x r))"
  by (auto simp: accept_def caches_coherent_def Let_def split: option.splits)

lemma content_type_frame:
  "rq_headers (snd (content_type x r)) = rq_headers r \<and> rq_uri (snd (content_type x r)) = rq_uri r
   \<and> rq_method (snd (content_type x r)) = rq_method r \<and> rq_accept (snd (content_type x r)) = rq_accept r"
  by (auto simp: content_type_def Let_def split: option.splits)

lemma accept_frame:
  "rq_headers (snd (accept x r)) = rq_headers r \<and> rq_uri (snd (accept x r)) = rq_uri r
   \<and> rq_method (snd (accept x r)) = rq_method r \<and> rq_content_type (snd (accept x r)) = rq_content_type r"
  by (auto simp: accept_def Let_def split: option.splits)

lemma parse_header_add:
  assumes "im_inv (x_uc x) m"
  shows "parse_header x parse n (hm_add (x_uc x) h m) =
    (if x_uc x (h_name h) = x_uc x n \<and> hm_get_one (x_uc x) n m = None then ok_opt (parse (h_value h))
     else parse_header x parse n m)"
  using hm.get_first_add [OF assms, of n h] by (auto simp: parse_header_def hm_get_one_first)

lemma parse_header_replace:
  assumes "im_inv (x_uc x) m"
  shows "parse_header x parse n (snd (hm_replace (x_uc x) h m)) =
    (if x_uc x (h_name h) = x_uc x n then ok_opt (parse (h_value h)) else parse_header x parse n m)"
  using hm.get_first_replace [OF assms, of n h] by (auto simp: parse_header_def hm_get_one_first)

lemma parse_header_Some: "parse_header x parse n m = Some v \<Longrightarrow> hm_get_one (x_uc x) n m \<noteq> None"
  by (auto simp: parse_header_def split: option.splits)

lemma add_header_coherent:
  assumes names: "x_uc x ''Content-Type'' \<noteq> x_uc x ''Accept''" and coh: "caches_coherent x r"
  shows "caches_coherent x (add_header x h r)"
proof -
  have inv: "im_inv (x_uc x) (rq_headers r)" using coh by (simp add: caches_coherent_def)
  consider "x_uc x (h_name h) = x_uc x ''Content-Type''" | "x_uc x (h_name h) = x_uc x ''Accept''"
    | "x_uc x (h_name h) \<noteq> x_uc x ''Content-Type''" "x_uc x (h_name h) \<noteq> x_uc x ''Accept''" by blast
  then show ?thesis
  proof cases
    case 1
    show ?thesis
      using 1 names coh content_type_value [OF coh]
      by (cases "fst (content_type x r)")
         (auto simp: add_header_def bust_header_cache_def Let_def caches_coherent_def content_type_def
           hm.inv_add [OF inv] parse_header_add [OF inv] split: option.splits dest!: parse_header_Some)
  next
    case 2
    show ?thesis
      using 2 names [symmetric] coh accept_value [OF coh]
      by (cases "fst (accept x r)")
         (auto simp: add_header_def bust_header_cache_def Let_def caches_coherent_def accept_def
           hm.inv_add [OF inv] parse_header_add [OF inv] split: option.splits dest!: parse_header_Some)
  next
    case 3
    then show ?thesis
      using coh by (auto simp: add_header_def bust_header_cache_def Let_def caches_coherent_def
          hm.inv_add [OF inv] parse_header_add [OF inv] split: option.splits)
  qed
qed

lemma replace_header_coherent:
  assumes names: "x_uc x ''Content-Type'' \<noteq> x_uc x ''Accept''" and coh: "caches_coherent x r"
  shows "caches_coherent x (replace_header x h r)"
proof -
  have inv: "im_inv (x_uc x) (rq_headers r)" using coh by (simp add: caches_coherent_def)
  show ?thesis
    using names names [symmetric] coh
    by (auto simp: replace_header_def bust_header_cache_def Let_def caches_coherent_def content_type_def
        accept_def hm.inv_replace [OF inv] parse_header_replace [OF inv] split: option.splits)
qed

lemma format_coherent: "caches_coherent x r \<Longrightarrow> caches_coherent x (snd (format x r))"
  using content_type_coherent [of x r] accept_coherent [of x r]
  by (auto simp: format_def Let_def split: prod.splits)

text \<open>What \<open>format\<close> returns, written over the headers.\<close>

definition format_of :: "ext \<Rightarrow> Method \<Rightarrow> HeaderMap \<Rightarrow> MediaType option" where
  "format_of x m headers =
     (if allows_request_body m = Some True
      then map_option ct_media_type (parse_header x (x_content_type_parse x) ''Content-Type'' headers)
      else case parse_header x (x_accept_parse x) ''Accept'' headers of
             Some a \<Rightarrow> Some (q_mt (preferred (x_uc x) a)) | None \<Rightarrow> Some MT_Any)"

lemma format_value: "caches_coherent x r \<Longrightarrow> fst (format x r) = format_of x (rq_method r) (rq_headers r)"
  using content_type_value [of x r] accept_value [of x r]
  by (auto simp: format_def format_of_def Let_def split: prod.splits option.splits)

lemma format_frame:
  "rq_headers (snd (format x r)) = rq_headers r \<and> rq_uri (snd (format x r)) = rq_uri r
   \<and> rq_method (snd (format x r)) = rq_method r"
  using content_type_frame [of x r] accept_frame [of x r]
  by (auto simp: format_def Let_def split: prod.splits)

section \<open>Properties\<close>

text \<open>
  C16. Header caches (\<open>Request::add_header\<close>, \<open>replace_header\<close>, \<open>bust_header_cache\<close>, \<open>request.rs\<close>): after
  any header operation the cached content type and \<open>Accept\<close> value are those the current headers parse
  to, so \<open>format\<close>, which routing uses, is always the value computed from the headers.
\<close>

theorem request_caches_coherent:
  assumes "x_uc x ''Content-Type'' \<noteq> x_uc x ''Accept''" and "caches_coherent x r"
  shows "caches_coherent x (add_header x h r) \<and> caches_coherent x (replace_header x h r)
    \<and> caches_coherent x (snd (format x r))
    \<and> fst (format x (add_header x h r)) =
        format_of x (rq_method r) (hm_add (x_uc x) h (rq_headers r))
    \<and> fst (format x (replace_header x h r)) =
        format_of x (rq_method r) (snd (hm_replace (x_uc x) h (rq_headers r)))"
proof -
  have "rq_headers (add_header x h r) = hm_add (x_uc x) h (rq_headers r)"
    "rq_method (add_header x h r) = rq_method r"
    using content_type_frame [of x r] accept_frame [of x r]
    by (auto simp: add_header_def bust_header_cache_def Let_def split: prod.splits)
  moreover have "rq_headers (replace_header x h r) = snd (hm_replace (x_uc x) h (rq_headers r))"
    "rq_method (replace_header x h r) = rq_method r"
    using content_type_frame [of x r] accept_frame [of x r]
    by (auto simp: replace_header_def bust_header_cache_def Let_def split: prod.splits)
  ultimately show ?thesis
    using format_value [OF add_header_coherent [OF assms, of h]]
      format_value [OF replace_header_coherent [OF assms, of h]]
      add_header_coherent [OF assms] replace_header_coherent [OF assms] format_coherent [OF assms(2)]
    by simp
qed

theorem request_caches_coherent_witness:
  "caches_coherent plain_ext (replace_header plain_ext (header_new ''content-type'' ''text/css'')
     (add_header plain_ext (header_new ''Content-Type'' ''a/b'') (request_new None False Post origin_root)))"
proof -
  have n: "x_uc plain_ext ''Content-Type'' \<noteq> x_uc plain_ext ''Accept''" by code_simp
  have "caches_coherent plain_ext (request_new None False Post origin_root)"
    by (simp add: caches_coherent_def request_new_def hm_new_def im_inv_def im_keys_def)
  from request_caches_coherent [OF n this]
  have "caches_coherent plain_ext (add_header plain_ext (header_new ''Content-Type'' ''a/b'')
      (request_new None False Post origin_root))" by blast
  from request_caches_coherent [OF n this] show ?thesis by blast
qed

end
