(* ===== verification/Router.thy ===== *)
theory Router
  imports RequestModel
begin

text \<open>
  The router (\<open>core/lib/src/router\<close>: \<open>collider.rs\<close>, \<open>matcher.rs\<close>, \<open>router.rs\<close>): when two routes or
  catchers collide, which requests a route or catcher matches, and the tables built at ignition from
  which a request's routes and an error's catcher are read.

  A \<open>HashMap\<close> is a partial function, an index into a vector a natural number, \<open>sort_by_key\<close> (stable)
  is \<open>sort_key\<close>.  The locale \<open>collider\<close> is the contract between collision and matching that the tables
  rely on; both routes and catchers are shown to satisfy it.
\<close>

section \<open>Model: collisions\<close>

definition segment_collides :: "Segment \<Rightarrow> Segment \<Rightarrow> bool" where
  "segment_collides self other = (seg_dynamic self \<or> seg_dynamic other \<or> seg_value self = seg_value other)"

text \<open>The loop over the zipped segments: \<open>Some\<close> is an early return.\<close>

fun zip_collides :: "Segment list \<Rightarrow> Segment list \<Rightarrow> bool option" where
  "zip_collides (a # as) (b # bs) =
     (if seg_dynamic_trail a \<or> seg_dynamic_trail b then Some True
      else if \<not> segment_collides a b then Some False
      else zip_collides as bs)"
| "zip_collides _ _ = None"

definition route_uri_collides :: "RouteUri \<Rightarrow> RouteUri \<Rightarrow> bool" where
  "route_uri_collides self other =
     (let a = uri_segments (ru_metadata self); b = uri_segments (ru_metadata other)
      in case zip_collides a b of Some r \<Rightarrow> r | None \<Rightarrow> length a = length b)"

definition media_type_collides :: "uncased_key \<Rightarrow> MediaType \<Rightarrow> MediaType \<Rightarrow> bool" where
  "media_type_collides uc self other =
     (let collide = (\<lambda>a b. uc a = uc ''*'' \<or> uc b = uc ''*'' \<or> uc a = uc b)
      in collide (mt_top self) (mt_top other) \<and> collide (mt_sub self) (mt_sub other))"

definition methods_collide :: "'h Route \<Rightarrow> 'h Route \<Rightarrow> bool" where
  "methods_collide route other =
     (case (rt_method route, rt_method other) of (Some a, Some b) \<Rightarrow> a = b | _ \<Rightarrow> True)"

definition payload_support :: "Method option \<Rightarrow> bool option" where
  "payload_support m = Option.bind m allows_request_body"

definition formats_collide :: "uncased_key \<Rightarrow> 'h Route \<Rightarrow> 'h Route \<Rightarrow> bool" where
  "formats_collide uc route other =
     (if payload_support (rt_method route) = Some True \<and> payload_support (rt_method other) = Some True
      then (case (rt_format route, rt_format other) of
              (Some a, Some b) \<Rightarrow> media_type_collides uc a b
            | _ \<Rightarrow> True)
      else True)"

definition route_collides :: "uncased_key \<Rightarrow> 'h Route \<Rightarrow> 'h Route \<Rightarrow> bool" where
  "route_collides uc self other =
     (methods_collide self other \<and> rt_rank self = rt_rank other
      \<and> route_uri_collides (rt_uri self) (rt_uri other) \<and> formats_collide uc self other)"

definition catcher_collides :: "lossy_decoder \<Rightarrow> 'h Catcher \<Rightarrow> 'h Catcher \<Rightarrow> bool" where
  "catcher_collides pd self other =
     (ca_code self = ca_code other
      \<and> path_segments pd (o_path (ca_base self)) = path_segments pd (o_path (ca_base other)))"

section \<open>Model: matching\<close>

definition methods_match :: "'h Route \<Rightarrow> 'r Request \<Rightarrow> bool" where
  "methods_match route req = (case rt_method route of None \<Rightarrow> True | Some m \<Rightarrow> m = rq_method req)"

fun path_loop :: "Segment list \<Rightarrow> str list \<Rightarrow> bool" where
  "path_loop (s # ss) (r # rs) =
     (if seg_dynamic_trail s then True
      else if \<not> seg_dynamic s \<and> seg_value s \<noteq> r then False
      else path_loop ss rs)"
| "path_loop _ _ = True"

definition paths_match :: "lossy_decoder \<Rightarrow> 'h Route \<Rightarrow> 'r Request \<Rightarrow> bool" where
  "paths_match pd route req =
     (let route_segs = uri_segments (ru_metadata (rt_uri route));
          req_segs = segments_new (path_segments pd (o_path (rq_uri req)))
      in if length route_segs > segments_num req_segs then False
         else if segments_num req_segs > length route_segs \<and> \<not> dynamic_trail (ru_metadata (rt_uri route))
         then False
         else path_loop route_segs (segments_items req_segs))"

fun fields_loop :: "(str \<times> str) list \<Rightarrow> (str \<times> str) list option \<Rightarrow> bool" where
  "fields_loop [] query = True"
| "fields_loop ((key, val) # fs) query =
     (case query of
        Some items \<Rightarrow> if \<not> list_ex (\<lambda>seg. seg = (key, val)) items then False else fields_loop fs query
      | None \<Rightarrow> False)"

definition queries_match :: "lossy_decoder \<Rightarrow> 'h Route \<Rightarrow> 'r Request \<Rightarrow> bool" where
  "queries_match pd route req =
     (let md = ru_metadata (rt_uri route)
      in if query_color md = None \<or> query_color md = Some Wild then True
         else fields_loop (static_query_fields md) (map_option (query_segments pd) (o_query (rq_uri req))))"

definition formats_match :: "ext \<Rightarrow> 'h Route \<Rightarrow> 'r Request \<Rightarrow> bool" where
  "formats_match x route req =
     (case rt_format route of
        None \<Rightarrow> True
      | Some route_format \<Rightarrow>
          if payload_support (rt_method route) = Some True then
            (case fst (format x req) of
               Some f \<Rightarrow> if specificity (x_uc x) f = 2 then media_type_collides (x_uc x) route_format f else False
             | None \<Rightarrow> False)
          else (case fst (format x req) of
                  Some f \<Rightarrow> media_type_collides (x_uc x) route_format f
                | None \<Rightarrow> True))"

definition route_matches :: "ext \<Rightarrow> 'h Route \<Rightarrow> 'r Request \<Rightarrow> bool" where
  "route_matches x self req =
     (methods_match self req \<and> paths_match (x_pd x) self req \<and> queries_match (x_pd x) self req
      \<and> formats_match x self req)"

definition catcher_matches :: "lossy_decoder \<Rightarrow> 'h Catcher \<Rightarrow> Status \<Rightarrow> 'r Request \<Rightarrow> bool" where
  "catcher_matches pd self status req =
     ((case ca_code self of None \<Rightarrow> True | Some c \<Rightarrow> c = code status)
      \<and> prefix_of (segments_new (path_segments pd (o_path (ca_base self))))
                  (segments_new (path_segments pd (o_path (rq_uri req)))))"

section \<open>Model: the router\<close>

record ('h, 'c) Pending =
  p_routes :: "'h Route list"
  p_catchers :: "'c Catcher list"

record ('h, 'c) Finalized =
  f_routes :: "'h Route list"
  f_catchers :: "'c Catcher list"
  route_map :: "Method \<rightharpoonup> nat list"
  catcher_map :: "u16 option \<rightharpoonup> nat list"

definition router_new :: "('h, 'c) Pending" where
  "router_new = \<lparr>p_routes = [], p_catchers = []\<rparr>"

definition collisions :: "('a \<Rightarrow> 'a \<Rightarrow> bool) \<Rightarrow> 'a list \<Rightarrow> ('a \<times> 'a) list" where
  "collisions collides items =
     concat (map (\<lambda>(i, a). map (\<lambda>b. (a, b)) (filter (collides a) (drop (i + 1) items))) (enumerate 0 items))"

text \<open>\<open>map.entry(k).or_default().push(i)\<close>.\<close>

definition entry_push :: "'k \<Rightarrow> nat \<Rightarrow> ('k \<rightharpoonup> nat list) \<Rightarrow> ('k \<rightharpoonup> nat list)" where
  "entry_push k i m = m(k \<mapsto> (case m k of None \<Rightarrow> [] | Some v \<Rightarrow> v) @ [i])"

definition push_route :: "nat \<times> 'h Route \<Rightarrow> (Method \<rightharpoonup> nat list) \<Rightarrow> (Method \<rightharpoonup> nat list)" where
  "push_route ir m =
     (case ir of (i, route) \<Rightarrow>
        (case rt_method route of
           Some method \<Rightarrow> entry_push method i m
         | None \<Rightarrow> fold (\<lambda>method. entry_push method i) ALL_VARIANTS m))"

definition push_catcher :: "nat \<times> 'c Catcher \<Rightarrow> (u16 option \<rightharpoonup> nat list) \<Rightarrow> (u16 option \<rightharpoonup> nat list)" where
  "push_catcher ic m = (case ic of (i, catcher) \<Rightarrow> entry_push (ca_code catcher) i m)"

definition sort_values :: "(nat \<Rightarrow> int) \<Rightarrow> ('k \<rightharpoonup> nat list) \<Rightarrow> ('k \<rightharpoonup> nat list)" where
  "sort_values key m = (\<lambda>k. map_option (sort_key key) (m k))"

definition finalize ::
  "ext \<Rightarrow> ('h, 'c) Pending \<Rightarrow>
   (('h, 'c) Finalized, ('h Route \<times> 'h Route) list \<times> ('c Catcher \<times> 'c Catcher) list) result" where
  "finalize x self =
     (let route_collisions = collisions (route_collides (x_uc x)) (p_routes self);
          catcher_collisions = collisions (catcher_collides (x_pd x)) (p_catchers self)
      in if route_collisions \<noteq> [] \<or> catcher_collisions \<noteq> []
         then Err (route_collisions, catcher_collisions)
         else
           let rmap = fold push_route (enumerate 0 (p_routes self)) Map.empty;
               cmap = fold push_catcher (enumerate 0 (p_catchers self)) Map.empty
           in Ok \<lparr>f_routes = p_routes self, f_catchers = p_catchers self,
                  route_map = sort_values (\<lambda>i. rt_rank (p_routes self ! i)) rmap,
                  catcher_map = sort_values (\<lambda>i. ca_rank (p_catchers self ! i)) cmap\<rparr>)"

definition route :: "ext \<Rightarrow> ('h, 'c) Finalized \<Rightarrow> 'r Request \<Rightarrow> 'h Route list" where
  "route x self req =
     (case route_map self (rq_method req) of
        None \<Rightarrow> []
      | Some is \<Rightarrow> filter (\<lambda>r. route_matches x r req) (map (\<lambda>i. f_routes self ! i) is))"

definition catch_in :: "ext \<Rightarrow> ('h, 'c) Finalized \<Rightarrow> Status \<Rightarrow> 'r Request \<Rightarrow> u16 option \<Rightarrow> 'c Catcher option" where
  "catch_in x self status req key =
     (case catcher_map self key of
        None \<Rightarrow> None
      | Some is \<Rightarrow> find (\<lambda>c. catcher_matches (x_pd x) c status req) (map (\<lambda>i. f_catchers self ! i) is))"

definition catch :: "ext \<Rightarrow> ('h, 'c) Finalized \<Rightarrow> Status \<Rightarrow> 'r Request \<Rightarrow> 'c Catcher option" where
  "catch x self status req =
     (let explicit = catch_in x self status req (Some (code status));
          default_catcher = catch_in x self status req None
      in case (explicit, default_catcher) of
           (None, None) \<Rightarrow> None
         | (None, Some c) \<Rightarrow> Some c
         | (Some c, None) \<Rightarrow> Some c
         | (Some a, Some b) \<Rightarrow> if ca_rank a \<le> ca_rank b then Some a else Some b)"

section \<open>Lemmas: collision tables\<close>

lemma collisions_Nil:
  "collisions collides xs = [] \<longleftrightarrow> (\<forall>i j. i < j \<and> j < length xs \<longrightarrow> \<not> collides (xs ! i) (xs ! j))"
proof -
  have "collisions collides xs = [] \<longleftrightarrow>
      (\<forall>i < length xs. filter (collides (xs ! i)) (drop (i + 1) xs) = [])"
    by (simp add: collisions_def all_set_conv_all_nth nth_enumerate_eq)
  also have "\<dots> \<longleftrightarrow> (\<forall>i < length xs. \<forall>j < length xs - (i + 1). \<not> collides (xs ! i) (xs ! (i + 1 + j)))"
    by (simp add: filter_empty_conv all_set_conv_all_nth)
  also have "\<dots> \<longleftrightarrow> (\<forall>i j. i < j \<and> j < length xs \<longrightarrow> \<not> collides (xs ! i) (xs ! j))"
  proof safe
    fix i j
    assume *: "\<forall>i<length xs. \<forall>j<length xs - (i + 1). \<not> collides (xs ! i) (xs ! (i + 1 + j))"
      and ij: "i < j" "j < length xs" and c: "collides (xs ! i) (xs ! j)"
    have "\<not> collides (xs ! i) (xs ! (i + 1 + (j - (i + 1))))" using ij by (intro * [rule_format]) auto
    then show False using ij c by simp
  next
    fix i j
    assume "\<forall>i j. i < j \<and> j < length xs \<longrightarrow> \<not> collides (xs ! i) (xs ! j)" "i < length xs"
      "j < length xs - (i + 1)" "collides (xs ! i) (xs ! (i + 1 + j))"
    then show False by (simp add: less_diff_conv)
  qed
  finally show ?thesis .
qed

section \<open>The contract between collision and matching\<close>

text \<open>
  Items have a priority \<open>prio\<close>; two items of equal priority that can both match a query collide.
  Then a table without collisions never has two matching items of the same priority.
\<close>

locale collider =
  fixes collides :: "'a \<Rightarrow> 'a \<Rightarrow> bool" and wf :: "'a \<Rightarrow> bool" and prio :: "'a \<Rightarrow> 'p"
    and matches :: "'a \<Rightarrow> 'q \<Rightarrow> bool"
  assumes sym: "collides a b \<Longrightarrow> collides b a"
    and overlap: "wf a \<Longrightarrow> wf b \<Longrightarrow> matches a q \<Longrightarrow> matches b q \<Longrightarrow> prio a = prio b \<Longrightarrow> collides a b"
begin

lemma no_collision_nth:
  "collisions collides xs = [] \<Longrightarrow> i < length xs \<Longrightarrow> j < length xs \<Longrightarrow> i \<noteq> j \<Longrightarrow> \<not> collides (xs ! i) (xs ! j)"
  using sym by (meson collisions_Nil linorder_neqE_nat)

lemma collisions_iff:
  "collisions collides xs = [] \<longleftrightarrow>
     \<not> (\<exists>i j. i \<noteq> j \<and> i < length xs \<and> j < length xs \<and> collides (xs ! i) (xs ! j))"
proof
  show "collisions collides xs = [] \<Longrightarrow>
      \<not> (\<exists>i j. i \<noteq> j \<and> i < length xs \<and> j < length xs \<and> collides (xs ! i) (xs ! j))"
    using no_collision_nth by blast
  show "\<not> (\<exists>i j. i \<noteq> j \<and> i < length xs \<and> j < length xs \<and> collides (xs ! i) (xs ! j)) \<Longrightarrow>
      collisions collides xs = []"
    unfolding collisions_Nil by (metis less_irrefl less_trans)
qed

lemma prio_inj:
  assumes "collisions collides xs = []" and "list_all wf xs"
  shows "inj_on (\<lambda>i. prio (xs ! i)) {i. i < length xs \<and> matches (xs ! i) q}"
  using assms no_collision_nth [OF assms(1)] overlap
  by (auto simp: inj_on_def list_all_length) blast

end


section \<open>Routes satisfy the contract\<close>

lemma segment_collides_sym: "segment_collides a b = segment_collides b a"
  by (auto simp: segment_collides_def)

lemma zip_collides_sym: "zip_collides xs ys = zip_collides ys xs"
  by (induction xs ys rule: zip_collides.induct) (auto simp: segment_collides_sym)

lemma media_type_collides_sym: "media_type_collides uc a b = media_type_collides uc b a"
  by (auto simp: media_type_collides_def Let_def)

lemma route_collides_sym: "route_collides uc a b \<Longrightarrow> route_collides uc b a"
  by (auto simp: route_collides_def methods_collide_def formats_collide_def route_uri_collides_def Let_def
      zip_collides_sym [of "uri_segments (ru_metadata (rt_uri a))"] media_type_collides_sym
      split: option.splits)

text \<open>Two segment lists that both accept a request path either meet a trail or agree position by position.\<close>

lemma path_loop_collides:
  assumes "path_loop as rs" and "path_loop bs rs" and "length as \<le> length rs" and "length bs \<le> length rs"
  shows "zip_collides as bs \<noteq> Some False
    \<and> (zip_collides as bs = None \<longrightarrow> list_all (\<lambda>s. \<not> seg_dynamic_trail s) (take (min (length as) (length bs)) as)
        \<and> list_all (\<lambda>s. \<not> seg_dynamic_trail s) (take (min (length as) (length bs)) bs))"
  using assms
proof (induction as bs arbitrary: rs rule: zip_collides.induct)
  case (1 a as b bs)
  then obtain r rs' where "rs = r # rs'" by (cases rs) auto
  with 1 show ?case by (auto simp: segment_collides_def split: if_splits)
qed auto

lemma short_trail:
  assumes "metadata_wf m" and "zip_collides (uri_segments m) bs = None"
    and "list_all (\<lambda>s. \<not> seg_dynamic_trail s) (take (min (length (uri_segments m)) (length bs)) (uri_segments m))"
    and "length (uri_segments m) < length bs"
  shows "\<not> dynamic_trail m"
  using assms by (auto simp: metadata_wf_def min_def list_all_iff)

lemma paths_overlap:
  assumes "route_wf a" and "route_wf b" and "paths_match pd a q" and "paths_match pd b q"
  shows "route_uri_collides (rt_uri a) (rt_uri b)"
proof -
  let ?a = "ru_metadata (rt_uri a)" and ?b = "ru_metadata (rt_uri b)"
  let ?as = "uri_segments ?a" and ?bs = "uri_segments ?b" and ?rs = "path_segments pd (o_path (rq_uri q))"
  have a: "path_loop ?as ?rs" "length ?as \<le> length ?rs" "length ?as < length ?rs \<Longrightarrow> dynamic_trail ?a"
    and b: "path_loop ?bs ?rs" "length ?bs \<le> length ?rs" "length ?bs < length ?rs \<Longrightarrow> dynamic_trail ?b"
    using assms(3,4) by (auto simp: paths_match_def segments_num_items Let_def split: if_splits)
  note z = path_loop_collides [OF a(1) b(1) a(2) b(2)]
  show ?thesis
  proof (cases "zip_collides ?as ?bs")
    case None
    have "\<not> length ?as < length ?bs"
      using short_trail [of ?a ?bs] assms(1) None z a(3) b(2) by (auto simp: route_wf_def)
    moreover have "\<not> length ?bs < length ?as"
      using short_trail [of ?b ?as] assms(2) None z b(3) a(2)
      by (auto simp: route_wf_def zip_collides_sym [of ?bs] min.commute)
    ultimately show ?thesis using None by (simp add: route_uri_collides_def)
  qed (use z in \<open>auto simp: route_uri_collides_def\<close>)
qed

lemma media_type_concrete_overlap:
  "specificity uc f = 2 \<Longrightarrow> media_type_collides uc a f \<Longrightarrow> media_type_collides uc b f \<Longrightarrow> media_type_collides uc a b"
  by (auto simp: specificity_def media_type_collides_def Let_def split: if_splits)

lemma route_overlap:
  assumes "route_wf a" and "route_wf b" and "route_matches x a q" and "route_matches x b q"
    and "rt_rank a = rt_rank b"
  shows "route_collides (x_uc x) a b"
proof -
  have "methods_collide a b"
    using assms(3,4) by (auto simp: route_matches_def methods_match_def methods_collide_def split: option.splits)
  moreover have "route_uri_collides (rt_uri a) (rt_uri b)"
    using assms(1-4) by (intro paths_overlap) (auto simp: route_matches_def)
  moreover have "formats_collide (x_uc x) a b"
    using assms(3,4)
    by (auto simp: route_matches_def formats_match_def formats_collide_def
        intro: media_type_concrete_overlap split: option.splits if_splits)
  ultimately show ?thesis using assms(5) by (simp add: route_collides_def)
qed

interpretation routes: collider "route_collides (x_uc x)" route_wf rt_rank "route_matches x" for x
  by unfold_locales (auto intro: route_collides_sym route_overlap)

section \<open>Catchers satisfy the contract\<close>

lemma catcher_base_segments:
  assumes "pd_nonempty pd" and "catcher_wf pd c"
  shows "path_segments pd (o_path (ca_base c)) = [[]]
    \<or> [] \<notin> set (path_segments pd (o_path (ca_base c)))"
proof (cases "o_path (ca_base c) = ''/''")
  case True
  then show ?thesis by (simp add: path_segments_eq raw_segments_printable)
next
  case False
  have "list_all printable (o_path (ca_base c))"
    using assms(2) is_pchar_printable by (auto simp: catcher_wf_def list_all_iff)
  then have "filter (\<lambda>s. s \<noteq> []) (path_segments pd (o_path (ca_base c))) = path_segments pd (o_path (ca_base c))"
    using assms False
    by (intro path_segments_nontrailing)
       (auto simp: catcher_wf_def is_normalized_nontrailing_def is_normalized_def has_trailing_slash_def)
  then show ?thesis unfolding filter_id_conv by blast
qed

lemma prefix_nonempty_eq:
  "prefix_of (segments_new xs) (segments_new rs) \<Longrightarrow> [] \<notin> set xs \<Longrightarrow> xs = take (length xs) rs"
  by (auto simp: prefix_of_new list_all2_conv_all_nth intro!: nth_equalityI) (metis nth_mem)

lemma catcher_overlap:
  assumes "pd_nonempty pd" and "catcher_wf pd a" and "catcher_wf pd b"
    and "catcher_matches pd a s q" and "catcher_matches pd b s q"
    and "(ca_code a, ca_rank a) = (ca_code b, ca_rank b)"
  shows "catcher_collides pd a b"
proof -
  let ?as = "path_segments pd (o_path (ca_base a))" and ?bs = "path_segments pd (o_path (ca_base b))"
  let ?n = "\<lambda>xs. length (filter (\<lambda>s. s \<noteq> []) xs)"
  have n: "?n ?as = ?n ?bs"
    using assms(2,3,6) by (simp add: catcher_wf_def catcher_rank_def)
  have all: "[] \<notin> set xs \<Longrightarrow> ?n xs = length xs" for xs :: "str list" by (induction xs) auto
  have ne: "?as \<noteq> []" "?bs \<noteq> []" by (simp_all add: path_segments_eq)
  have pa: "prefix_of (segments_new ?as) (segments_new (path_segments pd (o_path (rq_uri q))))"
    and pb: "prefix_of (segments_new ?bs) (segments_new (path_segments pd (o_path (rq_uri q))))"
    using assms(4,5) by (auto simp: catcher_matches_def)
  from catcher_base_segments [OF assms(1,2)] catcher_base_segments [OF assms(1,3)]
  have "?as = ?bs"
  proof (elim disjE)
    assume "[] \<notin> set ?as" "[] \<notin> set ?bs"
    then show ?thesis
      using prefix_nonempty_eq [OF pa] prefix_nonempty_eq [OF pb] n all by metis
  qed (use n all ne in auto)
  then show ?thesis using assms(6) by (simp add: catcher_collides_def)
qed

interpretation catchers: collider "catcher_collides pd" "\<lambda>c. pd_nonempty pd \<and> catcher_wf pd c"
    "\<lambda>c. (ca_code c, ca_rank c)" "\<lambda>c (s, q). catcher_matches pd c s q" for pd
proof unfold_locales
  show "catcher_collides pd a b \<Longrightarrow> catcher_collides pd b a" for a b :: "'a Catcher"
    by (simp add: catcher_collides_def)
qed (auto intro: catcher_overlap)

section \<open>Lemmas: the tables\<close>

definition entries :: "('k \<rightharpoonup> nat list) \<Rightarrow> 'k \<Rightarrow> nat list" where
  "entries m k = (case m k of None \<Rightarrow> [] | Some v \<Rightarrow> v)"

lemma entries_empty [simp]: "entries (\<lambda>k. None) k = []"
  by (simp add: entries_def)

lemma entries_push: "entries (entry_push k i m) k' = (if k = k' then entries m k' @ [i] else entries m k')"
  by (simp add: entries_def entry_push_def)

lemma entries_push_all:
  "distinct ks \<Longrightarrow> entries (fold (\<lambda>k. entry_push k i) ks m) k' =
     (if k' \<in> set ks then entries m k' @ [i] else entries m k')"
  by (induction ks arbitrary: m) (auto simp: entries_push)

lemma entries_push_route:
  "entries (push_route (i, r) m) k =
     (if rt_method r = None \<or> rt_method r = Some k then entries m k @ [i] else entries m k)"
  by (auto simp: push_route_def entries_push entries_push_all ALL_VARIANTS_distinct ALL_VARIANTS_complete
      split: option.splits)

lemma entries_fold_enumerate:
  assumes "\<And>i r m. entries (push (i, r) m) k = (if P r then entries m k @ [i] else entries m k)"
  shows "entries (fold push (enumerate n rs) m) k =
    entries m k @ filter (\<lambda>i. P (rs ! (i - n))) [n..<n + length rs]"
proof (induction rs arbitrary: n m)
  case (Cons r rs)
  have "filter (\<lambda>i. P ((r # rs) ! (i - n))) [n..<n + length (r # rs)] =
      (if P r then [n] else []) @ filter (\<lambda>i. P (rs ! (i - Suc n))) [Suc n..<Suc n + length rs]"
  proof -
    have "[n..<n + length (r # rs)] = n # [Suc n..<Suc n + length rs]"
      by (simp add: upt_conv_Cons del: upt_Suc)
    moreover have "filter (\<lambda>i. P ((r # rs) ! (i - n))) [Suc n..<Suc n + length rs] =
        filter (\<lambda>i. P (rs ! (i - Suc n))) [Suc n..<Suc n + length rs]"
      by (rule filter_cong) (auto simp: nth_Cons')
    ultimately show ?thesis by (simp del: upt_Suc)
  qed
  then show ?case using Cons [of "Suc n"] assms by simp
qed simp

lemma entries_sort: "entries (sort_values key m) k = sort_key key (entries m k)"
  by (simp add: entries_def sort_values_def split: option.splits)

text \<open>What a table built by \<open>finalize\<close> lists under a key.\<close>

definition table_row :: "('a \<Rightarrow> int) \<Rightarrow> ('a \<Rightarrow> bool) \<Rightarrow> 'a list \<Rightarrow> nat list" where
  "table_row rank P items = sort_key (\<lambda>i. rank (items ! i)) (filter (\<lambda>i. P (items ! i)) [0..<length items])"

lemma set_table_row: "set (table_row rank P items) = {i. i < length items \<and> P (items ! i)}"
  by (auto simp: table_row_def)

lemma distinct_table_row: "distinct (table_row rank P items)"
  by (simp add: table_row_def)

lemma sorted_table_row: "sorted (map (\<lambda>i. rank (items ! i)) (table_row rank P items))"
  by (simp add: table_row_def)

lemma route_map_row:
  assumes "finalize x p = Ok fin"
  shows "entries (route_map fin) m =
    table_row rt_rank (\<lambda>r. rt_method r = None \<or> rt_method r = Some m) (p_routes p)"
  using assms entries_fold_enumerate [of push_route m "\<lambda>r. rt_method r = None \<or> rt_method r = Some m" 0
      "p_routes p" Map.empty, OF entries_push_route]
  by (auto simp: finalize_def Let_def entries_sort table_row_def split: if_splits)

lemma catcher_map_row:
  assumes "finalize x p = Ok fin"
  shows "entries (catcher_map fin) k = table_row ca_rank (\<lambda>c. ca_code c = k) (p_catchers p)"
proof -
  have "entries (push_catcher (i, c) m) k = (if ca_code c = k then entries m k @ [i] else entries m k)" for i c m
    by (simp add: push_catcher_def entries_push)
  from entries_fold_enumerate [of push_catcher k "\<lambda>c. ca_code c = k" 0 "p_catchers p" Map.empty, OF this]
  show ?thesis
    using assms by (auto simp: finalize_def Let_def entries_sort table_row_def split: if_splits)
qed

lemma finalize_Ok:
  "finalize x p = Ok fin \<Longrightarrow> f_routes fin = p_routes p \<and> f_catchers fin = p_catchers p
     \<and> collisions (route_collides (x_uc x)) (p_routes p) = []
     \<and> collisions (catcher_collides (x_pd x)) (p_catchers p) = []"
  by (auto simp: finalize_def Let_def split: if_splits)

lemma route_eq:
  "route x fin req = map (\<lambda>i. f_routes fin ! i)
     (filter (\<lambda>i. route_matches x (f_routes fin ! i) req) (entries (route_map fin) (rq_method req)))"
  by (simp add: route_def entries_def filter_map comp_def split: option.split)

lemma find_map_option: "find P (map f xs) = map_option f (find (P \<circ> f) xs)"
  by (induction xs) auto

lemma catch_in_eq:
  "catch_in x fin s req k = map_option (\<lambda>i. f_catchers fin ! i)
     (find (\<lambda>i. catcher_matches (x_pd x) (f_catchers fin ! i) s req) (entries (catcher_map fin) k))"
  by (simp add: catch_in_def entries_def find_map_option comp_def split: option.split)

lemma route_exact:
  assumes "finalize x p = Ok fin" and "list_all route_wf (p_routes p)"
  shows "set (route x fin req) = {r \<in> set (p_routes p). route_matches x r req}
    \<and> sorted_wrt (\<lambda>a b. rt_rank a < rt_rank b) (route x fin req)"
proof -
  let ?rs = "p_routes p" and ?row = "entries (route_map fin) (rq_method req)"
  let ?ms = "filter (\<lambda>i. route_matches x (?rs ! i) req) ?row"
  have eq: "route x fin req = map (\<lambda>i. ?rs ! i) ?ms"
    using finalize_Ok [OF assms(1)] by (simp add: route_eq)
  have row: "?row = table_row rt_rank (\<lambda>r. rt_method r = None \<or> rt_method r = Some (rq_method req)) ?rs"
    using assms(1) by (rule route_map_row)
  have meth: "route_matches x r req \<Longrightarrow> rt_method r = None \<or> rt_method r = Some (rq_method req)" for r :: "'a Route"
    by (auto simp: route_matches_def methods_match_def split: option.splits)
  have idx: "set ?ms = {i. i < length ?rs \<and> route_matches x (?rs ! i) req}"
    unfolding row using meth by (auto simp: set_table_row)
  then have "set (route x fin req) = {r \<in> set ?rs. route_matches x r req}"
    by (auto simp: eq in_set_conv_nth)
  moreover have "inj_on (\<lambda>i. rt_rank (?rs ! i)) (set ?ms)"
    unfolding idx using finalize_Ok [OF assms(1)] assms(2) by (intro routes.prio_inj) auto
  then have "distinct (map (\<lambda>i. rt_rank (?rs ! i)) ?ms)"
    by (simp add: distinct_map row distinct_table_row)
  moreover have "sorted (map (\<lambda>i. rt_rank (?rs ! i)) ?ms)"
    unfolding row using sorted_table_row by (rule sorted_filter)
  ultimately have "sorted_wrt (<) (map (\<lambda>i. rt_rank (?rs ! i)) ?ms)"
    unfolding strict_sorted_iff by blast
  then show ?thesis
    using \<open>set (route x fin req) = {r \<in> set ?rs. route_matches x r req}\<close> by (simp add: eq sorted_wrt_map)
qed

section \<open>Properties\<close>

text \<open>
  C12. Routing (\<open>Router::finalize\<close>, \<open>Router::route\<close>, \<open>router.rs\<close>): when the tables were built without a
  collision, the routes tried for a request are exactly the mounted routes that match it, each once,
  in strictly increasing rank.  So no two routes compete for a request and the order in which they
  were mounted does not matter.
\<close>

theorem route_complete_ordered:
  assumes "finalize x p = Ok fin" and "list_all route_wf (p_routes p)"
  shows "set (route x fin req) = {r \<in> set (p_routes p). route_matches x r req}
    \<and> sorted_wrt (\<lambda>a b. rt_rank a < rt_rank b) (route x fin req)"
  using assms by (rule route_exact)

text \<open>A route with the given segments, for the witnesses.\<close>

definition sample_route :: "str list \<Rightarrow> int \<Rightarrow> nat Route" where
  "sample_route ps rank =
     \<lparr>rt_name = None, rt_method = Some Get, rt_handler = 0,
      rt_uri = \<lparr>ru_base = origin_root, ru_unmounted = origin_root,
                ru_uri = origin_new (slash # join slash ps) None,
                ru_metadata = metadata_from Borrowed origin_root (origin_new (slash # join slash ps) None)\<rparr>,
      rt_rank = rank, rt_format = None\<rparr>"

lemma sample_route_wf: "route_wf (sample_route ps rank)"
  by (simp add: route_wf_def sample_route_def metadata_from_wf)

theorem route_complete_ordered_witness:
  "\<exists>fin :: (nat, nat) Finalized.
     finalize plain_ext \<lparr>p_routes = [sample_route [''a'', ''<id>''] 2, sample_route [''a'', ''b''] 1], p_catchers = []\<rparr>
       = Ok fin
     \<and> (\<forall>req :: nat Request. sorted_wrt (\<lambda>a b. rt_rank a < rt_rank b) (route plain_ext fin req))"
proof -
  let ?p = "\<lparr>p_routes = [sample_route [''a'', ''<id>''] 2, sample_route [''a'', ''b''] 1], p_catchers = []\<rparr>
      :: (nat, nat) Pending"
  have "\<exists>fin. finalize plain_ext ?p = Ok fin"
    by (simp add: finalize_def collisions_def route_collides_def sample_route_def Let_def)
  then obtain fin where fin: "finalize plain_ext ?p = Ok fin" ..
  have "list_all route_wf (p_routes ?p)" by (simp add: sample_route_wf)
  then have "sorted_wrt (\<lambda>a b. rt_rank a < rt_rank b) (route plain_ext fin req)" for req :: "nat Request"
    using route_complete_ordered [OF fin] by blast
  with fin show ?thesis by blast
qed

lemma find_table_row:
  assumes "find (\<lambda>i. Q (items ! i)) (table_row rank P items) = Some i"
  shows "i < length items \<and> P (items ! i) \<and> Q (items ! i)
    \<and> (\<forall>j < length items. P (items ! j) \<longrightarrow> Q (items ! j) \<longrightarrow> rank (items ! i) \<le> rank (items ! j))"
proof -
  let ?row = "table_row rank P items"
  obtain n where n: "n < length ?row" "Q (items ! i)" "i = ?row ! n" "\<forall>m < n. \<not> Q (items ! (?row ! m))"
    using assms by (auto simp: find_Some_iff)
  have "i \<in> set ?row" using n by auto
  then have i: "i < length items \<and> P (items ! i)" by (simp add: set_table_row)
  have "rank (items ! i) \<le> rank (items ! j)" if "j < length items" "P (items ! j)" "Q (items ! j)" for j
  proof -
    have "j \<in> set ?row" using that by (simp add: set_table_row)
    then obtain m where m: "m < length ?row" "j = ?row ! m" by (auto simp: in_set_conv_nth)
    then have "n \<le> m" using n(4) that(3) by (metis linorder_not_less)
    then show ?thesis
      using sorted_table_row [of rank items P] m n by (auto simp: sorted_iff_nth_mono)
  qed
  with i n(2) show ?thesis by blast
qed

lemma find_table_row_None:
  "find (\<lambda>i. Q (items ! i)) (table_row rank P items) = None \<longleftrightarrow> (\<forall>x \<in> set items. P x \<longrightarrow> \<not> Q x)"
  by (auto simp: find_None_iff set_table_row all_set_conv_all_nth)

lemma catch_in_spec:
  assumes "finalize x p = Ok fin"
  shows "catch_in x fin s req k = None \<longleftrightarrow>
      (\<forall>c \<in> set (p_catchers p). ca_code c = k \<longrightarrow> \<not> catcher_matches (x_pd x) c s req)"
    and "catch_in x fin s req k = Some c \<Longrightarrow>
      (\<exists>i < length (p_catchers p). c = p_catchers p ! i \<and> ca_code c = k \<and> catcher_matches (x_pd x) c s req
        \<and> (\<forall>c' \<in> set (p_catchers p). ca_code c' = k \<longrightarrow> catcher_matches (x_pd x) c' s req \<longrightarrow> ca_rank c \<le> ca_rank c'))"
proof -
  let ?cs = "p_catchers p"
  have eq: "catch_in x fin s req k = map_option (\<lambda>i. ?cs ! i)
      (find (\<lambda>i. catcher_matches (x_pd x) (?cs ! i) s req) (table_row ca_rank (\<lambda>c. ca_code c = k) ?cs))"
    using finalize_Ok [OF assms] catcher_map_row [OF assms] by (simp add: catch_in_eq)
  show "catch_in x fin s req k = None \<longleftrightarrow>
      (\<forall>c \<in> set ?cs. ca_code c = k \<longrightarrow> \<not> catcher_matches (x_pd x) c s req)"
    using find_table_row_None [of "\<lambda>c. catcher_matches (x_pd x) c s req" ?cs ca_rank "\<lambda>c. ca_code c = k"]
    unfolding eq by simp
  assume "catch_in x fin s req k = Some c"
  then obtain i where i: "find (\<lambda>i. catcher_matches (x_pd x) (?cs ! i) s req)
      (table_row ca_rank (\<lambda>c. ca_code c = k) ?cs) = Some i" and c: "c = ?cs ! i"
    unfolding eq by auto
  show "\<exists>i < length ?cs. c = ?cs ! i \<and> ca_code c = k \<and> catcher_matches (x_pd x) c s req
        \<and> (\<forall>c' \<in> set ?cs. ca_code c' = k \<longrightarrow> catcher_matches (x_pd x) c' s req \<longrightarrow> ca_rank c \<le> ca_rank c')"
    using find_table_row [OF i] c by (auto simp: all_set_conv_all_nth)
qed

text \<open>The order in which catchers are chosen: by rank, then the explicit code first.\<close>

definition catcher_before :: "'c Catcher \<Rightarrow> 'c Catcher \<Rightarrow> bool" where
  "catcher_before a b = (ca_rank a < ca_rank b \<or> ca_rank a = ca_rank b \<and> ca_code a \<noteq> None \<and> ca_code b = None)"

lemma catcher_matches_code:
  "catcher_matches pd c s q \<Longrightarrow> ca_code c = Some (code s) \<or> ca_code c = None"
  by (auto simp: catcher_matches_def split: option.splits)

lemma catch_min:
  assumes "finalize x p = Ok fin" and "catch x fin s req = Some c" and "c' \<in> set (p_catchers p)"
    and "catcher_matches (x_pd x) c' s req"
  shows "catcher_before c c' \<or> (ca_code c, ca_rank c) = (ca_code c', ca_rank c')"
proof -
  let ?e = "catch_in x fin s req (Some (code s))" and ?d = "catch_in x fin s req None"
  note spec = catch_in_spec [OF assms(1)]
  have le: "ca_rank a \<le> ca_rank c'" if "catch_in x fin s req (ca_code c') = Some a" for a
    using spec(2) [OF that] assms(3,4) by blast
  have some: "catch_in x fin s req (ca_code c') \<noteq> None"
    using spec(1) [of s req "ca_code c'"] assms(3,4) by blast
  have codes: "\<And>a. ?e = Some a \<Longrightarrow> ca_code a = Some (code s)" "\<And>b. ?d = Some b \<Longrightarrow> ca_code b = None"
    using spec(2) by blast+
  from catcher_matches_code [OF assms(4)] show ?thesis
    using assms(2) le some codes
    by (cases ?e; cases ?d) (fastforce simp: catch_def catcher_before_def split: if_splits)+
qed

text \<open>
  C13. Error catching (\<open>Router::catch\<close>, \<open>router.rs\<close>): a catcher is found exactly when one matches the
  status and the request; it has the least rank, so the longest base, among those that match, and on a
  tie a catcher registered for the status is taken over a default catcher.  With these rules the choice
  is unique.
\<close>

theorem catch_correct:
  assumes "finalize x p = Ok fin" and "pd_nonempty (x_pd x)" and "list_all (catcher_wf (x_pd x)) (p_catchers p)"
  shows "case catch x fin s req of
      None \<Rightarrow> \<forall>c \<in> set (p_catchers p). \<not> catcher_matches (x_pd x) c s req
    | Some c \<Rightarrow> c \<in> set (p_catchers p) \<and> catcher_matches (x_pd x) c s req
        \<and> (\<forall>c' \<in> set (p_catchers p). catcher_matches (x_pd x) c' s req \<longrightarrow> c' = c \<or> catcher_before c c')"
proof (cases "catch x fin s req")
  case None
  then have "catch_in x fin s req (Some (code s)) = None" "catch_in x fin s req None = None"
    by (auto simp: catch_def Let_def split: option.splits if_splits)
  then have "\<forall>c \<in> set (p_catchers p). \<not> catcher_matches (x_pd x) c s req"
    using catch_in_spec(1) [OF assms(1), of s req "Some (code s)"] catch_in_spec(1) [OF assms(1), of s req None]
      catcher_matches_code by metis
  then show ?thesis using None by simp
next
  case (Some c)
  then obtain k where "catch_in x fin s req k = Some c"
    by (auto simp: catch_def Let_def split: option.splits if_splits)
  then obtain i where i: "i < length (p_catchers p)" "c = p_catchers p ! i" "catcher_matches (x_pd x) c s req"
    using catch_in_spec(2) [OF assms(1)] by blast
  have "inj_on (\<lambda>i. (ca_code (p_catchers p ! i), ca_rank (p_catchers p ! i)))
      {i. i < length (p_catchers p) \<and> (case (s, req) of (s, q) \<Rightarrow> catcher_matches (x_pd x) (p_catchers p ! i) s q)}"
    using finalize_Ok [OF assms(1)] assms(2,3) by (intro catchers.prio_inj) (auto simp: list_all_iff)
  then have uniq: "c' = c" if "c' \<in> set (p_catchers p)" "catcher_matches (x_pd x) c' s req"
      "(ca_code c, ca_rank c) = (ca_code c', ca_rank c')" for c'
    using that i by (auto simp: inj_on_def in_set_conv_nth)
  have "c' = c \<or> catcher_before c c'" if "c' \<in> set (p_catchers p)" "catcher_matches (x_pd x) c' s req" for c'
    using catch_min [OF assms(1) Some that] uniq [OF that] by blast
  then show ?thesis using Some i by auto
qed


theorem catch_correct_witness:
  "\<exists>c (fin :: (nat, nat) Finalized).
     catcher_new plain_ext (Some 404) (0 :: nat) = Ok c
     \<and> finalize plain_ext \<lparr>p_routes = [], p_catchers = [c]\<rparr> = Ok fin
     \<and> catch plain_ext fin Status_NotFound (request_new None False Get origin_root :: nat Request) = Some c"
proof -
  have "\<exists>c. catcher_new plain_ext (Some 404) (0 :: nat) = Ok c \<and> ca_code c = Some 404 \<and> o_path (ca_base c) = ''/''"
    by (simp add: catcher_new_def origin_root_def)
  then obtain c where c: "catcher_new plain_ext (Some 404) (0 :: nat) = Ok c" "ca_code c = Some 404"
    "o_path (ca_base c) = ''/''" by blast
  let ?p = "\<lparr>p_routes = [], p_catchers = [c]\<rparr> :: (nat, nat) Pending"
  let ?q = "request_new None False Get origin_root :: nat Request"
  have "\<exists>fin. finalize plain_ext ?p = Ok fin" by (simp add: finalize_def collisions_def Let_def)
  then obtain fin where fin: "finalize plain_ext ?p = Ok fin" ..
  have wf: "list_all (catcher_wf (x_pd plain_ext)) (p_catchers ?p)" using catcher_new_wf [OF c(1)] by simp
  have "path_segments Borrowed ''/'' = [[]]" by (simp add: path_segments_eq raw_segments_printable)
  then have "catcher_matches (x_pd plain_ext) c Status_NotFound ?q"
    using c by (simp add: catcher_matches_def plain_ext_def request_new_def origin_root_def prefix_of_new)
  then have "catch plain_ext fin Status_NotFound ?q = Some c"
    using catch_correct [OF fin plain_pd_nonempty wf, of Status_NotFound ?q] by (auto split: option.splits)
  with c(1) fin show ?thesis by blast
qed

text \<open>
  C14. Ignition accepts exactly the collision-free tables (\<open>Router::finalize\<close>): it fails if and only if
  some two routes or some two catchers at different positions collide, in either order, and then it
  reports them.
\<close>

theorem finalize_iff:
  "(case finalize x p of
      Ok fin \<Rightarrow> True
    | Err (rs, cs) \<Rightarrow> False) =
     (\<not> (\<exists>i j. i \<noteq> j \<and> i < length (p_routes p) \<and> j < length (p_routes p)
          \<and> route_collides (x_uc x) (p_routes p ! i) (p_routes p ! j))
      \<and> \<not> (\<exists>i j. i \<noteq> j \<and> i < length (p_catchers p) \<and> j < length (p_catchers p)
          \<and> catcher_collides (x_pd x) (p_catchers p ! i) (p_catchers p ! j)))"
proof -
  have "(case finalize x p of Ok fin \<Rightarrow> True | Err (rs, cs) \<Rightarrow> False) \<longleftrightarrow>
      collisions (route_collides (x_uc x)) (p_routes p) = []
      \<and> collisions (catcher_collides (x_pd x)) (p_catchers p) = []"
    by (simp add: finalize_def Let_def)
  then show ?thesis unfolding routes.collisions_iff catchers.collisions_iff .
qed

end
