(* ===== verification/Cookies.thy ===== *)
theory Cookies
  imports HeaderLaws
begin

text \<open>
  The cookie jar (\<open>core/lib/src/http/cookies.rs\<close>): the jar of received cookies and the vector of pending
  operations behind a mutex, which handlers append to and dispatch turns into \<open>Set-Cookie\<close> headers.

  \<open>Cookie\<close> is the data type of the crate \<open>cookie\<close>, with the attributes the code reads and sets (the age in seconds).  The
  crate's own jar is a value of type \<open>'k\<close>; the operations called on it are the fields of the record
  \<open>cookie_crate\<close>.  Private cookies are left out except for how pending operations store them.
\<close>

section \<open>Model\<close>

datatype SameSite = Strict | Lax | SameSiteNone

record Cookie =
  ck_name :: str
  ck_value :: str
  ck_path :: "str option"
  ck_same_site :: "SameSite option"
  ck_secure :: "bool option"
  ck_max_age :: "int option"

datatype Op = AddOp Cookie bool | RemoveOp Cookie

record 'k CookieJar =
  cj_jar :: 'k
  cj_ops :: "Op list"
  cj_secure :: bool

record 'k cookie_crate =
  cc_new :: 'k
  cc_get :: "str \<Rightarrow> 'k \<Rightarrow> Cookie option"
  cc_add :: "Cookie \<Rightarrow> 'k \<Rightarrow> 'k"
  cc_private_add :: "Cookie \<Rightarrow> 'k \<Rightarrow> 'k"
  cc_remove :: "Cookie \<Rightarrow> 'k \<Rightarrow> 'k"
  cc_make_removal :: "Cookie \<Rightarrow> Cookie"
  cc_delta :: "'k \<Rightarrow> Cookie list"
  cc_encoded :: "Cookie \<Rightarrow> str"

definition jar_new :: "'k \<Rightarrow> bool \<Rightarrow> 'k CookieJar" where
  "jar_new base secure = \<lparr>cj_jar = base, cj_ops = [], cj_secure = secure\<rparr>"

fun op_cookie :: "Op \<Rightarrow> Cookie" where
  "op_cookie (AddOp c _) = c"
| "op_cookie (RemoveOp c) = c"

definition jar_get :: "'k cookie_crate \<Rightarrow> str \<Rightarrow> 'k CookieJar \<Rightarrow> Cookie option" where
  "jar_get cc name self = cc_get cc name (cj_jar self)"

text \<open>\<open>get_pending\<close> without the \<open>secrets\<close> feature.\<close>

definition get_pending :: "'k cookie_crate \<Rightarrow> str \<Rightarrow> 'k CookieJar \<Rightarrow> Cookie option" where
  "get_pending cc name self =
     (case find (\<lambda>p. ck_name (op_cookie p) = name) (rev (cj_ops self)) of
        Some (AddOp c _) \<Rightarrow> Some c
      | Some (RemoveOp _) \<Rightarrow> None
      | None \<Rightarrow> jar_get cc name self)"

definition set_defaults :: "'k CookieJar \<Rightarrow> Cookie \<Rightarrow> Cookie" where
  "set_defaults self cookie =
     (let cookie = (if ck_path cookie = None then cookie\<lparr>ck_path := Some ''/''\<rparr> else cookie);
          cookie = (if ck_same_site cookie = None then cookie\<lparr>ck_same_site := Some Strict\<rparr> else cookie)
      in if ck_secure cookie = None \<and> cj_secure self then cookie\<lparr>ck_secure := Some True\<rparr> else cookie)"

definition set_removal_defaults :: "Cookie \<Rightarrow> Cookie" where
  "set_removal_defaults cookie =
     (let cookie = (if ck_path cookie = None then cookie\<lparr>ck_path := Some ''/''\<rparr> else cookie)
      in if ck_same_site cookie = None then cookie\<lparr>ck_same_site := Some Lax\<rparr> else cookie)"

definition jar_add :: "Cookie \<Rightarrow> 'k CookieJar \<Rightarrow> 'k CookieJar" where
  "jar_add cookie self = self\<lparr>cj_ops := cj_ops self @ [AddOp (set_defaults self cookie) False]\<rparr>"

definition jar_remove :: "Cookie \<Rightarrow> 'k CookieJar \<Rightarrow> 'k CookieJar" where
  "jar_remove cookie self = self\<lparr>cj_ops := cj_ops self @ [RemoveOp (set_removal_defaults cookie)]\<rparr>"

definition reset_delta :: "'k CookieJar \<Rightarrow> 'k CookieJar" where
  "reset_delta self = self\<lparr>cj_ops := []\<rparr>"

definition delta_step :: "'k cookie_crate \<Rightarrow> 'k CookieJar \<Rightarrow> Op \<Rightarrow> 'k \<Rightarrow> 'k" where
  "delta_step cc self p jar =
     (case p of
        AddOp c False \<Rightarrow> cc_add cc c jar
      | AddOp c True \<Rightarrow> cc_private_add cc c jar
      | RemoveOp c \<Rightarrow>
          if cc_get cc (ck_name c) (cj_jar self) \<noteq> None then cc_add cc (cc_make_removal cc c) jar
          else cc_remove cc c jar)"

definition take_delta_jar :: "'k cookie_crate \<Rightarrow> 'k CookieJar \<Rightarrow> 'k \<times> 'k CookieJar" where
  "take_delta_jar cc self =
     (fold (delta_step cc self) (cj_ops self) (cc_new cc), self\<lparr>cj_ops := []\<rparr>)"

definition cookie_header :: "'k cookie_crate \<Rightarrow> Cookie \<Rightarrow> Header" where
  "cookie_header cc cookie = header_new ''Set-Cookie'' (cc_encoded cc cookie)"

section \<open>Lemmas\<close>

lemma set_defaults_name [simp]: "ck_name (set_defaults j c) = ck_name c"
  by (simp add: set_defaults_def Let_def)

lemma set_removal_defaults_name [simp]: "ck_name (set_removal_defaults c) = ck_name c"
  by (simp add: set_removal_defaults_def Let_def)

section \<open>Properties\<close>

text \<open>
  Pending cookies (\<open>CookieJar::get_pending\<close>, \<open>add\<close>, \<open>remove\<close>, \<open>reset_delta\<close>, \<open>cookies.rs\<close>): the
  pending value of a name is the one of the last operation on it, with the defaults filled in: never
  overwritten when given, \<open>Strict\<close> and path \<open>/\<close> otherwise, and marked secure on a secure connection.
  Other names are untouched, and resetting the delta restores the received value.
\<close>

theorem get_pending_last:
  "get_pending cc n (jar_add c j) = (if ck_name c = n then Some (set_defaults j c) else get_pending cc n j)
   \<and> get_pending cc n (jar_remove c j) = (if ck_name c = n then None else get_pending cc n j)
   \<and> get_pending cc n (reset_delta j) = jar_get cc n j
   \<and> ck_path (set_defaults j c) = Some (case ck_path c of None \<Rightarrow> ''/'' | Some p \<Rightarrow> p)
   \<and> ck_same_site (set_defaults j c) = Some (case ck_same_site c of None \<Rightarrow> Strict | Some s \<Rightarrow> s)
   \<and> ck_secure (set_defaults j c) = (case ck_secure c of None \<Rightarrow> if cj_secure j then Some True else None | Some b \<Rightarrow> Some b)
   \<and> ck_value (set_defaults j c) = ck_value c"
  by (auto simp: get_pending_def jar_add_def jar_remove_def reset_delta_def jar_get_def set_defaults_def Let_def
      split: option.split)

end
