(* ===== verification/Outcomes.thy ===== *)
theory Outcomes
  imports Status
begin

text \<open>
  Outcomes (\<open>core/lib/src/outcome.rs\<close>): the three-way result of handlers and guards, its combinators,
  the early-return macro \<open>try_outcome!\<close> and the conversions of \<open>IntoOutcome\<close>.  \<open>unwrap\<close> and
  \<open>expect\<close> panic on anything but success, which is \<open>None\<close> here.
\<close>

section \<open>Model\<close>

datatype ('s, 'e, 'f) Outcome = Success 's | Error 'e | Forward 'f

fun outcome_unwrap :: "('s, 'e, 'f) Outcome \<Rightarrow> 's option" where
  "outcome_unwrap (Success val) = Some val"
| "outcome_unwrap _ = None"

fun is_success :: "('s, 'e, 'f) Outcome \<Rightarrow> bool" where
  "is_success (Success _) = True"
| "is_success _ = False"

fun is_error :: "('s, 'e, 'f) Outcome \<Rightarrow> bool" where
  "is_error (Error _) = True"
| "is_error _ = False"

fun is_forward :: "('s, 'e, 'f) Outcome \<Rightarrow> bool" where
  "is_forward (Forward _) = True"
| "is_forward _ = False"

fun succeeded :: "('s, 'e, 'f) Outcome \<Rightarrow> 's option" where
  "succeeded (Success val) = Some val"
| "succeeded _ = None"

fun failed :: "('s, 'e, 'f) Outcome \<Rightarrow> 'e option" where
  "failed (Error val) = Some val"
| "failed _ = None"

fun forwarded :: "('s, 'e, 'f) Outcome \<Rightarrow> 'f option" where
  "forwarded (Forward val) = Some val"
| "forwarded _ = None"

fun success_or :: "'t \<Rightarrow> ('s, 'e, 'f) Outcome \<Rightarrow> ('s, 't) result" where
  "success_or val (Success s) = Ok s"
| "success_or val _ = Err val"

fun outcome_map :: "('s \<Rightarrow> 't) \<Rightarrow> ('s, 'e, 'f) Outcome \<Rightarrow> ('t, 'e, 'f) Outcome" where
  "outcome_map f (Success val) = Success (f val)"
| "outcome_map f (Error val) = Error val"
| "outcome_map f (Forward val) = Forward val"

fun map_error :: "('e \<Rightarrow> 't) \<Rightarrow> ('s, 'e, 'f) Outcome \<Rightarrow> ('s, 't, 'f) Outcome" where
  "map_error f (Success val) = Success val"
| "map_error f (Error val) = Error (f val)"
| "map_error f (Forward val) = Forward val"

fun map_forward :: "('f \<Rightarrow> 't) \<Rightarrow> ('s, 'e, 'f) Outcome \<Rightarrow> ('s, 'e, 't) Outcome" where
  "map_forward f (Success val) = Success val"
| "map_forward f (Error val) = Error val"
| "map_forward f (Forward val) = Forward (f val)"

fun and_then :: "('s, 'e, 'f) Outcome \<Rightarrow> ('s \<Rightarrow> ('t, 'e, 'f) Outcome) \<Rightarrow> ('t, 'e, 'f) Outcome" where
  "and_then (Success val) f = f val"
| "and_then (Error val) f = Error val"
| "and_then (Forward val) f = Forward val"

fun error_then :: "('s, 'e, 'f) Outcome \<Rightarrow> ('e \<Rightarrow> ('s, 't, 'f) Outcome) \<Rightarrow> ('s, 't, 'f) Outcome" where
  "error_then (Success val) f = Success val"
| "error_then (Error val) f = f val"
| "error_then (Forward val) f = Forward val"

fun forward_then :: "('s, 'e, 'f) Outcome \<Rightarrow> ('f \<Rightarrow> ('s, 'e, 't) Outcome) \<Rightarrow> ('s, 'e, 't) Outcome" where
  "forward_then (Success val) f = Success val"
| "forward_then (Error val) f = Error val"
| "forward_then (Forward val) f = f val"

fun ok_map_forward :: "('f \<Rightarrow> ('s, 'e) result) \<Rightarrow> ('s, 'e, 'f) Outcome \<Rightarrow> ('s, 'e) result" where
  "ok_map_forward f (Success s) = Ok s"
| "ok_map_forward f (Error e) = Err e"
| "ok_map_forward f (Forward v) = f v"

fun ok_map_error :: "('e \<Rightarrow> ('s, 'f) result) \<Rightarrow> ('s, 'e, 'f) Outcome \<Rightarrow> ('s, 'f) result" where
  "ok_map_error f (Success s) = Ok s"
| "ok_map_error f (Error e) = f e"
| "ok_map_error f (Forward v) = Err v"

text \<open>\<open>try_outcome!(o)\<close> followed by the rest \<open>k\<close> of the function, with the two \<open>From::from\<close> conversions.\<close>

fun try_outcome ::
  "('e \<Rightarrow> 'e2) \<Rightarrow> ('f \<Rightarrow> 'f2) \<Rightarrow> ('s, 'e, 'f) Outcome \<Rightarrow> ('s \<Rightarrow> ('t, 'e2, 'f2) Outcome) \<Rightarrow> ('t, 'e2, 'f2) Outcome" where
  "try_outcome from_e from_f (Success val) k = k val"
| "try_outcome from_e from_f (Error e) k = Error (from_e e)"
| "try_outcome from_e from_f (Forward f) k = Forward (from_f f)"

fun option_or_error :: "'s option \<Rightarrow> 'e \<Rightarrow> ('s, 'e, 'f) Outcome" where
  "option_or_error (Some val) error = Success val"
| "option_or_error None error = Error error"

fun option_or_forward :: "'s option \<Rightarrow> 'f \<Rightarrow> ('s, 'e, 'f) Outcome" where
  "option_or_forward (Some val) forward = Success val"
| "option_or_forward None forward = Forward forward"

text \<open>Data guards: the status joins the error, and the data is forwarded with the status.\<close>

fun data_or_error :: "('s, 'e) result \<Rightarrow> Status \<Rightarrow> ('s, Status \<times> 'e, 'd \<times> Status) Outcome" where
  "data_or_error (Ok val) error = Success val"
| "data_or_error (Err err) error = Error (error, err)"

fun data_or_forward :: "('s, 'e) result \<Rightarrow> 'd \<times> Status \<Rightarrow> ('s, Status \<times> 'e, 'd \<times> Status) Outcome" where
  "data_or_forward (Ok val) forward = Success val"
| "data_or_forward (Err _) forward = Forward forward"

fun request_or_error :: "('s, 'e) result \<Rightarrow> Status \<Rightarrow> ('s, Status \<times> 'e, Status) Outcome" where
  "request_or_error (Ok val) error = Success val"
| "request_or_error (Err err) error = Error (error, err)"

fun request_or_forward :: "('s, 'e) result \<Rightarrow> Status \<Rightarrow> ('s, Status \<times> 'e, Status) Outcome" where
  "request_or_forward (Ok val) status = Success val"
| "request_or_forward (Err _) status = Forward status"

fun route_or_error :: "('s, Status) result \<Rightarrow> ('s, Status, 'd \<times> Status) Outcome" where
  "route_or_error (Ok val) = Success val"
| "route_or_error (Err status) = Error status"

fun route_or_forward :: "('s, Status) result \<Rightarrow> 'd \<times> Status \<Rightarrow> ('s, Status, 'd \<times> Status) Outcome" where
  "route_or_forward (Ok val) forward = Success val"
| "route_or_forward (Err _) forward = Forward forward"

section \<open>Properties\<close>

text \<open>
  The combinators of \<open>Outcome\<close> (\<open>outcome.rs\<close>) compose as their names promise: \<open>and_then\<close> is
  associative with \<open>Success\<close> as its unit, \<open>map\<close> is the special case that always succeeds, the three
  \<open>_then\<close> combinators change only their own variant, and \<open>try_outcome!\<close> is \<open>and_then\<close> after
  converting errors and forwards.
\<close>

theorem outcome_combinators:
  "and_then (and_then r f) g = and_then r (\<lambda>v. and_then (f v) g)
   \<and> and_then r Success = r \<and> outcome_map h r = and_then r (\<lambda>v. Success (h v))
   \<and> error_then r Error = r \<and> forward_then r Forward = r
   \<and> try_outcome from_e from_f r k = and_then (map_forward from_f (map_error from_e r)) k
   \<and> (is_success r \<longleftrightarrow> succeeded r \<noteq> None) \<and> (is_error r \<longleftrightarrow> failed r \<noteq> None)
   \<and> (is_forward r \<longleftrightarrow> forwarded r \<noteq> None)
   \<and> of_bool (is_success r) + of_bool (is_error r) + of_bool (is_forward r) = (1 :: nat)"
  by (cases r) simp_all

end
