(* ===== verification/ResponseModel.thy ===== *)
theory ResponseModel
  imports Cookies Outcomes
begin

text \<open>
  Responses (\<open>core/lib/src/response\<close>: \<open>body.rs\<close>, \<open>response.rs\<close>): bodies with their optional size,
  the response value with its headers and upgrades, and the builder.

  A body's reader is a value of type \<open>'b\<close>; seeking and reading to the end are the code of that reader
  and are arguments of the definitions that call them.  Sizes are \<open>usize\<close>, 64 bits wide, so the
  subtraction of the two seek positions wraps as it does in a release build.  Upgrade handlers have
  type \<open>'io\<close>.
\<close>

section \<open>Model: bodies\<close>

type_synonym usize = "64 word"

datatype SeekFrom = SeekStart usize | SeekEnd int | SeekCurrent int

type_synonym 'b seek = "SeekFrom \<Rightarrow> 'b \<Rightarrow> usize option \<times> 'b"

datatype 'b Inner = Seekable 'b | Unsized 'b | PhantomBody 'b | InnerNone

record 'b Body =
  b_size :: "usize option"
  b_inner :: "'b Inner"
  b_max_chunk :: usize

definition DEFAULT_MAX_CHUNK :: usize where
  "DEFAULT_MAX_CHUNK = 4096"

definition body_default :: "'b Body" where
  "body_default = \<lparr>b_size = Some 0, b_inner = InnerNone, b_max_chunk = DEFAULT_MAX_CHUNK\<rparr>"

definition unsized_none :: "'b Body" where
  "unsized_none = \<lparr>b_size = None, b_inner = InnerNone, b_max_chunk = DEFAULT_MAX_CHUNK\<rparr>"

definition with_sized :: "'b \<Rightarrow> usize option \<Rightarrow> 'b Body" where
  "with_sized body preset_size =
     \<lparr>b_size = preset_size, b_inner = Seekable body, b_max_chunk = DEFAULT_MAX_CHUNK\<rparr>"

definition with_unsized :: "'b \<Rightarrow> 'b Body" where
  "with_unsized body = \<lparr>b_size = None, b_inner = Unsized body, b_max_chunk = DEFAULT_MAX_CHUNK\<rparr>"

definition body_set_max_chunk_size :: "usize \<Rightarrow> 'b Body \<Rightarrow> 'b Body" where
  "body_set_max_chunk_size n self = self\<lparr>b_max_chunk := n\<rparr>"

definition strip :: "'b Body \<Rightarrow> 'b Body" where
  "strip self =
     (case b_inner self of
        Seekable b \<Rightarrow> \<lparr>b_size = b_size self, b_inner = PhantomBody b, b_max_chunk = b_max_chunk self\<rparr>
      | PhantomBody b \<Rightarrow> \<lparr>b_size = b_size self, b_inner = PhantomBody b, b_max_chunk = b_max_chunk self\<rparr>
      | Unsized _ \<Rightarrow> body_default
      | InnerNone \<Rightarrow> body_default)"

definition body_is_none :: "'b Body \<Rightarrow> bool" where
  "body_is_none self = (b_inner self = InnerNone)"

definition body_is_some :: "'b Body \<Rightarrow> bool" where
  "body_is_some self = (\<not> body_is_none self)"

definition seek_size :: "'b seek \<Rightarrow> ('b \<Rightarrow> 'b Inner) \<Rightarrow> 'b \<Rightarrow> 'b Body \<Rightarrow> usize option \<times> 'b Body" where
  "seek_size seek mk b self =
     (case seek (SeekCurrent 0) b of
        (None, b) \<Rightarrow> (None, self\<lparr>b_inner := mk b\<rparr>)
      | (Some start, b) \<Rightarrow>
          (case seek (SeekEnd 0) b of
             (None, b) \<Rightarrow> (None, self\<lparr>b_inner := mk b\<rparr>)
           | (Some stop, b) \<Rightarrow>
               (case seek (SeekStart start) b of
                  (None, b) \<Rightarrow> (None, self\<lparr>b_inner := mk b\<rparr>)
                | (Some _, b) \<Rightarrow>
                    let n = stop - start
                    in (Some n, self\<lparr>b_inner := mk b, b_size := Some n\<rparr>))))"

definition body_size :: "'b seek \<Rightarrow> 'b Body \<Rightarrow> usize option \<times> 'b Body" where
  "body_size seek self =
     (case b_size self of
        Some n \<Rightarrow> (Some n, self)
      | None \<Rightarrow>
          (case b_inner self of
             Seekable b \<Rightarrow> seek_size seek Seekable b self
           | PhantomBody b \<Rightarrow> seek_size seek PhantomBody b self
           | _ \<Rightarrow> (None, self)))"

definition body_take :: "'b Body \<Rightarrow> 'b Body \<times> 'b Body" where
  "body_take self = (self, body_default)"

text \<open>\<open>poll_read\<close> reads from the reader only when there is one to read; otherwise it is at its end.\<close>

definition body_reader :: "'b Body \<Rightarrow> 'b option" where
  "body_reader self =
     (case b_inner self of Seekable b \<Rightarrow> Some b | Unsized b \<Rightarrow> Some b | PhantomBody _ \<Rightarrow> None | InnerNone \<Rightarrow> None)"

definition set_reader :: "'b \<Rightarrow> 'b Body \<Rightarrow> 'b Body" where
  "set_reader b self =
     self\<lparr>b_inner := (case b_inner self of Seekable _ \<Rightarrow> Seekable b | Unsized _ \<Rightarrow> Unsized b | i \<Rightarrow> i)\<rparr>"

definition to_bytes :: "('b \<Rightarrow> (str, 'e) result \<times> 'b) \<Rightarrow> 'b Body \<Rightarrow> (str, 'e) result \<times> 'b Body" where
  "to_bytes read_to_end self =
     (let (res, self) = (case body_reader self of
                           None \<Rightarrow> (Ok [], self)
                         | Some b \<Rightarrow> (case read_to_end b of (r, b') \<Rightarrow> (r, set_reader b' self)))
      in case res of
           Err e \<Rightarrow> (Err e, self)
         | Ok vec \<Rightarrow>
             (Ok vec, self\<lparr>b_size := map_option
                (\<lambda>n. if length vec \<le> unat n then n - of_nat (length vec) else 0) (b_size self)\<rparr>))"

section \<open>Model: responses\<close>

record ('b, 'io) Response =
  rs_status :: "Status option"
  rs_headers :: HeaderMap
  rs_body :: "'b Body"
  rs_upgrade :: "(str, 'io) index_map"

definition response_new :: "('b, 'io) Response" where
  "response_new = \<lparr>rs_status = None, rs_headers = hm_new, rs_body = body_default, rs_upgrade = []\<rparr>"

definition status :: "('b, 'io) Response \<Rightarrow> Status" where
  "status self = (case rs_status self of Some s \<Rightarrow> s | None \<Rightarrow> Status_Ok)"

definition set_status :: "Status \<Rightarrow> ('b, 'io) Response \<Rightarrow> ('b, 'io) Response" where
  "set_status s self = self\<lparr>rs_status := Some s\<rparr>"

definition set_header_map :: "HeaderMap \<Rightarrow> ('b, 'io) Response \<Rightarrow> ('b, 'io) Response" where
  "set_header_map headers self = self\<lparr>rs_headers := headers\<rparr>"

definition set_header :: "uncased_key \<Rightarrow> Header \<Rightarrow> ('b, 'io) Response \<Rightarrow> bool \<times> ('b, 'io) Response" where
  "set_header uc header self =
     (let (old, headers) = hm_replace uc header (rs_headers self)
      in (old, self\<lparr>rs_headers := headers\<rparr>))"

definition set_raw_header :: "uncased_key \<Rightarrow> str \<Rightarrow> str \<Rightarrow> ('b, 'io) Response \<Rightarrow> bool \<times> ('b, 'io) Response" where
  "set_raw_header uc name val self = set_header uc (header_new name val) self"

definition adjoin_header :: "uncased_key \<Rightarrow> Header \<Rightarrow> ('b, 'io) Response \<Rightarrow> ('b, 'io) Response" where
  "adjoin_header uc header self = self\<lparr>rs_headers := hm_add uc header (rs_headers self)\<rparr>"

definition adjoin_raw_header :: "uncased_key \<Rightarrow> str \<Rightarrow> str \<Rightarrow> ('b, 'io) Response \<Rightarrow> ('b, 'io) Response" where
  "adjoin_raw_header uc name val self = adjoin_header uc (header_new name val) self"

definition remove_header :: "uncased_key \<Rightarrow> str \<Rightarrow> ('b, 'io) Response \<Rightarrow> ('b, 'io) Response" where
  "remove_header uc name self = self\<lparr>rs_headers := hm_remove uc name (rs_headers self)\<rparr>"

definition strip_body :: "('b, 'io) Response \<Rightarrow> ('b, 'io) Response" where
  "strip_body self = self\<lparr>rs_body := strip (rs_body self)\<rparr>"

definition set_sized_body :: "usize option \<Rightarrow> 'b \<Rightarrow> ('b, 'io) Response \<Rightarrow> ('b, 'io) Response" where
  "set_sized_body n body self = self\<lparr>rs_body := with_sized body n\<rparr>"

definition set_streamed_body :: "'b \<Rightarrow> ('b, 'io) Response \<Rightarrow> ('b, 'io) Response" where
  "set_streamed_body body self = self\<lparr>rs_body := with_unsized body\<rparr>"

definition set_max_chunk_size :: "usize \<Rightarrow> ('b, 'io) Response \<Rightarrow> ('b, 'io) Response" where
  "set_max_chunk_size n self = self\<lparr>rs_body := body_set_max_chunk_size n (rs_body self)\<rparr>"

definition add_upgrade :: "uncased_key \<Rightarrow> str \<Rightarrow> 'io \<Rightarrow> ('b, 'io) Response \<Rightarrow> ('b, 'io) Response" where
  "add_upgrade uc protocol handler self =
     self\<lparr>rs_upgrade := im_insert uc protocol handler (rs_upgrade self)\<rparr>"

text \<open>\<open>HashMap::remove_entry\<close> and the \<open>find_map\<close> over the protocols asked for.\<close>

fun remove_entry :: "('k \<Rightarrow> 'q) \<Rightarrow> 'k \<Rightarrow> ('k, 'v) index_map \<Rightarrow> ('k \<times> 'v) option \<times> ('k, 'v) index_map" where
  "remove_entry uc k [] = (None, [])"
| "remove_entry uc k ((k', v) # m) =
     (if uc k' = uc k then (Some (k', v), m)
      else (case remove_entry uc k m of (r, m') \<Rightarrow> (r, (k', v) # m')))"

fun find_upgrade :: "uncased_key \<Rightarrow> str list \<Rightarrow> (str, 'io) index_map \<Rightarrow> (str \<times> 'io) option \<times> (str, 'io) index_map" where
  "find_upgrade uc [] m = (None, m)"
| "find_upgrade uc (p # ps) m =
     (case remove_entry uc p m of
        (Some e, m') \<Rightarrow> (Some e, m')
      | (None, m') \<Rightarrow> find_upgrade uc ps m')"

definition search_upgrades ::
  "uncased_key \<Rightarrow> str list \<Rightarrow> ('b, 'io) Response \<Rightarrow> ((str \<times> 'io) option, unit) result \<times> ('b, 'io) Response" where
  "search_upgrades uc protocols self =
     (if rs_upgrade self = [] then (Ok None, self)
      else
        let have_protocols = (protocols \<noteq> []);
            (found, m) = find_upgrade uc (concat (map (\<lambda>v. map trim (split (CHR '','') v)) protocols)) (rs_upgrade self);
            self = self\<lparr>rs_upgrade := m\<rparr>
        in case found of
             Some h \<Rightarrow> (Ok (Some h), self)
           | None \<Rightarrow> if have_protocols then (Err (), self) else (Ok None, self))"

definition merge :: "uncased_key \<Rightarrow> ('b, 'io) Response \<Rightarrow> ('b, 'io) Response \<Rightarrow> ('b, 'io) Response" where
  "merge uc self other =
     (let self = (case rs_status other of Some s \<Rightarrow> self\<lparr>rs_status := Some s\<rparr> | None \<Rightarrow> self);
          self = (if body_is_some (rs_body other) then self\<lparr>rs_body := rs_body other\<rparr> else self)
      in self\<lparr>rs_headers := fold (\<lambda>(name, values). hm_replace_all uc name values) (rs_headers other) (rs_headers self)\<rparr>)"

definition join_response :: "uncased_key \<Rightarrow> ('b, 'io) Response \<Rightarrow> ('b, 'io) Response \<Rightarrow> ('b, 'io) Response" where
  "join_response uc self other =
     (let self = (if rs_status self = None then self\<lparr>rs_status := rs_status other\<rparr> else self);
          self = (if body_is_none (rs_body self) then self\<lparr>rs_body := rs_body other\<rparr> else self)
      in self\<lparr>rs_headers := fold (\<lambda>(name, values) m. snd (hm_add_all uc name values m)) (rs_headers other) (rs_headers self)\<rparr>)"

section \<open>Model: the builder\<close>

record ('b, 'io) Builder =
  bd_response :: "('b, 'io) Response"

definition build_from :: "('b, 'io) Response \<Rightarrow> ('b, 'io) Builder" where
  "build_from other = \<lparr>bd_response = other\<rparr>"

definition build :: "('b, 'io) Builder" where
  "build = build_from response_new"

definition builder_status :: "Status \<Rightarrow> ('b, 'io) Builder \<Rightarrow> ('b, 'io) Builder" where
  "builder_status s self = self\<lparr>bd_response := set_status s (bd_response self)\<rparr>"

definition builder_header :: "uncased_key \<Rightarrow> Header \<Rightarrow> ('b, 'io) Builder \<Rightarrow> ('b, 'io) Builder" where
  "builder_header uc h self = self\<lparr>bd_response := snd (set_header uc h (bd_response self))\<rparr>"

definition builder_header_adjoin :: "uncased_key \<Rightarrow> Header \<Rightarrow> ('b, 'io) Builder \<Rightarrow> ('b, 'io) Builder" where
  "builder_header_adjoin uc h self = self\<lparr>bd_response := adjoin_header uc h (bd_response self)\<rparr>"

definition builder_raw_header :: "uncased_key \<Rightarrow> str \<Rightarrow> str \<Rightarrow> ('b, 'io) Builder \<Rightarrow> ('b, 'io) Builder" where
  "builder_raw_header uc n v self = self\<lparr>bd_response := snd (set_raw_header uc n v (bd_response self))\<rparr>"

definition builder_raw_header_adjoin :: "uncased_key \<Rightarrow> str \<Rightarrow> str \<Rightarrow> ('b, 'io) Builder \<Rightarrow> ('b, 'io) Builder" where
  "builder_raw_header_adjoin uc n v self = self\<lparr>bd_response := adjoin_raw_header uc n v (bd_response self)\<rparr>"

definition builder_sized_body :: "usize option \<Rightarrow> 'b \<Rightarrow> ('b, 'io) Builder \<Rightarrow> ('b, 'io) Builder" where
  "builder_sized_body n b self = self\<lparr>bd_response := set_sized_body n b (bd_response self)\<rparr>"

definition builder_streamed_body :: "'b \<Rightarrow> ('b, 'io) Builder \<Rightarrow> ('b, 'io) Builder" where
  "builder_streamed_body b self = self\<lparr>bd_response := set_streamed_body b (bd_response self)\<rparr>"

definition builder_upgrade :: "uncased_key \<Rightarrow> str \<Rightarrow> 'io \<Rightarrow> ('b, 'io) Builder \<Rightarrow> ('b, 'io) Builder" where
  "builder_upgrade uc p h self = self\<lparr>bd_response := add_upgrade uc p h (bd_response self)\<rparr>"

definition builder_max_chunk_size :: "usize \<Rightarrow> ('b, 'io) Builder \<Rightarrow> ('b, 'io) Builder" where
  "builder_max_chunk_size n self = self\<lparr>bd_response := set_max_chunk_size n (bd_response self)\<rparr>"

definition builder_merge :: "uncased_key \<Rightarrow> ('b, 'io) Response \<Rightarrow> ('b, 'io) Builder \<Rightarrow> ('b, 'io) Builder" where
  "builder_merge uc other self = self\<lparr>bd_response := merge uc (bd_response self) other\<rparr>"

definition builder_join :: "uncased_key \<Rightarrow> ('b, 'io) Response \<Rightarrow> ('b, 'io) Builder \<Rightarrow> ('b, 'io) Builder" where
  "builder_join uc other self = self\<lparr>bd_response := join_response uc (bd_response self) other\<rparr>"

definition builder_finalize :: "('b, 'io) Builder \<Rightarrow> ('b, 'io) Response \<times> ('b, 'io) Builder" where
  "builder_finalize self = (bd_response self, self\<lparr>bd_response := response_new\<rparr>)"

section \<open>Lemmas\<close>

lemma fold_replace_all:
  assumes "im_inv uc other" and "im_inv uc m"
  shows "im_inv uc (fold (\<lambda>(n, vs). hm_replace_all uc n vs) other m)
    \<and> hm_get uc k (fold (\<lambda>(n, vs). hm_replace_all uc n vs) other m) =
        (if hm_contains uc k other then hm_get uc k other else hm_get uc k m)"
  using assms
proof (induction other arbitrary: m)
  case (Cons nv other)
  obtain n vs where nv: "nv = (n, vs)" by (cases nv)
  have inv: "im_inv uc other" and fresh: "uc n \<notin> set (im_keys uc other)"
    using Cons.prems(1) by (simp_all add: nv im_inv_def im_keys_def)
  have inv': "im_inv uc (hm_replace_all uc n vs m)"
    using Cons.prems(2) by (simp add: im_inv_def hm_replace_all_def im_keys_insert)
  have get: "hm_get uc k (hm_replace_all uc n vs m) = (if uc n = uc k then vs else hm_get uc k m)"
    by (simp add: hm_get_def hm_replace_all_def im_get_insert)
  have "uc n = uc k \<Longrightarrow> im_get uc k other = None" using fresh by (simp add: im_get_None)
  then show ?case using Cons.IH [OF inv inv'] get by (auto simp: nv hm_contains_def hm_get_def)
qed (simp add: hm_contains_def)

lemma fold_add_all:
  assumes "im_inv uc other" and "im_inv uc m"
  shows "im_inv uc (fold (\<lambda>(n, vs) m. snd (hm_add_all uc n vs m)) other m)
    \<and> hm_get uc k (fold (\<lambda>(n, vs) m. snd (hm_add_all uc n vs m)) other m) = hm_get uc k m @ hm_get uc k other"
  using assms
proof (induction other arbitrary: m)
  case (Cons nv other)
  obtain n vs where nv: "nv = (n, vs)" by (cases nv)
  have inv: "im_inv uc other" and fresh: "uc n \<notin> set (im_keys uc other)"
    using Cons.prems(1) by (simp_all add: nv im_inv_def im_keys_def)
  have inv': "im_inv uc (snd (hm_add_all uc n vs m))"
    using Cons.prems(2) by (simp add: im_inv_def hm_add_all_def im_keys_entry)
  have get: "hm_get uc k (snd (hm_add_all uc n vs m)) = (if uc n = uc k then hm_get uc k m @ vs else hm_get uc k m)"
    by (auto simp: hm_get_def hm_add_all_def im_get_entry split: option.splits)
  have "uc n = uc k \<Longrightarrow> im_get uc k other = None" using fresh by (simp add: im_get_None)
  then show ?case using Cons.IH [OF inv inv'] get by (auto simp: nv hm_get_def)
qed (simp add: hm_get_def)

lemma strip_reader: "body_reader (strip b) = None"
  by (simp add: strip_def body_reader_def body_default_def split: Inner.split)

section \<open>Properties\<close>

text \<open>
  Combining responses (\<open>Response::merge\<close>, \<open>Response::join\<close>, \<open>response.rs\<close>): merging lets the other
  response win wherever it says something, name by name in the headers; joining keeps what \<open>self\<close> says
  and appends the other's header values after its own.  Both keep one entry per header name.
\<close>

theorem merge_join_laws:
  assumes "im_inv uc (rs_headers a)" and "im_inv uc (rs_headers b)"
  shows "rs_status (merge uc a b) = (if rs_status b = None then rs_status a else rs_status b)
    \<and> rs_body (merge uc a b) = (if body_is_some (rs_body b) then rs_body b else rs_body a)
    \<and> hm_get uc n (rs_headers (merge uc a b)) =
        (if hm_contains uc n (rs_headers b) then hm_get uc n (rs_headers b) else hm_get uc n (rs_headers a))
    \<and> rs_status (join_response uc a b) = (if rs_status a = None then rs_status b else rs_status a)
    \<and> rs_body (join_response uc a b) = (if body_is_some (rs_body a) then rs_body a else rs_body b)
    \<and> hm_get uc n (rs_headers (join_response uc a b)) = hm_get uc n (rs_headers a) @ hm_get uc n (rs_headers b)
    \<and> im_inv uc (rs_headers (merge uc a b)) \<and> im_inv uc (rs_headers (join_response uc a b))"
proof -
  have m: "rs_headers (merge uc a b) = fold (\<lambda>(n, vs). hm_replace_all uc n vs) (rs_headers b) (rs_headers a)"
    by (simp add: merge_def Let_def split: option.split)
  have j: "rs_headers (join_response uc a b) =
      fold (\<lambda>(n, vs) m. snd (hm_add_all uc n vs m)) (rs_headers b) (rs_headers a)"
    by (simp add: join_response_def Let_def)
  show ?thesis
    unfolding m j using fold_replace_all [OF assms(2,1)] fold_add_all [OF assms(2,1)]
    by (simp add: merge_def join_response_def body_is_some_def Let_def split: option.split)
qed

theorem merge_join_laws_witness:
  "hm_get lowercase ''a'' (rs_headers (merge lowercase
     (response_new\<lparr>rs_headers := [(''A'', [''1''])]\<rparr> :: (nat, nat) Response) (response_new\<lparr>rs_headers := [(''a'', [''2''])]\<rparr>)))
   = [''2'']"
proof -
  have "im_inv lowercase [(''A'', [''1''])]" "im_inv lowercase [(''a'', [''2''])]"
    by (simp_all add: im_inv_def im_keys_def)
  then have i: "im_inv lowercase (rs_headers (response_new\<lparr>rs_headers := [(''A'', [''1''])]\<rparr> :: (nat, nat) Response))"
    "im_inv lowercase (rs_headers (response_new\<lparr>rs_headers := [(''a'', [''2''])]\<rparr> :: (nat, nat) Response))"
    by simp_all
  show ?thesis
    using merge_join_laws [OF i, of "''a''"] by (simp add: hm_contains_def hm_get_def)
qed

text \<open>
  Stripping a body (\<open>Body::strip\<close>, \<open>body.rs\<close>) leaves nothing to read and is idempotent, while a seekable
  body keeps its size: a preset size is unchanged, and an unset size is still computed by seeking to
  the same value as before stripping.
\<close>

theorem strip_keeps_size:
  "body_reader (strip b) = None \<and> strip (strip b) = strip b
   \<and> (case b_inner b of
        Seekable r \<Rightarrow> fst (body_size seek (strip b)) = fst (body_size seek b)
      | PhantomBody r \<Rightarrow> strip b = b
      | _ \<Rightarrow> strip b = body_default)"
proof (cases "b_inner b")
  case (Seekable r)
  then show ?thesis
    by (auto simp: strip_def body_reader_def body_size_def seek_size_def Let_def split: option.split prod.split)
qed (auto simp: strip_def body_reader_def body_default_def)

end
