(* ===== verification/Fairings.thy ===== *)
theory Fairings
  imports ResponseModel
begin

text \<open>
  Fairings (\<open>core/lib/src/fairing\<close>: \<open>info_kind.rs\<close>, \<open>fairings.rs\<close>): the push-only vector of attached
  fairings, the five vectors of indices into it, one per kind, and the number of ignite fairings run.

  A fairing has the identity of its type, its info and its hooks, of type \<open>'f\<close>.  What a hook does is an
  argument of the functions that run it.  \<open>binary_search\<close> is the loop of the standard library.
\<close>

section \<open>Model: kinds\<close>

type_synonym Kind = usize

definition Ignite :: Kind where "Ignite = push_bit 0 1"
definition Liftoff :: Kind where "Liftoff = push_bit 1 1"
definition Request_kind :: Kind where "Request_kind = push_bit 2 1"
definition Response_kind :: Kind where "Response_kind = push_bit 3 1"
definition Shutdown :: Kind where "Shutdown = push_bit 4 1"
definition Singleton :: Kind where "Singleton = push_bit 5 1"

definition kind_is :: "Kind \<Rightarrow> Kind \<Rightarrow> bool" where
  "kind_is self other = (and other self = other)"

definition is_exactly :: "Kind \<Rightarrow> Kind \<Rightarrow> bool" where
  "is_exactly self other = (self = other)"

definition kind_bitor :: "Kind \<Rightarrow> Kind \<Rightarrow> Kind" where
  "kind_bitor self rhs = or self rhs"

record Info =
  info_name :: str
  info_kind :: Kind

section \<open>Model: the fairings\<close>

record 'f Fairing =
  fa_type :: nat
  fa_info :: Info
  fa_hooks :: 'f

record 'f Fairings =
  all_fairings :: "'f Fairing list"
  failures :: "Info list"
  num_ignited :: nat
  fs_ignite :: "nat list"
  fs_liftoff :: "nat list"
  fs_request :: "nat list"
  fs_response :: "nat list"
  fs_shutdown :: "nat list"

definition fairings_new :: "'f Fairings" where
  "fairings_new = \<lparr>all_fairings = [], failures = [], num_ignited = 0, fs_ignite = [], fs_liftoff = [],
     fs_request = [], fs_response = [], fs_shutdown = []\<rparr>"

text \<open>The macro \<open>iter!\<close>: the fairings at the given indices, with their index.\<close>

definition fiter :: "'f Fairings \<Rightarrow> nat list \<Rightarrow> (nat \<times> 'f Fairing) list" where
  "fiter self indices =
     List.map_filter (\<lambda>i. if i < length (all_fairings self) then Some (i, all_fairings self ! i) else None) indices"

definition active :: "'f Fairings \<Rightarrow> nat list" where
  "active self = fs_ignite self @ fs_liftoff self @ fs_request self @ fs_response self @ fs_shutdown self"

definition set_bit_at :: "nat \<Rightarrow> bool \<Rightarrow> bool list \<Rightarrow> bool list" where
  "set_bit_at i b bitmap = (if i < length bitmap then bitmap[i := b] else bitmap)"

definition bitmap_indices :: "bool list \<Rightarrow> nat list" where
  "bitmap_indices bitmap = map fst (filter snd (enumerate 0 bitmap))"

definition unique_active :: "'f Fairings \<Rightarrow> nat list" where
  "unique_active self =
     bitmap_indices (fold (\<lambda>i. set_bit_at i True) (active self) (replicate (length (all_fairings self)) False))"

definition unique_set :: "'f Fairings \<Rightarrow> 'f Fairing list" where
  "unique_set self = map snd (fiter self (unique_active self))"

function bs_loop :: "nat \<Rightarrow> nat list \<Rightarrow> nat \<Rightarrow> nat \<Rightarrow> nat" where
  "bs_loop k xs base len =
     (if len > 1 then
        let half = len div 2; mid = base + half
        in bs_loop k xs (if xs ! mid > k then base else mid) (len - half)
      else base)"
  by pat_completeness auto
termination by (relation "measure (\<lambda>(k, xs, base, len). len)") auto

declare bs_loop.simps [simp del]

definition binary_search :: "nat \<Rightarrow> nat list \<Rightarrow> nat option" where
  "binary_search k xs =
     (if xs = [] then None
      else let base = bs_loop k xs 0 (length xs) in if xs ! base = k then Some base else None)"

definition remove_index :: "nat \<Rightarrow> nat list \<Rightarrow> nat list" where
  "remove_index k xs = (case binary_search k xs of Some j \<Rightarrow> take j xs @ drop (j + 1) xs | None \<Rightarrow> xs)"

definition remove_everywhere :: "nat \<Rightarrow> 'f Fairings \<Rightarrow> 'f Fairings" where
  "remove_everywhere i self =
     self\<lparr>fs_ignite := remove_index i (fs_ignite self), fs_liftoff := remove_index i (fs_liftoff self),
          fs_request := remove_index i (fs_request self), fs_response := remove_index i (fs_response self),
          fs_shutdown := remove_index i (fs_shutdown self)\<rparr>"

definition push_fairing :: "'f Fairing \<Rightarrow> 'f Fairings \<Rightarrow> 'f Fairings" where
  "push_fairing fairing self =
     (let index = length (all_fairings self); k = info_kind (fa_info fairing);
          push = (\<lambda>kind xs. if kind_is k kind then xs @ [index] else xs)
      in self\<lparr>all_fairings := all_fairings self @ [fairing],
              fs_ignite := push Ignite (fs_ignite self), fs_liftoff := push Liftoff (fs_liftoff self),
              fs_request := push Request_kind (fs_request self),
              fs_response := push Response_kind (fs_response self),
              fs_shutdown := push Shutdown (fs_shutdown self)\<rparr>)"

definition ignite_dup :: "'f Fairing \<Rightarrow> 'f Fairings \<Rightarrow> nat option" where
  "ignite_dup fairing self =
     find_index (\<lambda>f. fa_type f = fa_type fairing) (map snd (fiter self (fs_ignite self)))"

definition duplicates :: "'f Fairing \<Rightarrow> 'f Fairings \<Rightarrow> nat list" where
  "duplicates fairing self =
     rev (remdups_adj (sort (map fst (filter (\<lambda>(i, f). fa_type f = fa_type fairing)
        (fiter self (unique_active self))))))"

definition fairings_add :: "'f Fairing \<Rightarrow> 'f Fairings \<Rightarrow> 'f Fairings" where
  "fairings_add fairing self =
     (if kind_is (info_kind (fa_info fairing)) Singleton then
        (if (case ignite_dup fairing self of Some d \<Rightarrow> d < num_ignited self | None \<Rightarrow> False)
         then self\<lparr>failures := failures self @ [fa_info fairing]\<rparr>
         else push_fairing fairing (fold remove_everywhere (duplicates fairing self) self))
      else push_fairing fairing self)"

definition fairings_append :: "'f Fairings \<Rightarrow> 'f Fairings \<Rightarrow> 'f Fairings" where
  "fairings_append self others = fold fairings_add (all_fairings others) self"

definition audit :: "'f Fairings \<Rightarrow> (unit, Info list) result" where
  "audit self = (if failures self = [] then Ok () else Err (failures self))"

definition fairings_filter :: "('f Fairing \<Rightarrow> bool) \<Rightarrow> 'f Fairings \<Rightarrow> nat list" where
  "fairings_filter is_target self = map fst (filter (\<lambda>(i, f). is_target f) (fiter self (unique_active self)))"

definition fairings_filter_mut :: "('f Fairing \<Rightarrow> bool) \<Rightarrow> 'f Fairings \<Rightarrow> nat list" where
  "fairings_filter_mut is_target self =
     (let all = all_fairings self;
          bitmap = fold (\<lambda>i. set_bit_at i (i < length all \<and> is_target (all ! i))) (active self)
                     (replicate (length all) False)
      in map fst (filter (\<lambda>(i, f). (if i < length bitmap then bitmap ! i else False) \<and> is_target f) (enumerate 0 all)))"

section \<open>Model: running the hooks\<close>

definition handle_request :: "('f \<Rightarrow> 'q \<times> 'd \<Rightarrow> 'q \<times> 'd) \<Rightarrow> 'f Fairings \<Rightarrow> 'q \<times> 'd \<Rightarrow> 'q \<times> 'd" where
  "handle_request on_request self = fold (\<lambda>(i, f). on_request (fa_hooks f)) (fiter self (fs_request self))"

definition handle_response :: "('f \<Rightarrow> 'q \<Rightarrow> 'r \<Rightarrow> 'r) \<Rightarrow> 'f Fairings \<Rightarrow> 'q \<Rightarrow> 'r \<Rightarrow> 'r" where
  "handle_response on_response self req =
     fold (\<lambda>(i, f). on_response (fa_hooks f) req) (fiter self (fs_response self))"

text \<open>The server under construction: its fairings and everything else an ignite hook can change.\<close>

record ('f, 's) Build =
  bl_fairings :: "'f Fairings"
  bl_rest :: 's

type_synonym ('f, 's) on_ignite = "'f Fairing \<Rightarrow> ('f, 's) Build \<Rightarrow> (('f, 's) Build, ('f, 's) Build) result"

definition ignite_step ::
  "('f, 's) on_ignite \<Rightarrow> nat \<times> 'f Fairing \<Rightarrow> ('f, 's) Build \<times> 'f Fairings \<Rightarrow> ('f, 's) Build \<times> 'f Fairings" where
  "ignite_step on_ignite ifa st =
     (case (ifa, st) of ((i, fairing), (rocket, fairings)) \<Rightarrow>
        (case on_ignite fairing rocket of
           Ok rocket \<Rightarrow> (rocket, fairings\<lparr>num_ignited := num_ignited fairings + 1\<rparr>)
         | Err rocket \<Rightarrow>
             (rocket, fairings\<lparr>failures := failures fairings @ [fa_info fairing],
                               num_ignited := num_ignited fairings + 1\<rparr>)))"

definition ignite_pass :: "('f, 's) on_ignite \<Rightarrow> ('f, 's) Build \<Rightarrow> ('f, 's) Build" where
  "ignite_pass on_ignite rocket =
     (let fairings = bl_fairings rocket;
          rocket = rocket\<lparr>bl_fairings := fairings_new\<rparr>;
          (rocket, fairings) = fold (ignite_step on_ignite)
             (drop (num_ignited fairings) (fiter fairings (fs_ignite fairings))) (rocket, fairings);
          fairings = fairings_append fairings (bl_fairings rocket)
      in rocket\<lparr>bl_fairings := fairings\<rparr>)"

text \<open>The loop runs for as long as hooks attach new ignite fairings, so it may not end.\<close>

partial_function (option) handle_ignite ::
  "('f, 's) on_ignite \<Rightarrow> ('f, 's) Build \<Rightarrow> ('f, 's) Build option" where
  "handle_ignite on_ignite rocket =
     (if num_ignited (bl_fairings rocket) < length (fs_ignite (bl_fairings rocket))
      then handle_ignite on_ignite (ignite_pass on_ignite rocket)
      else Some rocket)"

section \<open>Lemmas: binary search and removal\<close>

lemma bs_loop_in:
  "0 < len \<Longrightarrow> base + len \<le> length xs \<Longrightarrow> sorted xs \<Longrightarrow> base \<le> j \<Longrightarrow> j < base + len \<Longrightarrow> xs ! j = k \<Longrightarrow> distinct xs \<Longrightarrow>
   bs_loop k xs base len = j"
proof (induction k xs base len rule: bs_loop.induct)
  case (1 k xs base len)
  show ?case
  proof (cases "len > 1")
    case True
    let ?half = "len div 2" and ?mid = "base + len div 2"
    have half: "0 < ?half" "?half < len" using True by auto
    have lt: "?mid < length xs" using half 1 by linarith
    show ?thesis
    proof (cases "xs ! ?mid > k")
      case True
      then have "j < ?mid" using 1(4,7) lt by (metis linorder_not_less sorted_nth_mono 1(3) add_leD1 order_less_le_trans 1(6))
      then have "j < base + (len - ?half)" using half by linarith
      then show ?thesis
        using 1(1) [OF \<open>len > 1\<close> refl refl] 1 True half \<open>len > 1\<close>
        by (subst bs_loop.simps) (simp add: Let_def)
    next
      case False
      then have "?mid \<le> j"
        using 1 lt by (metis linorder_not_less nth_eq_iff_index_eq order.strict_trans1 order_less_le sorted_nth_mono)
      then show ?thesis
        using 1(1) [OF \<open>len > 1\<close> refl refl] 1 False half \<open>len > 1\<close>
        by (subst bs_loop.simps) (simp add: Let_def)
    qed
  next
    case False
    then have "j = base" using 1 by linarith
    then show ?thesis using False by (subst bs_loop.simps) simp
  qed
qed

lemma bs_loop_bound: "0 < len \<Longrightarrow> base + len \<le> length xs \<Longrightarrow> bs_loop k xs base len < length xs"
proof (induction k xs base len rule: bs_loop.induct)
  case (1 k xs base len)
  then show ?case by (subst bs_loop.simps) (auto simp: Let_def)
qed

lemma remove_index_filter:
  assumes "sorted_wrt (<) xs"
  shows "remove_index k xs = filter (\<lambda>x. x \<noteq> k) xs"
proof (cases "k \<in> set xs")
  case True
  then obtain j where j: "j < length xs" "xs ! j = k" by (auto simp: in_set_conv_nth)
  have sd: "sorted xs" "distinct xs" using assms by (simp_all add: strict_sorted_iff)
  have "bs_loop k xs 0 (length xs) = j" using j sd by (intro bs_loop_in) auto
  then have "binary_search k xs = Some j" using j by (auto simp: binary_search_def Let_def)
  moreover have "filter (\<lambda>x. x \<noteq> k) xs = take j xs @ drop (j + 1) xs"
  proof -
    have xs: "xs = take j xs @ k # drop (j + 1) xs" using id_take_nth_drop [OF j(1)] j(2) by simp
    then have "k \<notin> set (take j xs)" "k \<notin> set (drop (j + 1) xs)"
      using sd(2) by (metis distinct.simps(2) distinct_append disjoint_iff list.set_intros(1))+
    then have "filter (\<lambda>x. x \<noteq> k) (take j xs @ k # drop (j + 1) xs) = take j xs @ drop (j + 1) xs"
      by (simp, metis (mono_tags, lifting) filter_True)
    with xs show ?thesis by metis
  qed
  ultimately show ?thesis by (simp add: remove_index_def)
next
  case False
  then have "binary_search k xs = None"
    using bs_loop_bound [of "length xs" 0 xs k] by (auto simp: binary_search_def Let_def in_set_conv_nth)
  moreover have "filter (\<lambda>x. x \<noteq> k) xs = xs" using False by (metis (mono_tags, lifting) filter_True)
  ultimately show ?thesis by (simp add: remove_index_def)
qed

section \<open>Lemmas: the invariant\<close>

definition index_vec :: "nat \<Rightarrow> nat list \<Rightarrow> bool" where
  "index_vec n xs = (sorted_wrt (<) xs \<and> (\<forall>i \<in> set xs. i < n))"

definition fairings_wf :: "'f Fairings \<Rightarrow> bool" where
  "fairings_wf s =
     (let n = length (all_fairings s)
      in index_vec n (fs_ignite s) \<and> index_vec n (fs_liftoff s) \<and> index_vec n (fs_request s)
         \<and> index_vec n (fs_response s) \<and> index_vec n (fs_shutdown s) \<and> num_ignited s \<le> length (fs_ignite s))"

lemma index_vec_filter: "index_vec n xs \<Longrightarrow> index_vec n (filter P xs)"
  by (simp add: index_vec_def sorted_wrt_filter)

lemma index_vec_push: "index_vec n xs \<Longrightarrow> index_vec (Suc n) (if b then xs @ [n] else xs)"
  by (auto simp: index_vec_def sorted_wrt_append)

lemma fiter_wf: "\<forall>i \<in> set xs. i < length (all_fairings s) \<Longrightarrow> fiter s xs = map (\<lambda>i. (i, all_fairings s ! i)) xs"
  by (induction xs) (simp_all add: fiter_def map_filter_simps)

lemma remove_everywhere_filter:
  assumes "index_vec n (fs_ignite s)" "index_vec n (fs_liftoff s)" "index_vec n (fs_request s)"
    "index_vec n (fs_response s)" "index_vec n (fs_shutdown s)"
  shows "remove_everywhere i s =
    s\<lparr>fs_ignite := filter (\<lambda>x. x \<noteq> i) (fs_ignite s), fs_liftoff := filter (\<lambda>x. x \<noteq> i) (fs_liftoff s),
      fs_request := filter (\<lambda>x. x \<noteq> i) (fs_request s), fs_response := filter (\<lambda>x. x \<noteq> i) (fs_response s),
      fs_shutdown := filter (\<lambda>x. x \<noteq> i) (fs_shutdown s)\<rparr>"
  using assms by (simp add: remove_everywhere_def index_vec_def remove_index_filter)

lemma fold_remove_everywhere:
  assumes "index_vec n (fs_ignite s)" "index_vec n (fs_liftoff s)" "index_vec n (fs_request s)"
    "index_vec n (fs_response s)" "index_vec n (fs_shutdown s)"
  shows "fold remove_everywhere ds s =
    s\<lparr>fs_ignite := filter (\<lambda>x. x \<notin> set ds) (fs_ignite s), fs_liftoff := filter (\<lambda>x. x \<notin> set ds) (fs_liftoff s),
      fs_request := filter (\<lambda>x. x \<notin> set ds) (fs_request s), fs_response := filter (\<lambda>x. x \<notin> set ds) (fs_response s),
      fs_shutdown := filter (\<lambda>x. x \<notin> set ds) (fs_shutdown s)\<rparr>"
  using assms
proof (induction ds arbitrary: s)
  case (Cons d ds)
  show ?case
    using Cons.prems by (simp add: remove_everywhere_filter Cons.IH index_vec_filter conj_commute)
qed simp

lemma set_bits:
  "length (fold (\<lambda>i. set_bit_at i (P i)) is bm) = length bm
   \<and> (\<forall>j < length bm. fold (\<lambda>i. set_bit_at i (P i)) is bm ! j = (if j \<in> set is then P j else bm ! j))"
proof (induction "is" arbitrary: bm)
  case (Cons i "is")
  show ?case using Cons [of "set_bit_at i (P i) bm"] by (auto simp: set_bit_at_def nth_list_update)
qed simp

lemma bitmap_indices_eq: "bitmap_indices bm = filter (\<lambda>i. bm ! i) [0..<length bm]"
proof -
  have "enumerate 0 bm = map (\<lambda>i. (i, bm ! i)) [0..<length bm]"
    by (auto intro: nth_equalityI simp: nth_enumerate_eq)
  then show ?thesis by (simp add: bitmap_indices_def filter_map comp_def)
qed

lemma unique_active_eq:
  "unique_active s = filter (\<lambda>i. i \<in> set (active s)) [0..<length (all_fairings s)]"
  using set_bits [of "\<lambda>i. True" "active s" "replicate (length (all_fairings s)) False"]
  by (auto simp: unique_active_def bitmap_indices_eq intro!: filter_cong split: if_splits)

lemma set_unique_active: "set (unique_active s) = {i \<in> set (active s). i < length (all_fairings s)}"
  by (auto simp: unique_active_eq)

lemma fiter_unique: "fiter s (unique_active s) = map (\<lambda>i. (i, all_fairings s ! i)) (unique_active s)"
  by (rule fiter_wf) (auto simp: set_unique_active)

lemma set_duplicates:
  "set (duplicates f s) =
     {i \<in> set (active s). i < length (all_fairings s) \<and> fa_type (all_fairings s ! i) = fa_type f}"
  by (auto simp: duplicates_def fiter_unique filter_map comp_def set_unique_active)

lemma push_fairing_wf: "fairings_wf s \<Longrightarrow> fairings_wf (push_fairing f s)"
  by (auto simp: fairings_wf_def push_fairing_def Let_def index_vec_push)

text \<open>The ignite fairings already run are not duplicates of a fairing that may be added.\<close>

lemma ignite_dup_prefix:
  assumes "fairings_wf s" and "\<not> (case ignite_dup f s of Some d \<Rightarrow> d < num_ignited s | None \<Rightarrow> False)"
  shows "\<forall>i \<in> set (take (num_ignited s) (fs_ignite s)). fa_type (all_fairings s ! i) \<noteq> fa_type f"
proof -
  let ?xs = "fs_ignite s" and ?n = "num_ignited s"
  let ?P = "\<lambda>g. fa_type g = fa_type f" and ?all = "map (\<lambda>i. all_fairings s ! i) (fs_ignite s)"
  have "fiter s ?xs = map (\<lambda>i. (i, all_fairings s ! i)) ?xs"
    using assms(1) by (intro fiter_wf) (simp add: fairings_wf_def Let_def index_vec_def)
  then have dup: "ignite_dup f s = find_index ?P ?all"
    by (simp add: ignite_dup_def comp_def)
  have "\<not> ?P (all_fairings s ! (?xs ! j))" if "j < ?n" "j < length ?xs" for j
  proof (cases "find_index ?P ?all")
    case None
    then show ?thesis using that by (auto simp: find_index_None)
  next
    case (Some d)
    then have "?n \<le> d" using assms(2) dup by simp
    then show ?thesis using Some that by (auto simp: find_index_Some)
  qed
  then show ?thesis by (auto simp: in_set_conv_nth)
qed

lemma filter_take:
  assumes "\<forall>x \<in> set (take n xs). P x"
  shows "filter P xs = take n xs @ filter P (drop n xs)"
proof -
  have "filter P xs = filter P (take n xs @ drop n xs)" by simp
  also have "\<dots> = take n xs @ filter P (drop n xs)"
    using assms unfolding filter_append by (simp add: filter_id_conv)
  finally show ?thesis .
qed

text \<open>Adding a singleton that has no duplicate among the fairings already run.\<close>

lemma add_singleton:
  fixes s :: "'f Fairings" and f :: "'f Fairing"
  defines "ds \<equiv> duplicates f s"
  assumes wf: "fairings_wf s" and no: "\<not> (case ignite_dup f s of Some d \<Rightarrow> d < num_ignited s | None \<Rightarrow> False)"
  defines "t \<equiv> fold remove_everywhere ds s"
  shows "fairings_wf t" and "all_fairings t = all_fairings s" and "num_ignited t = num_ignited s"
    and "take (num_ignited s) (fs_ignite t) = take (num_ignited s) (fs_ignite s)"
    and "set (active t) = set (active s) - set ds"
proof -
  have t: "t = s\<lparr>fs_ignite := filter (\<lambda>x. x \<notin> set ds) (fs_ignite s),
      fs_liftoff := filter (\<lambda>x. x \<notin> set ds) (fs_liftoff s),
      fs_request := filter (\<lambda>x. x \<notin> set ds) (fs_request s),
      fs_response := filter (\<lambda>x. x \<notin> set ds) (fs_response s),
      fs_shutdown := filter (\<lambda>x. x \<notin> set ds) (fs_shutdown s)\<rparr>"
    unfolding t_def using wf
    by (intro fold_remove_everywhere [of "length (all_fairings s)"]) (simp_all add: fairings_wf_def Let_def)
  have "\<forall>i \<in> set (take (num_ignited s) (fs_ignite s)). i \<notin> set ds"
    using ignite_dup_prefix [OF wf no] by (simp add: ds_def set_duplicates)
  then have ig: "fs_ignite t = take (num_ignited s) (fs_ignite s) @ filter (\<lambda>x. x \<notin> set ds) (drop (num_ignited s) (fs_ignite s))"
    using filter_take [of "num_ignited s" "fs_ignite s" "\<lambda>x. x \<notin> set ds"] by (simp add: t)
  have le: "num_ignited s \<le> length (fs_ignite s)" using wf by (simp add: fairings_wf_def Let_def)
  then have "num_ignited s \<le> length (fs_ignite t)" by (simp add: ig)
  then show "fairings_wf t"
    using wf by (simp add: fairings_wf_def Let_def t index_vec_filter)
  show "take (num_ignited s) (fs_ignite t) = take (num_ignited s) (fs_ignite s)" using le by (simp add: ig)
  show "all_fairings t = all_fairings s" "num_ignited t = num_ignited s"
    "set (active t) = set (active s) - set ds" by (auto simp: t active_def)
qed

lemma active_push:
  "set (active (push_fairing f s)) \<subseteq> insert (length (all_fairings s)) (set (active s))
   \<and> set (active s) \<subseteq> set (active (push_fairing f s))"
  by (auto simp: active_def push_fairing_def Let_def)

lemma push_frame:
  "num_ignited (push_fairing f s) = num_ignited s \<and> all_fairings (push_fairing f s) = all_fairings s @ [f]
   \<and> (fairings_wf s \<longrightarrow> take (num_ignited s) (fs_ignite (push_fairing f s)) = take (num_ignited s) (fs_ignite s))"
  by (auto simp: push_fairing_def Let_def fairings_wf_def)

lemma active_bound: "fairings_wf s \<Longrightarrow> i \<in> set (active s) \<Longrightarrow> i < length (all_fairings s)"
  by (auto simp: fairings_wf_def active_def index_vec_def Let_def)

lemma fairings_add_wf:
  assumes "fairings_wf s"
  shows "fairings_wf (fairings_add f s) \<and> num_ignited (fairings_add f s) = num_ignited s
    \<and> take (num_ignited s) (fs_ignite (fairings_add f s)) = take (num_ignited s) (fs_ignite s)"
proof -
  consider "\<not> kind_is (info_kind (fa_info f)) Singleton"
    | "kind_is (info_kind (fa_info f)) Singleton" "case ignite_dup f s of Some d \<Rightarrow> d < num_ignited s | None \<Rightarrow> False"
    | "kind_is (info_kind (fa_info f)) Singleton" "\<not> (case ignite_dup f s of Some d \<Rightarrow> d < num_ignited s | None \<Rightarrow> False)"
    by blast
  then show ?thesis
  proof cases
    case 1
    then show ?thesis using assms push_frame [of f s] by (simp add: fairings_add_def push_fairing_wf)
  next
    case 2
    then show ?thesis using assms by (simp add: fairings_add_def fairings_wf_def Let_def)
  next
    case 3
    note a = add_singleton [OF assms 3(2)]
    show ?thesis using 3 a push_frame [of f "fold remove_everywhere (duplicates f s) s"]
      by (simp add: fairings_add_def push_fairing_wf)
  qed
qed

section \<open>Properties\<close>

text \<open>
  Attaching a fairing (\<open>Fairings::add\<close>, \<open>fairings.rs\<close>) keeps the index vectors strictly increasing
  and in range (which the binary search relies on), never disturbs the ignite fairings already run, and
  keeps the promise for singletons: if one of the same type has run on ignite the attachment fails and
  nothing else changes, otherwise no other fairing of that type stays active.
\<close>

theorem fairings_add_correct:
  assumes "fairings_wf s"
  shows "fairings_wf (fairings_add f s) \<and> num_ignited (fairings_add f s) = num_ignited s
    \<and> take (num_ignited s) (fs_ignite (fairings_add f s)) = take (num_ignited s) (fs_ignite s)
    \<and> (kind_is (info_kind (fa_info f)) Singleton \<longrightarrow>
        fairings_add f s = s\<lparr>failures := failures s @ [fa_info f]\<rparr>
          \<and> (\<exists>i \<in> set (take (num_ignited s) (fs_ignite s)). fa_type (all_fairings s ! i) = fa_type f)
        \<or> all_fairings (fairings_add f s) = all_fairings s @ [f]
          \<and> (\<forall>i \<in> set (active (fairings_add f s)).
               fa_type (all_fairings (fairings_add f s) ! i) = fa_type f \<longrightarrow> i = length (all_fairings s)))"
proof -
  have "fairings_add f s = s\<lparr>failures := failures s @ [fa_info f]\<rparr>
          \<and> (\<exists>i \<in> set (take (num_ignited s) (fs_ignite s)). fa_type (all_fairings s ! i) = fa_type f)
        \<or> all_fairings (fairings_add f s) = all_fairings s @ [f]
          \<and> (\<forall>i \<in> set (active (fairings_add f s)).
               fa_type (all_fairings (fairings_add f s) ! i) = fa_type f \<longrightarrow> i = length (all_fairings s))"
    if sing: "kind_is (info_kind (fa_info f)) Singleton"
  proof (cases "case ignite_dup f s of Some d \<Rightarrow> d < num_ignited s | None \<Rightarrow> False")
    case True
    then obtain d where d: "ignite_dup f s = Some d" "d < num_ignited s" by (auto split: option.splits)
    have "fiter s (fs_ignite s) = map (\<lambda>i. (i, all_fairings s ! i)) (fs_ignite s)"
      using assms by (intro fiter_wf) (simp add: fairings_wf_def Let_def index_vec_def)
    then have "d < length (fs_ignite s)" "fa_type (all_fairings s ! (fs_ignite s ! d)) = fa_type f"
      using d(1) by (auto simp: ignite_dup_def find_index_Some)
    then have "\<exists>i \<in> set (take (num_ignited s) (fs_ignite s)). fa_type (all_fairings s ! i) = fa_type f"
      using d(2) by (intro bexI [of _ "fs_ignite s ! d"]) (auto simp: in_set_conv_nth)
    then show ?thesis using sing True by (simp add: fairings_add_def)
  next
    case False
    let ?t = "fold remove_everywhere (duplicates f s) s"
    note a = add_singleton [OF assms False]
    have eq: "fairings_add f s = push_fairing f ?t" using sing False by (simp add: fairings_add_def)
    have "i = length (all_fairings s)"
      if "i \<in> set (active (push_fairing f ?t))" "fa_type (all_fairings (push_fairing f ?t) ! i) = fa_type f" for i
    proof (rule ccontr)
      assume "i \<noteq> length (all_fairings s)"
      then have i: "i \<in> set (active ?t)" using that(1) active_push [of f ?t] a(2) by auto
      then have "i < length (all_fairings s)" using active_bound [OF a(1)] a(2) by simp
      then show False using i that(2) a(2,5) push_frame [of f ?t] by (auto simp: set_duplicates nth_append)
    qed
    then show ?thesis using a(2) push_frame [of f ?t] by (simp add: eq)
  qed
  then show ?thesis using fairings_add_wf [OF assms] by blast
qed

theorem fairings_add_correct_witness:
  "fairings_wf (fairings_add \<lparr>fa_type = 7, fa_info = \<lparr>info_name = ''shield'', info_kind = 48\<rparr>, fa_hooks = ()\<rparr> fairings_new)"
proof -
  have "fairings_wf fairings_new" by (simp add: fairings_wf_def fairings_new_def index_vec_def)
  from fairings_add_correct [OF this] show ?thesis by blast
qed

text \<open>
  Iterating over fairings (\<open>Fairings::unique_active\<close>, \<open>filter\<close>, \<open>filter_mut\<close>): the bitmaps yield
  every active index once, in order of attachment, and the mutable iterator visits exactly the fairings
  the shared one does.
\<close>

theorem fairings_filters_agree:
  "distinct (unique_active s) \<and> sorted (unique_active s)
   \<and> set (unique_active s) = {i \<in> set (active s). i < length (all_fairings s)}
   \<and> fairings_filter_mut P s = fairings_filter P s
   \<and> fairings_filter P s = filter (\<lambda>i. P (all_fairings s ! i)) (unique_active s)"
proof -
  let ?all = "all_fairings s" and ?n = "length (all_fairings s)"
  let ?bm = "fold (\<lambda>i. set_bit_at i (i < ?n \<and> P (?all ! i))) (active s) (replicate ?n False)"
  have bm: "length ?bm = ?n" "\<And>j. j < ?n \<Longrightarrow> ?bm ! j = (j \<in> set (active s) \<and> P (?all ! j))"
    using set_bits [of "\<lambda>i. i < ?n \<and> P (?all ! i)" "active s" "replicate ?n False"] by auto
  have "enumerate 0 ?all = map (\<lambda>i. (i, ?all ! i)) [0..<?n]"
    by (auto intro: nth_equalityI simp: nth_enumerate_eq)
  then have "fairings_filter_mut P s = filter (\<lambda>i. ?bm ! i \<and> P (?all ! i)) [0..<?n]"
    by (auto simp: fairings_filter_mut_def Let_def bm(1) filter_map comp_def intro!: filter_cong)
  also have "\<dots> = filter (\<lambda>i. P (?all ! i)) (unique_active s)"
    by (auto simp: unique_active_eq bm intro!: filter_cong)
  finally have m: "fairings_filter_mut P s = filter (\<lambda>i. P (?all ! i)) (unique_active s)" .
  moreover have "fairings_filter P s = filter (\<lambda>i. P (?all ! i)) (unique_active s)"
    by (simp add: fairings_filter_def fiter_unique filter_map comp_def)
  ultimately show ?thesis by (auto simp: set_unique_active unique_active_eq sorted_wrt_filter)
qed

section \<open>Ignition\<close>

definition ignited :: "(('f, 's) Build, ('f, 's) Build) result \<Rightarrow> ('f, 's) Build" where
  "ignited r = (case r of Ok b \<Rightarrow> b | Err b \<Rightarrow> b)"

text \<open>What running ignite hooks does to the fairings being run: only counters and failures change.\<close>

lemma fold_ignite_step:
  "fold (ignite_step on) L (r, fs) = (r', fs') \<Longrightarrow>
   num_ignited fs' = num_ignited fs + length L \<and> all_fairings fs' = all_fairings fs \<and> fs_ignite fs' = fs_ignite fs
   \<and> fs_liftoff fs' = fs_liftoff fs \<and> fs_request fs' = fs_request fs \<and> fs_response fs' = fs_response fs
   \<and> fs_shutdown fs' = fs_shutdown fs \<and> r' = fold (\<lambda>(i, f) r. ignited (on f r)) L r"
proof (induction L arbitrary: r fs)
  case (Cons x L)
  obtain i f where x: "x = (i, f)" by (cases x)
  show ?case using Cons by (cases "on f r") (auto simp: x ignite_step_def ignited_def)
qed simp




text \<open>
  Ignition ends (\<open>Fairings::handle_ignite\<close>) when no hook attaches a fairing, and then has run every
  pending ignite hook exactly once, in order of attachment, each on the server the previous one left,
  whether or not hooks failed.
\<close>

theorem handle_ignite_terminates:
  assumes "fairings_wf (bl_fairings r)" and "\<forall>f b. bl_fairings (ignited (on f b)) = bl_fairings b"
  shows "\<exists>r'. handle_ignite on r = Some r'
    \<and> fs_ignite (bl_fairings r') = fs_ignite (bl_fairings r)
    \<and> bl_rest r' =
        bl_rest (fold (\<lambda>i b. ignited (on (all_fairings (bl_fairings r) ! i) b))
          (drop (num_ignited (bl_fairings r)) (fs_ignite (bl_fairings r))) (r\<lparr>bl_fairings := fairings_new\<rparr>))"
proof (cases "num_ignited (bl_fairings r) < length (fs_ignite (bl_fairings r))")
  case True
  let ?fs = "bl_fairings r"
  let ?L = "drop (num_ignited ?fs) (fiter ?fs (fs_ignite ?fs))"
  obtain r1 fs1 where f: "fold (ignite_step on) ?L (r\<lparr>bl_fairings := fairings_new\<rparr>, ?fs) = (r1, fs1)"
    by (cases "fold (ignite_step on) ?L (r\<lparr>bl_fairings := fairings_new\<rparr>, ?fs)")
  note F = fold_ignite_step [OF f]
  have it: "fiter ?fs (fs_ignite ?fs) = map (\<lambda>i. (i, all_fairings ?fs ! i)) (fs_ignite ?fs)"
    using assms(1) by (intro fiter_wf) (simp add: fairings_wf_def Let_def index_vec_def)
  have r1: "r1 = fold (\<lambda>i b. ignited (on (all_fairings ?fs ! i) b)) (drop (num_ignited ?fs) (fs_ignite ?fs))
      (r\<lparr>bl_fairings := fairings_new\<rparr>)"
    using F by (simp add: it drop_map fold_map comp_def)
  have "bl_fairings (fold (\<lambda>i b. ignited (on (all_fairings ?fs ! i) b)) xs b) = bl_fairings b" for xs b
    by (induction xs arbitrary: b) (simp_all add: assms(2))
  then have "bl_fairings r1 = fairings_new" by (simp add: r1)
  moreover have "fairings_append fs1 fairings_new = fs1" by (simp add: fairings_append_def fairings_new_def)
  ultimately have pass: "ignite_pass on r = r1\<lparr>bl_fairings := fs1\<rparr>"
    by (simp add: ignite_pass_def Let_def f)
  have "\<not> num_ignited fs1 < length (fs_ignite fs1)" using F True by (simp add: it)
  then have "handle_ignite on (ignite_pass on r) = Some (ignite_pass on r)"
    by (subst handle_ignite.simps) (simp add: pass)
  then have "handle_ignite on r = Some (ignite_pass on r)"
    using True by (subst handle_ignite.simps) simp
  then show ?thesis using F r1 by (simp add: pass)
next
  case False
  then have "handle_ignite on r = Some r" by (subst handle_ignite.simps) simp
  then show ?thesis using False by simp
qed

text \<open>One ignite fairing that counts its runs.\<close>

definition counting_hook :: "(unit, nat) on_ignite" where
  "counting_hook f b = Ok (b\<lparr>bl_rest := bl_rest b + 1\<rparr>)"

definition one_ignite :: "(unit, nat) Build" where
  "one_ignite = \<lparr>bl_fairings = fairings_add
     \<lparr>fa_type = 0, fa_info = \<lparr>info_name = ''count'', info_kind = 1\<rparr>, fa_hooks = ()\<rparr> fairings_new, bl_rest = 0\<rparr>"

lemma one_ignite_eval:
  "bl_fairings one_ignite = \<lparr>all_fairings = [\<lparr>fa_type = 0, fa_info = \<lparr>info_name = ''count'', info_kind = 1\<rparr>, fa_hooks = ()\<rparr>],
     failures = [], num_ignited = 0, fs_ignite = [0], fs_liftoff = [], fs_request = [], fs_response = [], fs_shutdown = []\<rparr>"
  by (simp add: one_ignite_def fairings_add_def push_fairing_def fairings_new_def kind_is_def Singleton_def Ignite_def
      Liftoff_def Request_kind_def Response_kind_def Shutdown_def Let_def)

lemma one_ignite_rest: "bl_rest one_ignite = 0"
  by (simp add: one_ignite_def)

lemma one_ignite_wf: "fairings_wf (bl_fairings one_ignite)"
  by (simp add: one_ignite_eval fairings_wf_def index_vec_def)

theorem handle_ignite_terminates_witness:
  "\<exists>r'. handle_ignite counting_hook one_ignite = Some r' \<and> bl_rest r' = 1"
proof -
  have "\<forall>f b. bl_fairings (ignited (counting_hook f b)) = bl_fairings b"
    by (simp add: counting_hook_def ignited_def)
  from handle_ignite_terminates [OF one_ignite_wf this]
  obtain r' where r': "handle_ignite counting_hook one_ignite = Some r'"
    and rest: "bl_rest r' = bl_rest (fold (\<lambda>i b. ignited (counting_hook (all_fairings (bl_fairings one_ignite) ! i) b))
      (drop (num_ignited (bl_fairings one_ignite)) (fs_ignite (bl_fairings one_ignite)))
      (one_ignite\<lparr>bl_fairings := fairings_new\<rparr>))" by blast
  from rest have "bl_rest r' = 1" by (simp add: one_ignite_eval one_ignite_rest counting_hook_def ignited_def)
  with r' show ?thesis by blast
qed


end
