(* ===== verification/Sentinels.thy ===== *)
theory Sentinels
  imports Headers
begin

text \<open>
  Sentinels (\<open>core/lib/src/sentinel.rs\<close>): the types that handlers use, as a forest of sentries, of which the
  specialized ones may abort the launch.  \<open>query\<close> walks the forest in breadth-first order.

  A \<open>TypeId\<close> is a value of any type \<open>'ty\<close>, and the server a sentinel inspects a value of type \<open>'rk\<close>.  The
  hash maps are association lists with one entry per key.
\<close>

section \<open>Model\<close>

record ('ty, 'rk) Sentry =
  se_type_id :: 'ty
  se_type_name :: str
  se_parent :: "'ty option"
  se_location :: "str \<times> nat \<times> nat"
  se_specialized :: bool
  se_abort :: "'rk \<Rightarrow> bool"

type_synonym ('ty, 'rk) children = "('ty, ('ty, 'rk) Sentry list) index_map"

definition graph_step ::
  "('ty, 'rk) Sentry \<Rightarrow> ('ty, 'rk) Sentry list \<times> ('ty, 'rk) children \<Rightarrow> ('ty, 'rk) Sentry list \<times> ('ty, 'rk) children" where
  "graph_step sentinel rm =
     (case rm of (roots, m) \<Rightarrow>
        (case se_parent sentinel of
           Some parent \<Rightarrow> (roots, im_entry (\<lambda>k. k) parent [] (\<lambda>cs. cs @ [sentinel]) m)
         | None \<Rightarrow> (roots @ [sentinel], m)))"

definition hash_remove :: "'k \<Rightarrow> ('k, 'v) index_map \<Rightarrow> 'v option \<times> ('k, 'v) index_map" where
  "hash_remove k m = (im_get (\<lambda>k. k) k m, filter (\<lambda>kv. fst kv \<noteq> k) m)"

lemma hash_remove_smaller:
  "hash_remove k m = (Some cs, m') \<Longrightarrow>
   length cs + sum_list (map (\<lambda>kv. length (snd kv)) m') \<le> sum_list (map (\<lambda>kv. length (snd kv)) m)"
proof (induction m arbitrary: m')
  case (Cons kv m)
  have le: "sum_list (map (\<lambda>kv. length (snd kv)) (filter (\<lambda>kv. fst kv \<noteq> k) m)) \<le> sum_list (map (\<lambda>kv. length (snd kv)) m)"
    by (induction m) auto
  show ?case
  proof (cases "fst kv = k")
    case True
    then show ?thesis using Cons.prems le by (cases kv) (auto simp: hash_remove_def)
  next
    case False
    then show ?thesis using Cons by (cases kv) (auto simp: hash_remove_def)
  qed
qed (simp add: hash_remove_def)

function query_loop ::
  "'rk \<Rightarrow> ('ty, 'rk) Sentry list \<Rightarrow> ('ty, 'rk) children \<Rightarrow> ('ty, bool) index_map \<Rightarrow> ('ty, 'rk) Sentry list \<Rightarrow>
   ('ty, 'rk) Sentry list" where
  "query_loop rocket [] m visited aborted = aborted"
| "query_loop rocket (sentinel # remaining) m visited aborted =
     (if se_specialized sentinel then
        let v = (case im_get (\<lambda>k. k) (se_type_id sentinel) visited of
                   Some v \<Rightarrow> v
                 | None \<Rightarrow> se_abort sentinel rocket);
            visited = im_insert (\<lambda>k. k) (se_type_id sentinel) v visited
        in query_loop rocket remaining m visited (if v then aborted @ [sentinel] else aborted)
      else (case hash_remove (se_type_id sentinel) m of
              (Some cs, m') \<Rightarrow> query_loop rocket (remaining @ cs) m' visited aborted
            | (None, _) \<Rightarrow> query_loop rocket remaining m visited aborted))"
  by pat_completeness auto
termination
  by (relation "measure (\<lambda>(rocket, remaining, m, visited, aborted).
        length remaining + sum_list (map (\<lambda>kv. length (snd kv)) m))")
     (auto dest!: hash_remove_smaller [OF sym])

definition sentinel_query :: "('ty, 'rk) Sentry list \<Rightarrow> 'rk \<Rightarrow> (unit, ('ty, 'rk) Sentry list) result" where
  "sentinel_query sentinels rocket =
     (let (roots, m) = fold graph_step sentinels ([], []);
          aborted = query_loop rocket roots m [] []
      in if aborted = [] then Ok () else Err aborted)"

section \<open>Lemmas\<close>

text \<open>What the walk is to visit: the roots, and the children of visited sentries that are not specialized.\<close>

inductive reached :: "('ty, 'rk) Sentry list \<Rightarrow> ('ty, 'rk) Sentry \<Rightarrow> bool" for ss where
  reached_root: "s \<in> set ss \<Longrightarrow> se_parent s = None \<Longrightarrow> reached ss s"
| reached_child: "reached ss p \<Longrightarrow> \<not> se_specialized p \<Longrightarrow> s \<in> set ss \<Longrightarrow> se_parent s = Some (se_type_id p) \<Longrightarrow>
    reached ss s"

inductive_cases reached_cases: "reached ss s"

definition same_aborts :: "('ty, 'rk) Sentry list \<Rightarrow> bool" where
  "same_aborts ss = (\<forall>s \<in> set ss. \<forall>t \<in> set ss. se_type_id s = se_type_id t \<longrightarrow> se_abort s = se_abort t)"

definition walk_inv ::
  "('ty, 'rk) Sentry list \<Rightarrow> 'rk \<Rightarrow> ('ty, 'rk) Sentry set \<Rightarrow> ('ty, 'rk) Sentry list \<Rightarrow> ('ty, 'rk) children \<Rightarrow>
   ('ty, bool) index_map \<Rightarrow> ('ty, 'rk) Sentry list \<Rightarrow> bool" where
  "walk_inv ss rk D rem m vis ab =
     ((\<forall>s \<in> D \<union> set rem. reached ss s)
      \<and> (\<forall>k cs. im_get (\<lambda>k. k) k m = Some cs \<longrightarrow> (\<forall>c \<in> set cs. c \<in> set ss \<and> se_parent c = Some k))
      \<and> (\<forall>s \<in> set ss. se_parent s = None \<longrightarrow> s \<in> D \<union> set rem)
      \<and> (\<forall>s \<in> set ss. \<forall>k. se_parent s = Some k \<longrightarrow>
           s \<in> D \<union> set rem \<or> (\<exists>cs. im_get (\<lambda>k. k) k m = Some cs \<and> s \<in> set cs \<and> (\<forall>p \<in> D. se_type_id p = k \<longrightarrow> se_specialized p)))
      \<and> (\<forall>k v. im_get (\<lambda>k. k) k vis = Some v \<longrightarrow> (\<exists>t \<in> set ss. se_type_id t = k \<and> v = se_abort t rk))
      \<and> set ab = {s \<in> D. se_specialized s \<and> se_abort s rk})"

lemma reached_in: "reached ss s \<Longrightarrow> s \<in> set ss"
  by (erule reached_cases) auto

lemma walk_invD:
  assumes "walk_inv ss rk D rem m vis ab"
  shows "s \<in> D \<union> set rem \<Longrightarrow> reached ss s"
    and "im_get (\<lambda>k. k) k m = Some cs \<Longrightarrow> c \<in> set cs \<Longrightarrow> c \<in> set ss \<and> se_parent c = Some k"
    and "s \<in> set ss \<Longrightarrow> se_parent s = None \<Longrightarrow> s \<in> D \<union> set rem"
    and "s \<in> set ss \<Longrightarrow> se_parent s = Some k \<Longrightarrow> s \<notin> D \<union> set rem \<Longrightarrow>
      \<exists>cs. im_get (\<lambda>k. k) k m = Some cs \<and> s \<in> set cs \<and> (\<forall>p \<in> D. se_type_id p = k \<longrightarrow> se_specialized p)"
    and "im_get (\<lambda>k. k) k vis = Some v \<Longrightarrow> \<exists>t \<in> set ss. se_type_id t = k \<and> v = se_abort t rk"
    and "set ab = {s \<in> D. se_specialized s \<and> se_abort s rk}"
  using assms unfolding walk_inv_def by blast+

lemma walk_inv_done:
  assumes "walk_inv ss rk D [] m vis ab"
  shows "set ab = {s. reached ss s \<and> se_specialized s \<and> se_abort s rk}"
proof -
  have "s \<in> D" if "reached ss s" for s
    using that
  proof (induction rule: reached.induct)
    case (reached_root s)
    then show ?case using walk_invD(3) [OF assms] by simp
  next
    case (reached_child p s)
    show ?case
    proof (rule ccontr)
      assume "s \<notin> D"
      then obtain cs where "\<forall>q \<in> D. se_type_id q = se_type_id p \<longrightarrow> se_specialized q"
        using walk_invD(4) [OF assms reached_child(3,4)] by auto
      then show False using reached_child by blast
    qed
  qed
  then show ?thesis using walk_invD(1,6) [OF assms] by auto
qed

lemma im_get_filter: "im_get (\<lambda>k. k) k (filter (\<lambda>kv. fst kv \<noteq> k') m) = (if k = k' then None else im_get (\<lambda>k. k) k m)"
  by (induction m) auto

lemma walk_specialized:
  assumes inv: "walk_inv ss rk D (s # rem) m vis ab" and spec: "se_specialized s" and same: "same_aborts ss"
  shows "(case im_get (\<lambda>k. k) (se_type_id s) vis of Some v \<Rightarrow> v | None \<Rightarrow> se_abort s rk) = se_abort s rk"
    and "walk_inv ss rk (insert s D) rem m (im_insert (\<lambda>k. k) (se_type_id s) (se_abort s rk) vis)
      (if se_abort s rk then ab @ [s] else ab)"
proof -
  note D = walk_invD [OF inv]
  have s: "s \<in> set ss" using D(1) [of s] by (simp add: reached_in)
  show "(case im_get (\<lambda>k. k) (se_type_id s) vis of Some v \<Rightarrow> v | None \<Rightarrow> se_abort s rk) = se_abort s rk"
  proof (cases "im_get (\<lambda>k. k) (se_type_id s) vis")
    case (Some v)
    then obtain t where "t \<in> set ss" "se_type_id t = se_type_id s" "v = se_abort t rk" using D(5) by blast
    moreover have "se_abort t = se_abort s"
      using same s \<open>t \<in> set ss\<close> \<open>se_type_id t = se_type_id s\<close> unfolding same_aborts_def by blast
    ultimately show ?thesis using Some by simp
  qed simp
  show "walk_inv ss rk (insert s D) rem m (im_insert (\<lambda>k. k) (se_type_id s) (se_abort s rk) vis)
      (if se_abort s rk then ab @ [s] else ab)"
    unfolding walk_inv_def
  proof (intro conjI ballI allI impI)
    fix t k assume t: "t \<in> set ss" "se_parent t = Some k"
    show "t \<in> insert s D \<union> set rem \<or> (\<exists>cs. im_get (\<lambda>k. k) k m = Some cs \<and> t \<in> set cs
        \<and> (\<forall>p \<in> insert s D. se_type_id p = k \<longrightarrow> se_specialized p))"
    proof (cases "t \<in> D \<union> set (s # rem)")
      case False
      then show ?thesis using D(4) [OF t] spec by blast
    qed auto
  next
    fix k v assume "im_get (\<lambda>k. k) k (im_insert (\<lambda>k. k) (se_type_id s) (se_abort s rk) vis) = Some v"
    then show "\<exists>t \<in> set ss. se_type_id t = k \<and> v = se_abort t rk"
      using D(5) [of k v] s by (auto simp: im_get_insert split: if_splits)
  next
    show "set (if se_abort s rk then ab @ [s] else ab) = {t \<in> insert s D. se_specialized t \<and> se_abort t rk}"
      using D(6) spec by auto
  qed (use D(1,2,3) in auto)
qed

lemma walk_plain:
  assumes inv: "walk_inv ss rk D (s # rem) m vis ab" and spec: "\<not> se_specialized s"
    and cs: "cs = (case im_get (\<lambda>k. k) (se_type_id s) m of Some cs \<Rightarrow> cs | None \<Rightarrow> [])"
  shows "walk_inv ss rk (insert s D) (rem @ cs) (filter (\<lambda>kv. fst kv \<noteq> se_type_id s) m) vis ab"
proof -
  note D = walk_invD [OF inv]
  have s: "reached ss s" using D(1) by simp
  have kids: "c \<in> set ss \<and> se_parent c = Some (se_type_id s)" if "c \<in> set cs" for c
    using that cs D(2) [of "se_type_id s" _ c] by (auto split: option.splits)
  then have kr: "reached ss c" if "c \<in> set cs" for c using that s spec by (blast intro: reached_child)
  show ?thesis
    unfolding walk_inv_def
  proof (intro conjI ballI allI impI)
    fix t assume "t \<in> insert s D \<union> set (rem @ cs)"
    then show "reached ss t" using D(1) [of t] kr by auto
  next
    fix t k assume t: "t \<in> set ss" "se_parent t = Some k"
    show "t \<in> insert s D \<union> set (rem @ cs) \<or>
      (\<exists>cs'. im_get (\<lambda>k. k) k (filter (\<lambda>kv. fst kv \<noteq> se_type_id s) m) = Some cs' \<and> t \<in> set cs'
        \<and> (\<forall>p \<in> insert s D. se_type_id p = k \<longrightarrow> se_specialized p))"
    proof (cases "t \<in> D \<union> set (s # rem)")
      case False
      then obtain cs' where "im_get (\<lambda>k. k) k m = Some cs'" "t \<in> set cs'" "\<forall>p \<in> D. se_type_id p = k \<longrightarrow> se_specialized p"
        using D(4) [OF t] by blast
      then show ?thesis using cs by (cases "k = se_type_id s") (auto simp: im_get_filter)
    qed auto
  next
    fix k cs' c assume "im_get (\<lambda>k. k) k (filter (\<lambda>kv. fst kv \<noteq> se_type_id s) m) = Some cs'" "c \<in> set cs'"
    then show "c \<in> set ss" "se_parent c = Some k"
      using D(2) [of k cs' c] by (auto simp: im_get_filter split: if_splits)
  qed (use D(3,5,6) spec in auto)
qed

lemma hash_remove_None: "im_get (\<lambda>k. k) k m = None \<Longrightarrow> filter (\<lambda>kv. fst kv \<noteq> k) m = m"
  by (induction m) (auto split: if_splits)

lemma query_loop_spec:
  assumes "same_aborts ss" and "walk_inv ss rk D rem m vis ab"
  shows "set (query_loop rk rem m vis ab) = {s. reached ss s \<and> se_specialized s \<and> se_abort s rk}"
  using assms
proof (induction rk rem m vis ab arbitrary: D rule: query_loop.induct)
  case (1 rk m vis ab)
  then show ?case using walk_inv_done by simp
next
  case (2 rk s rem m vis ab)
  show ?case
  proof (cases "se_specialized s")
    case True
    note w = walk_specialized [OF 2(5) True 2(4)]
    show ?thesis using 2(1) [OF True refl refl 2(4)] w True by (simp add: Let_def)
  next
    case False
    note w = walk_plain [OF 2(5) False refl]
    show ?thesis
    proof (cases "im_get (\<lambda>k. k) (se_type_id s) m")
      case None
      then have hr: "hash_remove (se_type_id s) m = (None, m)" by (simp add: hash_remove_def hash_remove_None)
      have "walk_inv ss rk (insert s D) rem m vis ab" using w None by (simp add: hash_remove_None)
      then show ?thesis using 2(2) [OF False hr [symmetric] refl 2(4)] False by (simp add: hr)
    next
      case (Some cs)
      then have hr: "hash_remove (se_type_id s) m = (Some cs, filter (\<lambda>kv. fst kv \<noteq> se_type_id s) m)"
        by (simp add: hash_remove_def)
      have "walk_inv ss rk (insert s D) (rem @ cs) (filter (\<lambda>kv. fst kv \<noteq> se_type_id s) m) vis ab"
        using w Some by simp
      then show ?thesis using 2(3) [OF False hr [symmetric] refl 2(4)] False by (simp add: hr)
    qed
  qed
qed

lemma fold_graph_step:
  "fold graph_step ss (r, m) = (r', m') \<Longrightarrow>
   r' = r @ filter (\<lambda>s. se_parent s = None) ss \<and>
   im_get (\<lambda>k. k) k m' = (case filter (\<lambda>s. se_parent s = Some k) ss of
      [] \<Rightarrow> im_get (\<lambda>k. k) k m
    | cs \<Rightarrow> Some ((case im_get (\<lambda>k. k) k m of Some c \<Rightarrow> c | None \<Rightarrow> []) @ cs))"
proof (induction ss arbitrary: r m)
  case (Cons s ss)
  obtain r1 m1 where g: "graph_step s (r, m) = (r1, m1)" by (cases "graph_step s (r, m)")
  have IH: "r' = r1 @ filter (\<lambda>s. se_parent s = None) ss \<and>
   im_get (\<lambda>k. k) k m' = (case filter (\<lambda>s. se_parent s = Some k) ss of
      [] \<Rightarrow> im_get (\<lambda>k. k) k m1
    | cs \<Rightarrow> Some ((case im_get (\<lambda>k. k) k m1 of Some c \<Rightarrow> c | None \<Rightarrow> []) @ cs))"
    using Cons by (simp add: g)
  show ?case
  proof (cases "se_parent s")
    case None
    then show ?thesis using IH g by (auto simp: graph_step_def)
  next
    case (Some q)
    then have m1: "r1 = r" "m1 = im_entry (\<lambda>k. k) q [] (\<lambda>cs. cs @ [s]) m" using g by (auto simp: graph_step_def)
    show ?thesis
      using IH Some
      by (cases "im_get (\<lambda>k. k) k m"; cases "filter (\<lambda>s. se_parent s = Some k) ss"; cases "q = k")
         (auto simp: m1 im_get_entry)
  qed
qed simp

section \<open>Properties\<close>

text \<open>
  C22. Querying the sentinels (\<open>sentinel::query\<close>, \<open>sentinel.rs\<close>) ends, and aborts the launch exactly when some
  specialized sentry that is reached asks for it: one without a parent, or one whose parent was reached
  and is not specialized itself.  The error lists exactly those sentries.
\<close>

theorem sentinel_query_spec:
  assumes "same_aborts ss"
  shows "case sentinel_query ss rk of
      Ok _ \<Rightarrow> \<nexists>s. reached ss s \<and> se_specialized s \<and> se_abort s rk
    | Err as \<Rightarrow> as \<noteq> [] \<and> set as = {s. reached ss s \<and> se_specialized s \<and> se_abort s rk}"
proof -
  obtain roots m where g: "fold graph_step ss ([], []) = (roots, m)" by (cases "fold graph_step ss ([], [])")
  have roots: "roots = filter (\<lambda>s. se_parent s = None) ss"
    using fold_graph_step [OF g] by simp
  have m: "im_get (\<lambda>k. k) k m = (case filter (\<lambda>s. se_parent s = Some k) ss of [] \<Rightarrow> None | cs \<Rightarrow> Some cs)" for k
    using fold_graph_step [OF g, of k] by (simp split: list.splits)
  have sub: "\<forall>c \<in> set cs. c \<in> set ss \<and> se_parent c = Some k" if "im_get (\<lambda>k. k) k m = Some cs" for k cs
  proof -
    have "cs = filter (\<lambda>s. se_parent s = Some k) ss" using that by (simp add: m split: list.splits)
    then show ?thesis by simp
  qed
  have sup: "\<exists>cs. im_get (\<lambda>k. k) k m = Some cs \<and> s \<in> set cs" if "s \<in> set ss" "se_parent s = Some k" for s k
  proof -
    have "s \<in> set (filter (\<lambda>s. se_parent s = Some k) ss)" using that by simp
    then show ?thesis by (cases "filter (\<lambda>s. se_parent s = Some k) ss") (simp_all add: m)
  qed
  have "walk_inv ss rk {} roots m [] []"
    unfolding walk_inv_def roots using sub sup by (auto intro: reached_root)
  then have "set (query_loop rk roots m [] []) = {s. reached ss s \<and> se_specialized s \<and> se_abort s rk}"
    by (rule query_loop_spec [OF assms])
  then show ?thesis by (auto simp: sentinel_query_def g Let_def)
qed

definition sample_option :: "(nat, nat) Sentry" where
  "sample_option = \<lparr>se_type_id = 1, se_type_name = ''Option'', se_parent = None, se_location = (''a'', 1, 1),
     se_specialized = False, se_abort = (\<lambda>_. False)\<rparr>"

definition sample_state :: "(nat, nat) Sentry" where
  "sample_state = \<lparr>se_type_id = 2, se_type_name = ''State'', se_parent = Some 1, se_location = (''a'', 1, 8),
     se_specialized = True, se_abort = (\<lambda>_. True)\<rparr>"

theorem sentinel_query_spec_witness:
  "\<exists>as. sentinel_query [sample_option, sample_state] 0 = Err as \<and> sample_state \<in> set as"
proof -
  let ?ss = "[sample_option, sample_state]"
  have same: "same_aborts ?ss" by (simp add: same_aborts_def sample_option_def sample_state_def)
  have "reached ?ss sample_option" by (rule reached_root) (simp_all add: sample_option_def)
  then have "reached ?ss sample_state" by (rule reached_child) (simp_all add: sample_option_def sample_state_def)
  moreover have "se_specialized sample_state" "se_abort sample_state 0" by (simp_all add: sample_state_def)
  ultimately show ?thesis
    using sentinel_query_spec [OF same, of 0] by (auto split: sum.splits)
qed

end
