(* ===== verification/Phases.thy ===== *)
theory Phases
  imports Router Fairings Sentinels
begin

text \<open>
  The phases of a server (\<open>core/lib/src/rocket.rs\<close>, \<open>phase.rs\<close>, \<open>error.rs\<close>): building, igniting and orbiting, with
  the operations of each phase and the transitions between them.

  The parts of \<open>Building\<close> besides its fairings are the record \<open>Parts\<close>, so that a building server is the
  \<open>Build\<close> that fairings work on.  Managed state is a map from types to values.  A panic of the builder
  methods is an error value.  External and user code is the record \<open>env\<close>: the extraction of the configuration
  from the figment and the queries of it, the ignite hooks, and the sentinels a route was generated with.
  The shutdown stages travel with a server through its phases unchanged and are not in the records; errors of
  listeners and of tasks (\<open>Bind\<close>, \<open>Io\<close>, \<open>Liftoff\<close>, \<open>Shutdown\<close>) do not arise in the operations of this theory.
\<close>

section \<open>Model: building\<close>

record ('h, 'c, 'fig, 'ty, 's) Parts =
  bp_routes :: "'h Route list"
  bp_catchers :: "'c Catcher list"
  bp_figment :: 'fig
  bp_state :: "'ty \<rightharpoonup> 's"

type_synonym ('h, 'c, 'fig, 'ty, 's, 'f) Building = "('f, ('h, 'c, 'fig, 'ty, 's) Parts) Build"

datatype build_panic = BaseError uri_error | RouteError uri_error | CatcherError catcher_panic | DuplicateState

definition building_default :: "'fig \<Rightarrow> ('h, 'c, 'fig, 'ty, 's, 'f) Building" where
  "building_default fig =
     \<lparr>bl_fairings = fairings_new,
      bl_rest = \<lparr>bp_routes = [], bp_catchers = [], bp_figment = fig, bp_state = Map.empty\<rparr>\<rparr>"

definition reconfigure :: "'fig \<Rightarrow> ('h, 'c, 'fig, 'ty, 's, 'f) Building \<Rightarrow> ('h, 'c, 'fig, 'ty, 's, 'f) Building" where
  "reconfigure provider self = self\<lparr>bl_rest := (bl_rest self)\<lparr>bp_figment := provider\<rparr>\<rparr>"

definition attach :: "'f Fairing \<Rightarrow> ('h, 'c, 'fig, 'ty, 's, 'f) Building \<Rightarrow> ('h, 'c, 'fig, 'ty, 's, 'f) Building" where
  "attach fairing self = self\<lparr>bl_fairings := fairings_add fairing (bl_fairings self)\<rparr>"

definition custom :: "'fig \<Rightarrow> 'f Fairing \<Rightarrow> 'fig \<Rightarrow> ('h, 'c, 'fig, 'ty, 's, 'f) Building" where
  "custom default_figment shield provider = attach shield (reconfigure provider (building_default default_figment))"

fun load_items :: "('i \<Rightarrow> ('i, build_panic) result) \<Rightarrow> ('i \<Rightarrow> 'b \<Rightarrow> 'b) \<Rightarrow> 'i list \<Rightarrow> 'b \<Rightarrow> ('b, build_panic) result" where
  "load_items m f [] self = Ok self"
| "load_items m f (unmounted_item # items) self =
     (case m unmounted_item of
        Err e \<Rightarrow> Err e
      | Ok item \<Rightarrow> load_items m f items (f item self))"

definition load ::
  "ext \<Rightarrow> str \<Rightarrow> 'i list \<Rightarrow> (origin \<Rightarrow> 'i \<Rightarrow> ('i, build_panic) result) \<Rightarrow> ('i \<Rightarrow> 'b \<Rightarrow> 'b) \<Rightarrow> 'b \<Rightarrow> ('b, build_panic) result" where
  "load x base items m f self =
     (case x_origin_parse x base of
        Err e \<Rightarrow> Err (BaseError e)
      | Ok base \<Rightarrow>
          let base = (if o_query base \<noteq> None then clear_query base else base)
          in load_items (m base) f items self)"

definition panic_with :: "('e \<Rightarrow> build_panic) \<Rightarrow> ('a, 'e) result \<Rightarrow> ('a, build_panic) result" where
  "panic_with f r = (case r of Ok v \<Rightarrow> Ok v | Err e \<Rightarrow> Err (f e))"

definition mount ::
  "ext \<Rightarrow> str \<Rightarrow> 'h Route list \<Rightarrow> ('h, 'c, 'fig, 'ty, 's, 'f) Building \<Rightarrow> (('h, 'c, 'fig, 'ty, 's, 'f) Building, build_panic) result" where
  "mount x base routes self =
     load x base routes (\<lambda>base route. panic_with RouteError (route_rebase x base route))
       (\<lambda>route r. r\<lparr>bl_rest := (bl_rest r)\<lparr>bp_routes := bp_routes (bl_rest r) @ [route]\<rparr>\<rparr>) self"

definition register ::
  "ext \<Rightarrow> str \<Rightarrow> 'c Catcher list \<Rightarrow> ('h, 'c, 'fig, 'ty, 's, 'f) Building \<Rightarrow> (('h, 'c, 'fig, 'ty, 's, 'f) Building, build_panic) result" where
  "register x base catchers self =
     load x base catchers (\<lambda>base catcher. panic_with CatcherError (catcher_rebase x base catcher))
       (\<lambda>catcher r. r\<lparr>bl_rest := (bl_rest r)\<lparr>bp_catchers := bp_catchers (bl_rest r) @ [catcher]\<rparr>\<rparr>) self"

definition manage ::
  "'ty \<Rightarrow> 's \<Rightarrow> ('h, 'c, 'fig, 'ty, 's, 'f) Building \<Rightarrow> (('h, 'c, 'fig, 'ty, 's, 'f) Building, build_panic) result" where
  "manage ty v self =
     (let st = bp_state (bl_rest self)
      in if st ty \<noteq> None then Err DuplicateState
         else Ok (self\<lparr>bl_rest := (bl_rest self)\<lparr>bp_state := st(ty \<mapsto> v)\<rparr>\<rparr>))"

section \<open>Model: igniting and orbiting\<close>

record ('h, 'c, 'fig, 'ty, 's, 'f, 'cfg) Igniting =
  ig_router :: "('h, 'c) Finalized"
  ig_fairings :: "'f Fairings"
  ig_figment :: 'fig
  ig_config :: 'cfg
  ig_state :: "'ty \<rightharpoonup> 's"

record ('h, 'c, 'fig, 'ty, 's, 'f, 'cfg, 'ep) Orbiting =
  or_router :: "('h, 'c) Finalized"
  or_fairings :: "'f Fairings"
  or_figment :: 'fig
  or_config :: 'cfg
  or_state :: "'ty \<rightharpoonup> 's"
  or_endpoints :: "'ep list"

type_synonym ('h, 'c, 'fig, 'ty, 's, 'f, 'cfg) sentry = "('ty, ('h, 'c, 'fig, 'ty, 's, 'f, 'cfg) Igniting) Sentry"

datatype ('h, 'c, 'fig, 'ty, 's, 'f, 'cfg, 'cerr) ErrorKind =
    Config 'cerr
  | Collisions "('h Route \<times> 'h Route) list" "('c Catcher \<times> 'c Catcher) list"
  | FailedFairings "Info list"
  | SentinelAborts "('h, 'c, 'fig, 'ty, 's, 'f, 'cfg) sentry list"
  | InsecureSecretKey str

record ('h, 'c, 'fig, 'ty, 's, 'f, 'cfg, 'cerr) env =
  e_ext :: ext
  e_config :: "'fig \<Rightarrow> ('cfg, 'cerr) result"
  e_secrets :: bool
  e_key_provided :: "'cfg \<Rightarrow> bool"
  e_key_is_zero :: "'cfg \<Rightarrow> bool"
  e_generate_key :: "'cfg \<Rightarrow> 'cfg"
  e_profile :: "'cfg \<Rightarrow> str"
  e_on_ignite :: "('f, ('h, 'c, 'fig, 'ty, 's) Parts) on_ignite"
  e_sentinels :: "'h Route \<Rightarrow> ('h, 'c, 'fig, 'ty, 's, 'f, 'cfg) sentry list"

text \<open>The check of the secret key in \<open>ignite\<close>, compiled only with the feature \<open>secrets\<close>.\<close>

definition DEBUG_PROFILE :: str where
  "DEBUG_PROFILE = ''debug''"

definition check_secret_key ::
  "('h, 'c, 'fig, 'ty, 's, 'f, 'cfg, 'cerr) env \<Rightarrow> 'cfg \<Rightarrow> ('cfg, ('h, 'c, 'fig, 'ty, 's, 'f, 'cfg, 'cerr) ErrorKind) result" where
  "check_secret_key e config =
     (if e_secrets e \<and> \<not> e_key_provided e config then
        if lowercase (e_profile e config) \<noteq> DEBUG_PROFILE then Err (InsecureSecretKey (e_profile e config))
        else if e_key_is_zero e config then Ok (e_generate_key e config)
        else Ok config
      else Ok config)"

text \<open>\<open>ignite\<close> after the ignite fairings have run.\<close>

definition ignite_parts ::
  "('h, 'c, 'fig, 'ty, 's, 'f, 'cfg, 'cerr) env \<Rightarrow> ('h, 'c, 'fig, 'ty, 's, 'f) Building \<Rightarrow>
   (('h, 'c, 'fig, 'ty, 's, 'f, 'cfg) Igniting, ('h, 'c, 'fig, 'ty, 's, 'f, 'cfg, 'cerr) ErrorKind) result" where
  "ignite_parts e self =
     (case audit (bl_fairings self) of
        Err f \<Rightarrow> Err (FailedFairings f)
      | Ok _ \<Rightarrow>
     (case e_config e (bp_figment (bl_rest self)) of
        Err c \<Rightarrow> Err (Config c)
      | Ok config \<Rightarrow>
     (case check_secret_key e config of
        Err k \<Rightarrow> Err k
      | Ok config \<Rightarrow>
     (case finalize (e_ext e) ((router_new :: ('h, 'c) Pending)
             \<lparr>p_routes := bp_routes (bl_rest self), p_catchers := bp_catchers (bl_rest self)\<rparr>) of
        Err (r, c) \<Rightarrow> Err (Collisions r c)
      | Ok router \<Rightarrow>
          let rocket = \<lparr>ig_router = router, ig_fairings = bl_fairings self, ig_figment = bp_figment (bl_rest self),
                        ig_config = config, ig_state = bp_state (bl_rest self)\<rparr>
          in case sentinel_query (concat (map (e_sentinels e) (f_routes router))) rocket of
               Err s \<Rightarrow> Err (SentinelAborts s)
             | Ok _ \<Rightarrow> Ok rocket))))"

definition ignite ::
  "('h, 'c, 'fig, 'ty, 's, 'f, 'cfg, 'cerr) env \<Rightarrow> ('h, 'c, 'fig, 'ty, 's, 'f) Building \<Rightarrow>
   (('h, 'c, 'fig, 'ty, 's, 'f, 'cfg) Igniting, ('h, 'c, 'fig, 'ty, 's, 'f, 'cfg, 'cerr) ErrorKind) result option" where
  "ignite e self = map_option (ignite_parts e) (handle_ignite (e_on_ignite e) self)"

definition into_orbit ::
  "'ep list \<Rightarrow> ('h, 'c, 'fig, 'ty, 's, 'f, 'cfg) Igniting \<Rightarrow> ('h, 'c, 'fig, 'ty, 's, 'f, 'cfg, 'ep) Orbiting" where
  "into_orbit endpoints self =
     \<lparr>or_router = ig_router self, or_fairings = ig_fairings self, or_figment = ig_figment self,
      or_config = ig_config self, or_state = ig_state self, or_endpoints = endpoints\<rparr>"

definition deorbit ::
  "('h, 'c, 'fig, 'ty, 's, 'f, 'cfg, 'ep) Orbiting \<Rightarrow> ('h, 'c, 'fig, 'ty, 's, 'f, 'cfg) Igniting" where
  "deorbit self =
     \<lparr>ig_router = or_router self, ig_fairings = or_fairings self, ig_figment = or_figment self,
      ig_config = or_config self, ig_state = or_state self\<rparr>"

datatype ('h, 'c, 'fig, 'ty, 's, 'f, 'cfg, 'ep) State =
    Build "('h, 'c, 'fig, 'ty, 's, 'f) Building"
  | Ignite "('h, 'c, 'fig, 'ty, 's, 'f, 'cfg) Igniting"
  | Orbit "('h, 'c, 'fig, 'ty, 's, 'f, 'cfg, 'ep) Orbiting"

fun rocket_routes :: "('h, 'c, 'fig, 'ty, 's, 'f, 'cfg, 'ep) State \<Rightarrow> 'h Route list" where
  "rocket_routes (Build p) = bp_routes (bl_rest p)"
| "rocket_routes (Ignite p) = f_routes (ig_router p)"
| "rocket_routes (Orbit p) = f_routes (or_router p)"

fun rocket_catchers :: "('h, 'c, 'fig, 'ty, 's, 'f, 'cfg, 'ep) State \<Rightarrow> 'c Catcher list" where
  "rocket_catchers (Build p) = bp_catchers (bl_rest p)"
| "rocket_catchers (Ignite p) = f_catchers (ig_router p)"
| "rocket_catchers (Orbit p) = f_catchers (or_router p)"

fun rocket_state :: "'ty \<Rightarrow> ('h, 'c, 'fig, 'ty, 's, 'f, 'cfg, 'ep) State \<Rightarrow> 's option" where
  "rocket_state ty (Build p) = bp_state (bl_rest p) ty"
| "rocket_state ty (Ignite p) = ig_state p ty"
| "rocket_state ty (Orbit p) = or_state p ty"

fun rocket_figment :: "('h, 'c, 'fig, 'ty, 's, 'f, 'cfg, 'ep) State \<Rightarrow> 'fig" where
  "rocket_figment (Build p) = bp_figment (bl_rest p)"
| "rocket_figment (Ignite p) = ig_figment p"
| "rocket_figment (Orbit p) = or_figment p"

fun rocket_fairings :: "('h, 'c, 'fig, 'ty, 's, 'f, 'cfg, 'ep) State \<Rightarrow> 'f Fairings" where
  "rocket_fairings (Build p) = bl_fairings p"
| "rocket_fairings (Ignite p) = ig_fairings p"
| "rocket_fairings (Orbit p) = or_fairings p"

definition rocket_fairing :: "('f Fairing \<Rightarrow> bool) \<Rightarrow> ('h, 'c, 'fig, 'ty, 's, 'f, 'cfg, 'ep) State \<Rightarrow> nat option" where
  "rocket_fairing is_target self =
     (case fairings_filter is_target (rocket_fairings self) of [] \<Rightarrow> None | i # _ \<Rightarrow> Some i)"

fun into_ignite ::
  "('h, 'c, 'fig, 'ty, 's, 'f, 'cfg, 'cerr) env \<Rightarrow> ('h, 'c, 'fig, 'ty, 's, 'f, 'cfg, 'ep) State \<Rightarrow>
   (('h, 'c, 'fig, 'ty, 's, 'f, 'cfg) Igniting, ('h, 'c, 'fig, 'ty, 's, 'f, 'cfg, 'cerr) ErrorKind) result option" where
  "into_ignite e (Build s) = ignite e s"
| "into_ignite e (Ignite s) = Some (Ok s)"
| "into_ignite e (Orbit s) = Some (Ok (deorbit s))"

datatype ExitCode = SUCCESS | FAILURE

definition report :: "('rk, 'err) result \<Rightarrow> ExitCode" where
  "report r = (case r of Ok _ \<Rightarrow> SUCCESS | Err _ \<Rightarrow> SUCCESS)"

section \<open>Lemmas: building\<close>











section \<open>Lemmas: igniting\<close>






section \<open>The phase machine\<close>

text \<open>
  One call on a server.  Catchers are values of \<open>Catcher\<close>, whose constructors establish \<open>catcher_wf\<close>.
\<close>

inductive phase_step ::
  "('h, 'c, 'fig, 'ty, 's, 'f, 'cfg, 'cerr) env \<Rightarrow> ('h, 'c, 'fig, 'ty, 's, 'f, 'cfg, 'ep) State \<Rightarrow>
   ('h, 'c, 'fig, 'ty, 's, 'f, 'cfg, 'ep) State \<Rightarrow> bool" for e where
  step_mount: "mount (e_ext e) base rs b = Ok b' \<Longrightarrow> phase_step e (Build b) (Build b')"
| step_register: "list_all (catcher_wf (x_pd (e_ext e))) cs \<Longrightarrow> register (e_ext e) base cs b = Ok b' \<Longrightarrow>
    phase_step e (Build b) (Build b')"
| step_manage: "manage ty v b = Ok b' \<Longrightarrow> phase_step e (Build b) (Build b')"
| step_attach: "phase_step e (Build b) (Build (attach f b))"
| step_reconfigure: "phase_step e (Build b) (Build (reconfigure fig b))"
| step_ignite: "ignite e b = Some (Ok g) \<Longrightarrow> phase_step e (Build b) (Ignite g)"
| step_orbit: "phase_step e (Ignite g) (Orbit (into_orbit eps g))"
| step_deorbit: "phase_step e (Orbit r) (Ignite (deorbit r))"

inductive_cases phase_step_BuildE: "phase_step e (Build b) s"
inductive_cases phase_step_IgniteE: "phase_step e (Ignite g) s"


lemma deorbit_into_orbit [simp]: "deorbit (into_orbit eps g) = g"
  by (simp add: deorbit_def into_orbit_def)



section \<open>Properties\<close>







text \<open>
  The exit code of a launch (\<open>Error::report\<close>, \<open>error.rs\<close>) does not depend on its result: a failed launch is
  reported with the code for success.
\<close>

lemma report_success: "report (Err e :: ('rk, 'err) result) = SUCCESS \<and> report (Ok rk :: ('rk, 'err) result) = SUCCESS"
  by (simp add: report_def)

end
