(* ===== verification/UriValues.thy ===== *)
theory UriValues
  imports UriPath "HOL-Library.Monad_Syntax"
begin

text \<open>
  URI values over a shared source: \<open>core/http/src/parse/indexed.rs\<close> and \<open>core/http/src/uri/\<close> \<open>authority.rs\<close>,
  \<open>absolute.rs\<close>, \<open>reference.rs\<close>, \<open>host.rs\<close> and \<open>uri.rs\<close>.

  A parsed URI keeps the text it was parsed from and, for each part, a pair of indices into that text; a
  part that is set later is a string of its own.  Reading a part slices the source, which panics when there
  is none or when the indices are out of range or not at character boundaries.  A panic is \<open>None\<close>.  The cells
  that cache decoded segments are filled from immutable parts and are left out.
\<close>

section \<open>Model: indexed strings\<close>

datatype IndexedStr = Indexed nat nat | Concrete str

definition is_char_boundary :: "str \<Rightarrow> nat \<Rightarrow> bool" where
  "is_char_boundary s i =
     (i = 0 \<or> i = length s \<or> i < length s \<and> \<not> (128 \<le> (of_char (s ! i) :: nat) \<and> (of_char (s ! i) :: nat) < 192))"

definition str_slice :: "str \<Rightarrow> nat \<Rightarrow> nat \<Rightarrow> str option" where
  "str_slice s i j =
     (if i \<le> j \<and> j \<le> length s \<and> is_char_boundary s i \<and> is_char_boundary s j then Some (take (j - i) (drop i s)) else None)"

fun is_indexed :: "IndexedStr \<Rightarrow> bool" where
  "is_indexed (Indexed _ _) = True"
| "is_indexed (Concrete _) = False"

fun indexed_len :: "IndexedStr \<Rightarrow> nat" where
  "indexed_len (Indexed a b) = b - a"
| "indexed_len (Concrete cow) = length cow"

fun indices :: "IndexedStr \<Rightarrow> (nat \<times> nat) option" where
  "indices (Indexed a b) = Some (a, b)"
| "indices (Concrete _) = None"

fun indexed_add :: "IndexedStr \<Rightarrow> IndexedStr \<Rightarrow> IndexedStr option" where
  "indexed_add (Indexed a b) (Indexed c d) = (if b = c \<and> a < d then Some (Indexed a d) else None)"
| "indexed_add _ _ = None"

text \<open>\<open>checked_from\<close> compares addresses: each string is its start address and its length.\<close>

definition checked_from :: "nat \<times> nat \<Rightarrow> nat \<times> nat \<Rightarrow> IndexedStr option" where
  "checked_from needle haystack =
     (let (needle_start, needle_len) = needle; (haystack_start, haystack_len) = haystack
      in if needle_start < haystack_start then None
         else let needle_end = needle_start + needle_len; haystack_end = haystack_start + haystack_len
              in if needle_end > haystack_end then None
                 else let start = needle_start - haystack_start
                      in Some (Indexed start (start + needle_len)))"

definition from_cow_source :: "IndexedStr \<Rightarrow> str option \<Rightarrow> str option" where
  "from_cow_source self source =
     (if is_indexed self \<and> source = None then None
      else case self of
             Indexed i j \<Rightarrow> str_slice (the source) i j
           | Concrete mstr \<Rightarrow> Some mstr)"

definition into_concrete :: "IndexedStr \<Rightarrow> str option \<Rightarrow> str option" where
  "into_concrete self source =
     (if is_indexed self \<and> source = None then None
      else case self of
             Indexed i j \<Rightarrow> str_slice (the source) i j
           | Concrete string \<Rightarrow> Some string)"

definition opt_text :: "IndexedStr option \<Rightarrow> str option \<Rightarrow> str option option" where
  "opt_text x source = (case x of None \<Rightarrow> Some None | Some x \<Rightarrow> map_option Some (from_cow_source x source))"

section \<open>Model: authorities and hosts\<close>

record Authority =
  au_source :: "str option"
  au_user_info :: "IndexedStr option"
  au_host :: IndexedStr
  au_port :: "u16 option"

definition authority_const_new :: "str option \<Rightarrow> str \<Rightarrow> u16 option \<Rightarrow> Authority" where
  "authority_const_new user_info host port =
     \<lparr>au_source = None, au_user_info = map_option Concrete user_info, au_host = Concrete host, au_port = port\<rparr>"

definition authority_raw :: "str \<Rightarrow> (nat \<times> nat) option \<Rightarrow> nat \<times> nat \<Rightarrow> u16 option \<Rightarrow> Authority" where
  "authority_raw source user_info host port =
     \<lparr>au_source = Some source, au_user_info = map_option (\<lambda>(a, b). Indexed a b) user_info,
      au_host = Indexed (fst host) (snd host), au_port = port\<rparr>"

definition authority_user_info :: "Authority \<Rightarrow> str option option" where
  "authority_user_info self = opt_text (au_user_info self) (au_source self)"

definition authority_host :: "Authority \<Rightarrow> str option" where
  "authority_host self = from_cow_source (au_host self) (au_source self)"

definition set_port :: "u16 option \<Rightarrow> Authority \<Rightarrow> Authority" where
  "set_port port self = self\<lparr>au_port := port\<rparr>"

definition port_display :: "u16 option \<Rightarrow> str" where
  "port_display port = (case port of None \<Rightarrow> [] | Some p \<Rightarrow> '':'' @ nat_to_string (unat p))"

definition authority_display :: "Authority \<Rightarrow> str option" where
  "authority_display self = do {
     user_info \<leftarrow> authority_user_info self;
     host \<leftarrow> authority_host self;
     Some ((case user_info of None \<Rightarrow> [] | Some u \<Rightarrow> u @ ''@'') @ host @ port_display (au_port self)) }"

definition authority_eq :: "Authority \<Rightarrow> Authority \<Rightarrow> bool option" where
  "authority_eq self other = do {
     u \<leftarrow> authority_user_info self; u' \<leftarrow> authority_user_info other;
     h \<leftarrow> authority_host self; h' \<leftarrow> authority_host other;
     Some (u = u' \<and> h = h' \<and> au_port self = au_port other) }"

datatype Host = Host Authority

fun host_authority :: "Host \<Rightarrow> Authority" where
  "host_authority (Host a) = a"

definition host_domain :: "Host \<Rightarrow> str option" where
  "host_domain self = authority_host (host_authority self)"

definition host_eq :: "(str \<Rightarrow> str) \<Rightarrow> Host \<Rightarrow> Host \<Rightarrow> bool option" where
  "host_eq uc self other = do {
     d \<leftarrow> host_domain self; d' \<leftarrow> host_domain other;
     Some (uc d = uc d' \<and> au_port (host_authority self) = au_port (host_authority other)) }"

definition host_display :: "Host \<Rightarrow> str option" where
  "host_display self = do { d \<leftarrow> host_domain self; Some (d @ port_display (au_port (host_authority self))) }"

fun any_host :: "(str \<Rightarrow> str) \<Rightarrow> Host list \<Rightarrow> Host \<Rightarrow> bool option" where
  "any_host uc [] self = Some False"
| "any_host uc (h # whitelist) self = do { b \<leftarrow> host_eq uc h self; if b then Some True else any_host uc whitelist self }"

definition to_authority :: "(str \<Rightarrow> str) \<Rightarrow> Host list \<Rightarrow> Host \<Rightarrow> Authority option option" where
  "to_authority uc whitelist self = do {
     found \<leftarrow> any_host uc whitelist self;
     Some (if found then Some ((host_authority self)\<lparr>au_user_info := None\<rparr>) else None) }"

section \<open>Model: absolute URIs, origins and references\<close>

record Absolute =
  ab_source :: "str option"
  ab_scheme :: IndexedStr
  ab_authority :: "Authority option"
  ab_path :: IndexedStr
  ab_query :: "IndexedStr option"

record Origin =
  og_source :: "str option"
  og_path :: IndexedStr
  og_query :: "IndexedStr option"

record Reference =
  rf_source :: "str option"
  rf_scheme :: "IndexedStr option"
  rf_authority :: "Authority option"
  rf_path :: IndexedStr
  rf_query :: "IndexedStr option"
  rf_fragment :: "IndexedStr option"

definition absolute_const_new :: "str \<Rightarrow> Authority option \<Rightarrow> str \<Rightarrow> str option \<Rightarrow> Absolute" where
  "absolute_const_new scheme authority path query =
     \<lparr>ab_source = None, ab_scheme = Concrete scheme, ab_authority = authority, ab_path = Concrete path,
      ab_query = map_option Concrete query\<rparr>"

definition reference_const_new ::
  "str option \<Rightarrow> Authority option \<Rightarrow> str \<Rightarrow> str option \<Rightarrow> str option \<Rightarrow> Reference" where
  "reference_const_new scheme authority path query fragment =
     \<lparr>rf_source = None, rf_scheme = map_option Concrete scheme, rf_authority = authority, rf_path = Concrete path,
      rf_query = map_option Concrete query, rf_fragment = map_option Concrete fragment\<rparr>"

definition host_to_absolute ::
  "(str \<Rightarrow> (str, uri_error) result) \<Rightarrow> (str \<Rightarrow> str) \<Rightarrow> str \<Rightarrow> Host list \<Rightarrow> Host \<Rightarrow> Absolute option option" where
  "host_to_absolute scheme_from_str uc scheme whitelist self =
     (case scheme_from_str scheme of
        Err _ \<Rightarrow> Some None
      | Ok scheme \<Rightarrow> do {
          authority \<leftarrow> to_authority uc whitelist self;
          Some (map_option (\<lambda>a. absolute_const_new scheme (Some a) [] None) authority) })"

definition absolute_path :: "Absolute \<Rightarrow> str option" where
  "absolute_path self = from_cow_source (ab_path self) (ab_source self)"

definition absolute_query :: "Absolute \<Rightarrow> str option option" where
  "absolute_query self = opt_text (ab_query self) (ab_source self)"

definition absolute_scheme :: "Absolute \<Rightarrow> str option" where
  "absolute_scheme self = from_cow_source (ab_scheme self) (ab_source self)"

definition absolute_set_path :: "str \<Rightarrow> Absolute \<Rightarrow> Absolute" where
  "absolute_set_path path self = self\<lparr>ab_path := Concrete path\<rparr>"

definition absolute_set_query :: "str option \<Rightarrow> Absolute \<Rightarrow> Absolute" where
  "absolute_set_query query self = self\<lparr>ab_query := map_option Concrete query\<rparr>"

definition absolute_clear_query :: "Absolute \<Rightarrow> Absolute" where
  "absolute_clear_query self = absolute_set_query None self"

definition set_authority :: "Authority \<Rightarrow> Absolute \<Rightarrow> Absolute" where
  "set_authority authority self = self\<lparr>ab_authority := Some authority\<rparr>"

definition absolute_is_normalized :: "Absolute \<Rightarrow> bool option" where
  "absolute_is_normalized self = do {
     query \<leftarrow> absolute_query self;
     path \<leftarrow> absolute_path self;
     let normalized_query = (case query of None \<Rightarrow> True | Some q \<Rightarrow> query_is_normalized q);
     Some (if ab_authority self \<noteq> None \<and> path \<noteq> [] then path_is_normalized True path \<and> normalized_query
           else path_is_normalized False path \<and> normalized_query) }"

definition absolute_normalize :: "Absolute \<Rightarrow> Absolute option" where
  "absolute_normalize self = do {
     path \<leftarrow> absolute_path self;
     let self =
       (if ab_authority self \<noteq> None \<and> path \<noteq> [] then
          if \<not> path_is_normalized True path then self\<lparr>ab_path := Concrete (path_to_normalized True True path)\<rparr> else self
        else if \<not> path_is_normalized False path then self\<lparr>ab_path := Concrete (path_to_normalized False True path)\<rparr>
        else self);
     query \<leftarrow> absolute_query self;
     Some (case query of
             None \<Rightarrow> self
           | Some q \<Rightarrow> if \<not> query_is_normalized q then self\<lparr>ab_query := Some (Concrete (query_to_normalized q))\<rparr>
                      else self) }"

definition absolute_display :: "Absolute \<Rightarrow> str option" where
  "absolute_display self = do {
     scheme \<leftarrow> absolute_scheme self;
     authority \<leftarrow> (case ab_authority self of
        None \<Rightarrow> Some [] | Some a \<Rightarrow> map_option (\<lambda>s. ''//'' @ s) (authority_display a));
     path \<leftarrow> absolute_path self;
     query \<leftarrow> absolute_query self;
     Some (scheme @ '':'' @ authority @ path @ (case query of None \<Rightarrow> [] | Some q \<Rightarrow> ''?'' @ q)) }"

definition raw_origin_new :: "str \<Rightarrow> str option \<Rightarrow> Origin" where
  "raw_origin_new path query = \<lparr>og_source = None, og_path = Concrete path, og_query = map_option Concrete query\<rparr>"

definition raw_origin_query :: "Origin \<Rightarrow> str option option" where
  "raw_origin_query self = opt_text (og_query self) (og_source self)"

definition raw_origin_set_query :: "str option \<Rightarrow> Origin \<Rightarrow> Origin" where
  "raw_origin_set_query query self = self\<lparr>og_query := map_option Concrete query\<rparr>"

definition reference_path :: "Reference \<Rightarrow> str option" where
  "reference_path self = from_cow_source (rf_path self) (rf_source self)"

definition reference_query :: "Reference \<Rightarrow> str option option" where
  "reference_query self = opt_text (rf_query self) (rf_source self)"

definition reference_scheme :: "Reference \<Rightarrow> str option option" where
  "reference_scheme self = opt_text (rf_scheme self) (rf_source self)"

definition reference_fragment :: "Reference \<Rightarrow> str option option" where
  "reference_fragment self = opt_text (rf_fragment self) (rf_source self)"

definition reference_is_normalized :: "Reference \<Rightarrow> bool option" where
  "reference_is_normalized self = do {
     query \<leftarrow> reference_query self;
     path \<leftarrow> reference_path self;
     let normalized_query = (case query of None \<Rightarrow> True | Some q \<Rightarrow> query_is_normalized q);
     Some (if rf_authority self \<noteq> None \<and> path \<noteq> [] then path_is_normalized True path \<and> normalized_query
           else path_is_normalized False path \<and> normalized_query) }"

definition reference_normalize :: "Reference \<Rightarrow> Reference option" where
  "reference_normalize self = do {
     path \<leftarrow> reference_path self;
     let self =
       (if rf_authority self \<noteq> None \<and> path \<noteq> [] then
          if \<not> path_is_normalized True path then self\<lparr>rf_path := Concrete (path_to_normalized True True path)\<rparr> else self
        else if \<not> path_is_normalized False path then self\<lparr>rf_path := Concrete (path_to_normalized False True path)\<rparr>
        else self);
     query \<leftarrow> reference_query self;
     Some (case query of
             None \<Rightarrow> self
           | Some q \<Rightarrow> if \<not> query_is_normalized q then self\<lparr>rf_query := Some (Concrete (query_to_normalized q))\<rparr>
                      else self) }"

definition with_query_fragment_of :: "Reference \<Rightarrow> Reference \<Rightarrow> Reference option" where
  "with_query_fragment_of other self = do {
     self \<leftarrow> (case rf_query other of
        None \<Rightarrow> Some self
      | Some query \<Rightarrow> do {
          own \<leftarrow> reference_query self;
          if own = None
          then map_option (\<lambda>q. self\<lparr>rf_query := Some (Concrete q)\<rparr>) (into_concrete query (rf_source self))
          else Some self });
     (case rf_fragment other of
        None \<Rightarrow> Some self
      | Some frag \<Rightarrow> do {
          own \<leftarrow> reference_fragment self;
          if own = None
          then map_option (\<lambda>f. self\<lparr>rf_fragment := Some (Concrete f)\<rparr>) (into_concrete frag (rf_source self))
          else Some self }) }"

definition reference_from_absolute :: "Absolute \<Rightarrow> Reference" where
  "reference_from_absolute absolute =
     \<lparr>rf_source = ab_source absolute, rf_scheme = Some (ab_scheme absolute), rf_authority = ab_authority absolute,
      rf_path = ab_path absolute, rf_query = ab_query absolute, rf_fragment = None\<rparr>"

definition reference_from_origin :: "Origin \<Rightarrow> Reference" where
  "reference_from_origin origin =
     \<lparr>rf_source = og_source origin, rf_scheme = None, rf_authority = None, rf_path = og_path origin,
      rf_query = og_query origin, rf_fragment = None\<rparr>"

text \<open>The source of an authority is shared with the reference only when it is borrowed (\<open>borrowed\<close>).\<close>

definition reference_from_authority :: "bool \<Rightarrow> Authority \<Rightarrow> Reference" where
  "reference_from_authority borrowed authority =
     \<lparr>rf_source = (if borrowed then au_source authority else None), rf_scheme = None, rf_authority = Some authority,
      rf_path = Concrete [], rf_query = None, rf_fragment = None\<rparr>"

definition reference_from_asterisk :: Reference where
  "reference_from_asterisk =
     \<lparr>rf_source = None, rf_scheme = None, rf_authority = None, rf_path = Concrete ''*'', rf_query = None,
      rf_fragment = None\<rparr>"

definition reference_display :: "Reference \<Rightarrow> str option" where
  "reference_display self = do {
     scheme \<leftarrow> reference_scheme self;
     authority \<leftarrow> (case rf_authority self of
        None \<Rightarrow> Some [] | Some a \<Rightarrow> map_option (\<lambda>s. ''//'' @ s) (authority_display a));
     path \<leftarrow> reference_path self;
     query \<leftarrow> reference_query self;
     fragment \<leftarrow> reference_fragment self;
     Some ((case scheme of None \<Rightarrow> [] | Some s \<Rightarrow> s @ '':'') @ authority @ path
       @ (case query of None \<Rightarrow> [] | Some q \<Rightarrow> ''?'' @ q)
       @ (case fragment of None \<Rightarrow> [] | Some f \<Rightarrow> ''#'' @ f)) }"

section \<open>Views\<close>

text \<open>What a URI says: the texts of its parts, if all of them can be read.\<close>

record auth_text =
  at_user_info :: "str option"
  at_host :: str
  at_port :: "u16 option"

record ref_text =
  rx_scheme :: "str option"
  rx_authority :: "auth_text option"
  rx_path :: str
  rx_query :: "str option"
  rx_fragment :: "str option"

definition auth_view :: "Authority \<Rightarrow> auth_text option" where
  "auth_view a = do {
     u \<leftarrow> authority_user_info a; h \<leftarrow> authority_host a;
     Some \<lparr>at_user_info = u, at_host = h, at_port = au_port a\<rparr> }"

definition ref_view :: "Reference \<Rightarrow> ref_text option" where
  "ref_view r = do {
     s \<leftarrow> reference_scheme r;
     a \<leftarrow> (case rf_authority r of None \<Rightarrow> Some None | Some a \<Rightarrow> map_option Some (auth_view a));
     p \<leftarrow> reference_path r; q \<leftarrow> reference_query r; f \<leftarrow> reference_fragment r;
     Some \<lparr>rx_scheme = s, rx_authority = a, rx_path = p, rx_query = q, rx_fragment = f\<rparr> }"

definition norm_path :: "bool \<Rightarrow> str \<Rightarrow> str" where
  "norm_path absolute p = (if path_is_normalized absolute p then p else path_to_normalized absolute True p)"

definition norm_query :: "str \<Rightarrow> str" where
  "norm_query q = (if query_is_normalized q then q else query_to_normalized q)"

definition norm_text :: "ref_text \<Rightarrow> ref_text" where
  "norm_text v = v\<lparr>rx_path := norm_path (rx_authority v \<noteq> None \<and> rx_path v \<noteq> []) (rx_path v),
                   rx_query := map_option norm_query (rx_query v)\<rparr>"

lemma from_cow_source_Concrete [simp]: "from_cow_source (Concrete s) src = Some s"
  by (simp add: from_cow_source_def)

lemma into_concrete_eq: "into_concrete x src = from_cow_source x src"
  by (simp add: into_concrete_def from_cow_source_def split: IndexedStr.split)

lemma opt_text_simps [simp]: "opt_text None src = Some None" "opt_text (Some (Concrete s)) src = Some (Some s)"
  by (simp_all add: opt_text_def)

lemma opt_text_map [simp]: "opt_text (map_option Concrete x) src = Some x"
  by (cases x) simp_all

lemma opt_text_None_iff: "opt_text x src = Some None \<longleftrightarrow> x = None"
  by (simp add: opt_text_def split: option.splits)

lemmas reference_parts = reference_scheme_def reference_path_def reference_query_def reference_fragment_def

section \<open>Lemmas: indexed strings\<close>

text \<open>An index made from two addresses reads the bytes between them.\<close>

lemma checked_from_reads:
  assumes "checked_from (ns, nl) (hs, hl) = Some (Indexed i j)"
  shows "take (j - i) (drop i (map mem [hs ..< hs + hl])) = map mem [ns ..< ns + nl]"
  using assms by (auto simp: checked_from_def Let_def take_map drop_map split: if_splits)

lemma indexed_add_reads:
  assumes "indexed_add x y = Some z" and "from_cow_source x src = Some a" and "from_cow_source y src = Some b"
  shows "from_cow_source z src = Some (a @ b)"
proof -
  obtain i j k where xyz: "x = Indexed i j" "y = Indexed j k" "z = Indexed i k"
    using assms(1) by (auto elim!: indexed_add.elims split: if_splits)
  from assms(2,3) obtain s where s: "src = Some s" "i \<le> j" "j \<le> k" "k \<le> length s" "is_char_boundary s i" "is_char_boundary s k"
    and ab: "a = take (j - i) (drop i s)" "b = take (k - j) (drop j s)"
    by (auto simp: xyz from_cow_source_def str_slice_def split: if_splits)
  have "take (k - i) (drop i s) = take (j - i) (drop i s) @ take (k - j) (drop (j - i) (drop i s))"
    using take_add [of "j - i" "k - j" "drop i s"] s by simp
  then show ?thesis using s by (simp add: xyz ab from_cow_source_def str_slice_def)
qed

section \<open>Lemmas: paths that need not be absolute\<close>

lemma to_normalized_rooted:
  "starts_with (trim p) ''/'' \<Longrightarrow> path_to_normalized False trail p = path_to_normalized True trail p"
  by (simp add: path_to_normalized_def)

lemma raw_segments_relative:
  assumes "list_all printable p" and "\<not> starts_with p ''/''"
  shows "path_raw_segments p = split slash p"
proof -
  have "trim p = p" using assms(1) by (intro trim_printable) (simp add: list_all_iff)
  then show ?thesis using assms(2) by (cases p) (auto simp: path_raw_segments_def starts_with_def)
qed

lemma split_hd: "p \<noteq> [] \<Longrightarrow> hd p \<noteq> c \<Longrightarrow> hd (split c p) \<noteq> []"
  by (cases p) (auto split: list.splits)

lemma hd_join: "xs \<noteq> [] \<Longrightarrow> hd xs \<noteq> [] \<Longrightarrow> join c xs \<noteq> [] \<and> hd (join c xs) = hd (hd xs)"
  by (induction c xs rule: join.induct) auto

lemma path_to_normalized_relative:
  assumes "list_all printable p" and "\<not> starts_with p ''/''" and "p \<noteq> []"
  defines "xs \<equiv> filter (\<lambda>s. s \<noteq> []) (split slash p)"
  shows "path_to_normalized False True p = join slash (if last (split slash p) = [] then xs @ [[]] else xs)"
    and "xs \<noteq> []" and "hd xs = hd (split slash p)"
proof -
  have t: "trim p = p" using assms(1) by (intro trim_printable) (simp add: list_all_iff)
  have "hd (split slash p) \<noteq> []" using assms(2,3) by (intro split_hd) (auto simp: starts_with_slash)
  then show ne: "xs \<noteq> []" and "hd xs = hd (split slash p)"
    unfolding xs_def by (cases "split slash p"; simp)+
  have nolast: "last xs \<noteq> []" using ne unfolding xs_def by (rule nonempty_last)
  have "slash \<notin> set (last xs)" using last_in_set [OF ne] by (auto simp: xs_def dest: split_pieces)
  then have "last (last xs) \<noteq> slash" using last_in_set [OF nolast] by metis
  then have "\<not> ends_with (join slash xs) ''/''"
    using last_join [OF ne nolast, of slash] by (simp add: ends_with_singleton)
  moreover have "last (split slash p) = [] \<longleftrightarrow> 1 < length p \<and> ends_with p ''/''"
    using assms(2,3) by (cases p rule: rev_cases)
      (auto simp: last_split_eq_Nil ends_with_singleton starts_with_slash length_greater_0_conv hd_append)
  moreover have "join slash (xs @ [[]]) = join slash xs @ ''/''"
    using ne by (induction slash xs rule: join.induct) (simp_all add: join_Cons)
  ultimately show "path_to_normalized False True p = join slash (if last (split slash p) = [] then xs @ [[]] else xs)"
    using assms(2) by (simp add: path_to_normalized_def t raw_segments_relative [OF assms(1,2)] push_segments_join xs_def [symmetric] Let_def)
qed

text \<open>The segments of a path that was rebuilt from its nonempty raw segments.\<close>

lemma path_segments_rebuilt:
  assumes "path_raw_segments p' =
    (let xs = filter (\<lambda>s. s \<noteq> []) (path_raw_segments p) in if last (path_raw_segments p) = [] then xs @ [[]] else xs)"
  shows "path_segments pd p' = path_segments pd p"
proof (cases "last (path_raw_segments p) = []")
  case True
  then have "filter (\<lambda>s. s \<noteq> []) (path_raw_segments p) = filter (\<lambda>s. s \<noteq> []) (butlast (path_raw_segments p))"
    by (cases "path_raw_segments p" rule: rev_cases) auto
  with True assms show ?thesis by (simp add: path_segments_eq Let_def)
next
  case False
  then have "filter (\<lambda>s. s \<noteq> []) (path_raw_segments p)
      = filter (\<lambda>s. s \<noteq> []) (butlast (path_raw_segments p)) @ [last (path_raw_segments p)]"
    by (simp add: butlast_filter_nonempty)
  with False assms show ?thesis by (simp add: path_segments_eq Let_def)
qed

lemma relative_normalized:
  assumes "list_all printable p" and "\<not> starts_with p ''/''" and "p \<noteq> []"
  shows "path_is_normalized False (path_to_normalized False True p)"
    and "path_segments pd (path_to_normalized False True p) = path_segments pd p"
proof -
  let ?xs = "filter (\<lambda>s. s \<noteq> []) (split slash p)"
  let ?ys = "if last (split slash p) = [] then ?xs @ [[]] else ?xs"
  note R = path_to_normalized_relative [OF assms]
  have pieces: "slash \<notin> set y" if "y \<in> set ?ys" for y using that by (auto dest: split_pieces split: if_splits)
  have ne: "?ys \<noteq> []" using R(2) by simp
  have sp: "split slash (join slash ?ys) = ?ys" using split_join [OF ne] pieces by blast
  have hd: "hd ?ys = hd (split slash p)" using R(2,3) by (simp add: hd_append)
  have "hd (split slash p) \<noteq> []" using assms(2,3) by (intro split_hd) (auto simp: starts_with_slash)
  then have j: "hd (join slash ?ys) = hd (hd ?ys)" and h: "hd ?ys \<noteq> []" using hd hd_join [OF ne] by auto
  have "hd (hd ?ys) \<noteq> slash" using pieces [OF list.set_sel(1) [OF ne]] list.set_sel(1) [OF h] by metis
  then have "\<not> starts_with (join slash ?ys) ''/''" using j by (simp add: starts_with_slash)
  moreover have "list_all printable (join slash ?ys)"
    using set_join [of slash ?ys] assms(1) split_subset [of _ slash p]
    by (fastforce simp: list_all_iff printable_def)
  ultimately have raw: "path_raw_segments (path_to_normalized False True p) = ?ys"
    using sp R(1) raw_segments_relative by simp
  have "[] \<notin> set (butlast ?ys)" by (auto dest: in_set_butlastD)
  then show "path_is_normalized False (path_to_normalized False True p)" by (simp add: path_is_normalized_iff raw)
  show "path_segments pd (path_to_normalized False True p) = path_segments pd p"
    by (rule path_segments_rebuilt) (simp add: raw raw_segments_relative [OF assms(1,2)])
qed

lemma relative_normalized_ne:
  assumes "list_all printable p" and "\<not> starts_with p ''/''" and "p \<noteq> []"
  shows "path_to_normalized False True p \<noteq> []"
proof -
  note R = path_to_normalized_relative [OF assms]
  have "hd (split slash p) \<noteq> []" using assms(2,3) by (intro split_hd) (auto simp: starts_with_slash)
  then show ?thesis using R hd_join [of _ slash] by (simp add: hd_append)
qed

lemma norm_path_normalized:
  assumes "list_all printable p"
  shows "path_is_normalized a (norm_path a p)" and "path_segments pd (norm_path a p) = path_segments pd p"
    and "norm_path a p = [] \<longleftrightarrow> p = [] \<and> \<not> a"
proof -
  have t: "trim p = p" using assms by (intro trim_printable) (simp add: list_all_iff)
  have nil: "path_is_normalized False []" by (simp add: uri_eval)
  have abs: "path_is_normalized True q \<Longrightarrow> path_is_normalized False q" for q by (auto simp: path_is_normalized_iff)
  have C: "a \<or> \<not> a \<and> path_is_normalized False p \<or> \<not> a \<and> p \<noteq> [] \<and> starts_with p ''/''
    \<or> \<not> a \<and> p \<noteq> [] \<and> \<not> starts_with p ''/''" using nil by blast
  show n: "path_is_normalized a (norm_path a p)"
    using C by (elim disjE) (auto simp: norm_path_def to_normalized_is_normalized to_normalized_rooted t
        relative_normalized [OF assms] intro: abs)
  show "path_segments pd (norm_path a p) = path_segments pd p"
    using C by (elim disjE) (auto simp: norm_path_def to_normalized_segments to_normalized_rooted t
        relative_normalized [OF assms])
  have rel: "path_to_normalized False True p \<noteq> []" if "p \<noteq> []" "\<not> starts_with p ''/''"
    using relative_normalized_ne [OF assms that(2,1)] .
  show "norm_path a p = [] \<longleftrightarrow> p = [] \<and> \<not> a"
    using C n by (elim disjE) (auto simp: norm_path_def path_is_normalized_iff nil to_normalized_rooted t rel
        path_to_normalized_eq Let_def split: if_splits)
qed

section \<open>Lemmas: views\<close>

lemma ref_view_parts:
  assumes "ref_view r = Some v"
  shows "reference_scheme r = Some (rx_scheme v)" and "reference_path r = Some (rx_path v)"
    and "reference_query r = Some (rx_query v)" and "reference_fragment r = Some (rx_fragment v)"
    and "(case rf_authority r of None \<Rightarrow> Some None | Some a \<Rightarrow> map_option Some (auth_view a)) = Some (rx_authority v)"
    and "rf_authority r = None \<longleftrightarrow> rx_authority v = None"
  using assms by (auto simp: ref_view_def split: Option.bind_splits option.splits)

lemma ref_view_set:
  assumes "ref_view r = Some v"
  shows "ref_view (r\<lparr>rf_path := Concrete p\<rparr>) = Some (v\<lparr>rx_path := p\<rparr>)"
    and "ref_view (r\<lparr>rf_query := Some (Concrete q)\<rparr>) = Some (v\<lparr>rx_query := Some q\<rparr>)"
    and "ref_view (r\<lparr>rf_fragment := Some (Concrete f)\<rparr>) = Some (v\<lparr>rx_fragment := Some f\<rparr>)"
  using ref_view_parts [OF assms] by (simp_all add: ref_view_def reference_parts)

lemma reference_normalize_view:
  assumes "ref_view r = Some v"
  shows "\<exists>r'. reference_normalize r = Some r' \<and> ref_view r' = Some (norm_text v)"
proof -
  let ?a = "rx_authority v \<noteq> None \<and> rx_path v \<noteq> []"
  let ?r = "if path_is_normalized ?a (rx_path v) then r else r\<lparr>rf_path := Concrete (norm_path ?a (rx_path v))\<rparr>"
  note V = ref_view_parts [OF assms]
  have v1: "ref_view ?r = Some (v\<lparr>rx_path := norm_path ?a (rx_path v)\<rparr>)"
    using assms ref_view_set(1) [OF assms] by (simp add: norm_path_def)
  have q: "reference_query ?r = Some (rx_query v)" using ref_view_parts(3) [OF v1] by simp
  let ?r' = "case rx_query v of None \<Rightarrow> ?r
    | Some q \<Rightarrow> if query_is_normalized q then ?r else ?r\<lparr>rf_query := Some (Concrete (query_to_normalized q))\<rparr>"
  have "reference_normalize r = Some ?r'"
    using V(2,6) q by (cases ?a) (auto simp: reference_normalize_def Let_def norm_path_def split: option.splits)
  moreover have "ref_view ?r' = Some (norm_text v)"
    using v1 ref_view_set(2) [OF v1]
    by (cases "rx_query v") (auto simp: norm_text_def norm_query_def simp del: if_split)
  ultimately show ?thesis by blast
qed

lemma reference_is_normalized_view:
  assumes "ref_view r = Some v"
  shows "reference_is_normalized r =
    Some (path_is_normalized (rx_authority v \<noteq> None \<and> rx_path v \<noteq> []) (rx_path v)
      \<and> (case rx_query v of None \<Rightarrow> True | Some q \<Rightarrow> query_is_normalized q))"
  using ref_view_parts [OF assms] by (auto simp: reference_is_normalized_def Let_def)

lemma norm_query_normalized:
  assumes "list_all printable q"
  shows "query_is_normalized (norm_query q)" and "query_segments pd (norm_query q) = query_segments pd q"
  using assms by (auto simp: norm_query_def list_all_iff query_to_normalized_is_normalized query_to_normalized_pairs)

lemma reference_normalize_fixed:
  assumes "ref_view r = Some v" and "reference_is_normalized r = Some True"
  shows "reference_normalize r = Some r"
  using ref_view_parts [OF assms(1)] assms(2)
  by (auto simp: reference_is_normalized_view [OF assms(1)] reference_normalize_def Let_def split: option.splits)

section \<open>Properties\<close>

text \<open>
  Normalizing a URI reference (\<open>Reference::normalize\<close>, \<open>Reference::is_normalized\<close>, \<open>reference.rs\<close>) whose
  parts can be read does not panic; the result is normalized and is left unchanged by another normalization;
  scheme, authority and fragment are untouched, and the decoded path segments and query pairs are the same.
\<close>

theorem reference_normalize_correct:
  assumes "ref_view r = Some v" and "list_all printable (rx_path v)" and "list_all printable (case rx_query v of None \<Rightarrow> [] | Some q \<Rightarrow> q)"
  shows "\<exists>r' v'. reference_normalize r = Some r' \<and> ref_view r' = Some v'
    \<and> reference_is_normalized r' = Some True \<and> reference_normalize r' = Some r'
    \<and> rx_scheme v' = rx_scheme v \<and> rx_authority v' = rx_authority v \<and> rx_fragment v' = rx_fragment v
    \<and> path_segments pd (rx_path v') = path_segments pd (rx_path v)
    \<and> map_option (query_segments pd) (rx_query v') = map_option (query_segments pd) (rx_query v)"
proof -
  obtain r' where r': "reference_normalize r = Some r'" "ref_view r' = Some (norm_text v)"
    using reference_normalize_view [OF assms(1)] by blast
  let ?a = "rx_authority v \<noteq> None \<and> rx_path v \<noteq> []"
  note P = norm_path_normalized [OF assms(2), where a = ?a]
  have "reference_is_normalized r' = Some True"
    using P(1,3) norm_query_normalized assms(3)
    by (cases "rx_query v"; cases ?a) (auto simp: reference_is_normalized_view [OF r'(2)] norm_text_def)
  moreover from reference_normalize_fixed [OF r'(2) this] have "reference_normalize r' = Some r'" .
  moreover have "path_segments pd (rx_path (norm_text v)) = path_segments pd (rx_path v)"
    using P(2) by (simp add: norm_text_def)
  moreover have "map_option (query_segments pd) (rx_query (norm_text v)) = map_option (query_segments pd) (rx_query v)"
    using norm_query_normalized(2) assms(3) by (cases "rx_query v") (simp_all add: norm_text_def)
  ultimately show ?thesis using r' by (auto simp: norm_text_def)
qed

definition sample_reference :: Reference where
  "sample_reference =
     \<lparr>rf_source = Some ''http://h//a/?x&&y#f'', rf_scheme = Some (Indexed 0 4),
      rf_authority = Some (authority_const_new None ''h'' None), rf_path = Indexed 8 12, rf_query = Some (Indexed 13 17),
      rf_fragment = Some (Indexed 18 19)\<rparr>"

lemma sample_reference_view:
  "ref_view sample_reference =
     Some \<lparr>rx_scheme = Some ''http'', rx_authority = Some \<lparr>at_user_info = None, at_host = ''h'', at_port = None\<rparr>,
           rx_path = ''//a/'', rx_query = Some ''x&&y'', rx_fragment = Some ''f''\<rparr>"
  by (simp add: sample_reference_def ref_view_def reference_parts auth_view_def authority_const_new_def
      authority_user_info_def authority_host_def opt_text_def from_cow_source_def str_slice_def is_char_boundary_def)

theorem reference_normalize_correct_witness:
  "\<exists>r' v'. reference_normalize sample_reference = Some r' \<and> ref_view r' = Some v'
     \<and> reference_is_normalized r' = Some True \<and> rx_fragment v' = Some ''f''"
  using reference_normalize_correct [OF sample_reference_view, of Borrowed] by (auto simp: printable_def)

text \<open>
  An absolute URI and the reference made from it (\<open>From<Absolute> for Reference\<close>, \<open>reference.rs\<close>) say the same:
  they print the same text, agree on whether they are normalized, and normalizing either gives the same
  reference (\<open>Absolute::normalize\<close>, \<open>Display\<close>, \<open>absolute.rs\<close>).
\<close>

theorem absolute_as_reference:
  "reference_display (reference_from_absolute a) = absolute_display a
   \<and> reference_is_normalized (reference_from_absolute a) = absolute_is_normalized a
   \<and> reference_normalize (reference_from_absolute a) = map_option reference_from_absolute (absolute_normalize a)"
proof (intro conjI)
  have parts: "reference_path (reference_from_absolute a) = absolute_path a"
    "reference_query (reference_from_absolute a) = absolute_query a"
    "reference_scheme (reference_from_absolute a) = map_option Some (absolute_scheme a)"
    "reference_fragment (reference_from_absolute a) = Some None"
    "rf_authority (reference_from_absolute a) = ab_authority a" for a
    by (simp_all add: reference_parts reference_from_absolute_def absolute_path_def absolute_query_def
        absolute_scheme_def opt_text_def)
  show "reference_display (reference_from_absolute a) = absolute_display a"
    by (cases "absolute_scheme a") (simp_all add: reference_display_def absolute_display_def parts)
  show "reference_is_normalized (reference_from_absolute a) = absolute_is_normalized a"
    by (simp add: reference_is_normalized_def absolute_is_normalized_def parts)
  have set: "(reference_from_absolute a)\<lparr>rf_path := p\<rparr> = reference_from_absolute (a\<lparr>ab_path := p\<rparr>)"
    "(reference_from_absolute a)\<lparr>rf_query := q\<rparr> = reference_from_absolute (a\<lparr>ab_query := q\<rparr>)" for p q a
    by (simp_all add: reference_from_absolute_def)
  have q: "absolute_query (a\<lparr>ab_path := p\<rparr>) = absolute_query a" for p by (simp add: absolute_query_def)
  show "reference_normalize (reference_from_absolute a) = map_option reference_from_absolute (absolute_normalize a)"
    by (cases "absolute_path a"; cases "absolute_query a")
      (auto simp: reference_normalize_def absolute_normalize_def parts set q Let_def split: option.splits)
qed

text \<open>
  Whitelisting a \<open>Host\<close> header (\<open>Host::to_authority\<close>, \<open>host.rs\<close>): for readable hosts the result is an authority
  exactly when some host of the whitelist has the same port and the same domain up to case; it then has the
  domain and port of the header and never the user information a client sent.
\<close>

theorem to_authority_whitelisted:
  assumes "auth_view (host_authority h) = Some v" and "list_all (\<lambda>w. host_domain w \<noteq> None) whitelist"
  shows "\<exists>res. to_authority uc whitelist h = Some res
    \<and> (res \<noteq> None \<longleftrightarrow> (\<exists>w \<in> set whitelist. uc (the (host_domain w)) = uc (at_host v)
          \<and> au_port (host_authority w) = at_port v))
    \<and> (case res of None \<Rightarrow> True | Some a \<Rightarrow> auth_view a = Some (v\<lparr>at_user_info := None\<rparr>))"
proof -
  have d: "authority_host (host_authority h) = Some (at_host v)" and p: "au_port (host_authority h) = at_port v"
    using assms(1) by (auto simp: auth_view_def split: Option.bind_splits)
  have "any_host uc whitelist h = Some (\<exists>w \<in> set whitelist. uc (the (host_domain w)) = uc (at_host v)
          \<and> au_port (host_authority w) = at_port v)"
    using assms(2) by (induction whitelist) (auto simp: host_eq_def host_domain_def d p)
  moreover have "auth_view ((host_authority h)\<lparr>au_user_info := None\<rparr>) = Some (v\<lparr>at_user_info := None\<rparr>)"
    using assms(1) by (auto simp: auth_view_def authority_user_info_def authority_host_def split: Option.bind_splits)
  ultimately show ?thesis by (auto simp: to_authority_def)
qed

theorem to_authority_whitelisted_witness:
  "\<exists>a. to_authority id [Host (authority_const_new None ''rocket.rs'' None)]
        (Host (authority_raw ''me@rocket.rs'' (Some (0, 2)) (3, 12) None)) = Some (Some a)
     \<and> auth_view a = Some \<lparr>at_user_info = None, at_host = ''rocket.rs'', at_port = None\<rparr>"
proof -
  let ?h = "Host (authority_raw ''me@rocket.rs'' (Some (0, 2)) (3, 12) None)"
  have "auth_view (host_authority ?h) = Some \<lparr>at_user_info = Some ''me'', at_host = ''rocket.rs'', at_port = None\<rparr>"
    by (simp add: auth_view_def authority_raw_def authority_user_info_def authority_host_def opt_text_def
        from_cow_source_def str_slice_def is_char_boundary_def)
  from to_authority_whitelisted [OF this, of "[Host (authority_const_new None ''rocket.rs'' None)]" id] show ?thesis
    by (auto simp: host_domain_def authority_const_new_def authority_host_def split: option.splits)
qed

end
