(* ===== verification/ShieldFairing.thy ===== *)
theory ShieldFairing
  imports UriValues HeaderLaws ResponseModel Fairings
begin

text \<open>
  The shield (\<open>core/lib/src/shield/shield.rs\<close>, \<open>policy.rs\<close>): security policies with the headers they stand for, and
  the fairing that adds these headers to responses.

  The hash map of policies is an association list whose order stands for the iteration order of the map, which
  the code does not rely on.  A \<open>time::Duration\<close> is its number of nanoseconds.  The part of a server that liftoff
  asks for is passed as arguments: whether all endpoints use TLS, and the profile.  A panic is \<open>None\<close>.
\<close>

section \<open>Model: policies\<close>

type_synonym Duration = int

definition duration_days :: "int \<Rightarrow> Duration" where
  "duration_days d = d * 86400 * 10 ^ 9"

definition whole_seconds :: "Duration \<Rightarrow> int" where
  "whole_seconds d = (if d < 0 then - ((- d) div 10 ^ 9) else d div 10 ^ 9)"

definition int_to_string :: "int \<Rightarrow> str" where
  "int_to_string i = (if i < 0 then ''-'' @ nat_to_string (nat (- i)) else nat_to_string (nat i))"

datatype Referrer =
    NoReferrer | NoReferrerWhenDowngrade | Referrer_Origin | OriginWhenCrossOrigin | Referrer_SameOrigin
  | StrictOrigin | StrictOriginWhenCrossOrigin | UnsafeUrl

fun referrer_header :: "Referrer \<Rightarrow> Header" where
  "referrer_header r = header_new ''Referrer-Policy''
     (case r of
        NoReferrer \<Rightarrow> ''no-referrer''
      | NoReferrerWhenDowngrade \<Rightarrow> ''no-referrer-when-downgrade''
      | Referrer_Origin \<Rightarrow> ''origin''
      | OriginWhenCrossOrigin \<Rightarrow> ''origin-when-cross-origin''
      | Referrer_SameOrigin \<Rightarrow> ''same-origin''
      | StrictOrigin \<Rightarrow> ''strict-origin''
      | StrictOriginWhenCrossOrigin \<Rightarrow> ''strict-origin-when-cross-origin''
      | UnsafeUrl \<Rightarrow> ''unsafe-url'')"

datatype ExpectCt = Enforce Duration | Report Duration Absolute | ReportAndEnforce Duration Absolute

definition expect_ct_default :: ExpectCt where
  "expect_ct_default = Enforce (duration_days 30)"

fun expect_ct_header :: "ExpectCt \<Rightarrow> Header option" where
  "expect_ct_header (Enforce age) =
     Some (header_new ''Expect-CT'' (''max-age='' @ int_to_string (whole_seconds age) @ '', enforce''))"
| "expect_ct_header (Report age uri) = do {
     u \<leftarrow> absolute_display uri;
     Some (header_new ''Expect-CT''
       (''max-age='' @ int_to_string (whole_seconds age) @ '', report-uri='' @ [CHR 0x22] @ u @ [CHR 0x22])) }"
| "expect_ct_header (ReportAndEnforce age uri) = do {
     u \<leftarrow> absolute_display uri;
     Some (header_new ''Expect-CT''
       (''max-age='' @ int_to_string (whole_seconds age) @ '', enforce, report-uri='' @ [CHR 0x22] @ u @ [CHR 0x22])) }"

definition no_sniff_header :: Header where
  "no_sniff_header = header_new ''X-Content-Type-Options'' ''nosniff''"

datatype Hsts = Hsts_Enable Duration | IncludeSubDomains Duration | Preload Duration

definition hsts_default :: Hsts where
  "hsts_default = Hsts_Enable (duration_days 365)"

definition YEAR :: Duration where
  "YEAR = 31536000 * 10 ^ 9"

definition hsts_header :: "Hsts \<Rightarrow> Header" where
  "hsts_header hsts =
     (if hsts = hsts_default then header_new ''Strict-Transport-Security'' ''max-age=31536000''
      else header_new ''Strict-Transport-Security''
        (case hsts of
           Hsts_Enable age \<Rightarrow> ''max-age='' @ int_to_string (whole_seconds age)
         | IncludeSubDomains age \<Rightarrow> ''max-age='' @ int_to_string (whole_seconds age) @ ''; includeSubDomains''
         | Preload age \<Rightarrow> ''max-age='' @ int_to_string (whole_seconds (max age YEAR)) @ ''; includeSubDomains; preload''))"

datatype Frame = Deny | Frame_SameOrigin

fun frame_header :: "Frame \<Rightarrow> Header" where
  "frame_header f = header_new ''X-Frame-Options'' (case f of Deny \<Rightarrow> ''DENY'' | Frame_SameOrigin \<Rightarrow> ''SAMEORIGIN'')"

datatype XssFilter = Xss_Disable | Xss_Enable | EnableBlock

fun xss_header :: "XssFilter \<Rightarrow> Header" where
  "xss_header x = header_new ''X-XSS-Protection''
     (case x of Xss_Disable \<Rightarrow> ''0'' | Xss_Enable \<Rightarrow> ''1'' | EnableBlock \<Rightarrow> ''1; mode=block'')"

datatype Prefetch = On | Off

fun prefetch_header :: "Prefetch \<Rightarrow> Header" where
  "prefetch_header p = header_new ''X-DNS-Prefetch-Control'' (case p of On \<Rightarrow> ''on'' | Off \<Rightarrow> ''off'')"

datatype Feature =
    Accelerometer | AmbientLightSensor | Autoplay | Battery | Camera
  | CrossOriginIsolated | Displaycapture | DocumentDomain | EncryptedMedia | ExecutionWhileNotRendered
  | ExecutionWhileOutOfviewport | Fullscreen | Geolocation | Gyroscope | Magnetometer
  | Microphone | Midi | NavigationOverride | Payment | PictureInPicture
  | PublickeyCredentialsGet | ScreenWakeLock | SyncXhr | Usb | WebShare
  | XrSpatialTracking | ClipboardRead | ClipboardWrite | Gamepad | SpeakerSelection
  | InterestCohort | ConversionMeasurement | FocusWithoutUserActivation | Hid | IdleDetection
  | Serial | SyncScript | TrustTokenRedemption | VerticalScroll

fun feature_as_str :: "Feature \<Rightarrow> str" where
  "feature_as_str Accelerometer = ''accelerometer''"
| "feature_as_str AmbientLightSensor = ''ambient-light-sensor''"
| "feature_as_str Autoplay = ''autoplay''"
| "feature_as_str Battery = ''battery''"
| "feature_as_str Camera = ''camera''"
| "feature_as_str CrossOriginIsolated = ''cross-origin-isolated''"
| "feature_as_str Displaycapture = ''display-capture''"
| "feature_as_str DocumentDomain = ''document-domain''"
| "feature_as_str EncryptedMedia = ''encrypted-media''"
| "feature_as_str ExecutionWhileNotRendered = ''execution-while-not-rendered''"
| "feature_as_str ExecutionWhileOutOfviewport = ''execution-while-out-of-viewport''"
| "feature_as_str Fullscreen = ''fullscreen''"
| "feature_as_str Geolocation = ''geolocation''"
| "feature_as_str Gyroscope = ''gyroscope''"
| "feature_as_str Magnetometer = ''magnetometer''"
| "feature_as_str Microphone = ''microphone''"
| "feature_as_str Midi = ''midi''"
| "feature_as_str NavigationOverride = ''navigation-override''"
| "feature_as_str Payment = ''payment''"
| "feature_as_str PictureInPicture = ''picture-in-picture''"
| "feature_as_str PublickeyCredentialsGet = ''publickey-credentials-get''"
| "feature_as_str ScreenWakeLock = ''screen-wake-lock''"
| "feature_as_str SyncXhr = ''sync-xhr''"
| "feature_as_str Usb = ''usb''"
| "feature_as_str WebShare = ''web-share''"
| "feature_as_str XrSpatialTracking = ''xr-spatial-tracking''"
| "feature_as_str ClipboardRead = ''clipboard-read''"
| "feature_as_str ClipboardWrite = ''clipboard-write''"
| "feature_as_str Gamepad = ''gamepad''"
| "feature_as_str SpeakerSelection = ''speaker-selection''"
| "feature_as_str InterestCohort = ''interest-cohort''"
| "feature_as_str ConversionMeasurement = ''conversion-measurement''"
| "feature_as_str FocusWithoutUserActivation = ''focus-without-user-activation''"
| "feature_as_str Hid = ''hid''"
| "feature_as_str IdleDetection = ''idle-detection''"
| "feature_as_str Serial = ''serial''"
| "feature_as_str SyncScript = ''sync-script''"
| "feature_as_str TrustTokenRedemption = ''trust-token-redemption''"
| "feature_as_str VerticalScroll = ''vertical-scroll''"

datatype Allow = Allow_Origin Absolute | Allow_Any | Allow_This

fun rendered :: "Allow \<Rightarrow> str option" where
  "rendered (Allow_Origin uri) = do {
     scheme \<leftarrow> absolute_scheme uri;
     rest \<leftarrow> (case ab_authority uri of
        None \<Rightarrow> Some []
      | Some auth \<Rightarrow> do {
          host \<leftarrow> authority_host auth;
          Some (''://'' @ host @ (case au_port auth of None \<Rightarrow> [] | Some port \<Rightarrow> '':'' @ nat_to_string (unat port))) });
     Some ([CHR 0x22] @ scheme @ rest @ [CHR 0x22]) }"
| "rendered Allow_Any = Some ''*''"
| "rendered Allow_This = Some ''self''"

type_synonym Permission = "(Feature, Allow list) index_map"

definition permission_block :: "Feature \<Rightarrow> Permission \<Rightarrow> Permission" where
  "permission_block feature self = im_insert id feature [] self"

definition permission_blocked :: "Feature \<Rightarrow> Permission" where
  "permission_blocked feature = permission_block feature []"

definition permission_default :: Permission where
  "permission_default = permission_blocked InterestCohort"

text \<open>The loop of \<open>allow\<close> that panics on an origin without a host.\<close>

fun check_allow :: "Allow list \<Rightarrow> unit option" where
  "check_allow [] = Some ()"
| "check_allow (a # as) =
     (case a of
        Allow_Origin absolute \<Rightarrow>
          (case ab_authority absolute of
             None \<Rightarrow> None
           | Some auth \<Rightarrow> do { host \<leftarrow> authority_host auth; if host = [] then None else check_allow as })
      | _ \<Rightarrow> check_allow as)"

definition permission_allow :: "Feature \<Rightarrow> Allow list \<Rightarrow> Permission \<Rightarrow> Permission option" where
  "permission_allow feature allow self = do {
     _ \<leftarrow> check_allow allow;
     Some (im_insert id feature (if Allow_Any \<in> set allow then [Allow_Any] else allow) self) }"

definition permission_allowed :: "Feature \<Rightarrow> Allow list \<Rightarrow> Permission option" where
  "permission_allowed feature allow = permission_allow feature allow []"

definition permission_get :: "Feature \<Rightarrow> Permission \<Rightarrow> Allow list option" where
  "permission_get feature self = im_get id feature self"

fun collect_some :: "'a option list \<Rightarrow> 'a list option" where
  "collect_some [] = Some []"
| "collect_some (x # xs) = do { a \<leftarrow> x; as \<leftarrow> collect_some xs; Some (a # as) }"

fun join_with :: "str \<Rightarrow> str list \<Rightarrow> str" where
  "join_with sep [] = []"
| "join_with sep [x] = x"
| "join_with sep (x # y # ys) = x @ sep @ join_with sep (y # ys)"

definition permission_header :: "Permission \<Rightarrow> Header option" where
  "permission_header perm =
     (if perm = permission_default then Some (header_new ''Permissions-Policy'' ''interest-cohort=()'')
      else do {
        items \<leftarrow> collect_some (map (\<lambda>(feature, allow). do {
          list \<leftarrow> collect_some (map rendered allow);
          Some (feature_as_str feature @ ''=('' @ join_with '' '' list @ '')'') }) perm);
        Some (header_new ''Permissions-Policy'' (join_with '', '' items)) })"

text \<open>The policies of the crate, and one of a user, which has a name and a header.\<close>

datatype Policy =
    P_XssFilter XssFilter | P_NoSniff | P_Frame Frame | P_Hsts Hsts | P_ExpectCt ExpectCt | P_Referrer Referrer
  | P_Prefetch Prefetch | P_Permission Permission | P_User str Header

fun policy_name :: "Policy \<Rightarrow> str" where
  "policy_name (P_XssFilter _) = ''X-XSS-Protection''"
| "policy_name P_NoSniff = ''X-Content-Type-Options''"
| "policy_name (P_Frame _) = ''X-Frame-Options''"
| "policy_name (P_Hsts _) = ''Strict-Transport-Security''"
| "policy_name (P_ExpectCt _) = ''Expect-CT''"
| "policy_name (P_Referrer _) = ''Referrer-Policy''"
| "policy_name (P_Prefetch _) = ''X-DNS-Prefetch-Control''"
| "policy_name (P_Permission _) = ''Permissions-Policy''"
| "policy_name (P_User name _) = name"

fun policy_header :: "Policy \<Rightarrow> Header option" where
  "policy_header (P_XssFilter x) = Some (xss_header x)"
| "policy_header P_NoSniff = Some no_sniff_header"
| "policy_header (P_Frame f) = Some (frame_header f)"
| "policy_header (P_Hsts h) = Some (hsts_header h)"
| "policy_header (P_ExpectCt e) = expect_ct_header e"
| "policy_header (P_Referrer r) = Some (referrer_header r)"
| "policy_header (P_Prefetch p) = Some (prefetch_header p)"
| "policy_header (P_Permission p) = permission_header p"
| "policy_header (P_User _ h) = Some h"

section \<open>Model: the fairing\<close>

record Shield =
  policies :: "(str, Header) index_map"
  force_hsts :: bool

definition shield_new :: Shield where
  "shield_new = \<lparr>policies = [], force_hsts = False\<rparr>"

definition shield_enable :: "uncased_key \<Rightarrow> Policy \<Rightarrow> Shield \<Rightarrow> Shield option" where
  "shield_enable uc policy self = do {
     h \<leftarrow> policy_header policy;
     Some (self\<lparr>policies := im_insert uc (policy_name policy) h (policies self)\<rparr>) }"

definition shield_disable :: "uncased_key \<Rightarrow> str \<Rightarrow> Shield \<Rightarrow> Shield" where
  "shield_disable uc name self = self\<lparr>policies := im_swap_remove uc name (policies self)\<rparr>"

definition shield_is_enabled :: "uncased_key \<Rightarrow> str \<Rightarrow> Shield \<Rightarrow> bool" where
  "shield_is_enabled uc name self = (im_get uc name (policies self) \<noteq> None)"

definition shield_default :: "uncased_key \<Rightarrow> Shield option" where
  "shield_default uc = do {
     s \<leftarrow> shield_enable uc P_NoSniff shield_new;
     s \<leftarrow> shield_enable uc (P_Frame Frame_SameOrigin) s;
     shield_enable uc (P_Permission permission_default) s }"

definition shield_info :: Info where
  "shield_info = \<lparr>info_name = ''Shield'', info_kind = kind_bitor (kind_bitor Liftoff Response_kind) Singleton\<rparr>"

definition shield_on_liftoff :: "uncased_key \<Rightarrow> bool \<Rightarrow> bool \<Rightarrow> Shield \<Rightarrow> Shield" where
  "shield_on_liftoff uc all_tls debug_profile self =
     (if policies self = [] then self
      else let force = (all_tls \<and> \<not> debug_profile \<and> \<not> shield_is_enabled uc ''Strict-Transport-Security'' self)
           in if force then self\<lparr>force_hsts := True\<rparr> else self)"

fun shield_loop :: "uncased_key \<Rightarrow> Header list \<Rightarrow> ('b, 'io) Response \<Rightarrow> ('b, 'io) Response" where
  "shield_loop uc [] response = response"
| "shield_loop uc (header # rest) response =
     (if hm_contains uc (h_name header) (rs_headers response) then shield_loop uc rest response
      else shield_loop uc rest (snd (set_header uc header response)))"

definition shield_on_response :: "uncased_key \<Rightarrow> Shield \<Rightarrow> ('b, 'io) Response \<Rightarrow> ('b, 'io) Response" where
  "shield_on_response uc self response = shield_loop uc (map snd (policies self)) response"

section \<open>Lemmas\<close>

lemma hm_contains_replace:
  "hm_contains uc n (snd (hm_replace uc h m)) \<longleftrightarrow> uc (h_name h) = uc n \<or> hm_contains uc n m"
  by (auto simp: hm_contains_def hm_replace_def im_get_insert)

lemma hm_get_absent: "\<not> hm_contains uc n m \<Longrightarrow> hm_get uc n m = []"
  by (simp add: hm_contains_def hm_get_def)

lemma set_header_headers: "rs_headers (snd (set_header uc h r)) = snd (hm_replace uc h (rs_headers r))"
  by (simp add: set_header_def split: prod.splits)

lemma shield_loop_get:
  "hm_get uc n (rs_headers (shield_loop uc hs r)) =
     (if hm_contains uc n (rs_headers r) then hm_get uc n (rs_headers r)
      else case find (\<lambda>h. uc (h_name h) = uc n) hs of None \<Rightarrow> [] | Some h \<Rightarrow> [h_value h])"
proof (induction uc hs r rule: shield_loop.induct)
  case (2 uc h hs r)
  have eq: "hm_contains uc (h_name h) m = hm_contains uc n m" if "uc (h_name h) = uc n" for m
  proof -
    have "im_get uc (h_name h) m = im_get uc n m" using that by (induction m) auto
    then show ?thesis by (simp add: hm_contains_def)
  qed
  show ?case
    using 2 eq [of "rs_headers r"]
    by (auto simp: set_header_headers hm_contains_replace hm_get_replace hm_get_absent)
qed (simp add: hm_get_absent)

lemma shield_loop_rest: "shield_loop uc hs r = r\<lparr>rs_headers := rs_headers (shield_loop uc hs r)\<rparr>"
proof -
  have "\<exists>hm. shield_loop uc hs r = r\<lparr>rs_headers := hm\<rparr>"
  proof (induction uc hs r rule: shield_loop.induct)
    case (1 uc r)
    show ?case by (rule exI [of _ "rs_headers r"]) simp
  next
    case (2 uc h hs r)
    have "snd (set_header uc h r) = r\<lparr>rs_headers := snd (hm_replace uc h (rs_headers r))\<rparr>"
      by (simp add: set_header_def split: prod.splits)
    then show ?case using 2 by (cases "hm_contains uc (h_name h) (rs_headers r)") auto
  qed
  then obtain hm where "shield_loop uc hs r = r\<lparr>rs_headers := hm\<rparr>" ..
  then show ?thesis by simp
qed

section \<open>Properties\<close>

text \<open>
  C25. What the shield does to a response (\<open>Shield::on_response\<close>, \<open>shield.rs\<close>): a header the response already has keeps
  its values, every other header of an enabled policy is set to the value of the policy, and nothing else
  changes.  Liftoff makes no difference (\<open>Shield::on_liftoff\<close>): the flag for a default HSTS policy that it sets and
  announces is never read, so no \<open>Strict-Transport-Security\<close> header is sent on its account.
\<close>

theorem shield_response_exact:
  "hm_get uc n (rs_headers (shield_on_response uc s r)) =
     (if hm_contains uc n (rs_headers r) then hm_get uc n (rs_headers r)
      else case find (\<lambda>h. uc (h_name h) = uc n) (map snd (policies s)) of None \<Rightarrow> [] | Some h \<Rightarrow> [h_value h])
   \<and> shield_on_response uc s r = r\<lparr>rs_headers := rs_headers (shield_on_response uc s r)\<rparr>
   \<and> shield_on_response uc (shield_on_liftoff uc all_tls debug_profile s) r = shield_on_response uc s r"
proof (intro conjI)
  show "shield_on_response uc s r = r\<lparr>rs_headers := rs_headers (shield_on_response uc s r)\<rparr>"
    unfolding shield_on_response_def by (rule shield_loop_rest)
qed (simp_all add: shield_on_response_def shield_on_liftoff_def Let_def shield_loop_get del: find.simps)

lemma policy_header_name:
  "policy_header p = Some h \<Longrightarrow> (case p of P_User _ _ \<Rightarrow> True | _ \<Rightarrow> h_name h = policy_name p)"
  by (cases p rule: policy_header.cases)
    (auto simp: header_new_def no_sniff_header_def hsts_header_def permission_header_def
      elim!: expect_ct_header.elims split: if_splits Option.bind_splits)

lemma shield_enabled_after:
  assumes "im_inv uc (policies s)" and "shield_enable uc p s = Some s'"
  shows "im_inv uc (policies s')"
    and "shield_is_enabled uc n s' \<longleftrightarrow> uc (policy_name p) = uc n \<or> shield_is_enabled uc n s"
    and "shield_is_enabled uc n (shield_disable uc m s) \<longleftrightarrow> uc m \<noteq> uc n \<and> shield_is_enabled uc n s"
  using assms
  by (auto simp: shield_enable_def shield_disable_def shield_is_enabled_def im_inv_def im_keys_insert im_get_insert
      im_swap_remove_laws split: Option.bind_splits if_splits)

end
