(* ===== verification/Responders.thy ===== *)
theory Responders
  imports UriValues ResponseModel Cookies Outcomes
begin

text \<open>
  Responders: redirects (\<open>core/lib/src/response/redirect.rs\<close>), responders with a fixed status (\<open>status.rs\<close>) and flash
  messages (\<open>flash.rs\<close>), which travel to the next request in a cookie.

  A responder is a function from the request to a response or a status; what implements it is user code and a
  parameter.  A panic is \<open>None\<close>: printing an unreadable URI, or slicing a string inside a character.
\<close>

section \<open>Model: redirects\<close>

datatype Redirect = Redirect Status "Reference option"

text \<open>The argument is the result of \<open>try_into().ok()\<close>.\<close>

definition redirect_to :: "Reference option \<Rightarrow> Redirect" where
  "redirect_to uri = Redirect \<lparr>code = 303\<rparr> uri"

definition redirect_temporary :: "Reference option \<Rightarrow> Redirect" where
  "redirect_temporary uri = Redirect \<lparr>code = 307\<rparr> uri"

definition redirect_permanent :: "Reference option \<Rightarrow> Redirect" where
  "redirect_permanent uri = Redirect \<lparr>code = 308\<rparr> uri"

definition redirect_found :: "Reference option \<Rightarrow> Redirect" where
  "redirect_found uri = Redirect \<lparr>code = 302\<rparr> uri"

definition redirect_moved :: "Reference option \<Rightarrow> Redirect" where
  "redirect_moved uri = Redirect \<lparr>code = 301\<rparr> uri"

fun redirect_map_uri :: "(Reference \<Rightarrow> Reference option) \<Rightarrow> Redirect \<Rightarrow> Redirect" where
  "redirect_map_uri f (Redirect s uri) = Redirect s (Option.bind uri f)"

fun redirect_respond_to :: "uncased_key \<Rightarrow> Redirect \<Rightarrow> (('b, 'io) Response, Status) result option" where
  "redirect_respond_to uc (Redirect s uri) =
     (case uri of
        Some uri \<Rightarrow> do {
          location \<leftarrow> reference_display uri;
          Some (Ok (fst (builder_finalize (builder_raw_header uc ''Location'' location (builder_status s build))))) }
      | None \<Rightarrow> Some (Err Status_InternalServerError))"

section \<open>Model: responders with a status\<close>

record 'r Created =
  cr_location :: str
  cr_responder :: "'r option"
  cr_hash :: "64 word option"

definition created_new :: "str \<Rightarrow> 'r Created" where
  "created_new location = \<lparr>cr_location = location, cr_responder = None, cr_hash = None\<rparr>"

definition created_body :: "'r \<Rightarrow> 'r Created \<Rightarrow> 'r Created" where
  "created_body responder self = self\<lparr>cr_responder := Some responder\<rparr>"

definition created_tagged_body :: "('r \<Rightarrow> 64 word) \<Rightarrow> 'r \<Rightarrow> 'r Created \<Rightarrow> 'r Created" where
  "created_tagged_body hash responder self = self\<lparr>cr_responder := Some responder, cr_hash := Some (hash responder)\<rparr>"

definition created_respond_to ::
  "uncased_key \<Rightarrow> ('r \<Rightarrow> (('b, 'io) Response, Status) result) \<Rightarrow> 'r Created \<Rightarrow> (('b, 'io) Response, Status) result" where
  "created_respond_to uc respond self =
     (case (case cr_responder self of
              None \<Rightarrow> Ok build
            | Some r \<Rightarrow> (case respond r of Ok x \<Rightarrow> Ok (builder_merge uc x build) | Err s \<Rightarrow> Err s)) of
        Err s \<Rightarrow> Err s
      | Ok b \<Rightarrow>
          let b = (case cr_hash self of
                     None \<Rightarrow> b
                   | Some h \<Rightarrow> builder_raw_header uc ''ETag'' ([CHR 0x22] @ nat_to_string (unat h) @ [CHR 0x22]) b);
              b = builder_raw_header uc ''Location'' (cr_location self) (builder_status \<lparr>code = 201\<rparr> b)
          in Ok (fst (builder_finalize b)))"

definition no_content_respond_to :: "(('b, 'io) Response, Status) result" where
  "no_content_respond_to = Ok (fst (builder_finalize (builder_status Status_NoContent build)))"

definition custom_respond_to ::
  "('r \<Rightarrow> (('b, 'io) Response, Status) result) \<Rightarrow> Status \<Rightarrow> 'r \<Rightarrow> (('b, 'io) Response, Status) result" where
  "custom_respond_to respond s r =
     (case respond r of
        Err e \<Rightarrow> Err e
      | Ok x \<Rightarrow> Ok (fst (builder_finalize (builder_status s (build_from x)))))"

text \<open>The types that \<open>status_response!\<close> declares.\<close>

datatype status_responder = Accepted | BadRequest | Unauthorized | Forbidden | NotFound | Conflict

fun status_of :: "status_responder \<Rightarrow> Status" where
  "status_of Accepted = \<lparr>code = 202\<rparr>"
| "status_of BadRequest = \<lparr>code = 400\<rparr>"
| "status_of Unauthorized = \<lparr>code = 401\<rparr>"
| "status_of Forbidden = \<lparr>code = 403\<rparr>"
| "status_of NotFound = \<lparr>code = 404\<rparr>"
| "status_of Conflict = \<lparr>code = 409\<rparr>"

definition status_respond_to ::
  "('r \<Rightarrow> (('b, 'io) Response, Status) result) \<Rightarrow> status_responder \<Rightarrow> 'r \<Rightarrow> (('b, 'io) Response, Status) result" where
  "status_respond_to respond t r = custom_respond_to respond (status_of t) r"

section \<open>Model: responders of the library\<close>

text \<open>\<open>mk\<close> makes the reader of the bytes (\<open>Cursor::new\<close>).\<close>

definition text_respond_to :: "uncased_key \<Rightarrow> (str \<Rightarrow> 'b) \<Rightarrow> MediaType \<Rightarrow> str \<Rightarrow> (('b, 'io) Response, Status) result" where
  "text_respond_to uc mk mt s =
     (let (n, v) = content_type_header (ContentType mt)
      in Ok (fst (builder_finalize (builder_sized_body (Some (of_nat (length s))) (mk s)
           (builder_header uc (header_new n v) build)))))"

definition str_respond_to :: "uncased_key \<Rightarrow> (str \<Rightarrow> 'b) \<Rightarrow> str \<Rightarrow> (('b, 'io) Response, Status) result" where
  "str_respond_to uc mk s = text_respond_to uc mk MT_Plain s"

definition bytes_respond_to :: "uncased_key \<Rightarrow> (str \<Rightarrow> 'b) \<Rightarrow> str \<Rightarrow> (('b, 'io) Response, Status) result" where
  "bytes_respond_to uc mk s = text_respond_to uc mk MT_Binary s"

definition raw_file_respond_to :: "'b \<Rightarrow> (('b, 'io) Response, Status) result" where
  "raw_file_respond_to file = Ok (fst (builder_finalize (builder_sized_body None file build)))"

definition unit_respond_to :: "(('b, 'io) Response, Status) result" where
  "unit_respond_to = Ok response_new"

fun option_respond_to ::
  "('r \<Rightarrow> (('b, 'io) Response, Status) result) \<Rightarrow> 'r option \<Rightarrow> (('b, 'io) Response, Status) result" where
  "option_respond_to respond (Some r) = respond r"
| "option_respond_to respond None = Err Status_NotFound"

fun result_respond_to ::
  "('r \<Rightarrow> (('b, 'io) Response, Status) result) \<Rightarrow> ('e \<Rightarrow> (('b, 'io) Response, Status) result) \<Rightarrow>
   ('r, 'e) result \<Rightarrow> (('b, 'io) Response, Status) result" where
  "result_respond_to respond respond_err (Ok r) = respond r"
| "result_respond_to respond respond_err (Err e) = respond_err e"

definition io_error_respond_to :: "(('b, 'io) Response, Status) result" where
  "io_error_respond_to = Err Status_InternalServerError"

definition status_self_respond_to :: "Status \<Rightarrow> (('b, 'io) Response, Status) result" where
  "status_self_respond_to self =
     (case status_class self of
        ClientError \<Rightarrow> Err self
      | ServerError \<Rightarrow> Err self
      | StatusClass.Success \<Rightarrow> if code self < 206 then Ok (fst (builder_finalize (builder_status self build)))
          else Err Status_InternalServerError
      | Informational \<Rightarrow> if code self = 100 then Ok (fst (builder_finalize (builder_status self build)))
          else Err Status_InternalServerError
      | _ \<Rightarrow> Err Status_InternalServerError)"

section \<open>Model: flash messages\<close>

record 'i Flash =
  fl_kind :: str
  fl_message :: str
  fl_consumed :: bool
  fl_inner :: 'i

definition FLASH_COOKIE_NAME :: str where
  "FLASH_COOKIE_NAME = ''_flash''"

abbreviation FLASH_COOKIE_DELIM :: byte where "FLASH_COOKIE_DELIM \<equiv> CHR '':''"

definition flash_new :: "'i \<Rightarrow> str \<Rightarrow> str \<Rightarrow> 'i Flash" where
  "flash_new res kind message = \<lparr>fl_kind = kind, fl_message = message, fl_consumed = False, fl_inner = res\<rparr>"

definition flash_success :: "'i \<Rightarrow> str \<Rightarrow> 'i Flash" where
  "flash_success responder message = flash_new responder ''success'' message"

definition flash_warning :: "'i \<Rightarrow> str \<Rightarrow> 'i Flash" where
  "flash_warning responder message = flash_new responder ''warning'' message"

definition flash_error :: "'i \<Rightarrow> str \<Rightarrow> 'i Flash" where
  "flash_error responder message = flash_new responder ''error'' message"

definition flash_cookie :: "'i Flash \<Rightarrow> Cookie" where
  "flash_cookie self =
     \<lparr>ck_name = FLASH_COOKIE_NAME,
      ck_value = nat_to_string (length (fl_kind self)) @ [FLASH_COOKIE_DELIM] @ fl_kind self @ fl_message self,
      ck_path = None, ck_same_site = None, ck_secure = None, ck_max_age = Some 300\<rparr>"

definition flash_respond_to ::
  "('i \<Rightarrow> 'k CookieJar \<Rightarrow> 'resp \<times> 'k CookieJar) \<Rightarrow> 'i Flash \<Rightarrow> 'k CookieJar \<Rightarrow> 'resp \<times> 'k CookieJar" where
  "flash_respond_to respond self jar = respond (fl_inner self) (jar_add (flash_cookie self) jar)"

text \<open>\<open>str::parse::<usize>\<close>: an optional plus sign and decimal digits of a value that fits into 64 bits.\<close>

definition parse_usize :: "str \<Rightarrow> nat option" where
  "parse_usize s =
     (let digits = (case s of c # r \<Rightarrow> if c = CHR ''+'' then r else s | [] \<Rightarrow> s)
      in if digits \<noteq> [] \<and> list_all (\<lambda>c. 48 \<le> (of_char c :: nat) \<and> of_char c \<le> (57 :: nat)) digits
           \<and> digits_value digits < 2 ^ 64
         then Some (digits_value digits) else None)"

text \<open>The closure of \<open>from_request\<close>: the kind and the message, an error, or a panic.\<close>

definition flash_parse :: "str \<Rightarrow> (str \<times> str, unit) result option" where
  "flash_parse content =
     (case split_once FLASH_COOKIE_DELIM content of
        None \<Rightarrow> Some (Err ())
      | Some (len_str, kv) \<Rightarrow>
          (case parse_usize len_str of
             Some i \<Rightarrow>
               if i \<le> length kv then do {
                 kind \<leftarrow> str_slice kv 0 i;
                 message \<leftarrow> str_slice kv i (length kv);
                 Some (Ok (kind, message)) }
               else Some (Err ())
           | None \<Rightarrow> Some (Err ())))"

definition flash_from_request ::
  "'k cookie_crate \<Rightarrow> 'k CookieJar \<Rightarrow> (unit Flash, Status \<times> unit, Status) Outcome option" where
  "flash_from_request cc jar =
     (case jar_get cc FLASH_COOKIE_NAME jar of
        None \<Rightarrow> Some (request_or_error (Err ()) \<lparr>code = 400\<rparr>)
      | Some cookie \<Rightarrow> do {
          r \<leftarrow> flash_parse (ck_value cookie);
          Some (request_or_error (case r of Ok (k, m) \<Rightarrow> Ok (flash_new () k m) | Err e \<Rightarrow> Err e) \<lparr>code = 400\<rparr>) })"

text \<open>\<open>self.inner.remove(FLASH_COOKIE_NAME)\<close> on the first access; a message holds a reference to the jar.\<close>

definition clear_cookie_if_needed :: "unit Flash \<times> 'k CookieJar \<Rightarrow> unit Flash \<times> 'k CookieJar" where
  "clear_cookie_if_needed st =
     (let (self, jar) = st
      in (self\<lparr>fl_consumed := True\<rparr>,
          if \<not> fl_consumed self
          then jar_remove \<lparr>ck_name = FLASH_COOKIE_NAME, ck_value = [], ck_path = None, ck_same_site = None,
                           ck_secure = None, ck_max_age = None\<rparr> jar
          else jar))"

definition flash_kind :: "unit Flash \<times> 'k CookieJar \<Rightarrow> str \<times> unit Flash \<times> 'k CookieJar" where
  "flash_kind st = (let st = clear_cookie_if_needed st in (fl_kind (fst st), st))"

definition flash_message :: "unit Flash \<times> 'k CookieJar \<Rightarrow> str \<times> unit Flash \<times> 'k CookieJar" where
  "flash_message st = (let st = clear_cookie_if_needed st in (fl_message (fst st), st))"

section \<open>Lemmas\<close>

lemma parse_usize_nat: "n < 2 ^ 64 \<Longrightarrow> parse_usize (nat_to_string n) = Some n"
proof -
  assume "n < 2 ^ 64"
  moreover have "hd (nat_to_string n) \<noteq> CHR ''+''"
    using nat_to_string_value [of n] nat_to_string_nonempty [of n] by (cases "nat_to_string n") auto
  ultimately show ?thesis
    using nat_to_string_value [of n] nat_to_string_nonempty [of n]
    by (cases "nat_to_string n") (auto simp: parse_usize_def)
qed

lemma nat_to_string_no_delim: "FLASH_COOKIE_DELIM \<notin> set (nat_to_string n)"
  using nat_to_string_value [of n] by (auto simp: list_all_iff)

text \<open>The boundary between two texts: the second is empty or begins with the first byte of a character.\<close>

definition starts_char :: "str \<Rightarrow> bool" where
  "starts_char s = (s = [] \<or> \<not> (128 \<le> (of_char (hd s) :: nat) \<and> (of_char (hd s) :: nat) < 192))"

lemma boundary_append: "is_char_boundary (a @ b) (length a) \<longleftrightarrow> a = [] \<or> starts_char b"
  by (cases b) (auto simp: is_char_boundary_def starts_char_def nth_append)

section \<open>Properties\<close>

text \<open>
  C26. A flash message survives the cookie (\<open>Flash::cookie\<close>, \<open>FromRequest for FlashMessage\<close>, \<open>flash.rs\<close>): the cookie
  pending after the response, when it comes back with the next request, yields the same kind and message,
  whatever characters they contain; reading the message then removes the cookie once, however often it is read.
\<close>

theorem flash_round_trip:
  assumes "length (fl_kind f) < 2 ^ 64" and "starts_char (fl_message f)"
    and "cc_get cc FLASH_COOKIE_NAME (cj_jar jar') = get_pending cc FLASH_COOKIE_NAME (jar_add (flash_cookie f) jar)"
  shows "\<exists>m. flash_from_request cc jar' = Some (Success m) \<and> fl_kind m = fl_kind f \<and> fl_message m = fl_message f
    \<and> (case flash_kind (m, jar') of (k, st) \<Rightarrow> k = fl_kind f \<and> get_pending cc FLASH_COOKIE_NAME (snd st) = None
        \<and> flash_message st = (fl_message f, st))"
proof -
  let ?kv = "fl_kind f @ fl_message f"
  let ?v = "nat_to_string (length (fl_kind f)) @ FLASH_COOKIE_DELIM # ?kv"
  have "split_once FLASH_COOKIE_DELIM ?v = Some (nat_to_string (length (fl_kind f)), ?kv)"
    by (simp add: split_once_Some nat_to_string_no_delim)
  moreover have "is_char_boundary ?kv (length (fl_kind f))" using assms(2) by (simp add: boundary_append)
  moreover have "is_char_boundary ?kv 0" "is_char_boundary ?kv (length ?kv)" by (simp_all add: is_char_boundary_def)
  ultimately have parse: "flash_parse ?v = Some (Ok (fl_kind f, fl_message f))"
    using assms(1) by (simp add: flash_parse_def parse_usize_nat str_slice_def)
  have "jar_get cc FLASH_COOKIE_NAME jar' = Some (set_defaults jar (flash_cookie f))"
    using assms(3) by (simp add: jar_get_def get_pending_def jar_add_def flash_cookie_def)
  moreover have "ck_value (set_defaults jar (flash_cookie f)) = ?v" by (simp add: set_defaults_def flash_cookie_def Let_def)
  ultimately have "flash_from_request cc jar' = Some (Success (flash_new () (fl_kind f) (fl_message f)))"
    by (simp add: flash_from_request_def parse)
  then show ?thesis
    by (simp add: flash_new_def flash_kind_def flash_message_def clear_cookie_if_needed_def get_pending_def jar_remove_def
        Let_def)
qed

definition list_crate :: "Cookie list cookie_crate" where
  "list_crate = \<lparr>cc_new = [], cc_get = (\<lambda>n. find (\<lambda>c. ck_name c = n)), cc_add = (\<lambda>c cs. c # cs), cc_private_add = (\<lambda>c cs. c # cs),
     cc_remove = (\<lambda>c. filter (\<lambda>d. ck_name d \<noteq> ck_name c)), cc_make_removal = (\<lambda>c. c\<lparr>ck_value := []\<rparr>), cc_delta = id,
     cc_encoded = ck_value\<rparr>"

theorem flash_round_trip_witness:
  "\<exists>m. flash_from_request list_crate (jar_new [set_defaults (jar_new ([] :: Cookie list) False) (flash_cookie (flash_success () ''a:b''))] False)
     = Some (Success m) \<and> fl_message m = ''a:b''"
proof -
  let ?f = "flash_success () ''a:b''"
  let ?jar = "jar_new [set_defaults (jar_new ([] :: Cookie list) False) (flash_cookie ?f)] False"
  have "length (fl_kind ?f) < 2 ^ 64" "starts_char (fl_message ?f)" and m: "fl_message ?f = ''a:b''"
    by (simp_all add: flash_success_def flash_new_def starts_char_def)
  moreover have "cc_get list_crate FLASH_COOKIE_NAME (cj_jar ?jar)
      = get_pending list_crate FLASH_COOKIE_NAME (jar_add (flash_cookie ?f) (jar_new [] False))"
    by (simp add: list_crate_def jar_new_def get_pending_def jar_add_def flash_cookie_def)
  ultimately have "\<exists>m. flash_from_request list_crate ?jar = Some (Success m) \<and> fl_message m = fl_message ?f"
    using flash_round_trip by blast
  then show ?thesis unfolding m .
qed

text \<open>A cookie whose length points into a character makes the guard panic.\<close>

lemma flash_parse_panics: "flash_parse (''1:'' @ [CHR 0xC3, CHR 0xA9]) = None"
  by (simp add: flash_parse_def parse_usize_def digits_value_def str_slice_def is_char_boundary_def)

text \<open>
  Redirects (\<open>Responder for Redirect\<close>, \<open>redirect.rs\<close>): a redirect to a readable URI answers with its status, the text
  of the URI as the only header, and no body; one without a URI is an internal error.
\<close>

theorem redirect_response:
  "redirect_respond_to uc (Redirect s u) =
     (case u of
        None \<Rightarrow> Some (Err Status_InternalServerError)
      | Some uri \<Rightarrow> map_option (\<lambda>loc. Ok (response_new\<lparr>rs_status := Some s, rs_headers := [(''Location'', [loc])]\<rparr>))
          (reference_display uri))"
  by (cases u) (auto simp: builder_finalize_def builder_raw_header_def builder_status_def build_def build_from_def
      set_status_def set_raw_header_def set_header_def hm_replace_def header_new_def response_new_def hm_new_def
      split: Option.bind_splits option.splits)

end
