(* ===== verification/StaticFiles.thy ===== *)
theory StaticFiles
  imports RequestModel Responders
begin

text \<open>
  Static files (\<open>core/lib/src/fs/\<close>): sanitized file names (\<open>file_name.rs\<close>), rewrites (\<open>rewrite.rs\<close>) and the file
  server (\<open>server.rs\<close>).

  A path is the list of its components, the first of which is \<open>/\<close> in an absolute path.  The file system is a
  record of the queries the code makes.  File names are as on Unix: the code for other systems is compiled out
  there.  A rewriter returns \<open>None\<close> for a panic.
\<close>

section \<open>Model: file names\<close>

definition BAD_CHARS :: "byte list" where
  "BAD_CHARS = [CHR ''.'', slash, CHR 0x5C, CHR ''<'', CHR ''>'', CHR ''|'', CHR '':'', CHR ''('', CHR '')'', amp,
     CHR '';'', CHR ''#'', CHR ''?'', CHR ''*'']"

text \<open>\<open>bad_char\<close>: a listed character, or a control character: below 0x20, 0x7F, or U+0080 to U+009F in two bytes.\<close>

definition bad_byte :: "byte \<Rightarrow> bool" where
  "bad_byte c = (c \<in> set BAD_CHARS \<or> (of_char c :: nat) < 32 \<or> (of_char c :: nat) = 127)"

definition c1_control :: "byte \<Rightarrow> byte \<Rightarrow> bool" where
  "c1_control a b = (a = CHR 0xC2 \<and> 128 \<le> (of_char b :: nat) \<and> (of_char b :: nat) < 160)"

fun split_bad :: "str \<Rightarrow> str list" where
  "split_bad [] = [[]]"
| "split_bad [a] = (if bad_byte a then [[], []] else [[a]])"
| "split_bad (a # b # r) =
     (if bad_byte a then [] # split_bad (b # r)
      else if c1_control a b then [] # split_bad r
      else (case split_bad (b # r) of [] \<Rightarrow> [[a]] | x # xs \<Rightarrow> (a # x) # xs))"

text \<open>\<open>Path::file_name\<close>: the last component, ignoring empty ones and dots, unless it is the parent directory.\<close>

definition path_file_name :: "str \<Rightarrow> str option" where
  "path_file_name s =
     (case rev (filter (\<lambda>c. c \<noteq> [] \<and> c \<noteq> ''.'') (split slash s)) of
        [] \<Rightarrow> None
      | c # _ \<Rightarrow> if c = ''..'' then None else Some c)"

definition bad_name :: "str \<Rightarrow> bool" where
  "bad_name n = False"

definition file_name_as_str :: "str \<Rightarrow> str option" where
  "file_name_as_str self =
     (case Option.bind (path_file_name self) (\<lambda>n. find (\<lambda>s. s \<noteq> []) (split_bad n)) of
        None \<Rightarrow> None
      | Some file_name \<Rightarrow> if file_name = [] \<or> bad_name file_name then None else Some file_name)"

definition file_name_is_safe :: "str \<Rightarrow> bool" where
  "file_name_is_safe self = (case file_name_as_str self of None \<Rightarrow> False | Some s \<Rightarrow> s = self)"

section \<open>Model: rewrites\<close>

record File =
  fi_path :: "str list"
  fi_headers :: HeaderMap

datatype Rewrite = RwFile File | RwRedirect Redirect

type_synonym 'h Rewriter = "Rewrite option \<Rightarrow> 'h Request \<Rightarrow> Rewrite option option"

record 'b file_system =
  fs_exists :: "str list \<Rightarrow> bool"
  fs_is_dir :: "str list \<Rightarrow> bool"
  fs_is_file :: "str list \<Rightarrow> bool"
  fs_open :: "str list \<Rightarrow> 'b option"
  fs_metadata :: "'b \<Rightarrow> (bool \<times> usize) option"

definition path_join :: "str list \<Rightarrow> str list \<Rightarrow> str list" where
  "path_join d p = (if p \<noteq> [] \<and> hd p = ''/'' then p else d @ p)"

definition file_new :: "str list \<Rightarrow> File" where
  "file_new path = \<lparr>fi_path = path, fi_headers = hm_new\<rparr>"

definition file_checked :: "'b file_system \<Rightarrow> str list \<Rightarrow> File option" where
  "file_checked fs path = (if \<not> fs_exists fs path then None else Some (file_new path))"

definition file_map_path :: "(str list \<Rightarrow> str list) \<Rightarrow> File \<Rightarrow> File" where
  "file_map_path f self = self\<lparr>fi_path := f (fi_path self)\<rparr>"

definition is_hidden :: "File \<Rightarrow> bool" where
  "is_hidden self = list_ex (\<lambda>s. starts_with s ''.'') (fi_path self)"

definition is_visible :: "File \<Rightarrow> bool" where
  "is_visible self = (\<not> is_hidden self)"

definition prefix_rewrite :: "str list \<Rightarrow> 'h Rewriter" where
  "prefix_rewrite d opt req =
     Some (map_option (\<lambda>r. case r of
         RwFile f \<Rightarrow> RwFile (file_map_path (path_join d) f)
       | RwRedirect r \<Rightarrow> RwRedirect r) opt)"

definition path_rewrite :: "str list \<Rightarrow> 'h Rewriter" where
  "path_rewrite p opt req = Some (Some (RwFile (file_new p)))"

definition trailing_dirs :: "'b file_system \<Rightarrow> 'h Rewriter" where
  "trailing_dirs fs opt req =
     (case opt of
        Some (RwFile f) \<Rightarrow>
          if \<not> ends_with (o_path (rq_uri req)) ''/'' \<and> fs_is_dir fs (fi_path f)
          then (case map_path (\<lambda>p. p @ ''/'') (rq_uri req) of
                  None \<Rightarrow> None
                | Some uri \<Rightarrow> Some (Some (RwRedirect (redirect_temporary
                    (Some (reference_from_origin (raw_origin_new (o_path uri) (o_query uri))))))))
          else Some opt
      | _ \<Rightarrow> Some opt)"

definition dir_index :: "'b file_system \<Rightarrow> str list \<Rightarrow> bool \<Rightarrow> 'h Rewriter" where
  "dir_index fs path check opt req =
     Some (case opt of
        None \<Rightarrow> None
      | Some (RwFile f) \<Rightarrow>
          if fs_is_dir fs (fi_path f) then
            let candidate = path_join (fi_path f) path
            in if check \<and> \<not> fs_is_file fs candidate then Some (RwFile f)
               else Some (RwFile (file_map_path (\<lambda>_. candidate) f))
          else Some (RwFile f)
      | Some r \<Rightarrow> Some r)"

definition rewrite_const :: "Rewrite \<Rightarrow> 'h Rewriter" where
  "rewrite_const r opt req = Some (Some r)"

definition filter_rewrite :: "(File \<Rightarrow> 'h Request \<Rightarrow> bool) \<Rightarrow> 'h Rewriter" where
  "filter_rewrite p opt req =
     Some (Option.bind opt (\<lambda>r. case r of RwFile f \<Rightarrow> if p f req then Some (RwFile f) else None | _ \<Rightarrow> None))"

definition map_rewrite :: "(File \<Rightarrow> 'h Request \<Rightarrow> Rewrite) \<Rightarrow> 'h Rewriter" where
  "map_rewrite g opt req =
     Some (map_option (\<lambda>r. case r of RwFile f \<Rightarrow> g f req | RwRedirect r \<Rightarrow> RwRedirect r) opt)"

section \<open>Model: the file server\<close>

record 'h FileServer =
  sv_rewrites :: "'h Rewriter list"
  sv_rank :: int

definition server_identity :: "'h FileServer" where
  "server_identity = \<lparr>sv_rewrites = [], sv_rank = 10\<rparr>"

definition server_rank :: "int \<Rightarrow> 'h FileServer \<Rightarrow> 'h FileServer" where
  "server_rank rank self = self\<lparr>sv_rank := rank\<rparr>"

definition server_rewrite :: "'h Rewriter \<Rightarrow> 'h FileServer \<Rightarrow> 'h FileServer" where
  "server_rewrite r self = self\<lparr>sv_rewrites := sv_rewrites self @ [r]\<rparr>"

definition server_filter :: "(File \<Rightarrow> 'h Request \<Rightarrow> bool) \<Rightarrow> 'h FileServer \<Rightarrow> 'h FileServer" where
  "server_filter f self = server_rewrite (filter_rewrite f) self"

definition server_map :: "(File \<Rightarrow> 'h Request \<Rightarrow> Rewrite) \<Rightarrow> 'h FileServer \<Rightarrow> 'h FileServer" where
  "server_map f self = server_rewrite (map_rewrite f) self"

definition prefix_checked :: "'b file_system \<Rightarrow> str list \<Rightarrow> 'h Rewriter option" where
  "prefix_checked fs path = (if \<not> fs_is_dir fs path then None else Some (prefix_rewrite path))"

definition server_without_index :: "'b file_system \<Rightarrow> str list \<Rightarrow> 'h FileServer option" where
  "server_without_index fs path = do {
     pre \<leftarrow> prefix_checked fs path;
     Some (server_rewrite (trailing_dirs fs) (server_rewrite pre
       (server_filter (\<lambda>f _. is_visible f) server_identity))) }"

definition server_new :: "'b file_system \<Rightarrow> str list \<Rightarrow> 'h FileServer option" where
  "server_new fs path = do {
     pre \<leftarrow> prefix_checked fs path;
     Some (server_rewrite (dir_index fs [''index.html''] False) (server_rewrite (trailing_dirs fs) (server_rewrite pre
       (server_filter (\<lambda>f _. is_visible f) server_identity)))) }"

definition server_routes :: "ext \<Rightarrow> 'h FileServer \<Rightarrow> ('h FileServer Route list, uri_error) result" where
  "server_routes x server =
     (case ranked x (Some (sv_rank server)) (Some Get) ''/<path..>'' server of
        Err e \<Rightarrow> Err e
      | Ok route \<Rightarrow> Ok [route\<lparr>rt_name := Some ''FileServer''\<rparr>])"

text \<open>\<open>Path::extension\<close>: what follows the last dot of the last component, unless the dot comes first.\<close>

definition path_extension :: "str list \<Rightarrow> str option" where
  "path_extension p =
     (if p = [] \<or> last p = ''..'' \<or> last p = ''/'' then None
      else case split_once (CHR ''.'') (rev (last p)) of
             None \<Rightarrow> None
           | Some (ext, stem) \<Rightarrow> if stem = [] then None else Some (rev ext))"

definition named_file_respond_to ::
  "uncased_key \<Rightarrow> 'b \<Rightarrow> usize \<Rightarrow> str list \<Rightarrow> HeaderMap \<Rightarrow> ('b, 'io) Response" where
  "named_file_respond_to uc file len path headers =
     (let response = set_header_map headers response_new;
          response = (if \<not> hm_contains uc ''Content-Type'' (rs_headers response)
                      then (case Option.bind (path_extension path) (ct_from_extension uc) of
                              None \<Rightarrow> response
                            | Some ct \<Rightarrow>
                                let (n, v) = content_type_header ct
                                in snd (set_header uc (header_new n v) response))
                      else response)
      in set_sized_body (Some len) file response)"

definition file_open :: "'b file_system \<Rightarrow> File \<Rightarrow> ('b \<times> usize) option" where
  "file_open fs self = do {
     file \<leftarrow> fs_open fs (fi_path self);
     (is_dir, len) \<leftarrow> fs_metadata fs file;
     if is_dir then None else Some (file, len) }"

fun run_rewrites :: "'h Rewriter list \<Rightarrow> 'h Request \<Rightarrow> Rewrite option \<Rightarrow> Rewrite option option" where
  "run_rewrites [] req response = Some response"
| "run_rewrites (rw # rws) req response = do { response \<leftarrow> rw response req; run_rewrites rws req response }"

definition request_path :: "ext \<Rightarrow> bool \<Rightarrow> 'h Request \<Rightarrow> str list option" where
  "request_path x windows req =
     (case to_path_buf windows True (routed_segments x 0 req) of Ok p \<Rightarrow> Some p | Err _ \<Rightarrow> None)"

definition server_handle ::
  "ext \<Rightarrow> 'b file_system \<Rightarrow> bool \<Rightarrow> 'h FileServer \<Rightarrow> 'h Request \<Rightarrow> 'd \<Rightarrow>
   (('b, 'io) Response, Status, 'd \<times> Status) Outcome option" where
  "server_handle x fs windows self req data = do {
     response \<leftarrow> run_rewrites (sv_rewrites self) req (map_option (\<lambda>p. RwFile (file_new p)) (request_path x windows req));
     (case response of
        Some (RwFile f) \<Rightarrow>
          Some (route_or_forward
            (case file_open fs f of
               Some (file, len) \<Rightarrow> Ok (named_file_respond_to (x_uc x) file len (fi_path f) (fi_headers f))
             | None \<Rightarrow> io_error_respond_to) (data, Status_NotFound))
      | Some (RwRedirect r) \<Rightarrow>
          map_option (\<lambda>outcome. route_or_forward outcome (data, Status_InternalServerError)) (redirect_respond_to (x_uc x) r)
      | None \<Rightarrow> Some (Forward (data, Status_NotFound))) }"

section \<open>Lemmas: file names\<close>

text \<open>Text without any bad character.\<close>

fun clean :: "str \<Rightarrow> bool" where
  "clean [] = True"
| "clean (a # r) = (\<not> bad_byte a \<and> (case r of [] \<Rightarrow> True | b # _ \<Rightarrow> \<not> c1_control a b) \<and> clean r)"

lemma split_bad_ne [simp]: "split_bad s \<noteq> []"
  by (induction s rule: split_bad.induct) (auto split: list.splits)

lemma split_bad_prefix: "prefix (hd (split_bad s)) s"
  by (induction s rule: split_bad.induct) (auto split: list.splits)

lemma split_bad_clean: "x \<in> set (split_bad s) \<Longrightarrow> clean x \<and> sublist x s"
proof (induction s arbitrary: x rule: split_bad.induct)
  case (2 a)
  then show ?case by (auto split: if_splits)
next
  case (3 a b r)
  show ?case
  proof (cases "bad_byte a \<or> c1_control a b")
    case True
    then show ?thesis using 3 by (auto simp: sublist_Cons_right split: if_splits)
  next
    case False
    obtain y ys where y: "split_bad (b # r) = y # ys" by (cases "split_bad (b # r)") auto
    then have pre: "prefix y (b # r)" using split_bad_prefix [of "b # r"] by simp
    then have "clean (a # y)" using 3(3) False y by (auto simp: prefix_Cons split: list.splits)
    moreover have "sublist (a # y) (a # b # r)" using pre by (simp add: prefix_imp_sublist)
    ultimately show ?thesis using 3(3,4) False y by (auto simp: sublist_Cons_right)
  qed
qed simp

lemma split_hd_prefix: "prefix (hd (split c s)) s"
  by (induction s) (auto split: list.splits)

lemma split_sublist: "p \<in> set (split c s) \<Longrightarrow> sublist p s"
proof (induction s arbitrary: p)
  case (Cons a s)
  obtain y ys where y: "split c s = y # ys" by (cases "split c s") auto
  have pre: "prefix y s" using split_hd_prefix [of c s] y by simp
  show ?case using Cons y pre by (auto simp: sublist_Cons_right prefix_imp_sublist split: if_splits)
qed simp

lemma clean_split: "clean s \<Longrightarrow> split_bad s = [s]"
  by (induction s rule: split_bad.induct) auto

lemma clean_file_name: "clean s \<Longrightarrow> s \<noteq> [] \<Longrightarrow> path_file_name s = Some s"
proof -
  assume c: "clean s" and ne: "s \<noteq> []"
  have good: "\<not> bad_byte x" if "x \<in> set s" for x using c that by (induction s) auto
  then have "slash \<notin> set s" "CHR ''.'' \<notin> set s" by (auto simp: bad_byte_def BAD_CHARS_def)
  then show ?thesis using ne by (auto simp: path_file_name_def split_no_sep)
qed

text \<open>
  Sanitized file names (\<open>FileName::as_str\<close>, \<open>FileName::is_safe\<close>, \<open>file_name.rs\<close>): the name that is returned is a
  nonempty part of the one the client sent without dots, slashes, characters that shells treat specially
  and control characters; and a name is safe as it is exactly when it is nonempty and has no such character.
\<close>

theorem file_name_sanitized:
  "(case file_name_as_str s of None \<Rightarrow> True | Some n \<Rightarrow> n \<noteq> [] \<and> clean n \<and> sublist n s)
   \<and> (file_name_is_safe s \<longleftrightarrow> s \<noteq> [] \<and> clean s)"
proof -
  have as_str: "n \<noteq> [] \<and> clean n \<and> sublist n s" if as: "file_name_as_str s = Some n" for n
  proof -
    obtain f where f: "path_file_name s = Some f" "find (\<lambda>s. s \<noteq> []) (split_bad f) = Some n" "n \<noteq> []"
      using as by (auto simp: file_name_as_str_def split: option.splits if_splits Option.bind_splits)
    have "n \<in> set (split_bad f)" using f(2) by (auto simp: find_Some_iff)
    then have "clean n" "sublist n f" using split_bad_clean by auto
    moreover have "f \<in> set (split slash s)"
    proof -
      have "f \<in> set (rev (filter (\<lambda>c. c \<noteq> [] \<and> c \<noteq> ''.'') (split slash s)))"
        using f(1) by (auto simp: path_file_name_def split: list.splits if_splits simp del: set_rev set_filter)
      then show ?thesis by simp
    qed
    then have "sublist f s" by (rule split_sublist)
    ultimately show ?thesis using f(3) sublist_order.order_trans by blast
  qed
  have "file_name_is_safe s" if "s \<noteq> []" "clean s"
    using clean_file_name [OF that(2,1)] clean_split [OF that(2)] that by (simp add: file_name_is_safe_def file_name_as_str_def bad_name_def)
  moreover have "s \<noteq> [] \<and> clean s" if "file_name_is_safe s" using that as_str by (auto simp: file_name_is_safe_def split: option.splits)
  ultimately show ?thesis using as_str by (auto split: option.splits)
qed

section \<open>Lemmas: the file server\<close>

text \<open>The paths beneath a directory that a request can name: no hidden component, no way up.\<close>

definition beneath :: "bool \<Rightarrow> str list \<Rightarrow> str list \<Rightarrow> bool" where
  "beneath windows d p = (\<exists>cs. p = d @ cs \<and> list_all (safe_component windows False) cs)"

text \<open>Two file systems that agree on what is beneath a directory.\<close>

definition agree :: "bool \<Rightarrow> str list \<Rightarrow> 'b file_system \<Rightarrow> 'b file_system \<Rightarrow> bool" where
  "agree windows d fs fs' =
     ((\<forall>p. beneath windows d p \<longrightarrow> fs_is_dir fs p = fs_is_dir fs' p \<and> fs_is_file fs p = fs_is_file fs' p
         \<and> fs_open fs p = fs_open fs' p)
      \<and> fs_metadata fs = fs_metadata fs')"

lemma visible_request_path:
  assumes "request_path x windows req = Some p" and "is_visible (file_new p)"
  shows "list_all (safe_component windows False) p" and "path_join d p = d @ p"
proof -
  have "to_path_buf_loop windows True (segments_items (routed_segments x 0 req)) [] = Ok p"
    using assms(1) by (auto simp: request_path_def to_path_buf_def split: sum.splits)
  from to_path_buf_loop_safe [OF this] have safe: "list_all (safe_component windows True) p" by simp
  moreover have "\<forall>c \<in> set p. \<not> starts_with c ''.''"
    using assms(2) by (simp add: is_visible_def is_hidden_def file_new_def list_ex_iff)
  ultimately show "list_all (safe_component windows False) p"
    by (auto simp: list_all_iff safe_component_def starts_with_singleton)
  show "path_join d p = d @ p" using safe by (cases p) (auto simp: path_join_def safe_component_def)
qed

lemma server_new_rewrites:
  "server_new fs d = Some sv \<Longrightarrow>
   sv_rewrites sv = [filter_rewrite (\<lambda>f _. is_visible f), prefix_rewrite d, trailing_dirs fs,
     dir_index fs [''index.html''] False]"
  by (auto simp: server_new_def prefix_checked_def server_rewrite_def server_filter_def server_identity_def
      split: if_splits)

text \<open>What the rewrites of a new server make of a visible path.\<close>

lemma server_new_run:
  assumes "server_new fs d = Some sv"
  shows "run_rewrites (sv_rewrites sv) req (map_option (\<lambda>p. RwFile (file_new p)) po) =
    (case po of
       Some p \<Rightarrow>
         if \<not> is_visible (file_new p) then Some None
         else let q = path_join d p
              in if \<not> fs_is_dir fs q then Some (Some (RwFile (file_new q)))
                 else if ends_with (o_path (rq_uri req)) ''/''
                 then Some (Some (RwFile (file_new (path_join q [''index.html'']))))
                 else trailing_dirs fs (Some (RwFile (file_new q))) req
     | None \<Rightarrow> Some None)"
  by (cases po) (auto simp: server_new_rewrites [OF assms] filter_rewrite_def prefix_rewrite_def trailing_dirs_def
      dir_index_def file_map_path_def file_new_def Let_def split: option.splits)

lemma beneath_index:
  "list_all (safe_component windows False) cs \<Longrightarrow> beneath windows d (path_join (d @ cs) [''index.html''])"
  unfolding beneath_def by (rule exI [of _ "cs @ [''index.html'']"]) (simp add: path_join_def safe_component_def)

section \<open>Properties of the file server\<close>

text \<open>
  C23. A file server is confined to its directory (\<open>FileServer::new\<close>, \<open>Handler for FileServer\<close>, \<open>server.rs\<close>; \<open>rewrite.rs\<close>):
  whatever a client requests, the outcome depends only on files and directories beneath the one that is
  served, along components that are not hidden; two file systems that agree there give the same outcome.
\<close>

theorem file_server_confined:
  assumes "server_new fs d = Some sv" and "server_new fs' d = Some sv'" and "agree windows d fs fs'"
  shows "server_handle x fs windows sv req data = server_handle x fs' windows sv' req data"
proof (cases "request_path x windows req")
  case None
  then show ?thesis
    using server_new_run [OF assms(1), of req None] server_new_run [OF assms(2), of req None]
    by (simp add: server_handle_def)
next
  case (Some p)
  show ?thesis
  proof (cases "is_visible (file_new p)")
    case False
    then show ?thesis
      using server_new_run [OF assms(1), of req "Some p"] server_new_run [OF assms(2), of req "Some p"] Some
      by (simp add: server_handle_def)
  next
    case True
    note P = visible_request_path [OF Some True]
    have "beneath windows d (d @ p)" using P(1) by (auto simp: beneath_def)
    with beneath_index [OF P(1), of d] have ag: "fs_is_dir fs (d @ p) = fs_is_dir fs' (d @ p)"
      "file_open fs (file_new (d @ p)) = file_open fs' (file_new (d @ p))"
      "file_open fs (file_new (path_join (d @ p) [''index.html''])) = file_open fs' (file_new (path_join (d @ p) [''index.html'']))"
      using assms(3) by (simp_all add: agree_def file_open_def file_new_def)
    have "trailing_dirs fs (Some (RwFile (file_new (d @ p)))) req = trailing_dirs fs' (Some (RwFile (file_new (d @ p)))) req"
      using ag(1) by (simp add: trailing_dirs_def file_new_def)
    then show ?thesis
      using server_new_run [OF assms(1), of req "Some p"] server_new_run [OF assms(2), of req "Some p"] Some True P(2) ag
      by (auto simp: server_handle_def trailing_dirs_def Let_def split: option.splits if_splits)
  qed
qed

definition sample_fs :: "bool \<Rightarrow> str file_system" where
  "sample_fs secret =
     \<lparr>fs_exists = (\<lambda>p. p = [''www'']), fs_is_dir = (\<lambda>p. p = [''www'']), fs_is_file = (\<lambda>p. False),
      fs_open = (\<lambda>p. if p = [''www'', ''a.txt''] then Some ''a'' else if p = [''etc''] \<and> secret then Some ''s'' else None),
      fs_metadata = (\<lambda>b. Some (False, of_nat (length b)))\<rparr>"

theorem file_server_confined_witness:
  "\<exists>sv sv'. server_new (sample_fs True) [''www''] = Some sv \<and> server_new (sample_fs False) [''www''] = Some sv'
     \<and> (\<forall>req :: nat Request. (server_handle plain_ext (sample_fs True) False sv req () :: ((str, nat) Response, Status, unit \<times> Status) Outcome option)
          = server_handle plain_ext (sample_fs False) False sv' req ())"
proof -
  have "\<exists>sv sv' :: nat FileServer. server_new (sample_fs True) [''www''] = Some sv \<and> server_new (sample_fs False) [''www''] = Some sv'"
    by (simp add: server_new_def prefix_checked_def sample_fs_def)
  then obtain sv sv' :: "nat FileServer" where
    s: "server_new (sample_fs True) [''www''] = Some sv" "server_new (sample_fs False) [''www''] = Some sv'" by blast
  have "agree False [''www''] (sample_fs True) (sample_fs False)"
  proof -
    have "d \<noteq> [''etc'']" if "beneath False [''www''] d" for d using that by (cases d) (auto simp: beneath_def)
    then show ?thesis by (simp add: agree_def sample_fs_def)
  qed
  then have "server_handle plain_ext (sample_fs True) False sv req () = server_handle plain_ext (sample_fs False) False sv' req ()"
    for req by (rule file_server_confined [OF s])
  then show ?thesis using s by (intro exI conjI allI)
qed

end
