(* ===== verification/FormFields.thy ===== *)
theory FormFields
  imports RouteModel
begin

text \<open>
  Form fields (\<open>core/lib/src/form\<close>: \<open>name/view.rs\<close>, \<open>name/name.rs\<close>, \<open>name/key.rs\<close>, \<open>field.rs\<close>,
  \<open>parser.rs\<close>, \<open>buffer.rs\<close>, \<open>form.rs\<close>): views into structured names, the keys of a name, equality of
  names, and the parsers of URL-encoded forms.

  A \<open>NameView\<close> is the name with the bounds of the current key.  The iterator over the keys of a name may
  not end, so collecting it is a partial function whose value \<open>None\<close> means that it runs forever.
\<close>

section \<open>Model: names\<close>

record NameView =
  nv_name :: str
  nv_start :: nat
  nv_end :: nat

abbreviation eq_sign :: byte where "eq_sign \<equiv> CHR ''=''"

definition start_delim :: "byte \<Rightarrow> bool" where
  "start_delim c = (c = CHR ''.'' \<or> c = CHR ''['')"

text \<open>By how much \<open>shift\<close> advances, given the text after the current key.\<close>

definition shift_len :: "str \<Rightarrow> nat" where
  "shift_len s =
     (case s of
        [] \<Rightarrow> 0
      | c # t \<Rightarrow>
          if c = eq_sign then 0
          else if c = CHR ''['' then (case memchr (CHR '']'') s of Some j \<Rightarrow> j + 1 | None \<Rightarrow> length s)
          else if c = CHR ''.'' then (case find_index start_delim t of Some j \<Rightarrow> j + 1 | None \<Rightarrow> length s)
          else (case find_index start_delim s of Some j \<Rightarrow> j | None \<Rightarrow> length s))"

definition shift :: "NameView \<Rightarrow> NameView" where
  "shift self =
     \<lparr>nv_name = nv_name self, nv_start = nv_end self,
      nv_end = nv_end self + shift_len (drop (nv_end self) (nv_name self))\<rparr>"

definition view_new :: "str \<Rightarrow> NameView" where
  "view_new name = shift \<lparr>nv_name = name, nv_start = 0, nv_end = 0\<rparr>"

definition is_at_last :: "NameView \<Rightarrow> bool" where
  "is_at_last self = (nv_end self = length (nv_name self))"

definition exhausted :: "NameView \<Rightarrow> bool" where
  "exhausted self = (nv_start self = length (nv_name self))"

definition key_lossy :: "NameView \<Rightarrow> str" where
  "key_lossy self =
     (let view = take (nv_end self - nv_start self) (drop (nv_start self) (nv_name self))
      in case view of
           [] \<Rightarrow> view
         | c # t \<Rightarrow>
             if c = CHR ''.'' then t
             else if c = CHR ''['' \<and> ends_with view '']'' then butlast t
             else if c = CHR ''['' \<and> is_at_last self then t
             else view)"

definition view_key :: "NameView \<Rightarrow> str option" where
  "view_key self = (let k = key_lossy self in if k = [] then None else Some k)"

definition as_name :: "NameView \<Rightarrow> str" where
  "as_name self = take (nv_end self) (nv_name self)"

definition parent :: "NameView \<Rightarrow> str option" where
  "parent self = (if nv_start self > 0 then Some (take (nv_start self) (nv_name self)) else None)"

definition source :: "NameView \<Rightarrow> str" where
  "source self = nv_name self"

text \<open>\<open>Keys::next\<close> and the collection of all keys.\<close>

definition keys_next :: "NameView \<Rightarrow> (str \<times> NameView) option" where
  "keys_next self = (if exhausted self then None else Some (key_lossy self, shift self))"

partial_function (option) keys_collect :: "NameView \<Rightarrow> str list option" where
  "keys_collect self =
     (case keys_next self of
        None \<Rightarrow> Some []
      | Some (k, self') \<Rightarrow> Option.bind (keys_collect self') (\<lambda>ks. Some (k # ks)))"

definition name_keys :: "str \<Rightarrow> str list option" where
  "name_keys name = keys_collect (view_new name)"

definition prefixes_next :: "NameView \<Rightarrow> (str \<times> NameView) option" where
  "prefixes_next self = (if exhausted self then None else Some (as_name self, shift self))"

text \<open>
  \<open>PartialEq for Name\<close> compares the two key iterators in step and stops at the first difference; it is
  \<open>None\<close> when it never stops.
\<close>

partial_function (option) keys_eq :: "NameView \<Rightarrow> NameView \<Rightarrow> bool option" where
  "keys_eq a b =
     (case (keys_next a, keys_next b) of
        (None, None) \<Rightarrow> Some True
      | (Some (k, a'), Some (l, b')) \<Rightarrow> if k = l then keys_eq a' b' else Some False
      | _ \<Rightarrow> Some False)"

definition name_eq :: "str \<Rightarrow> str \<Rightarrow> bool option" where
  "name_eq a b = keys_eq (view_new a) (view_new b)"

definition view_eq_str :: "NameView \<Rightarrow> str \<Rightarrow> bool option" where
  "view_eq_str self other = name_eq other (as_name self)"

definition key_indices :: "str \<Rightarrow> str list" where
  "key_indices key = split (CHR '':'') key"

section \<open>Model: fields\<close>

record ValueField =
  vf_name :: NameView
  vf_value :: str

definition value_field_from :: "str \<times> str \<Rightarrow> ValueField" where
  "value_field_from nv = \<lparr>vf_name = view_new (fst nv), vf_value = snd nv\<rparr>"

definition field_parse :: "str \<Rightarrow> ValueField" where
  "field_parse field = value_field_from (split_at_byte eq_sign field)"

definition from_value :: "str \<Rightarrow> ValueField" where
  "from_value val = value_field_from ([], val)"

definition field_shift :: "ValueField \<Rightarrow> ValueField" where
  "field_shift self = self\<lparr>vf_name := shift (vf_name self)\<rparr>"

definition form_values :: "str \<Rightarrow> ValueField list" where
  "form_values string = map field_parse (filter (\<lambda>s. s \<noteq> []) (split amp string))"

section \<open>Model: the URL-encoded parser\<close>

text \<open>The stack of decoded strings that outlive the parser: it only grows.\<close>

definition stack_push :: "str \<Rightarrow> str list \<Rightarrow> str \<times> str list" where
  "stack_push s buffer = (s, buffer @ [s])"

definition push_split :: "str \<Rightarrow> nat \<Rightarrow> str list \<Rightarrow> (str \<times> str) \<times> str list" where
  "push_split s n buffer = (let (b, buffer) = stack_push s buffer in ((take n b, drop n b), buffer))"

record RawStrParser =
  pr_buffer :: "str list"
  pr_source :: str

text \<open>The \<open>loop\<close> of \<open>next\<close>: skip empty fields.\<close>

lemma split_at_byte_shorter: "s \<noteq> [] \<Longrightarrow> (a, b) = split_at_byte c s \<Longrightarrow> is_ascii c \<Longrightarrow> length b < length s"
  by (auto simp: split_at_byte_def find_index_Some split: option.splits if_splits)

function next_field :: "str \<Rightarrow> ((str \<times> str) \<times> str) option" where
  "next_field src =
     (if src = [] then None
      else (case split_at_byte amp src of (field_str, rest) \<Rightarrow>
              if field_str \<noteq> [] then Some (split_at_byte eq_sign field_str, rest) else next_field rest))"
  by pat_completeness auto
termination
  by (relation "measure length") (auto dest!: split_at_byte_shorter simp: is_ascii_def)

declare next_field.simps [simp del]

definition parser_next :: "lossy_decoder \<Rightarrow> RawStrParser \<Rightarrow> (ValueField \<times> RawStrParser) option" where
  "parser_next pd self =
     (case next_field (pr_source self) of
        None \<Rightarrow> None
      | Some ((name, val), rest) \<Rightarrow>
          let (name_val, buffer) =
            (case (url_decode_lossy pd name, url_decode_lossy pd val) of
               (Borrowed name, Borrowed val) \<Rightarrow> ((name, val), pr_buffer self)
             | (Borrowed name, Owned v) \<Rightarrow>
                 (let (v, buffer) = stack_push v (pr_buffer self) in ((name, v), buffer))
             | (Owned name, Borrowed val) \<Rightarrow>
                 (let (n, buffer) = stack_push name (pr_buffer self) in ((n, val), buffer))
             | (Owned name, Owned val) \<Rightarrow> push_split (name @ val) (length name) (pr_buffer self))
          in Some (value_field_from name_val, \<lparr>pr_buffer = buffer, pr_source = rest\<rparr>))"

section \<open>Lemmas: shifting\<close>

lemma shift_len_le: "shift_len s \<le> length s"
  by (auto simp: shift_len_def find_index_Some split: list.splits option.splits if_splits)

lemma shift_len_pos: "s \<noteq> [] \<Longrightarrow> hd s \<noteq> eq_sign \<Longrightarrow> 0 < shift_len s"
  by (auto simp: shift_len_def find_index_Some start_delim_def split: list.splits option.splits if_splits
      intro: Nat.gr0I)

lemma shift_len_eq: "shift_len (eq_sign # s) = 0"
  by (simp add: shift_len_def)

text \<open>A view that covers one key after the other: its end is within the name.\<close>

definition view_wf :: "NameView \<Rightarrow> bool" where
  "view_wf v = (nv_start v \<le> nv_end v \<and> nv_end v \<le> length (nv_name v)
     \<and> nv_end v = nv_start v + shift_len (drop (nv_start v) (nv_name v)))"

lemma shift_wf: "nv_end v \<le> length (nv_name v) \<Longrightarrow> view_wf (shift v)"
  using shift_len_le [of "drop (nv_end v) (nv_name v)"] by (auto simp: view_wf_def shift_def)

lemma view_new_wf: "view_wf (view_new n)"
  unfolding view_new_def by (rule shift_wf) simp

text \<open>The text cut into the slices that successive views cover, as far as a slice is nonempty.\<close>

function slices :: "str \<Rightarrow> str list \<times> str" where
  "slices s = (if s = [] \<or> hd s = eq_sign then ([], s)
               else (case slices (drop (shift_len s) s) of (ps, r) \<Rightarrow> (take (shift_len s) s # ps, r)))"
  by pat_completeness auto
termination
  by (relation "measure length") (auto simp: shift_len_pos)

declare slices.simps [simp del]

definition slice_key :: "bool \<Rightarrow> str \<Rightarrow> str" where
  "slice_key at_last view =
     (case view of
        [] \<Rightarrow> view
      | c # t \<Rightarrow>
          if c = CHR ''.'' then t
          else if c = CHR ''['' \<and> ends_with view '']'' then butlast t
          else if c = CHR ''['' \<and> at_last then t
          else view)"

fun slice_keys :: "str list \<Rightarrow> str list" where
  "slice_keys [] = []"
| "slice_keys (p # ps) = slice_key (ps = []) p # slice_keys ps"

lemma slices_concat: "slices s = (ps, r) \<Longrightarrow> concat ps @ r = s \<and> [] \<notin> set ps \<and> (r = [] \<or> hd r = eq_sign)"
proof (induction s arbitrary: ps r rule: slices.induct)
  case (1 s)
  show ?case
  proof (cases "s = [] \<or> hd s = eq_sign")
    case True
    then have "slices s = ([], s)" by (subst slices.simps) simp
    then show ?thesis using 1(2) True by auto
  next
    case False
    obtain qs r' where q: "slices (drop (shift_len s) s) = (qs, r')" by (cases "slices (drop (shift_len s) s)")
    then have s: "slices s = (take (shift_len s) s # qs, r')" using False by (subst slices.simps) simp
    have "concat qs @ r' = drop (shift_len s) s \<and> [] \<notin> set qs \<and> (r' = [] \<or> hd r' = eq_sign)"
      using 1(1) [OF False q] .
    then show ?thesis using s 1(2) False shift_len_pos [of s] by auto
  qed
qed

lemma no_eq_slices: "eq_sign \<notin> set s \<Longrightarrow> snd (slices s) = []"
proof -
  assume "eq_sign \<notin> set s"
  moreover obtain ps r where "slices s = (ps, r)" by (cases "slices s")
  ultimately show ?thesis using slices_concat [of s ps r] by (cases r) auto
qed

lemma keys_collect_done: "exhausted v \<Longrightarrow> keys_collect v = Some []"
  by (subst keys_collect.simps) (simp add: keys_next_def)

lemma keys_collect_step:
  "\<not> exhausted v \<Longrightarrow> keys_collect v = Option.bind (keys_collect (shift v)) (\<lambda>ks. Some (key_lossy v # ks))"
  by (subst keys_collect.simps) (simp add: keys_next_def)

text \<open>At an equals sign a view makes no progress, so no finite list of keys is ever complete.\<close>

lemma keys_collect_stuck:
  assumes "nv_start v < length (nv_name v)" and "nv_name v ! nv_start v = eq_sign" and "nv_end v = nv_start v"
  shows "keys_collect v = None"
proof -
  let ?stuck = "\<lambda>v. nv_start v < length (nv_name v) \<and> nv_name v ! nv_start v = eq_sign \<and> nv_end v = nv_start v"
  have "\<not> ?stuck v" if "keys_collect v = Some ks" for ks
  proof (rule keys_collect.raw_induct [of "\<lambda>v ks. \<not> ?stuck v", OF _ that])
    fix rec :: "NameView \<Rightarrow> str list option" and v ks
    assume IH: "\<And>v ks. rec v = Some ks \<Longrightarrow> \<not> ?stuck v"
      and step: "(case keys_next v of None \<Rightarrow> Some []
        | Some (k, self') \<Rightarrow> Option.bind (rec self') (\<lambda>ks. Some (k # ks))) = Some ks"
    show "\<not> ?stuck v"
    proof
      assume st: "?stuck v"
      then have "drop (nv_end v) (nv_name v) = eq_sign # drop (Suc (nv_end v)) (nv_name v)"
        by (simp add: Cons_nth_drop_Suc [symmetric])
      then have sh: "?stuck (shift v)" using st by (simp add: shift_def shift_len_eq)
      from st step obtain ks' where "rec (shift v) = Some ks'"
        by (auto simp: keys_next_def exhausted_def bind_eq_Some_conv)
      then show False using IH sh by blast
    qed
  qed
  then show ?thesis using assms by (cases "keys_collect v") auto
qed

lemma keys_collect_slices:
  assumes "nv_end v = nv_start v + shift_len (drop (nv_start v) (nv_name v))" and "nv_start v \<le> length (nv_name v)"
  shows "keys_collect v =
    (case slices (drop (nv_start v) (nv_name v)) of (ps, r) \<Rightarrow> if r = [] then Some (slice_keys ps) else None)"
  using assms
proof (induction "drop (nv_start v) (nv_name v)" arbitrary: v rule: slices.induct)
  case 1
  let ?s = "drop (nv_start v) (nv_name v)"
  consider "?s = []" | "?s \<noteq> []" "hd ?s = eq_sign" | "?s \<noteq> []" "hd ?s \<noteq> eq_sign" by blast
  then show ?case
  proof cases
    case 1
    then have "exhausted v" using \<open>nv_start v \<le> length (nv_name v)\<close> by (simp add: exhausted_def)
    then show ?thesis using 1 by (simp add: keys_collect_done slices.simps [of "[]"])
  next
    case 2
    then have lt: "nv_start v < length (nv_name v)" by simp
    then have "nv_name v ! nv_start v = eq_sign" using 2 by (simp add: hd_drop_conv_nth)
    moreover have "nv_end v = nv_start v" using 1(2) 2 by (cases ?s) (auto simp: shift_len_eq)
    ultimately have "keys_collect v = None" using lt by (intro keys_collect_stuck)
    moreover have "slices ?s = ([], ?s)" using 2 by (subst slices.simps) simp
    ultimately show ?thesis using 2 by simp
  next
    case 3
    let ?k = "shift_len ?s"
    have rest: "drop (nv_start (shift v)) (nv_name (shift v)) = drop ?k ?s"
      using 1(2) by (simp add: shift_def add.commute)
    have le: "nv_end v \<le> length (nv_name v)" using 1(2,3) shift_len_le [of ?s] by simp
    have ex: "\<not> exhausted v" using 3 by (auto simp: exhausted_def)
    obtain ps r where q: "slices (drop ?k ?s) = (ps, r)" by (cases "slices (drop ?k ?s)")
    have IH: "keys_collect (shift v) = (if r = [] then Some (slice_keys ps) else None)"
    proof -
      have "keys_collect (shift v) = (case slices (drop (nv_start (shift v)) (nv_name (shift v))) of (ps, r) \<Rightarrow>
          if r = [] then Some (slice_keys ps) else None)"
        using 3 rest le by (intro 1(1)) (auto simp: shift_def)
      then show ?thesis unfolding rest q by simp
    qed
    have "concat ps = [] \<longleftrightarrow> ps = []" using slices_concat [OF q] by (cases ps) auto
    then have "r = [] \<Longrightarrow> is_at_last v \<longleftrightarrow> ps = []"
      using slices_concat [OF q] 1(2) le by (auto simp: is_at_last_def)
    then have "r = [] \<Longrightarrow> key_lossy v = slice_key (ps = []) (take ?k ?s)"
      using 1(2) by (simp add: key_lossy_def slice_key_def Let_def cong: list.case_cong if_cong)
    moreover have "slices ?s = (take ?k ?s # ps, r)" using 3 q by (subst slices.simps) simp
    ultimately show ?thesis using IH ex by (auto simp: keys_collect_step)
  qed
qed

lemma name_keys_eq: "name_keys n = (case slices n of (ps, r) \<Rightarrow> if r = [] then Some (slice_keys ps) else None)"
proof -
  have "nv_end (view_new n) = nv_start (view_new n) + shift_len (drop (nv_start (view_new n)) (nv_name (view_new n)))"
    "nv_start (view_new n) = 0" "nv_name (view_new n) = n"
    by (simp_all add: view_new_def shift_def)
  then show ?thesis unfolding name_keys_def using keys_collect_slices [of "view_new n"] by simp
qed

text \<open>Comparing two names whose keys end: the lists of keys are compared.\<close>

lemma keys_eq_collect:
  assumes "keys_collect a = Some ks" and "keys_collect b = Some ls"
  shows "keys_eq a b = Some (ks = ls)"
proof -
  have "\<forall>b ls. keys_collect b = Some ls \<longrightarrow> keys_eq a b = Some (ks = ls)"
  proof (rule keys_collect.raw_induct [of "\<lambda>a ks. \<forall>b ls. keys_collect b = Some ls \<longrightarrow> keys_eq a b = Some (ks = ls)", OF _ assms(1)])
    fix rec :: "NameView \<Rightarrow> str list option" and a ks
    assume IH: "\<And>a ks. rec a = Some ks \<Longrightarrow> \<forall>b ls. keys_collect b = Some ls \<longrightarrow> keys_eq a b = Some (ks = ls)"
      and step: "(case keys_next a of None \<Rightarrow> Some []
        | Some (k, a') \<Rightarrow> Option.bind (rec a') (\<lambda>ks. Some (k # ks))) = Some ks"
    show "\<forall>b ls. keys_collect b = Some ls \<longrightarrow> keys_eq a b = Some (ks = ls)"
    proof (intro allI impI)
      fix b ls
      assume b: "keys_collect b = Some ls"
      then have b': "(case keys_next b of None \<Rightarrow> Some []
          | Some (l, b') \<Rightarrow> Option.bind (keys_collect b') (\<lambda>ls. Some (l # ls))) = Some ls"
        by (subst (asm) keys_collect.simps)
      show "keys_eq a b = Some (ks = ls)"
        using step b' IH
        by (subst keys_eq.simps)
           (auto simp: bind_eq_Some_conv split: option.splits prod.splits)
    qed
  qed
  then show ?thesis using assms(2) by blast
qed

lemma name_eq_keys: "name_keys a = Some ks \<Longrightarrow> name_keys b = Some ls \<Longrightarrow> name_eq a b = Some (ks = ls)"
  by (simp add: name_keys_def name_eq_def keys_eq_collect)

text \<open>The slice of the first view is one slice by itself.\<close>

lemma find_index_before: "find_index P xs = Some j \<Longrightarrow> find_index P (take j xs) = None"
  using find_index_take [of P xs j] by (simp add: find_index_None)

lemma find_index_upto: "find_index P xs = Some j \<Longrightarrow> find_index P (take (Suc j) xs) = Some j"
  by (simp add: find_index_Some)

lemma shift_len_slice: "shift_len (take (shift_len s) s) = length (take (shift_len s) s)"
proof (cases s)
  case (Cons c t)
  consider "c = eq_sign" | "c = CHR ''[''" | "c = CHR ''.''"
    | "c \<noteq> eq_sign" "c \<noteq> CHR ''[''" "c \<noteq> CHR ''.''" by blast
  then show ?thesis
  proof cases
    case 1
    then have "shift_len s = 0" by (simp add: Cons shift_len_def)
    then show ?thesis by (simp add: shift_len_def)
  next
    case 2
    show ?thesis
    proof (cases "memchr (CHR '']'') t")
      case None
      then have "shift_len s = length s" by (simp add: Cons 2 shift_len_def)
      then show ?thesis by simp
    next
      case (Some j)
      then have "j < length t" by (simp add: find_index_Some)
      then show ?thesis using find_index_upto [OF Some] Some by (simp add: Cons 2 shift_len_def)
    qed
  next
    case 3
    show ?thesis
    proof (cases "find_index start_delim t")
      case None
      then have "shift_len s = length s" by (simp add: Cons 3 shift_len_def)
      then show ?thesis by simp
    next
      case (Some j)
      then show ?thesis using find_index_before [OF Some] by (simp add: Cons 3 shift_len_def)
    qed
  next
    case 4
    then have c: "\<not> start_delim c" by (simp add: start_delim_def)
    show ?thesis
    proof (cases "find_index start_delim t")
      case None
      then have "shift_len s = length s" using 4 c by (simp add: Cons shift_len_def)
      then show ?thesis by simp
    next
      case (Some j)
      then show ?thesis using find_index_before [OF Some] 4 c by (simp add: Cons shift_len_def)
    qed
  qed
qed (simp add: shift_len_def)

lemma slices_slice:
  assumes "s \<noteq> []" and "hd s \<noteq> eq_sign"
  shows "slices (take (shift_len s) s) = ([take (shift_len s) s], [])"
proof -
  define p where "p = take (shift_len s) s"
  have "p \<noteq> []" "hd p = hd s" using assms shift_len_pos [OF assms] by (auto simp: p_def hd_conv_nth)
  moreover have "shift_len p = length p" unfolding p_def by (rule shift_len_slice)
  ultimately show ?thesis
    unfolding p_def [symmetric] using assms(2) by (subst slices.simps) (simp add: slices.simps [of "[]"])
qed

text \<open>A fresh view on a name without an equals sign equals a text iff the text has the view's key as its only key.\<close>

lemma view_eq_first_key:
  assumes "eq_sign \<notin> set n" and "name_keys s = Some ks"
  shows "view_eq_str (view_new n) s = Some (ks = (if n = [] then [] else [slice_key True (take (shift_len n) n)]))"
proof -
  have as_name: "as_name (view_new n) = take (shift_len n) n" by (simp add: as_name_def view_new_def shift_def)
  have "name_keys (take (shift_len n) n) = Some (if n = [] then [] else [slice_key True (take (shift_len n) n)])"
  proof (cases "n = []")
    case True
    then show ?thesis by (simp add: name_keys_eq slices.simps [of "[]"])
  next
    case False
    then have "hd n \<noteq> eq_sign" using assms(1) by (metis hd_in_set)
    then show ?thesis using slices_slice [OF False] False by (simp add: name_keys_eq)
  qed
  then show ?thesis unfolding view_eq_str_def as_name by (rule name_eq_keys [OF assms(2)])
qed

section \<open>Properties\<close>

text \<open>
  The keys of a name (\<open>Name::keys\<close>, \<open>name.rs\<close>; \<open>NameView::shift\<close>, \<open>view.rs\<close>): successive views cut
  the name into nonempty slices, one key each, until the name is used up or an equals sign begins the
  rest.  In the first case the iterator ends with exactly those keys; in the second it never ends.
\<close>

theorem name_keys_spec:
  "case slices n of (ps, r) \<Rightarrow>
     concat ps @ r = n \<and> [] \<notin> set ps \<and> (r = [] \<or> hd r = eq_sign)
     \<and> name_keys n = (if r = [] then Some (slice_keys ps) else None)"
proof -
  obtain ps r where "slices n = (ps, r)" by (cases "slices n")
  then show ?thesis using slices_concat [of n ps r] by (simp add: name_keys_eq)
qed

text \<open>
  C40. A field name that ends in an equals sign after a bracketed key makes no progress: the keys of
  \<open>a[b]=\<close>, and with them its hash and its equality with itself, are never computed to the end.  A name
  without an equals sign always has finitely many keys.
\<close>

theorem name_keys_divergence:
  "name_keys ''a[b]='' = None \<and> (if eq_sign \<in> set n then True else name_keys n \<noteq> None)"
proof -
  have "shift_len ''a[b]='' = 1" "shift_len ''[b]='' = 3"
    by (simp_all add: shift_len_def start_delim_def)
  then have "slices ''a[b]='' = ([''a'', ''[b]''], ''='')"
    by (simp add: slices.simps [of "''a[b]=''"] slices.simps [of "''[b]=''"] slices.simps [of "''=''"])
  then have "name_keys ''a[b]='' = None" by (simp add: name_keys_eq)
  moreover obtain ps r where "slices n = (ps, r)" by (cases "slices n")
  then have "eq_sign \<notin> set n \<Longrightarrow> name_keys n \<noteq> None"
    using no_eq_slices [of n] by (simp add: name_keys_eq)
  ultimately show ?thesis by simp
qed

section \<open>Lemmas: the parser\<close>

lemma split_once_split: "split_once c s = Some (a, b) \<Longrightarrow> split c s = a # split c b"
  by (auto simp: split_once_Some split_append_sep)

lemma split_at_amp:
  "split_at_byte amp s = (case split_once amp s of Some ab \<Rightarrow> ab | None \<Rightarrow> (s, []))"
  by (simp add: split_at_byte_eq is_ascii_def)

lemma next_field_spec:
  "case next_field src of
     None \<Rightarrow> filter (\<lambda>s. s \<noteq> []) (split amp src) = []
   | Some (nv, rest) \<Rightarrow> length rest < length src \<and>
       (\<exists>p. nv = split_at_byte eq_sign p \<and>
            filter (\<lambda>s. s \<noteq> []) (split amp src) = p # filter (\<lambda>s. s \<noteq> []) (split amp rest))"
proof (induction src rule: next_field.induct)
  case (1 src)
  show ?case
  proof (cases "src = []")
    case True
    then show ?thesis by (simp add: next_field.simps [of "[]"])
  next
    case False
    obtain f rest where fr: "split_at_byte amp src = (f, rest)" by (cases "split_at_byte amp src")
    have len: "length rest < length src"
      using split_at_byte_shorter [OF False fr [symmetric]] by (simp add: is_ascii_def)
    have pieces: "filter (\<lambda>s. s \<noteq> []) (split amp src) = filter (\<lambda>s. s \<noteq> []) (f # split amp rest)"
    proof (cases "split_once amp src")
      case None
      then have "f = src" "rest = []" using fr by (simp_all add: split_at_amp)
      then show ?thesis using None by (simp add: split_once_None split_no_sep)
    next
      case (Some ab)
      then show ?thesis using fr split_once_split [of amp src f rest] by (simp add: split_at_amp)
    qed
    show ?thesis
    proof (cases "f = []")
      case True
      then have "next_field src = next_field rest" using False fr by (subst next_field.simps) simp
      then show ?thesis
        using 1 [OF False fr [symmetric]] True pieces len by (auto split: option.splits)
    next
      case ne: False
      then have "next_field src = Some (split_at_byte eq_sign f, rest)" using False fr by (subst next_field.simps) simp
      then show ?thesis using ne pieces len by auto
    qed
  qed
qed

lemma parser_next_source:
  "parser_next pd p = Some (f, p') \<Longrightarrow> length (pr_source p') < length (pr_source p)"
  using next_field_spec [of "pr_source p"]
  by (auto simp: parser_next_def Let_def split: option.splits prod.splits)

function parser_collect :: "lossy_decoder \<Rightarrow> RawStrParser \<Rightarrow> ValueField list \<times> str list" where
  "parser_collect pd p =
     (case parser_next pd p of
        None \<Rightarrow> ([], pr_buffer p)
      | Some (f, p') \<Rightarrow> (case parser_collect pd p' of (fs, b) \<Rightarrow> (f # fs, b)))"
  by pat_completeness auto
termination by (relation "measure (\<lambda>(pd, p). length (pr_source p))") (auto dest: parser_next_source)

declare parser_collect.simps [simp del]

definition decoded_field :: "lossy_decoder \<Rightarrow> str \<Rightarrow> ValueField" where
  "decoded_field pd piece =
     (case split_at_byte eq_sign piece of (n, v) \<Rightarrow>
        value_field_from (cow_val (url_decode_lossy pd n), cow_val (url_decode_lossy pd v)))"

lemma parser_next_eq:
  "case next_field (pr_source p) of
     None \<Rightarrow> parser_next pd p = None
   | Some ((n, v), rest) \<Rightarrow> \<exists>b. parser_next pd p =
       Some (value_field_from (cow_val (url_decode_lossy pd n), cow_val (url_decode_lossy pd v)),
             \<lparr>pr_buffer = pr_buffer p @ b, pr_source = rest\<rparr>)"
proof (cases "next_field (pr_source p)")
  case (Some a)
  obtain n v rest where a: "a = ((n, v), rest)" by (metis prod.collapse)
  show ?thesis
    by (cases "url_decode_lossy pd n"; cases "url_decode_lossy pd v")
       (simp_all add: Some a parser_next_def stack_push_def push_split_def Let_def)
qed (simp add: parser_next_def)

text \<open>
  The URL-encoded form parser (\<open>RawStrParser::next\<close>, \<open>parser.rs\<close>): it ends, and yields one field for
  every nonempty piece between ampersands, in order, split at the first equals sign and with name and
  value decoded, whether or not decoding had to allocate; strings buffered earlier are never changed.
\<close>

theorem parser_collect_fields:
  "\<exists>b. parser_collect pd p =
     (map (decoded_field pd) (filter (\<lambda>s. s \<noteq> []) (split amp (pr_source p))), pr_buffer p @ b)"
proof (induction pd p rule: parser_collect.induct)
  case (1 pd p)
  note spec = next_field_spec [of "pr_source p"] and eq = parser_next_eq [where p = p and pd = pd]
  show ?case
  proof (cases "next_field (pr_source p)")
    case None
    then show ?thesis using spec eq by (subst parser_collect.simps) simp
  next
    case (Some a)
    obtain n v rest where a: "a = ((n, v), rest)" by (metis prod.collapse)
    obtain b where nx: "parser_next pd p =
        Some (value_field_from (cow_val (url_decode_lossy pd n), cow_val (url_decode_lossy pd v)),
          \<lparr>pr_buffer = pr_buffer p @ b, pr_source = rest\<rparr>)"
      using eq by (auto simp: Some a)
    obtain q where q: "(n, v) = split_at_byte eq_sign q"
      "filter (\<lambda>s. s \<noteq> []) (split amp (pr_source p)) = q # filter (\<lambda>s. s \<noteq> []) (split amp rest)"
      using spec by (auto simp: Some a)
    from 1 [OF nx refl] obtain b' where
      "parser_collect pd \<lparr>pr_buffer = pr_buffer p @ b, pr_source = rest\<rparr> =
        (map (decoded_field pd) (filter (\<lambda>s. s \<noteq> []) (split amp rest)), (pr_buffer p @ b) @ b')" by auto
    then show ?thesis
      by (subst parser_collect.simps) (simp add: nx q(2) decoded_field_def q(1) [symmetric])
  qed
qed

end
