(* ===== verification/FormErrors.thy ===== *)
theory FormErrors
  imports FormFields Headers Status
begin

text \<open>
  Errors of forms (\<open>core/lib/src/form\<close>: \<open>error.rs\<close>, \<open>name/buf.rs\<close>, the contexts of \<open>context.rs\<close>, the errors of
  \<open>field.rs\<close>): error values with the names they are about, the status they answer with, and the context that collects
  errors and values under the names of their fields.

  Errors of other crates and of the standard library are opaque values of a type \<open>'x\<close>, with \<open>Display\<close> as the
  argument \<open>disp\<close>.  Iterating the keys of a name may not end, so comparisons of names are partial functions
  whose value \<open>None\<close> means that they run forever.  The maps of a context are \<open>IndexMap\<close>s, which hash a name before
  they use it; their operations are determined for names with finitely many keys.
\<close>

section \<open>Model: owned names\<close>

record NameBuf =
  nb_left :: str
  nb_right :: "str cow"

definition buf_from_view :: "NameView \<Rightarrow> NameBuf" where
  "buf_from_view nv = \<lparr>nb_left = as_name nv, nb_right = Borrowed []\<rparr>"

definition buf_from_name :: "str \<Rightarrow> NameBuf" where
  "buf_from_name name = \<lparr>nb_left = name, nb_right = Borrowed []\<rparr>"

definition buf_from_parts :: "str option \<Rightarrow> str cow \<Rightarrow> NameBuf" where
  "buf_from_parts parent_name right =
     (case parent_name of
        Some left \<Rightarrow> \<lparr>nb_left = left, nb_right = right\<rparr>
      | None \<Rightarrow> \<lparr>nb_left = [], nb_right = right\<rparr>)"

definition buf_from_str :: "str \<Rightarrow> NameBuf" where
  "buf_from_str name = buf_from_parts None (Borrowed name)"

definition buf_from_string :: "str \<Rightarrow> NameBuf" where
  "buf_from_string name = buf_from_parts None (Owned name)"

definition buf_split :: "NameBuf \<Rightarrow> str \<times> str" where
  "buf_split self = (nb_left self, cow_val (nb_right self))"

definition buf_is_empty :: "NameBuf \<Rightarrow> bool" where
  "buf_is_empty self = (case buf_split self of (left, right) \<Rightarrow> left = [] \<and> right = [])"

definition buf_display :: "NameBuf \<Rightarrow> str" where
  "buf_display self =
     (case buf_split self of (left, right) \<Rightarrow>
        (if left \<noteq> [] then left else [])
        @ (if right \<noteq> [] then (if left \<noteq> [] then ''.'' else []) @ right else []))"

definition buf_into_owned :: "NameBuf \<Rightarrow> NameBuf" where
  "buf_into_owned self =
     (let right =
        (case (nb_left self, nb_right self) of
           ([], Owned r) \<Rightarrow> Owned r
         | ([], Borrowed r) \<Rightarrow> Owned r
         | (l, r) \<Rightarrow> if cow_val r = [] then Owned l else Owned (l @ ''.'' @ cow_val r))
      in \<lparr>nb_left = [], nb_right = right\<rparr>)"

text \<open>\<open>NameBuf::keys\<close>: the keys of the left name, then those of the right one.\<close>

type_synonym BufKeys = "NameView \<times> NameView"

definition buf_keys :: "NameBuf \<Rightarrow> BufKeys" where
  "buf_keys self = (case buf_split self of (left, right) \<Rightarrow> (view_new left, view_new right))"

fun buf_keys_next :: "BufKeys \<Rightarrow> (str \<times> BufKeys) option" where
  "buf_keys_next (l, r) =
     (case keys_next l of
        Some (k, l') \<Rightarrow> Some (k, (l', r))
      | None \<Rightarrow> map_option (\<lambda>(k, r'). (k, (l, r'))) (keys_next r))"

text \<open>All keys of a buffer, as its \<open>Hash\<close> visits them.\<close>

definition buf_key_list :: "NameBuf \<Rightarrow> str list option" where
  "buf_key_list self =
     (case buf_split self of (left, right) \<Rightarrow>
        Option.bind (name_keys left) (\<lambda>l. map_option (\<lambda>r. l @ r) (name_keys right)))"

text \<open>\<open>Iterator::eq\<close>, and the loop of \<open>Error::is_for\<close>.\<close>

partial_function (option) iter_eq ::
  "('a \<Rightarrow> (str \<times> 'a) option) \<Rightarrow> ('b \<Rightarrow> (str \<times> 'b) option) \<Rightarrow> 'a \<Rightarrow> 'b \<Rightarrow> bool option" where
  "iter_eq next1 next2 a b =
     (case next1 a of
        None \<Rightarrow> Some (next2 b = None)
      | Some (k, a') \<Rightarrow>
          (case next2 b of
             None \<Rightarrow> Some False
           | Some (l, b') \<Rightarrow> if k = l then iter_eq next1 next2 a' b' else Some False))"

definition buf_eq :: "NameBuf \<Rightarrow> NameBuf \<Rightarrow> bool option" where
  "buf_eq self other = iter_eq buf_keys_next buf_keys_next (buf_keys self) (buf_keys other)"

definition name_eq_buf :: "str \<Rightarrow> NameBuf \<Rightarrow> bool option" where
  "name_eq_buf self other = iter_eq keys_next buf_keys_next (view_new self) (buf_keys other)"

partial_function (option) is_for_loop ::
  "BufKeys \<Rightarrow> NameView \<Rightarrow> bool option" where
  "is_for_loop e_keys n_keys =
     (case (buf_keys_next e_keys, keys_next n_keys) of
        (Some (e, e_keys'), Some (n, n_keys')) \<Rightarrow> if e = n then is_for_loop e_keys' n_keys' else Some False
      | (Some _, None) \<Rightarrow> Some False
      | (None, _) \<Rightarrow> Some True)"

section \<open>Model: errors\<close>

datatype 'x multer_error =
    UnknownField "str option"
  | IncompleteFieldData "str option"
  | FieldSizeExceeded nat "str option"
  | StreamSizeExceeded nat
  | IncompleteStream
  | IncompleteHeaders
  | OtherMulter 'x

datatype 'x ErrorKind =
    InvalidLength (il_min: "nat option") (il_max: "nat option")
  | InvalidChoice "str list"
  | OutOfRange "int option" "int option"
  | Validation str
  | Duplicate
  | Missing
  | Unexpected
  | UnknownError
  | Custom Status 'x
  | Multipart "'x multer_error"
  | Utf8 'x
  | Char 'x
  | IntErr 'x
  | Bool 'x
  | Float 'x
  | Addr 'x
  | Io 'x

datatype Entity = Form | Field | ValueFieldEntity | DataFieldEntity | NameEntity | Value | Key | Index nat

record 'x FormError =
  fe_name :: "NameBuf option"
  fe_value :: "str option"
  fe_kind :: "'x ErrorKind"
  fe_entity :: Entity

type_synonym 'x Errors = "'x FormError list"

fun default_for :: "'x ErrorKind \<Rightarrow> Entity" where
  "default_for (InvalidLength _ _) = Value"
| "default_for (InvalidChoice _) = Value"
| "default_for (OutOfRange _ _) = Value"
| "default_for (Validation _) = Value"
| "default_for (Utf8 _) = Value"
| "default_for (Char _) = Value"
| "default_for (IntErr _) = Value"
| "default_for (Float _) = Value"
| "default_for (Bool _) = Value"
| "default_for (Custom _ _) = Value"
| "default_for (Addr _) = Value"
| "default_for Duplicate = Field"
| "default_for Missing = Field"
| "default_for UnknownError = Field"
| "default_for Unexpected = Field"
| "default_for (Multipart _) = Form"
| "default_for (Io _) = Form"

definition error_from :: "'x ErrorKind \<Rightarrow> 'x FormError" where
  "error_from kind = \<lparr>fe_name = None, fe_value = None, fe_kind = kind, fe_entity = default_for kind\<rparr>"

definition error_custom :: "'x \<Rightarrow> 'x FormError" where
  "error_custom e = error_from (Custom (status_new 422) e)"

definition error_validation :: "str \<Rightarrow> 'x FormError" where
  "error_validation msg = error_from (Validation msg)"

definition set_entity :: "Entity \<Rightarrow> 'x FormError \<Rightarrow> 'x FormError" where
  "set_entity entity self = self\<lparr>fe_entity := entity\<rparr>"

definition set_name :: "NameBuf \<Rightarrow> 'x FormError \<Rightarrow> 'x FormError" where
  "set_name name self = (if fe_name self = None then self\<lparr>fe_name := Some name\<rparr> else self)"

definition set_value :: "str \<Rightarrow> 'x FormError \<Rightarrow> 'x FormError" where
  "set_value val self = (if fe_value self = None then self\<lparr>fe_value := Some val\<rparr> else self)"

definition errors_set_name :: "NameBuf \<Rightarrow> 'x Errors \<Rightarrow> 'x Errors" where
  "errors_set_name name self = map (\<lambda>error. if fe_name error = None then set_name name error else error) self"

definition errors_set_value :: "str \<Rightarrow> 'x Errors \<Rightarrow> 'x Errors" where
  "errors_set_value val self = map (set_value val) self"

definition is_for :: "str \<Rightarrow> 'x FormError \<Rightarrow> bool option" where
  "is_for name self =
     (case fe_name self of
        None \<Rightarrow> Some False
      | Some e_name \<Rightarrow>
          if buf_is_empty e_name \<noteq> (name = []) then Some False
          else is_for_loop (buf_keys e_name) (view_new name))"

definition is_for_exactly :: "str \<Rightarrow> 'x FormError \<Rightarrow> bool option" where
  "is_for_exactly name self =
     (case fe_name self of None \<Rightarrow> Some False | Some n \<Rightarrow> name_eq_buf name n)"

definition error_status :: "'x FormError \<Rightarrow> Status" where
  "error_status self =
     (case fe_kind self of
        InvalidLength None _ \<Rightarrow> status_new 413
      | Multipart (FieldSizeExceeded _ _) \<Rightarrow> status_new 413
      | Multipart (StreamSizeExceeded _) \<Rightarrow> status_new 413
      | UnknownError \<Rightarrow> status_new 500
      | Io _ \<Rightarrow> if fe_entity self = Form then status_new 400 else status_new 422
      | Custom st _ \<Rightarrow> st
      | _ \<Rightarrow> status_new 422)"

text \<open>\<open>Ord\<close> of \<open>Status\<close> is that of its code; \<open>Iterator::max\<close> returns the last of equal elements.\<close>

definition status_max :: "Status \<Rightarrow> Status \<Rightarrow> Status" where
  "status_max a b = (if code b < code a then a else b)"

fun statuses_max :: "Status list \<Rightarrow> Status option" where
  "statuses_max [] = None"
| "statuses_max (s # ss) = Some (foldl status_max s ss)"

definition errors_status :: "'x Errors \<Rightarrow> Status" where
  "errors_status self = (case statuses_max (map error_status self) of Some st \<Rightarrow> st | None \<Rightarrow> status_new 500)"

definition from_multer :: "'x multer_error \<Rightarrow> 'x FormError" where
  "from_multer error =
     (let incomplete = error_from (InvalidLength None None)
      in case error of
           UnknownField (Some name) \<Rightarrow> set_name (buf_from_string name) (error_from Unexpected)
         | UnknownField None \<Rightarrow> error_from Unexpected
         | FieldSizeExceeded limit field_name \<Rightarrow>
             (let e = error_from (InvalidLength None (Some limit))
              in case field_name of Some name \<Rightarrow> set_name (buf_from_string name) e | None \<Rightarrow> e)
         | StreamSizeExceeded limit \<Rightarrow> set_entity Form (error_from (InvalidLength None (Some limit)))
         | IncompleteFieldData (Some name) \<Rightarrow> set_name (buf_from_string name) incomplete
         | IncompleteFieldData None \<Rightarrow> incomplete
         | IncompleteStream \<Rightarrow> set_entity Form incomplete
         | IncompleteHeaders \<Rightarrow> set_entity Form incomplete
         | OtherMulter e \<Rightarrow> error_from (Multipart (OtherMulter e)))"

section \<open>Model: printing and comparing errors\<close>

definition int_to_string :: "int \<Rightarrow> str" where
  "int_to_string i = (if i < 0 then ''-'' @ nat_to_string (nat (- i)) else nat_to_string (nat i))"

text \<open>The loop that writes the choices, whose \<open>i\<close> is the position.\<close>

fun write_choices :: "nat \<Rightarrow> str list \<Rightarrow> str" where
  "write_choices i [] = []"
| "write_choices i (choice # choices) =
     (if i \<noteq> 0 then '', '' else []) @ [CHR 0x60] @ choice @ [CHR 0x60] @ write_choices (i + 1) choices"

fun length_display :: "(nat \<Rightarrow> str) \<Rightarrow> nat option \<Rightarrow> nat option \<Rightarrow> str" where
  "length_display bu None None = ''invalid length: incomplete''"
| "length_display bu None (Some k) =
     (if k < 1024 then ''length cannot exceed '' @ nat_to_string k else ''size must not exceed '' @ bu k)"
| "length_display bu (Some k) None =
     (if k = 1 then ''cannot be empty''
      else if k < 1024 then ''expected at least '' @ nat_to_string k else ''size must be at least '' @ bu k)"
| "length_display bu (Some i) (Some j) =
     (if i < 1024 \<and> j < 1024 then ''length must be between '' @ nat_to_string i @ '' and '' @ nat_to_string j
      else ''size must be between '' @ bu i @ '' and '' @ bu j)"

fun choice_display :: "str list \<Rightarrow> str" where
  "choice_display [] = ''invalid choice''"
| "choice_display [choice] = ''expected '' @ choice"
| "choice_display choices = ''expected one of '' @ write_choices 0 choices"

fun range_display :: "int option \<Rightarrow> int option \<Rightarrow> str" where
  "range_display None None = ''value is out of range''"
| "range_display None (Some k) = ''value cannot exceed '' @ int_to_string k"
| "range_display (Some k) None = ''value must be at least '' @ int_to_string k"
| "range_display (Some i) (Some j) = ''value must be between '' @ int_to_string i @ '' and '' @ int_to_string j"

fun kind_display :: "('x \<Rightarrow> str) \<Rightarrow> ('x multer_error \<Rightarrow> str) \<Rightarrow> (nat \<Rightarrow> str) \<Rightarrow> 'x ErrorKind \<Rightarrow> str" where
  "kind_display disp md bu (InvalidLength a b) = length_display bu a b"
| "kind_display disp md bu (InvalidChoice choices) = choice_display choices"
| "kind_display disp md bu (OutOfRange a b) = range_display a b"
| "kind_display disp md bu (Validation msg) = msg"
| "kind_display disp md bu Duplicate = ''duplicate''"
| "kind_display disp md bu Missing = ''missing''"
| "kind_display disp md bu Unexpected = ''unexpected''"
| "kind_display disp md bu UnknownError = ''unknown internal error''"
| "kind_display disp md bu (Custom _ e) = disp e"
| "kind_display disp md bu (Multipart e) = ''invalid multipart: '' @ md e"
| "kind_display disp md bu (Utf8 e) = ''invalid UTF-8: '' @ disp e"
| "kind_display disp md bu (Char e) = ''invalid character: '' @ disp e"
| "kind_display disp md bu (IntErr e) = ''invalid integer: '' @ disp e"
| "kind_display disp md bu (Bool e) = ''invalid boolean: '' @ disp e"
| "kind_display disp md bu (Float e) = ''invalid float: '' @ disp e"
| "kind_display disp md bu (Addr e) = ''invalid address: '' @ disp e"
| "kind_display disp md bu (Io e) = ''i/o error: '' @ disp e"

definition errors_display ::
  "('x \<Rightarrow> str) \<Rightarrow> ('x multer_error \<Rightarrow> str) \<Rightarrow> (nat \<Rightarrow> str) \<Rightarrow> 'x Errors \<Rightarrow> str" where
  "errors_display disp md bu self =
     nat_to_string (length self) @ '' error(s):''
     @ concat (map (\<lambda>e. [CHR 0x0A] @ kind_display disp md bu (fe_kind e)) self)"

fun entity_display :: "Entity \<Rightarrow> str" where
  "entity_display Form = ''form''"
| "entity_display Field = ''field''"
| "entity_display ValueFieldEntity = ''value field''"
| "entity_display DataFieldEntity = ''data field''"
| "entity_display NameEntity = ''name''"
| "entity_display Value = ''value''"
| "entity_display Key = ''key''"
| "entity_display (Index k) = ''index '' @ nat_to_string k"

text \<open>Errors of \<open>io\<close> are compared by their kind, the argument \<open>io_kind\<close>.\<close>

fun kind_eq :: "('x \<Rightarrow> 'k) \<Rightarrow> 'x ErrorKind \<Rightarrow> 'x ErrorKind \<Rightarrow> bool" where
  "kind_eq io_kind (InvalidLength a b) other = (case other of InvalidLength c d \<Rightarrow> c = a \<and> d = b | _ \<Rightarrow> False)"
| "kind_eq io_kind (InvalidChoice a) other = (case other of InvalidChoice b \<Rightarrow> b = a | _ \<Rightarrow> False)"
| "kind_eq io_kind (OutOfRange a b) other = (case other of OutOfRange c d \<Rightarrow> c = a \<and> d = b | _ \<Rightarrow> False)"
| "kind_eq io_kind (Validation a) other = (case other of Validation b \<Rightarrow> a = b | _ \<Rightarrow> False)"
| "kind_eq io_kind Duplicate other = (case other of Duplicate \<Rightarrow> True | _ \<Rightarrow> False)"
| "kind_eq io_kind Missing other = (case other of Missing \<Rightarrow> True | _ \<Rightarrow> False)"
| "kind_eq io_kind Unexpected other = (case other of Unexpected \<Rightarrow> True | _ \<Rightarrow> False)"
| "kind_eq io_kind UnknownError other = False"
| "kind_eq io_kind (Custom a _) other = (case other of Custom b _ \<Rightarrow> a = b | _ \<Rightarrow> False)"
| "kind_eq io_kind (Multipart a) other = (case other of Multipart b \<Rightarrow> a = b | _ \<Rightarrow> False)"
| "kind_eq io_kind (Utf8 a) other = (case other of Utf8 b \<Rightarrow> a = b | _ \<Rightarrow> False)"
| "kind_eq io_kind (Char a) other = False"
| "kind_eq io_kind (IntErr a) other = (case other of IntErr b \<Rightarrow> a = b | _ \<Rightarrow> False)"
| "kind_eq io_kind (Bool a) other = (case other of Bool b \<Rightarrow> a = b | _ \<Rightarrow> False)"
| "kind_eq io_kind (Float a) other = (case other of Float b \<Rightarrow> a = b | _ \<Rightarrow> False)"
| "kind_eq io_kind (Addr a) other = (case other of Addr b \<Rightarrow> a = b | _ \<Rightarrow> False)"
| "kind_eq io_kind (Io a) other = (case other of Io b \<Rightarrow> io_kind a = io_kind b | _ \<Rightarrow> False)"

section \<open>Model: the errors of fields\<close>

record 'd DataField =
  df_name :: NameView
  df_rest :: 'd

definition data_field_shift :: "'d DataField \<Rightarrow> 'd DataField" where
  "data_field_shift self = self\<lparr>df_name := shift (df_name self)\<rparr>"

definition value_unexpected :: "ValueField \<Rightarrow> 'x FormError" where
  "value_unexpected self =
     set_entity ValueFieldEntity (set_value (vf_value self)
       (set_name (buf_from_name (FormFields.source (vf_name self))) (error_from Unexpected)))"

definition value_missing :: "ValueField \<Rightarrow> 'x FormError" where
  "value_missing self =
     set_entity ValueFieldEntity (set_value (vf_value self)
       (set_name (buf_from_name (FormFields.source (vf_name self))) (error_from Missing)))"

definition data_unexpected :: "'d DataField \<Rightarrow> 'x FormError" where
  "data_unexpected self =
     set_entity DataFieldEntity (set_name (buf_from_name (FormFields.source (df_name self))) (error_from Unexpected))"

section \<open>Model: contexts\<close>

record 'x Context =
  cx_errors :: "(NameBuf, 'x Errors) index_map"
  cx_values :: "(str, str list) index_map"
  cx_data_fields :: "str list"
  cx_form_errors :: "'x Errors"
  cx_status :: Status

definition context_default :: "'x Context" where
  "context_default =
     \<lparr>cx_errors = [], cx_values = [], cx_data_fields = [], cx_form_errors = [], cx_status = status_default\<rparr>"

definition context_fields :: "'x Context \<Rightarrow> str list" where
  "context_fields self = map fst (cx_values self) @ cx_data_fields self"

definition field_value :: "str \<Rightarrow> 'x Context \<Rightarrow> str option option" where
  "field_value name self =
     (case name_keys name of
        None \<Rightarrow> None
      | Some _ \<Rightarrow> Some (case im_get name_keys name (cx_values self) of Some (v # _) \<Rightarrow> Some v | _ \<Rightarrow> None))"

definition field_values :: "str \<Rightarrow> 'x Context \<Rightarrow> str list option" where
  "field_values name self =
     (case name_keys name of
        None \<Rightarrow> None
      | Some _ \<Rightarrow> Some (case im_get name_keys name (cx_values self) of Some vs \<Rightarrow> vs | None \<Rightarrow> []))"

definition context_errors :: "'x Context \<Rightarrow> 'x FormError list" where
  "context_errors self = concat (map snd (cx_errors self)) @ cx_form_errors self"

text \<open>\<open>Iterator::filter\<close> with a predicate that may not return.\<close>

fun filter_opt :: "('a \<Rightarrow> bool option) \<Rightarrow> 'a list \<Rightarrow> 'a list option" where
  "filter_opt p [] = Some []"
| "filter_opt p (x # xs) =
     Option.bind (p x) (\<lambda>b. map_option (\<lambda>ys. if b then x # ys else ys) (filter_opt p xs))"

definition field_errors :: "str \<Rightarrow> 'x Context \<Rightarrow> 'x FormError list option" where
  "field_errors name self = filter_opt (is_for name) (concat (map snd (cx_errors self)))"

definition exact_field_errors :: "str \<Rightarrow> 'x Context \<Rightarrow> 'x FormError list option" where
  "exact_field_errors name self = filter_opt (is_for_exactly name) (concat (map snd (cx_errors self)))"

definition push_error :: "'x Context \<Rightarrow> 'x FormError \<Rightarrow> 'x Context option" where
  "push_error self error =
     (let self = self\<lparr>cx_status := status_max (cx_status self) (error_status error)\<rparr>
      in case fe_name error of
           Some name \<Rightarrow>
             (case buf_key_list name of
                None \<Rightarrow> None
              | Some _ \<Rightarrow>
                  Some (case im_get buf_key_list name (cx_errors self) of
                     Some errors \<Rightarrow>
                       self\<lparr>cx_errors := im_entry buf_key_list name errors (\<lambda>es. es @ [error]) (cx_errors self)\<rparr>
                   | None \<Rightarrow> self\<lparr>cx_errors := im_insert buf_key_list name [error] (cx_errors self)\<rparr>))
         | None \<Rightarrow> Some (self\<lparr>cx_form_errors := cx_form_errors self @ [error]\<rparr>))"

fun push_errors :: "'x Context \<Rightarrow> 'x Errors \<Rightarrow> 'x Context option" where
  "push_errors self [] = Some self"
| "push_errors self (e # errors) = Option.bind (push_error self e) (\<lambda>self. push_errors self errors)"

definition context_from :: "'x Errors \<Rightarrow> 'x Context option" where
  "context_from errors = push_errors context_default errors"

section \<open>Lemmas: iterators\<close>

text \<open>The iterator \<open>nxt\<close> started at \<open>s\<close> ends after the items \<open>ks\<close>.\<close>

inductive yields :: "('a \<Rightarrow> (str \<times> 'a) option) \<Rightarrow> 'a \<Rightarrow> str list \<Rightarrow> bool" for nxt where
  fin: "nxt s = None \<Longrightarrow> yields nxt s []"
| more: "nxt s = Some (k, s') \<Longrightarrow> yields nxt s' ks \<Longrightarrow> yields nxt s (k # ks)"

inductive_cases yields_NilE: "yields nxt s []"
inductive_cases yields_ConsE: "yields nxt s (k # ks)"

lemma iter_eq_yields: "yields n1 a ks \<Longrightarrow> yields n2 b ls \<Longrightarrow> iter_eq n1 n2 a b = Some (ks = ls)"
proof (induction arbitrary: b ls rule: yields.induct)
  case (fin s)
  then show ?case by (subst iter_eq.simps) (auto elim: yields.cases)
next
  case (more s k s' ks)
  show ?case
  proof (cases ls)
    case Nil
    then have "n2 b = None" using more.prems by (auto elim: yields_NilE)
    then show ?thesis using more.hyps Nil by (subst iter_eq.simps) simp
  next
    case (Cons l ls')
    then obtain b' where b: "n2 b = Some (l, b')" "yields n2 b' ls'" using more.prems by (auto elim: yields_ConsE)
    then show ?thesis using more.hyps more.IH [OF b(2)] Cons by (subst iter_eq.simps) simp
  qed
qed

lemma is_for_loop_yields:
  "yields buf_keys_next a ks \<Longrightarrow> yields keys_next b ls \<Longrightarrow> is_for_loop a b = Some (prefix ks ls)"
proof (induction arbitrary: b ls rule: yields.induct)
  case (fin s)
  then show ?case by (subst is_for_loop.simps) (simp split: option.split)
next
  case (more s k s' ks)
  show ?case
  proof (cases ls)
    case Nil
    then have "keys_next b = None" using more.prems by (auto elim: yields_NilE)
    then show ?thesis using more.hyps Nil by (subst is_for_loop.simps) simp
  next
    case (Cons l ls')
    then obtain b' where b: "keys_next b = Some (l, b')" "yields keys_next b' ls'"
      using more.prems by (auto elim: yields_ConsE)
    then show ?thesis using more.hyps more.IH [OF b(2)] Cons by (subst is_for_loop.simps) simp
  qed
qed

lemma keys_collect_yields: "keys_collect v = Some ks \<Longrightarrow> yields keys_next v ks"
proof (induction ks arbitrary: v)
  case Nil
  then have "keys_next v = None" by (subst (asm) keys_collect.simps) (auto split: option.splits simp: bind_eq_Some_conv)
  then show ?case by (rule yields.fin)
next
  case (Cons k ks)
  then obtain v' where "keys_next v = Some (k, v')" "keys_collect v' = Some ks"
    by (subst (asm) keys_collect.simps) (auto split: option.splits simp: bind_eq_Some_conv)
  then show ?case using Cons.IH by (blast intro: yields.more)
qed

lemma name_keys_yields: "name_keys n = Some ks \<Longrightarrow> yields keys_next (view_new n) ks"
  unfolding name_keys_def by (rule keys_collect_yields)

lemma buf_yields_right: "yields keys_next r rs \<Longrightarrow> keys_next l = None \<Longrightarrow> yields buf_keys_next (l, r) rs"
  by (induction rule: yields.induct) (auto intro: yields.intros)

lemma buf_yields: "yields keys_next l ls \<Longrightarrow> yields keys_next r rs \<Longrightarrow> yields buf_keys_next (l, r) (ls @ rs)"
  by (induction rule: yields.induct) (auto intro: yields.intros buf_yields_right)

lemma buf_key_list_yields: "buf_key_list b = Some ks \<Longrightarrow> yields buf_keys_next (buf_keys b) ks"
  by (auto simp: buf_key_list_def buf_keys_def buf_split_def bind_eq_Some_conv
      intro!: buf_yields dest!: name_keys_yields)

text \<open>Buffers are equal exactly when their keys are, so the errors of a context are keyed by lists of keys.\<close>

lemma buf_eq_iff: "buf_key_list a = Some ks \<Longrightarrow> buf_key_list b = Some ls \<Longrightarrow> buf_eq a b = Some (ks = ls)"
  unfolding buf_eq_def by (intro iter_eq_yields buf_key_list_yields)

lemma buf_from_name_keys: "buf_key_list (buf_from_name n) = name_keys n"
proof -
  have "name_keys [] = Some []"
    by (simp add: name_keys_def view_new_def shift_def shift_len_def keys_collect_done exhausted_def)
  then show ?thesis by (cases "name_keys n") (auto simp: buf_key_list_def buf_split_def buf_from_name_def)
qed

text \<open>
  The errors of a field: an error is for a name when its own keys are a leading part of the keys of the name (and
  one of the two is empty only if both are), and exactly for it when the keys are the same.
\<close>

theorem error_is_for:
  assumes "name_keys name = Some ns" and "buf_key_list b = Some bs"
  shows "is_for name (set_name b (error_from kind)) = Some ((buf_is_empty b \<longleftrightarrow> name = []) \<and> prefix bs ns)
    \<and> is_for_exactly name (set_name b (error_from kind)) = Some (bs = ns)"
proof -
  have "is_for_loop (buf_keys b) (view_new name) = Some (prefix bs ns)"
    using assms by (intro is_for_loop_yields buf_key_list_yields name_keys_yields)
  moreover have "name_eq_buf name b = Some (ns = bs)"
    unfolding name_eq_buf_def using assms by (intro iter_eq_yields buf_key_list_yields name_keys_yields)
  ultimately show ?thesis by (auto simp: is_for_def is_for_exactly_def set_name_def error_from_def)
qed

section \<open>Lemmas: statuses and contexts\<close>

lemma foldl_status_max_ge:
  "code (foldl status_max s ss) \<ge> code s \<and> (\<forall>t \<in> set ss. code (foldl status_max s ss) \<ge> code t)
    \<and> foldl status_max s ss \<in> insert s (set ss)"
proof (induction ss arbitrary: s)
  case (Cons t ss)
  have m: "code (status_max s t) \<ge> code s" "code (status_max s t) \<ge> code t" "status_max s t \<in> {s, t}"
    by (auto simp: status_max_def)
  then show ?case using Cons.IH [of "status_max s t"] by (auto intro: order_trans)
qed simp

text \<open>The status of several errors is the largest of theirs, and an internal error when there is none.\<close>

lemma errors_status_max:
  "(errors = [] \<longrightarrow> errors_status errors = status_new 500)
    \<and> (errors \<noteq> [] \<longrightarrow> errors_status errors \<in> error_status ` set errors
        \<and> (\<forall>e \<in> set errors. code (error_status e) \<le> code (errors_status errors)))"
proof (cases errors)
  case (Cons e es)
  then show ?thesis using foldl_status_max_ge [of "error_status e" "map error_status es"]
    by (auto simp: errors_status_def)
qed (simp add: errors_status_def)

text \<open>Equality of kinds is not reflexive for errors of characters and unknown errors.\<close>

lemma kind_eq_refl_iff: "kind_eq io_kind k k \<longleftrightarrow> k \<noteq> UnknownError \<and> (\<forall>e. k \<noteq> Char e)"
  by (cases k) auto

definition finite_name :: "'x FormError \<Rightarrow> bool" where
  "finite_name e = (case fe_name e of None \<Rightarrow> True | Some n \<Rightarrow> buf_key_list n \<noteq> None)"

definition named :: "NameBuf \<Rightarrow> 'x FormError \<Rightarrow> bool" where
  "named b e = (case fe_name e of None \<Rightarrow> False | Some n \<Rightarrow> buf_key_list n = buf_key_list b)"

definition stored :: "NameBuf \<Rightarrow> 'x Context \<Rightarrow> 'x Errors" where
  "stored b self = (case im_get buf_key_list b (cx_errors self) of Some es \<Rightarrow> es | None \<Rightarrow> [])"

lemma im_get_same: "uc n = uc b \<Longrightarrow> im_get uc n m = im_get uc b m"
  by (induction m) auto

lemma mset_im_entry:
  "im_get uc n m = Some d \<Longrightarrow>
    mset (concat (map snd (im_entry uc n d' (\<lambda>es. es @ [e]) m))) = add_mset e (mset (concat (map snd m)))"
  by (induction uc n d' "\<lambda>es. es @ [e]" m rule: im_entry.induct) auto

lemma mset_im_insert:
  "im_get uc n m = None \<Longrightarrow>
    mset (concat (map snd (im_insert uc n [e] m))) = add_mset e (mset (concat (map snd m)))"
  by (induction uc n "[e]" m rule: im_insert.induct) (auto split: if_splits)

lemma push_error_step:
  assumes "finite_name e"
  obtains c' where "push_error c e = Some c'"
    and "\<And>b. stored b c' = stored b c @ (if named b e then [e] else [])"
    and "cx_form_errors c' = cx_form_errors c @ (if fe_name e = None then [e] else [])"
    and "cx_status c' = status_max (cx_status c) (error_status e)"
    and "cx_values c' = cx_values c" and "cx_data_fields c' = cx_data_fields c"
    and "mset (context_errors c') = add_mset e (mset (context_errors c))"
proof (cases "fe_name e")
  case None
  then have "push_error c e =
      Some (c\<lparr>cx_status := status_max (cx_status c) (error_status e), cx_form_errors := cx_form_errors c @ [e]\<rparr>)"
    by (simp add: push_error_def)
  then show ?thesis by (rule that) (simp_all add: None stored_def named_def context_errors_def)
next
  case (Some n)
  then have n: "buf_key_list n \<noteq> None" using assms by (simp add: finite_name_def)
  let ?m = "(case im_get buf_key_list n (cx_errors c) of
      Some errors \<Rightarrow> im_entry buf_key_list n errors (\<lambda>es. es @ [e]) (cx_errors c)
    | None \<Rightarrow> im_insert buf_key_list n [e] (cx_errors c))"
  have p: "push_error c e = Some (c\<lparr>cx_status := status_max (cx_status c) (error_status e), cx_errors := ?m\<rparr>)"
    using Some n by (auto simp: push_error_def Let_def split: option.split)
  have g: "im_get buf_key_list b ?m = (if buf_key_list n = buf_key_list b
      then Some ((case im_get buf_key_list b (cx_errors c) of Some es \<Rightarrow> es | None \<Rightarrow> []) @ [e])
      else im_get buf_key_list b (cx_errors c))" for b
    using im_get_same [of buf_key_list n b "cx_errors c"]
    by (auto simp: im_get_entry im_get_insert split: option.split)
  have m: "mset (concat (map snd ?m)) = add_mset e (mset (concat (map snd (cx_errors c))))"
    by (auto simp: mset_im_entry mset_im_insert split: option.split)
  show ?thesis using p
    by (rule that) (use Some in \<open>simp_all add: stored_def named_def context_errors_def g m split: option.split\<close>)
qed

text \<open>
  Pushing errors with finite names into a context returns; the errors are then found, in order, under the names that
  have the same keys, those without a name among the errors of the form, and the status is the largest.
\<close>

lemma push_errors_spec:
  "list_all finite_name es \<Longrightarrow> \<exists>c'. push_errors c es = Some c'
    \<and> (\<forall>b. stored b c' = stored b c @ filter (named b) es)
    \<and> cx_form_errors c' = cx_form_errors c @ filter (\<lambda>e. fe_name e = None) es
    \<and> cx_status c' = foldl status_max (cx_status c) (map error_status es)
    \<and> cx_values c' = cx_values c \<and> cx_data_fields c' = cx_data_fields c
    \<and> mset (context_errors c') = mset (context_errors c) + mset es"
proof (induction es arbitrary: c)
  case (Cons e es)
  then have "finite_name e" and es: "list_all finite_name es" by simp_all
  obtain c1 where c1: "push_error c e = Some c1" "\<And>b. stored b c1 = stored b c @ (if named b e then [e] else [])"
    "cx_form_errors c1 = cx_form_errors c @ (if fe_name e = None then [e] else [])"
    "cx_status c1 = status_max (cx_status c) (error_status e)"
    "cx_values c1 = cx_values c" "cx_data_fields c1 = cx_data_fields c"
    "mset (context_errors c1) = add_mset e (mset (context_errors c))"
    using push_error_step [OF \<open>finite_name e\<close>, of c] by metis
  show ?case using Cons.IH [OF es, of c1] c1 by auto
qed simp

end
