(* ===== verification/FormParsing.thy ===== *)
theory FormParsing
  imports FormErrors Outcomes
begin

text \<open>
  Parsing values from forms (\<open>core/lib/src/form\<close>: \<open>from_form.rs\<close>, \<open>from_form_field.rs\<close>, \<open>options.rs\<close>, \<open>strict.rs\<close>,
  \<open>lenient.rs\<close>, \<open>form.rs\<close>, the guard of \<open>context.rs\<close>).

  The trait \<open>FromForm\<close> is a record of its functions, and each implementation a function on such records: the fields
  of a type are pushed one after the other into a context, which is then finalized.  \<open>None\<close> as the value of a push
  or of finalization means that it panics or never returns.  A field is a \<open>ValueField\<close> or a \<open>DataField\<close>, whose data
  and request are opaque.
\<close>

section \<open>Model: the trait\<close>

record Options =
  opt_strict :: bool

definition Lenient :: Options where
  "Lenient = \<lparr>opt_strict = False\<rparr>"

definition Strict :: Options where
  "Strict = \<lparr>opt_strict = True\<rparr>"

type_synonym ('t, 'x) form_result = "('t, 'x Errors) result"

record ('c, 'd, 'x, 't) FromForm =
  ff_init :: "Options \<Rightarrow> 'c"
  ff_push_value :: "'c \<Rightarrow> ValueField \<Rightarrow> 'c option"
  ff_push_data :: "'c \<Rightarrow> 'd DataField \<Rightarrow> 'c option"
  ff_push_error :: "'c \<Rightarrow> 'x FormError \<Rightarrow> 'c option"
  ff_finalize :: "'c \<Rightarrow> ('t, 'x) form_result option"

definition default_push_error :: "'c \<Rightarrow> 'x FormError \<Rightarrow> 'c option" where
  "default_push_error ctxt error = Some ctxt"

definition ff_default :: "('c, 'd, 'x, 't) FromForm \<Rightarrow> Options \<Rightarrow> 't option option" where
  "ff_default T opts =
     map_option (\<lambda>r. case r of Ok v \<Rightarrow> Some v | Err _ \<Rightarrow> None) (ff_finalize T (ff_init T opts))"

text \<open>What a parser yields, and how \<open>Form::from_data\<close> pushes it.\<close>

type_synonym 'd field = "ValueField + 'd DataField"

definition push_field :: "('c, 'd, 'x, 't) FromForm \<Rightarrow> 'c \<Rightarrow> 'd field \<Rightarrow> 'c option" where
  "push_field T ctxt field =
     (case field of Inl val \<Rightarrow> ff_push_value T ctxt val | Inr data \<Rightarrow> ff_push_data T ctxt data)"

fun push_all :: "('c \<Rightarrow> 'f \<Rightarrow> 'c option) \<Rightarrow> 'c \<Rightarrow> 'f list \<Rightarrow> 'c option" where
  "push_all p ctxt [] = Some ctxt"
| "push_all p ctxt (f # fs) = Option.bind (p ctxt f) (\<lambda>ctxt. push_all p ctxt fs)"

definition parse_iter :: "('c, 'd, 'x, 't) FromForm \<Rightarrow> ValueField list \<Rightarrow> ('t, 'x) form_result option" where
  "parse_iter T fs = Option.bind (push_all (ff_push_value T) (ff_init T Lenient) fs) (ff_finalize T)"

definition form_parse :: "('c, 'd, 'x, 't) FromForm \<Rightarrow> str \<Rightarrow> ('t, 'x) form_result option" where
  "form_parse T string = parse_iter T (form_values string)"

definition errors_into_owned :: "'x Errors \<Rightarrow> 'x Errors" where
  "errors_into_owned self = map (\<lambda>e. e\<lparr>fe_name := map_option buf_into_owned (fe_name e)\<rparr>) self"

definition parse_encoded ::
  "lossy_decoder \<Rightarrow> ('c, 'd, 'x, 't) FromForm \<Rightarrow> str \<Rightarrow> ('t, 'x) form_result option" where
  "parse_encoded pd T string =
     map_option (\<lambda>r. case r of Ok v \<Rightarrow> Ok v | Err e \<Rightarrow> Err (errors_into_owned e))
       (Option.bind (push_all (ff_push_value T) (ff_init T Lenient)
          (fst (parser_collect pd \<lparr>pr_buffer = [], pr_source = string\<rparr>))) (ff_finalize T))"

definition push_item :: "('c, 'd, 'x, 't) FromForm \<Rightarrow> 'c \<Rightarrow> ('d field, 'x FormError) result \<Rightarrow> 'c option" where
  "push_item T context item =
     (case item of Ok field \<Rightarrow> push_field T context field | Err e \<Rightarrow> ff_push_error T context e)"

text \<open>\<open>Form::from_data\<close>, for the items that the parser of the request yields.\<close>

definition form_from_data ::
  "('c, 'd, 'x, 't) FromForm \<Rightarrow> ('d field, 'x FormError) result list \<Rightarrow>
    ('t, Status \<times> 'x Errors, 'f) Outcome option" where
  "form_from_data T items =
     Option.bind (push_all (push_item T) (ff_init T Lenient) items) (\<lambda>context.
       map_option (\<lambda>r. case r of Ok val \<Rightarrow> Outcome.Success val | Err e \<Rightarrow> Outcome.Error (errors_status e, e))
         (ff_finalize T context))"

section \<open>Model: single fields\<close>

record ('d, 'x, 't) FromFormField =
  fff_from_value :: "ValueField \<Rightarrow> ('t, 'x) form_result"
  fff_from_data :: "'d DataField \<Rightarrow> ('t, 'x) form_result"
  fff_default :: "'t option"

definition from_value_default :: "ValueField \<Rightarrow> ('t, 'x) form_result" where
  "from_value_default field = Err [value_unexpected field]"

definition from_data_default :: "'d DataField \<Rightarrow> ('t, 'x) form_result" where
  "from_data_default field = Err [data_unexpected field]"

record ('x, 't) FromFieldContext =
  fc_field_name :: "NameView option"
  fc_field_value :: "str option"
  fc_opts :: Options
  fc_value :: "('t, 'x) form_result option"
  fc_pushes :: nat

definition should_push :: "('x, 't) FromFieldContext \<Rightarrow> bool \<times> ('x, 't) FromFieldContext" where
  "should_push self =
     (let self = self\<lparr>fc_pushes := fc_pushes self + 1\<rparr> in (fc_value self = None, self))"

definition is_unexpected :: "'x Errors \<Rightarrow> bool" where
  "is_unexpected e = (e \<noteq> [] \<and> fe_kind (last e) = Unexpected)"

definition field_push :: "('x, 't) FromFieldContext \<Rightarrow> NameView \<Rightarrow> ('t, 'x) form_result \<Rightarrow> ('x, 't) FromFieldContext" where
  "field_push self name result =
     (let self = self\<lparr>fc_field_name := Some name\<rparr>
      in case result of
           Err e \<Rightarrow>
             if \<not> opt_strict (fc_opts self) \<and> is_unexpected e then self else self\<lparr>fc_value := Some result\<rparr>
         | Ok _ \<Rightarrow> self\<lparr>fc_value := Some result\<rparr>)"

definition field_push_value ::
  "('d, 'x, 't) FromFormField \<Rightarrow> ('x, 't) FromFieldContext \<Rightarrow> ValueField \<Rightarrow> ('x, 't) FromFieldContext" where
  "field_push_value F ctxt field =
     (case should_push ctxt of
        (True, ctxt) \<Rightarrow>
          field_push (ctxt\<lparr>fc_field_value := Some (vf_value field)\<rparr>) (vf_name field) (fff_from_value F field)
      | (False, ctxt) \<Rightarrow> ctxt)"

definition field_push_data ::
  "('d, 'x, 't) FromFormField \<Rightarrow> ('x, 't) FromFieldContext \<Rightarrow> 'd DataField \<Rightarrow> ('x, 't) FromFieldContext" where
  "field_push_data F ctxt field =
     (case should_push ctxt of
        (True, ctxt) \<Rightarrow> field_push ctxt (df_name field) (fff_from_data F field)
      | (False, ctxt) \<Rightarrow> ctxt)"

definition field_errors_named :: "('x, 't) FromFieldContext \<Rightarrow> 'x Errors \<Rightarrow> 'x Errors" where
  "field_errors_named ctxt errors =
     (let errors = (case fc_field_name ctxt of
          Some name \<Rightarrow> errors_set_name (buf_from_view name) errors | None \<Rightarrow> errors)
      in case fc_field_value ctxt of Some val \<Rightarrow> errors_set_value val errors | None \<Rightarrow> errors)"

definition field_finalize ::
  "('d, 'x, 't) FromFormField \<Rightarrow> ('x, 't) FromFieldContext \<Rightarrow> ('t, 'x) form_result" where
  "field_finalize F ctxt =
     (case fc_value ctxt of
        Some (Ok val) \<Rightarrow>
          if \<not> opt_strict (fc_opts ctxt) \<or> fc_pushes ctxt \<le> 1 then Ok val
          else Err (field_errors_named ctxt [error_from Duplicate])
      | Some (Err errors) \<Rightarrow> Err (field_errors_named ctxt errors)
      | None \<Rightarrow>
          (case (if \<not> opt_strict (fc_opts ctxt) then fff_default F else None) of
             Some val \<Rightarrow> Ok val
           | None \<Rightarrow> Err (field_errors_named ctxt [error_from Missing])))"

definition ff_field :: "('d, 'x, 't) FromFormField \<Rightarrow> (('x, 't) FromFieldContext, 'd, 'x, 't) FromForm" where
  "ff_field F =
     \<lparr>ff_init = (\<lambda>opts. \<lparr>fc_field_name = None, fc_field_value = None, fc_opts = opts, fc_value = None, fc_pushes = 0\<rparr>),
      ff_push_value = (\<lambda>ctxt field. Some (field_push_value F ctxt field)),
      ff_push_data = (\<lambda>ctxt field. Some (field_push_data F ctxt field)),
      ff_push_error = default_push_error,
      ff_finalize = (\<lambda>ctxt. Some (field_finalize F ctxt))\<rparr>"

text \<open>Booleans, strings, and types that are parsed from the whole value.\<close>

definition bool_from_value :: "uncased_key \<Rightarrow> 'x \<Rightarrow> ValueField \<Rightarrow> (bool, 'x) form_result" where
  "bool_from_value uc parse_bool_error field =
     (let v = vf_value field
      in if uc v = uc ''off'' \<or> uc v = uc ''no'' \<or> uc v = uc ''false'' then Ok False
         else if v = [] \<or> uc v = uc ''on'' \<or> uc v = uc ''yes'' \<or> uc v = uc ''true'' then Ok True
         else Err [error_from (Bool parse_bool_error)])"

definition bool_field :: "uncased_key \<Rightarrow> 'x \<Rightarrow> ('d, 'x, bool) FromFormField" where
  "bool_field uc e =
     \<lparr>fff_from_value = bool_from_value uc e, fff_from_data = from_data_default, fff_default = Some False\<rparr>"

definition parse_field :: "(str \<Rightarrow> ('t, 'x ErrorKind) result) \<Rightarrow> ('d, 'x, 't) FromFormField" where
  "parse_field parse =
     \<lparr>fff_from_value =
        (\<lambda>field. case parse (vf_value field) of Ok v \<Rightarrow> Ok v | Err k \<Rightarrow> Err [error_from k]),
      fff_from_data = from_data_default, fff_default = None\<rparr>"

section \<open>Model: vectors\<close>

record ('c, 'x, 't) VecContext =
  vc_opts :: Options
  vc_last_key :: "str option"
  vc_current :: "'c option"
  vc_errors :: "'x Errors"
  vc_items :: "'t list"

definition vec_new :: "Options \<Rightarrow> ('c, 'x, 't) VecContext" where
  "vec_new opts = \<lparr>vc_opts = opts, vc_last_key = None, vc_current = None, vc_errors = [], vc_items = []\<rparr>"

definition vec_shift :: "('c, 'd, 'x, 't) FromForm \<Rightarrow> ('c, 'x, 't) VecContext \<Rightarrow> ('c, 'x, 't) VecContext option" where
  "vec_shift T self =
     (case vc_current self of
        Some current \<Rightarrow>
          map_option (\<lambda>r. case r of
               Ok v \<Rightarrow> self\<lparr>vc_current := None, vc_items := vc_items self @ [v]\<rparr>
             | Err e \<Rightarrow> self\<lparr>vc_current := None, vc_errors := vc_errors self @ e\<rparr>)
            (ff_finalize T current)
      | None \<Rightarrow> Some self)"

definition vec_context ::
  "('c, 'd, 'x, 't) FromForm \<Rightarrow> ('c, 'x, 't) VecContext \<Rightarrow> NameView \<Rightarrow> ('c, 'x, 't) VecContext option" where
  "vec_context T self name =
     (let this_key = view_key name;
          keys_match = (case (vc_last_key self, this_key) of (Some k1, Some k2) \<Rightarrow> k1 = k2 | _ \<Rightarrow> False)
      in Option.bind
           (if \<not> keys_match
            then map_option (\<lambda>self. self\<lparr>vc_current := Some (ff_init T (vc_opts self))\<rparr>) (vec_shift T self)
            else Some self)
           (\<lambda>self. Some (self\<lparr>vc_last_key := view_key name\<rparr>)))"

text \<open>A use of the context that \<open>vec_context\<close> returns, which panics when there is none.\<close>

definition with_current ::
  "('c \<Rightarrow> 'c option) \<Rightarrow> ('c, 'x, 't) VecContext \<Rightarrow> ('c, 'x, 't) VecContext option" where
  "with_current f self =
     Option.bind (vc_current self) (\<lambda>c. map_option (\<lambda>c. self\<lparr>vc_current := Some c\<rparr>) (f c))"

definition vec_push_value ::
  "('c, 'd, 'x, 't) FromForm \<Rightarrow> ('c, 'x, 't) VecContext \<Rightarrow> ValueField \<Rightarrow> ('c, 'x, 't) VecContext option" where
  "vec_push_value T this field =
     Option.bind (vec_context T this (vf_name field)) (with_current (\<lambda>c. ff_push_value T c (field_shift field)))"

definition vec_push_data ::
  "('c, 'd, 'x, 't) FromForm \<Rightarrow> ('c, 'x, 't) VecContext \<Rightarrow> 'd DataField \<Rightarrow> ('c, 'x, 't) VecContext option" where
  "vec_push_data T this field =
     Option.bind (vec_context T this (df_name field)) (with_current (\<lambda>c. ff_push_data T c (data_field_shift field)))"

definition vec_finalize ::
  "('c, 'd, 'x, 't) FromForm \<Rightarrow> ('c, 'x, 't) VecContext \<Rightarrow> ('t list, 'x) form_result option" where
  "vec_finalize T this =
     map_option (\<lambda>this.
         if vc_errors this \<noteq> [] then Err (vc_errors this)
         else if opt_strict (vc_opts this) \<and> vc_items this = [] then Err [error_from Missing]
         else Ok (vc_items this))
       (vec_shift T this)"

definition ff_vec :: "('c, 'd, 'x, 't) FromForm \<Rightarrow> (('c, 'x, 't) VecContext, 'd, 'x, 't list) FromForm" where
  "ff_vec T =
     \<lparr>ff_init = vec_new, ff_push_value = vec_push_value T, ff_push_data = vec_push_data T,
      ff_push_error = default_push_error, ff_finalize = vec_finalize T\<rparr>"

section \<open>Model: options, results, pairs and the strictness wrappers\<close>

definition ff_option :: "('c, 'd, 'x, 't) FromForm \<Rightarrow> ('c, 'd, 'x, 't option) FromForm" where
  "ff_option T =
     \<lparr>ff_init = (\<lambda>_. ff_init T \<lparr>opt_strict = True\<rparr>), ff_push_value = ff_push_value T, ff_push_data = ff_push_data T,
      ff_push_error = default_push_error,
      ff_finalize = (\<lambda>this. map_option (\<lambda>r. case r of Ok v \<Rightarrow> Ok (Some v) | Err _ \<Rightarrow> Ok None) (ff_finalize T this))\<rparr>"

definition ff_result :: "('c, 'd, 'x, 't) FromForm \<Rightarrow> ('c, 'd, 'x, ('t, 'x) form_result) FromForm" where
  "ff_result T =
     \<lparr>ff_init = ff_init T, ff_push_value = ff_push_value T, ff_push_data = ff_push_data T,
      ff_push_error = default_push_error, ff_finalize = (\<lambda>this. map_option Ok (ff_finalize T this))\<rparr>"

definition ff_strict :: "('c, 'd, 'x, 't) FromForm \<Rightarrow> ('c, 'd, 'x, 't) FromForm" where
  "ff_strict T =
     \<lparr>ff_init = (\<lambda>_. ff_init T \<lparr>opt_strict = True\<rparr>), ff_push_value = ff_push_value T, ff_push_data = ff_push_data T,
      ff_push_error = default_push_error, ff_finalize = ff_finalize T\<rparr>"

definition ff_lenient :: "('c, 'd, 'x, 't) FromForm \<Rightarrow> ('c, 'd, 'x, 't) FromForm" where
  "ff_lenient T =
     \<lparr>ff_init = (\<lambda>_. ff_init T \<lparr>opt_strict = False\<rparr>), ff_push_value = ff_push_value T, ff_push_data = ff_push_data T,
      ff_push_error = default_push_error, ff_finalize = ff_finalize T\<rparr>"

record ('a, 'b, 'x) PairContext =
  pc_left :: 'a
  pc_right :: 'b
  pc_errors :: "'x Errors"

definition pair_context :: "NameView \<Rightarrow> (bool, 'x FormError) result" where
  "pair_context name =
     (if view_key name = Some ''0'' then Ok True
      else if view_key name = Some ''1'' then Ok False
      else Err (set_name (buf_from_view name) (set_entity (Index 0) (error_from (InvalidChoice [''0'', ''1''])))))"

definition pair_push ::
  "('a \<Rightarrow> 'a option) \<Rightarrow> ('b \<Rightarrow> 'b option) \<Rightarrow> NameView \<Rightarrow> ('a, 'b, 'x) PairContext \<Rightarrow> ('a, 'b, 'x) PairContext option"
where
  "pair_push f g name ctxt =
     (case pair_context name of
        Ok True \<Rightarrow> map_option (\<lambda>c. ctxt\<lparr>pc_left := c\<rparr>) (f (pc_left ctxt))
      | Ok False \<Rightarrow> map_option (\<lambda>c. ctxt\<lparr>pc_right := c\<rparr>) (g (pc_right ctxt))
      | Err e \<Rightarrow> Some (ctxt\<lparr>pc_errors := pc_errors ctxt @ [e]\<rparr>))"

definition pair_finalize ::
  "('a, 'd, 'x, 's) FromForm \<Rightarrow> ('b, 'd, 'x, 't) FromForm \<Rightarrow> ('a, 'b, 'x) PairContext \<Rightarrow>
    ('s \<times> 't, 'x) form_result option" where
  "pair_finalize A B ctxt =
     Option.bind (ff_finalize A (pc_left ctxt)) (\<lambda>left. map_option (\<lambda>right.
       case (left, right) of
         (Ok key, Ok val) \<Rightarrow> if pc_errors ctxt = [] then Ok (key, val) else Err (pc_errors ctxt)
       | _ \<Rightarrow>
           Err (pc_errors ctxt @ (case left of Err e \<Rightarrow> e | Ok _ \<Rightarrow> []) @ (case right of Err e \<Rightarrow> e | Ok _ \<Rightarrow> [])))
       (ff_finalize B (pc_right ctxt)))"

definition ff_pair ::
  "('a, 'd, 'x, 's) FromForm \<Rightarrow> ('b, 'd, 'x, 't) FromForm \<Rightarrow> (('a, 'b, 'x) PairContext, 'd, 'x, 's \<times> 't) FromForm"
where
  "ff_pair A B =
     \<lparr>ff_init = (\<lambda>opts. \<lparr>pc_left = ff_init A opts, pc_right = ff_init B opts, pc_errors = []\<rparr>),
      ff_push_value = (\<lambda>ctxt field. pair_push (\<lambda>c. ff_push_value A c (field_shift field))
        (\<lambda>c. ff_push_value B c (field_shift field)) (vf_name field) ctxt),
      ff_push_data = (\<lambda>ctxt field. pair_push (\<lambda>c. ff_push_data A c (data_field_shift field))
        (\<lambda>c. ff_push_data B c (data_field_shift field)) (df_name field) ctxt),
      ff_push_error = default_push_error,
      ff_finalize = pair_finalize A B\<rparr>"

section \<open>Model: maps\<close>

record ('a, 'b, 'x) MapContext =
  mc_opts :: Options
  mc_table :: "(str, nat) index_map"
  mc_entries :: "('a \<times> 'b) list"
  mc_metadata :: "NameView list"
  mc_errors :: "'x Errors"

definition map_new :: "Options \<Rightarrow> ('a, 'b, 'x) MapContext" where
  "map_new opts = \<lparr>mc_opts = opts, mc_table = [], mc_entries = [], mc_metadata = [], mc_errors = []\<rparr>"

text \<open>The index of the entry of a key, which is added when it is not in the table.\<close>

definition map_ctxt ::
  "('a, 'd, 'x, 's) FromForm \<Rightarrow> ('b, 'd, 'x, 't) FromForm \<Rightarrow> str \<Rightarrow> NameView \<Rightarrow> ('a, 'b, 'x) MapContext \<Rightarrow>
    nat \<times> ('a, 'b, 'x) MapContext" where
  "map_ctxt K V key name self =
     (case im_get id key (mc_table self) of
        Some i \<Rightarrow> (i, self)
      | None \<Rightarrow>
          let i = length (mc_entries self)
          in (i, self\<lparr>mc_table := im_insert id key i (mc_table self),
                 mc_entries := mc_entries self @ [(ff_init K (mc_opts self), ff_init V (mc_opts self))],
                 mc_metadata := mc_metadata self @ [name]\<rparr>))"

text \<open>Updates of the two contexts of an entry; an index out of range panics.\<close>

definition with_entry ::
  "('a \<times> 'b \<Rightarrow> ('a \<times> 'b) option) \<Rightarrow> nat \<Rightarrow> ('a, 'b, 'x) MapContext \<Rightarrow> ('a, 'b, 'x) MapContext option" where
  "with_entry f i self =
     (if i < length (mc_entries self)
      then map_option (\<lambda>e. self\<lparr>mc_entries := (mc_entries self)[i := e]\<rparr>) (f (mc_entries self ! i))
      else None)"

definition on_key :: "('a \<Rightarrow> 'a option) \<Rightarrow> 'a \<times> 'b \<Rightarrow> ('a \<times> 'b) option" where
  "on_key f e = map_option (\<lambda>k. (k, snd e)) (f (fst e))"

definition on_val :: "('b \<Rightarrow> 'b option) \<Rightarrow> 'a \<times> 'b \<Rightarrow> ('a \<times> 'b) option" where
  "on_val f e = map_option (\<lambda>v. (fst e, v)) (f (snd e))"

definition index_pair :: "NameView \<Rightarrow> str option \<times> str option" where
  "index_pair name =
     (case map_option key_indices (view_key name) of
        Some (a # b # _) \<Rightarrow> (Some a, Some b)
      | Some [a] \<Rightarrow> (Some a, None)
      | _ \<Rightarrow> (None, None))"

definition uncased_starts_with :: "uncased_key \<Rightarrow> str \<Rightarrow> str \<Rightarrow> bool" where
  "uncased_starts_with uc s p = (length p \<le> length s \<and> uc (take (length p) s) = uc p)"

text \<open>Where a field goes: the context of the key (\<open>Inl\<close>) or of the value (\<open>Inr\<close>) of an entry, or nowhere.\<close>

definition map_push ::
  "uncased_key \<Rightarrow> ('a, 'd, 'x, 's) FromForm \<Rightarrow> ('b, 'd, 'x, 't) FromForm \<Rightarrow> ('a, 'b, 'x) MapContext \<Rightarrow> NameView \<Rightarrow>
    ((nat + nat) option \<times> ('a, 'b, 'x) MapContext) option" where
  "map_push uc K V self name =
     (case index_pair name of
        (Some key, None) \<Rightarrow>
          (let is_new_key = (im_get id key (mc_table self) = None);
               (i, self) = map_ctxt K V key name self
           in map_option (\<lambda>self. (Some (Inr i), self))
                (if is_new_key then with_entry (on_key (\<lambda>c. ff_push_value K c (from_value key))) i self
                 else Some self))
      | (Some kind, Some key) \<Rightarrow>
          if uncased_starts_with uc kind ''k'' then
            (case map_ctxt K V key name self of (i, self) \<Rightarrow> Some (Some (Inl i), self))
          else if uncased_starts_with uc kind ''v'' then
            (case map_ctxt K V key name self of (i, self) \<Rightarrow> Some (Some (Inr i), self))
          else
            Some (None, self\<lparr>mc_errors := mc_errors self @ [set_name (buf_from_view name)
              (set_entity (Index 0) (error_from (InvalidChoice [''k'', ''v''])))]\<rparr>)
      | _ \<Rightarrow>
          Some (None, self\<lparr>mc_errors := mc_errors self @ [set_name (buf_from_view name)
            (set_entity Key (error_from Missing))]\<rparr>))"

definition map_dispatch ::
  "('a \<Rightarrow> 'a option) \<Rightarrow> ('b \<Rightarrow> 'b option) \<Rightarrow> (nat + nat) option \<times> ('a, 'b, 'x) MapContext \<Rightarrow>
    ('a, 'b, 'x) MapContext option" where
  "map_dispatch f g p =
     (case p of
        (Some (Inl i), self) \<Rightarrow> with_entry (on_key f) i self
      | (Some (Inr i), self) \<Rightarrow> with_entry (on_val g) i self
      | (None, self) \<Rightarrow> Some self)"

definition map_push_value ::
  "uncased_key \<Rightarrow> ('a, 'd, 'x, 's) FromForm \<Rightarrow> ('b, 'd, 'x, 't) FromForm \<Rightarrow> ('a, 'b, 'x) MapContext \<Rightarrow> ValueField \<Rightarrow>
    ('a, 'b, 'x) MapContext option" where
  "map_push_value uc K V self field =
     Option.bind (map_push uc K V self (vf_name field))
       (map_dispatch (\<lambda>c. ff_push_value K c (field_shift field)) (\<lambda>c. ff_push_value V c (field_shift field)))"

definition map_push_data ::
  "uncased_key \<Rightarrow> ('a, 'd, 'x, 's) FromForm \<Rightarrow> ('b, 'd, 'x, 't) FromForm \<Rightarrow> ('a, 'b, 'x) MapContext \<Rightarrow> 'd DataField \<Rightarrow>
    ('a, 'b, 'x) MapContext option" where
  "map_push_data uc K V self field =
     Option.bind (map_push uc K V self (df_name field))
       (map_dispatch (\<lambda>c. ff_push_data K c (data_field_shift field)) (\<lambda>c. ff_push_data V c (data_field_shift field)))"

fun map_finalize_loop ::
  "('a, 'd, 'x, 's) FromForm \<Rightarrow> ('b, 'd, 'x, 't) FromForm \<Rightarrow> (('a \<times> 'b) \<times> NameView \<times> str) list \<Rightarrow> 'x Errors \<Rightarrow>
    (('s \<times> 't) list \<times> 'x Errors) option" where
  "map_finalize_loop K V [] errors = Some ([], errors)"
| "map_finalize_loop K V (((k_ctxt, v_ctxt), name, idx) # rest) errors =
     Option.bind (ff_finalize K k_ctxt) (\<lambda>key.
       let errors = errors @ (case key of
             Err e \<Rightarrow> errors_set_name (buf_from_parts (parent name) (Owned (''k:'' @ idx))) e | Ok _ \<Rightarrow> [])
       in Option.bind (ff_finalize V v_ctxt) (\<lambda>val.
         let errors = errors @ (case val of
               Err e \<Rightarrow> errors_set_name (buf_from_parts (parent name) (Borrowed idx)) e | Ok _ \<Rightarrow> [])
         in map_option (\<lambda>(pairs, errors). ((case (key, val) of (Ok k, Ok v) \<Rightarrow> [(k, v)] | _ \<Rightarrow> []) @ pairs, errors))
              (map_finalize_loop K V rest errors)))"

text \<open>\<open>collect\<close> is \<open>FromIterator\<close> of the map that is built.\<close>

definition map_finalize ::
  "('a, 'd, 'x, 's) FromForm \<Rightarrow> ('b, 'd, 'x, 't) FromForm \<Rightarrow> (('s \<times> 't) list \<Rightarrow> 'm) \<Rightarrow> ('a, 'b, 'x) MapContext \<Rightarrow>
    ('m, 'x) form_result option" where
  "map_finalize K V collect self =
     map_option (\<lambda>(pairs, errors).
         if errors \<noteq> [] then Err errors
         else if opt_strict (mc_opts self) \<and> mc_table self = [] then Err [error_from Missing]
         else Ok (collect pairs))
       (map_finalize_loop K V (zip (mc_entries self) (zip (mc_metadata self) (map fst (mc_table self)))) (mc_errors self))"

definition ff_map ::
  "uncased_key \<Rightarrow> (('s \<times> 't) list \<Rightarrow> 'm) \<Rightarrow> ('a, 'd, 'x, 's) FromForm \<Rightarrow> ('b, 'd, 'x, 't) FromForm \<Rightarrow>
    (('a, 'b, 'x) MapContext, 'd, 'x, 'm) FromForm" where
  "ff_map uc collect K V =
     \<lparr>ff_init = map_new, ff_push_value = map_push_value uc K V, ff_push_data = map_push_data uc K V,
      ff_push_error = default_push_error, ff_finalize = map_finalize K V collect\<rparr>"

section \<open>Model: contextual values\<close>

record ('t, 'x) Contextual =
  ct_value :: "'t option"
  ct_context :: "'x Context"

definition contextual_push_value ::
  "('c, 'd, 'x, 't) FromForm \<Rightarrow> 'c \<times> 'x Context \<Rightarrow> ValueField \<Rightarrow> ('c \<times> 'x Context) option" where
  "contextual_push_value T p field =
     (case p of (val_ctxt, ctxt) \<Rightarrow>
        let name = FormFields.source (vf_name field)
        in if name_keys name = None then None
           else map_option (\<lambda>c. (c, ctxt\<lparr>cx_values := im_entry name_keys name [] (\<lambda>vs. vs @ [vf_value field]) (cx_values ctxt)\<rparr>))
                  (ff_push_value T val_ctxt field))"

definition contextual_push_data ::
  "('c, 'd, 'x, 't) FromForm \<Rightarrow> 'c \<times> 'x Context \<Rightarrow> 'd DataField \<Rightarrow> ('c \<times> 'x Context) option" where
  "contextual_push_data T p field =
     (case p of (val_ctxt, ctxt) \<Rightarrow>
        let name = FormFields.source (df_name field)
        in if name_keys name = None then None
           else map_option (\<lambda>c. (c, if name_keys name \<in> set (map name_keys (cx_data_fields ctxt)) then ctxt
                                     else ctxt\<lparr>cx_data_fields := cx_data_fields ctxt @ [name]\<rparr>))
                  (ff_push_data T val_ctxt field))"

definition contextual_push_error :: "'c \<times> 'x Context \<Rightarrow> 'x FormError \<Rightarrow> ('c \<times> 'x Context) option" where
  "contextual_push_error p e = map_option (\<lambda>ctxt. (fst p, ctxt)) (push_error (snd p) e)"

definition contextual_finalize ::
  "('c, 'd, 'x, 't) FromForm \<Rightarrow> 'c \<times> 'x Context \<Rightarrow> (('t, 'x) Contextual, 'x) form_result option" where
  "contextual_finalize T p =
     Option.bind (ff_finalize T (fst p)) (\<lambda>r. case r of
         Ok v \<Rightarrow> Some (Ok \<lparr>ct_value = Some v, ct_context = snd p\<rparr>)
       | Err errors \<Rightarrow>
           map_option (\<lambda>context. Ok \<lparr>ct_value = None, ct_context = context\<rparr>) (push_errors (snd p) errors))"

definition ff_contextual ::
  "('c, 'd, 'x, 't) FromForm \<Rightarrow> ('c \<times> 'x Context, 'd, 'x, ('t, 'x) Contextual) FromForm" where
  "ff_contextual T =
     \<lparr>ff_init = (\<lambda>opts. (ff_init T opts, context_default)),
      ff_push_value = contextual_push_value T, ff_push_data = contextual_push_data T,
      ff_push_error = contextual_push_error, ff_finalize = contextual_finalize T\<rparr>"

end
