(* ===== verification/FormCollections.thy ===== *)
theory FormCollections
  imports FormParsing
begin

text \<open>
  What values parsed from forms are: reference definitions of the parsing of single fields, vectors, maps, pairs and
  contextual values, in terms of the fields each part of the value gets, and that the contexts of \<open>FormParsing\<close>
  compute them.
\<close>

section \<open>Parsing a value from a sequence of fields\<close>

definition form_run :: "('c, 'd, 'x, 't) FromForm \<Rightarrow> Options \<Rightarrow> 'd field list \<Rightarrow> ('t, 'x) form_result option" where
  "form_run T opts fs = Option.bind (push_all (push_field T) (ff_init T opts) fs) (ff_finalize T)"

definition field_name :: "'d field \<Rightarrow> NameView" where
  "field_name f = (case f of Inl v \<Rightarrow> vf_name v | Inr d \<Rightarrow> df_name d)"

definition field_key :: "'d field \<Rightarrow> str option" where
  "field_key f = view_key (field_name f)"

definition shift_field :: "'d field \<Rightarrow> 'd field" where
  "shift_field f = (case f of Inl v \<Rightarrow> Inl (field_shift v) | Inr d \<Rightarrow> Inr (data_field_shift d))"

lemma push_all_append: "push_all p c (as @ bs) = Option.bind (push_all p c as) (\<lambda>c. push_all p c bs)"
  by (induction as arbitrary: c) (auto intro: Option.bind_cong)

lemma push_all_map: "push_all p c (map g fs) = push_all (\<lambda>c f. p c (g f)) c fs"
  by (induction fs arbitrary: c) (auto intro: Option.bind_cong)

lemma parse_iter_run: "parse_iter T fs = form_run T Lenient (map Inl fs)"
  by (simp add: parse_iter_def form_run_def push_all_map push_field_def)

lemma form_run_Cons:
  "form_run T opts (f # fs) =
     Option.bind (push_field T (ff_init T opts) f) (\<lambda>c. Option.bind (push_all (push_field T) c fs) (ff_finalize T))"
  by (simp add: form_run_def Option.bind_assoc)

lemma push_item_fields: "push_all (push_item T) c (map Inr fs) = push_all (push_field T) c fs"
  by (simp add: push_all_map push_item_def)

lemma form_from_data_run:
  "form_from_data T (map Inr fs) =
     map_option (\<lambda>r. case r of Inr v \<Rightarrow> Outcome.Success v | Inl e \<Rightarrow> Outcome.Error (errors_status e, e))
       (form_run T Lenient fs)"
  by (simp add: form_from_data_def form_run_def push_item_fields map_option_bind comp_def)

section \<open>Vectors\<close>

text \<open>The fields of one item are consecutive and have the same key.\<close>

definition same_key :: "str option \<Rightarrow> str option \<Rightarrow> bool" where
  "same_key k l = (k \<noteq> None \<and> k = l)"

fun key_runs :: "'d field list \<Rightarrow> 'd field list list" where
  "key_runs [] = []"
| "key_runs (f # fs) =
     (case key_runs fs of
        [] \<Rightarrow> [[f]]
      | g # gs \<Rightarrow> if same_key (field_key f) (field_key (hd g)) then (f # g) # gs else [f] # g # gs)"

definition oks :: "('t, 'x) form_result list \<Rightarrow> 't list" where
  "oks rs = concat (map (\<lambda>r. case r of Inr v \<Rightarrow> [v] | Inl _ \<Rightarrow> []) rs)"

definition errs :: "('t, 'x) form_result list \<Rightarrow> 'x Errors" where
  "errs rs = concat (map (\<lambda>r. case r of Inr _ \<Rightarrow> [] | Inl e \<Rightarrow> e) rs)"

lemma oks_errs_simps [simp]:
  "oks [] = []" "errs [] = []" "oks (Inr v # rs) = v # oks rs" "oks (Inl e # rs) = oks rs"
  "errs (Inr v # rs) = errs rs" "errs (Inl e # rs) = e @ errs rs"
  by (simp_all add: oks_def errs_def)

definition vec_collect :: "Options \<Rightarrow> 't list \<Rightarrow> 'x Errors \<Rightarrow> ('t, 'x) form_result list \<Rightarrow> ('t list, 'x) form_result" where
  "vec_collect opts items errors rs =
     (if errors @ errs rs \<noteq> [] then Err (errors @ errs rs)
      else if opt_strict opts \<and> items @ oks rs = [] then Err [error_from Missing]
      else Ok (items @ oks rs))"

lemma vec_collect_Cons:
  "vec_collect opts items errors (Inr v # rs) = vec_collect opts (items @ [v]) errors rs"
  "vec_collect opts items errors (Inl e # rs) = vec_collect opts items (errors @ e) rs"
  by (simp_all add: vec_collect_def)

text \<open>The leading fields that belong to the item of key \<open>k\<close>, and the runs after them.\<close>

definition head_run :: "str option \<Rightarrow> 'd field list \<Rightarrow> 'd field list \<times> 'd field list list" where
  "head_run k fs =
     (case key_runs fs of
        [] \<Rightarrow> ([], [])
      | g # gs \<Rightarrow> if same_key k (field_key (hd g)) then (g, gs) else ([], g # gs))"

lemma key_runs_Cons: "key_runs (f # fs) = (f # fst (head_run (field_key f) fs)) # snd (head_run (field_key f) fs)"
  by (simp add: head_run_def split: list.split)

lemma head_run_Cons:
  "head_run k (f # fs) =
     (if same_key k (field_key f) then (f # fst (head_run (field_key f) fs), snd (head_run (field_key f) fs))
      else ([], key_runs (f # fs)))"
  by (simp add: head_run_def [of k] key_runs_Cons del: key_runs.simps)

lemma head_run_Nil [simp]: "head_run k [] = ([], [])"
  by (simp add: head_run_def)

definition vec_rest ::
  "('c, 'd, 'x, 't) FromForm \<Rightarrow> Options \<Rightarrow> str option \<Rightarrow> 'c \<Rightarrow> 'd field list \<Rightarrow> ('t, 'x) form_result list option" where
  "vec_rest T opts k c fs =
     Option.bind (Option.bind (push_all (push_field T) c (map shift_field (fst (head_run k fs)))) (ff_finalize T))
       (\<lambda>r. map_option (\<lambda>rs. r # rs)
              (those (map (\<lambda>g. form_run T opts (map shift_field g)) (snd (head_run k fs)))))"

lemma push_field_vec:
  "push_field (ff_vec T) s f =
     Option.bind (vec_context T s (field_name f)) (with_current (\<lambda>c. push_field T c (shift_field f)))"
  by (cases f) (simp_all add: push_field_def ff_vec_def vec_push_value_def vec_push_data_def field_name_def shift_field_def)

lemma keys_match:
  "(case (k, l) of (Some k1, Some k2) \<Rightarrow> k1 = k2 | _ \<Rightarrow> False) = same_key k l"
  by (simp add: same_key_def split: option.split)

lemma vec_push_match:
  "vc_current s = Some c \<Longrightarrow> same_key (vc_last_key s) (field_key f) \<Longrightarrow>
    push_field (ff_vec T) s f =
      map_option (\<lambda>c. s\<lparr>vc_last_key := field_key f, vc_current := Some c\<rparr>) (push_field T c (shift_field f))"
  unfolding push_field_vec vec_context_def keys_match Let_def field_key_def
  by (cases "push_field T c (shift_field f)") (simp_all add: with_current_def)

lemma vec_push_new:
  "\<not> same_key (vc_last_key s) (field_key f) \<Longrightarrow>
    push_field (ff_vec T) s f = Option.bind (vec_shift T s) (\<lambda>s.
      map_option (\<lambda>c. s\<lparr>vc_last_key := field_key f, vc_current := Some c\<rparr>)
        (push_field T (ff_init T (vc_opts s)) (shift_field f)))"
  unfolding push_field_vec vec_context_def keys_match Let_def field_key_def
  by (cases "vec_shift T s") (simp_all add: with_current_def split: option.split)

lemma vec_rest_match:
  "same_key k (field_key f) \<Longrightarrow>
    vec_rest T opts k c (f # fs) =
      Option.bind (push_field T c (shift_field f)) (\<lambda>c. vec_rest T opts (field_key f) c fs)"
  by (simp add: vec_rest_def head_run_Cons Option.bind_assoc)

lemma vec_rest_new:
  "\<not> same_key k (field_key f) \<Longrightarrow>
    vec_rest T opts k c (f # fs) =
      Option.bind (ff_finalize T c) (\<lambda>r. map_option (\<lambda>rs. r # rs)
        (Option.bind (push_field T (ff_init T opts) (shift_field f)) (\<lambda>c. vec_rest T opts (field_key f) c fs)))"
  by (cases "ff_finalize T c"; cases "push_field T (ff_init T opts) (shift_field f)")
    (simp_all add: vec_rest_def head_run_Cons key_runs_Cons form_run_Cons del: key_runs.simps
      split: Option.bind_split option.split)

lemma vec_run_from:
  assumes "vc_current s = Some c"
  shows "Option.bind (push_all (push_field (ff_vec T)) s fs) (vec_finalize T) =
    map_option (vec_collect (vc_opts s) (vc_items s) (vc_errors s)) (vec_rest T (vc_opts s) (vc_last_key s) c fs)"
  using assms
proof (induction fs arbitrary: s c)
  case Nil
  then show ?case
    by (cases "ff_finalize T c")
      (auto simp: vec_rest_def vec_finalize_def vec_shift_def vec_collect_def split: sum.split)
next
  case (Cons f fs)
  show ?case
  proof (cases "same_key (vc_last_key s) (field_key f)")
    case True
    then show ?thesis using Cons.prems
      by (cases "push_field T c (shift_field f)") (simp_all add: vec_push_match vec_rest_match Cons.IH)
  next
    case False
    show ?thesis
    proof (cases "ff_finalize T c")
      case None
      then show ?thesis using False Cons.prems by (simp add: vec_push_new vec_shift_def vec_rest_new)
    next
      case (Some r)
      let ?p = "push_field T (ff_init T (vc_opts s)) (shift_field f)"
      show ?thesis using False Cons.prems Some
        by (cases ?p; cases r)
          (simp_all add: vec_push_new vec_shift_def vec_rest_new Cons.IH option.map_comp comp_def vec_collect_Cons)
    qed
  qed
qed

text \<open>
  C36. A vector parsed from fields (\<open>Vec<T>\<close>) has one item for each run of consecutive fields with the same key, parsed
  from the fields of the run without that key; fields without a key are items of their own.  All errors are
  reported, in the order of the items, and an empty vector is an error only when parsing strictly.  The panic of the context
  is not reached: parsing returns whenever parsing of the items does.
\<close>

theorem vec_form_spec:
  "form_run (ff_vec T) opts fs =
     map_option (vec_collect opts [] []) (those (map (\<lambda>g. form_run T opts (map shift_field g)) (key_runs fs)))"
proof (cases fs)
  case Nil
  then show ?thesis
    by (simp add: form_run_def ff_vec_def vec_new_def vec_finalize_def vec_shift_def vec_collect_def)
next
  case (Cons f fs')
  let ?p = "push_field T (ff_init T opts) (shift_field f)"
  have i: "ff_init (ff_vec T) opts = vec_new opts" and e: "ff_finalize (ff_vec T) = vec_finalize T"
    by (simp_all add: ff_vec_def)
  have "push_field (ff_vec T) (vec_new opts) f =
      map_option (\<lambda>c. (vec_new opts)\<lparr>vc_last_key := field_key f, vc_current := Some c\<rparr>) ?p"
    by (simp add: vec_push_new vec_shift_def vec_new_def same_key_def)
  then have "form_run (ff_vec T) opts fs =
      Option.bind ?p (\<lambda>c. map_option (vec_collect opts [] []) (vec_rest T opts (field_key f) c fs'))"
    by (cases ?p) (simp_all add: form_run_def Cons i e vec_run_from vec_new_def)
  then show ?thesis
    by (cases ?p) (simp_all add: Cons key_runs_Cons vec_rest_def form_run_Cons del: key_runs.simps
        split: Option.bind_split option.split)
qed

section \<open>Single fields\<close>

definition field_result :: "('d, 'x, 't) FromFormField \<Rightarrow> 'd field \<Rightarrow> ('t, 'x) form_result" where
  "field_result F f = (case f of Inl v \<Rightarrow> fff_from_value F v | Inr d \<Rightarrow> fff_from_data F d)"

text \<open>A field counts unless it is unexpected and parsing is lenient.\<close>

definition counts :: "('d, 'x, 't) FromFormField \<Rightarrow> Options \<Rightarrow> 'd field \<Rightarrow> bool" where
  "counts F opts f = (case field_result F f of Inl e \<Rightarrow> opt_strict opts \<or> \<not> is_unexpected e | Inr _ \<Rightarrow> True)"

text \<open>The fields up to the first that counts.\<close>

fun tried :: "('a \<Rightarrow> bool) \<Rightarrow> 'a list \<Rightarrow> 'a list" where
  "tried p [] = []"
| "tried p (f # fs) = f # (if p f then [] else tried p fs)"

fun last_name :: "'d field list \<Rightarrow> NameView option \<Rightarrow> NameView option" where
  "last_name [] n = n"
| "last_name (f # fs) n = last_name fs (Some (field_name f))"

fun last_value :: "'d field list \<Rightarrow> str option \<Rightarrow> str option" where
  "last_value [] v = v"
| "last_value (f # fs) v = last_value fs (case f of Inl x \<Rightarrow> Some (vf_value x) | Inr _ \<Rightarrow> v)"

definition name_errors :: "'d field list \<Rightarrow> 'x Errors \<Rightarrow> 'x Errors" where
  "name_errors fs es =
     (let es = (case last_name fs None of Some n \<Rightarrow> errors_set_name (buf_from_view n) es | None \<Rightarrow> es)
      in case last_value fs None of Some v \<Rightarrow> errors_set_value v es | None \<Rightarrow> es)"

lemma push_field_field:
  "push_field (ff_field F) c f = Some (
     if fc_value c \<noteq> None then c\<lparr>fc_pushes := fc_pushes c + 1\<rparr>
     else c\<lparr>fc_field_name := Some (field_name f),
            fc_field_value := last_value [f] (fc_field_value c),
            fc_value := (if counts F (fc_opts c) f then Some (field_result F f) else None),
            fc_pushes := fc_pushes c + 1\<rparr>)"
  by (cases f; cases "field_result F f")
    (auto simp: push_field_def ff_field_def field_push_value_def field_push_data_def should_push_def field_push_def
      counts_def field_result_def field_name_def Let_def)

lemma field_push_done:
  "fc_value c \<noteq> None \<Longrightarrow> push_all (push_field (ff_field F)) c fs = Some (c\<lparr>fc_pushes := fc_pushes c + length fs\<rparr>)"
  by (induction fs arbitrary: c) (simp_all add: push_field_field)

lemma field_push_all:
  assumes "fc_value c = None"
  shows "push_all (push_field (ff_field F)) c fs = Some (c\<lparr>
      fc_field_name := last_name (tried (counts F (fc_opts c)) fs) (fc_field_name c),
      fc_field_value := last_value (tried (counts F (fc_opts c)) fs) (fc_field_value c),
      fc_value := map_option (field_result F) (find (counts F (fc_opts c)) fs),
      fc_pushes := fc_pushes c + length fs\<rparr>)"
  using assms
proof (induction fs arbitrary: c)
  case (Cons f fs)
  then show ?case
    by (cases "counts F (fc_opts c) f") (simp_all add: push_field_field [of F c f] field_push_done)
qed simp

text \<open>
  A single value (\<open>FromFormField\<close>) is what the first field gives that counts, later fields being an error only
  when parsing strictly; lenient parsing passes over unexpected fields and falls back to the default of the type.
  Errors get the name and the value of the field they come from.
\<close>

theorem field_form_spec:
  "form_run (ff_field F) opts fs = Some (
     let name = name_errors (tried (counts F opts) fs)
     in case find (counts F opts) fs of
          Some f \<Rightarrow>
            (case field_result F f of
               Inr v \<Rightarrow> if opt_strict opts \<and> 1 < length fs then Err (name [error_from Duplicate]) else Ok v
             | Inl e \<Rightarrow> Err (name e))
        | None \<Rightarrow>
            if opt_strict opts \<or> fff_default F = None then Err (name [error_from Missing])
            else Ok (the (fff_default F)))"
proof -
  let ?c = "\<lparr>fc_field_name = None, fc_field_value = None, fc_opts = opts, fc_value = None, fc_pushes = 0\<rparr>
    :: ('x, 't) FromFieldContext"
  have "form_run (ff_field F) opts fs = Option.bind (push_all (push_field (ff_field F)) ?c fs)
      (\<lambda>c. Some (field_finalize F c))"
    by (simp add: form_run_def ff_field_def)
  then show ?thesis
    by (auto simp: field_push_all field_finalize_def field_errors_named_def name_errors_def Let_def
        split: option.split sum.split)
qed

section \<open>Pairs and options\<close>

definition bad_half :: "'d field \<Rightarrow> 'x FormError list" where
  "bad_half f = (case pair_context (field_name f) of Inl e \<Rightarrow> [e] | Inr _ \<Rightarrow> [])"

definition half :: "str \<Rightarrow> 'd field list \<Rightarrow> 'd field list" where
  "half k fs = map shift_field (filter (\<lambda>f. field_key f = Some k) fs)"

lemma half_simps [simp]:
  "half k [] = []"
  "half k (f # fs) = (if field_key f = Some k then shift_field f # half k fs else half k fs)"
  by (simp_all add: half_def)

lemma push_field_pair:
  "push_field (ff_pair A B) c f =
     (if field_key f = Some ''0'' then map_option (\<lambda>l. c\<lparr>pc_left := l\<rparr>) (push_field A (pc_left c) (shift_field f))
      else if field_key f = Some ''1'' then map_option (\<lambda>r. c\<lparr>pc_right := r\<rparr>) (push_field B (pc_right c) (shift_field f))
      else Some (c\<lparr>pc_errors := pc_errors c @ bad_half f\<rparr>))"
  by (cases f) (auto simp: push_field_def ff_pair_def pair_push_def pair_context_def field_key_def field_name_def
      shift_field_def bad_half_def)

lemma bad_half_Nil: "field_key f = Some ''0'' \<or> field_key f = Some ''1'' \<Longrightarrow> bad_half f = []"
  by (auto simp: bad_half_def pair_context_def field_key_def)

lemma pair_push_all:
  "push_all (push_field (ff_pair A B)) c fs =
     Option.bind (push_all (push_field A) (pc_left c) (half ''0'' fs)) (\<lambda>l.
       map_option (\<lambda>r. c\<lparr>pc_left := l, pc_right := r, pc_errors := pc_errors c @ concat (map bad_half fs)\<rparr>)
         (push_all (push_field B) (pc_right c) (half ''1'' fs)))"
proof (induction fs arbitrary: c)
  case (Cons f fs)
  consider (l) "field_key f = Some ''0''" | (r) "field_key f = Some ''1''"
    | (n) "field_key f \<noteq> Some ''0''" "field_key f \<noteq> Some ''1''" by blast
  then show ?case
  proof cases
    case l
    then show ?thesis
      by (cases "push_field A (pc_left c) (shift_field f)") (simp_all add: push_field_pair [of A B c f] Cons.IH bad_half_Nil)
  next
    case r
    then show ?thesis
      by (cases "push_field B (pc_right c) (shift_field f)") (simp_all add: push_field_pair [of A B c f] Cons.IH bad_half_Nil)
  next
    case n
    then show ?thesis by (simp add: push_field_pair [of A B c f] Cons.IH)
  qed
qed simp

text \<open>
  A pair is parsed from the fields with keys \<open>0\<close> and \<open>1\<close>, each half on its own; every other field is an error.
\<close>

lemma pair_form_spec:
  "form_run (ff_pair A B) opts fs =
     Option.bind (form_run A opts (half ''0'' fs)) (\<lambda>left. map_option (\<lambda>right.
       let bad = concat (map bad_half fs)
       in case (left, right) of
            (Inr a, Inr b) \<Rightarrow> if bad = [] then Ok (a, b) else Err bad
          | _ \<Rightarrow> Err (bad @ errs [left] @ errs [right]))
       (form_run B opts (half ''1'' fs)))"
proof -
  have "form_run (ff_pair A B) opts fs =
      Option.bind (push_all (push_field (ff_pair A B))
        \<lparr>pc_left = ff_init A opts, pc_right = ff_init B opts, pc_errors = []\<rparr> fs) (pair_finalize A B)"
    by (simp add: form_run_def ff_pair_def)
  also have "\<dots> = Option.bind (push_all (push_field A) (ff_init A opts) (half ''0'' fs)) (\<lambda>l.
      Option.bind (push_all (push_field B) (ff_init B opts) (half ''1'' fs)) (\<lambda>r.
        pair_finalize A B \<lparr>pc_left = l, pc_right = r, pc_errors = concat (map bad_half fs)\<rparr>))"
    by (simp add: pair_push_all split: Option.bind_split)
  finally show ?thesis
    unfolding form_run_def pair_finalize_def errs_def
    by (cases "push_all (push_field A) (ff_init A opts) (half ''0'' fs)";
        cases "push_all (push_field B) (ff_init B opts) (half ''1'' fs)")
       (auto intro!: Option.bind_cong option.map_cong split: sum.split)
qed

lemma option_form_spec: "form_run (ff_option T) opts fs = map_option (\<lambda>r. Ok (case r of Inr v \<Rightarrow> Some v | Inl _ \<Rightarrow> None)) (form_run T Strict fs)"
proof -
  have "push_field (ff_option T) = push_field T"
    by (simp add: push_field_def ff_option_def fun_eq_iff split: sum.split)
  then show ?thesis
    by (simp add: form_run_def ff_option_def Strict_def map_option_bind comp_def sum.case_distrib [of Inr])
qed

lemma strict_form_spec: "form_run (ff_strict T) opts fs = form_run T Strict fs"
  and lenient_form_spec: "form_run (ff_lenient T) opts fs = form_run T Lenient fs"
proof -
  have "push_field (ff_strict T) = push_field T" "push_field (ff_lenient T) = push_field T"
    by (simp_all add: push_field_def ff_strict_def ff_lenient_def fun_eq_iff split: sum.split)
  then show "form_run (ff_strict T) opts fs = form_run T Strict fs"
    and "form_run (ff_lenient T) opts fs = form_run T Lenient fs"
    by (simp_all add: form_run_def ff_strict_def ff_lenient_def Strict_def Lenient_def)
qed

end
