(* ===== verification/FormMaps.thy ===== *)
theory FormMaps
  imports FormCollections
begin

text \<open>
  What a map parsed from a form is: every field of a map is addressed to the key or to the value of one entry, and the
  context of \<open>FormParsing\<close> parses the key and the value of each entry from exactly the fields addressed to them.
\<close>

section \<open>Where fields go\<close>

datatype slot = Plain str | KeyOf str | ValOf str | Nowhere

fun slot_key :: "slot \<Rightarrow> str option" where
  "slot_key (Plain k) = Some k"
| "slot_key (KeyOf k) = Some k"
| "slot_key (ValOf k) = Some k"
| "slot_key Nowhere = None"

definition slot :: "uncased_key \<Rightarrow> 'd field \<Rightarrow> slot" where
  "slot uc f =
     (case index_pair (field_name f) of
        (Some key, None) \<Rightarrow> Plain key
      | (Some kind, Some key) \<Rightarrow>
          if uncased_starts_with uc kind ''k'' then KeyOf key
          else if uncased_starts_with uc kind ''v'' then ValOf key else Nowhere
      | _ \<Rightarrow> Nowhere)"

text \<open>The error of a field that is addressed to no entry.\<close>

definition bad_slot :: "uncased_key \<Rightarrow> 'd field \<Rightarrow> 'x Errors" where
  "bad_slot uc f =
     (if slot uc f = Nowhere then
        [set_name (buf_from_view (field_name f))
          (case index_pair (field_name f) of
             (Some _, Some _) \<Rightarrow> set_entity (Index 0) (error_from (InvalidChoice [''k'', ''v'']))
           | _ \<Rightarrow> set_entity Key (error_from Missing))]
      else [])"

text \<open>The keys of the entries, in the order in which they first occur.\<close>

definition firsts :: "'a list \<Rightarrow> 'a list" where
  "firsts xs = rev (remdups (rev xs))"

definition entry_keys :: "uncased_key \<Rightarrow> 'd field list \<Rightarrow> str list" where
  "entry_keys uc fs = firsts (concat (map (\<lambda>f. case slot_key (slot uc f) of Some k \<Rightarrow> [k] | None \<Rightarrow> []) fs))"

text \<open>
  The fields of the key of an entry: the text of the key, if the first field of the entry is a plain one, and those
  addressed to the key; and the fields of the value.
\<close>

definition key_fields :: "uncased_key \<Rightarrow> str \<Rightarrow> 'd field list \<Rightarrow> 'd field list" where
  "key_fields uc k fs =
     (case find (\<lambda>f. slot_key (slot uc f) = Some k) fs of
        Some f \<Rightarrow> if slot uc f = Plain k then [Inl (from_value k)] else []
      | None \<Rightarrow> [])
     @ map shift_field (filter (\<lambda>f. slot uc f = KeyOf k) fs)"

definition val_fields :: "uncased_key \<Rightarrow> str \<Rightarrow> 'd field list \<Rightarrow> 'd field list" where
  "val_fields uc k fs = map shift_field (filter (\<lambda>f. slot uc f = Plain k \<or> slot uc f = ValOf k) fs)"

definition entry_name :: "uncased_key \<Rightarrow> 'd field list \<Rightarrow> str \<Rightarrow> NameView" where
  "entry_name uc fs k = field_name (the (find (\<lambda>f. slot_key (slot uc f) = Some k) fs))"

definition entry_errors ::
  "NameView \<Rightarrow> str \<Rightarrow> ('s, 'x) form_result \<Rightarrow> ('t, 'x) form_result \<Rightarrow> 'x Errors" where
  "entry_errors name k rk rv =
     errors_set_name (buf_from_parts (parent name) (Owned (''k:'' @ k))) (errs [rk])
     @ errors_set_name (buf_from_parts (parent name) (Borrowed k)) (errs [rv])"

definition entry_pair :: "('s, 'x) form_result \<Rightarrow> ('t, 'x) form_result \<Rightarrow> ('s \<times> 't) list" where
  "entry_pair rk rv = (case (rk, rv) of (Inr a, Inr b) \<Rightarrow> [(a, b)] | _ \<Rightarrow> [])"

section \<open>Lemmas: lists\<close>

lemma firsts_snoc: "firsts (xs @ [x]) = firsts xs @ (if x \<in> set xs then [] else [x])"
  by (simp add: firsts_def)

lemma set_firsts [simp]: "set (firsts xs) = set xs"
  by (simp add: firsts_def)

lemma distinct_firsts: "distinct (firsts xs)"
  by (simp add: firsts_def)

lemma those_snoc: "those (xs @ [y]) = Option.bind (those xs) (\<lambda>as. map_option (\<lambda>b. as @ [b]) y)"
  by (induction xs) (auto simp: option.map_comp comp_def split: option.split Option.bind_split)

lemma those_None: "those xs = None \<longleftrightarrow> None \<in> set xs"
  by (induction xs) (auto split: option.split)

lemma those_length: "those xs = Some ys \<Longrightarrow> length ys = length xs"
  by (induction xs arbitrary: ys) (auto split: option.splits)

lemma those_nth: "those xs = Some ys \<Longrightarrow> i < length xs \<Longrightarrow> xs ! i = Some (ys ! i)"
  by (induction xs arbitrary: ys i) (auto split: option.splits simp: nth_Cons split: nat.split)

lemma those_update: "those xs = Some ys \<Longrightarrow> i < length xs \<Longrightarrow> those (xs[i := x]) = map_option (\<lambda>y. ys[i := y]) x"
  by (induction xs arbitrary: ys i)
    (auto split: option.splits nat.split simp: option.map_comp comp_def intro!: option.map_cong)

lemma those_bind:
  "Option.bind (those (map g ks)) (\<lambda>es. those (map2 h ks es)) = those (map (\<lambda>k. Option.bind (g k) (h k)) ks)"
proof (induction ks)
  case (Cons k ks)
  show ?case
  proof (cases "g k")
    case (Some e)
    have "Option.bind (those (map g (k # ks))) (\<lambda>es. those (map2 h (k # ks) es)) =
        Option.bind (h k e) (\<lambda>r. map_option (\<lambda>rs. r # rs) (Option.bind (those (map g ks)) (\<lambda>es. those (map2 h ks es))))"
      using Some by (cases "h k e") (auto simp: map_option_bind comp_def split: Option.bind_split)
    then show ?thesis unfolding Cons.IH using Some by (auto split: option.split Option.bind_split)
  qed simp
qed simp

lemma im_get_zip:
  "distinct ks \<Longrightarrow> i < length ks \<Longrightarrow> length ks = length vs \<Longrightarrow> im_get id (ks ! i) (zip ks vs) = Some (vs ! i)"
proof (induction ks vs arbitrary: i rule: list_induct2')
  case (4 k ks v vs)
  then show ?case by (cases i) auto
qed auto

lemma im_get_zip_None: "k \<notin> set ks \<Longrightarrow> im_get id k (zip ks vs) = None"
  by (induction ks vs rule: list_induct2') auto

lemma im_insert_zip:
  "k \<notin> set ks \<Longrightarrow> length ks = length vs \<Longrightarrow> im_insert id k v (zip ks vs) = zip (ks @ [k]) (vs @ [v])"
  by (induction ks vs rule: list_induct2') auto

section \<open>Lemmas: the fields of an entry\<close>

lemma entry_keys_snoc:
  "entry_keys uc (fs @ [f]) =
     (case slot_key (slot uc f) of
        Some k \<Rightarrow> if k \<in> set (entry_keys uc fs) then entry_keys uc fs else entry_keys uc fs @ [k]
      | None \<Rightarrow> entry_keys uc fs)"
  by (auto simp: entry_keys_def firsts_snoc split: option.split)

lemma set_entry_keys: "k \<in> set (entry_keys uc fs) \<longleftrightarrow> (\<exists>f \<in> set fs. slot_key (slot uc f) = Some k)"
  by (auto simp: entry_keys_def eq_commute [of "Some k"] split: option.splits)

lemma distinct_entry_keys: "distinct (entry_keys uc fs)"
  by (simp add: entry_keys_def distinct_firsts)

lemma find_snoc: "find p (xs @ [x]) = (case find p xs of Some y \<Rightarrow> Some y | None \<Rightarrow> if p x then Some x else None)"
  by (induction xs) auto

lemma find_entry_None: "find (\<lambda>f. slot_key (slot uc f) = Some k) fs = None \<longleftrightarrow> k \<notin> set (entry_keys uc fs)"
  by (auto simp: find_None_iff set_entry_keys)

lemma slot_of_key: "slot_key s = Some k \<longleftrightarrow> s = Plain k \<or> s = KeyOf k \<or> s = ValOf k"
  by (cases s) auto

lemma fields_other:
  "slot_key (slot uc f) \<noteq> Some k \<Longrightarrow> key_fields uc k (fs @ [f]) = key_fields uc k fs
    \<and> val_fields uc k (fs @ [f]) = val_fields uc k fs"
  by (auto simp: key_fields_def val_fields_def find_snoc slot_of_key split: option.split)

lemma fields_absent:
  assumes "k \<notin> set (entry_keys uc fs)"
  shows "key_fields uc k fs = [] \<and> val_fields uc k fs = []"
proof -
  have "slot_key (slot uc f) \<noteq> Some k" if "f \<in> set fs" for f using assms that by (auto simp: set_entry_keys)
  then have "filter (\<lambda>f. slot uc f = KeyOf k) fs = [] \<and> filter (\<lambda>f. slot uc f = Plain k \<or> slot uc f = ValOf k) fs = []"
    by (auto simp: filter_empty_conv slot_of_key)
  moreover have "find (\<lambda>f. slot_key (slot uc f) = Some k) fs = None" using assms by (simp add: find_entry_None)
  ultimately show ?thesis unfolding key_fields_def val_fields_def by simp
qed

lemma fields_snoc:
  "slot uc f = Plain k \<Longrightarrow> key_fields uc k (fs @ [f]) =
     (if k \<in> set (entry_keys uc fs) then key_fields uc k fs else [Inl (from_value k)])"
  "slot uc f = KeyOf k \<Longrightarrow> key_fields uc k (fs @ [f]) = key_fields uc k fs @ [shift_field f]"
  "slot uc f = ValOf k \<Longrightarrow> key_fields uc k (fs @ [f]) = key_fields uc k fs"
  "slot uc f = Plain k \<or> slot uc f = ValOf k \<Longrightarrow> val_fields uc k (fs @ [f]) = val_fields uc k fs @ [shift_field f]"
  "slot uc f = KeyOf k \<Longrightarrow> val_fields uc k (fs @ [f]) = val_fields uc k fs"
proof -
  have "find (\<lambda>f. slot_key (slot uc f) = Some k) fs = None \<Longrightarrow> filter (\<lambda>f. slot uc f = KeyOf k) fs = []"
    using fields_absent [of k uc fs] by (auto simp: find_entry_None key_fields_def split: option.splits)
  then show "slot uc f = Plain k \<Longrightarrow> key_fields uc k (fs @ [f]) =
     (if k \<in> set (entry_keys uc fs) then key_fields uc k fs else [Inl (from_value k)])"
    by (cases "find (\<lambda>f. slot_key (slot uc f) = Some k) fs")
      (auto simp: key_fields_def find_snoc find_entry_None [symmetric])
qed (auto simp: key_fields_def val_fields_def find_snoc split: option.split)

section \<open>Lemmas: the contexts of an entry\<close>

definition entry_ctxt ::
  "uncased_key \<Rightarrow> ('a, 'd, 'x, 's) FromForm \<Rightarrow> ('b, 'd, 'x, 't) FromForm \<Rightarrow> Options \<Rightarrow> 'd field list \<Rightarrow> str \<Rightarrow>
    ('a \<times> 'b) option" where
  "entry_ctxt uc K V opts fs k =
     Option.bind (push_all (push_field K) (ff_init K opts) (key_fields uc k fs)) (\<lambda>a.
       map_option (\<lambda>b. (a, b)) (push_all (push_field V) (ff_init V opts) (val_fields uc k fs)))"

definition entry_push ::
  "uncased_key \<Rightarrow> ('a, 'd, 'x, 's) FromForm \<Rightarrow> ('b, 'd, 'x, 't) FromForm \<Rightarrow> bool \<Rightarrow> 'd field \<Rightarrow> 'a \<times> 'b \<Rightarrow>
    ('a \<times> 'b) option" where
  "entry_push uc K V new f e =
     (case slot uc f of
        Plain k \<Rightarrow>
          Option.bind (if new then on_key (\<lambda>c. ff_push_value K c (from_value k)) e else Some e)
            (on_val (\<lambda>c. push_field V c (shift_field f)))
      | KeyOf k \<Rightarrow> on_key (\<lambda>c. push_field K c (shift_field f)) e
      | ValOf k \<Rightarrow> on_val (\<lambda>c. push_field V c (shift_field f)) e
      | Nowhere \<Rightarrow> Some e)"

lemma entry_ctxt_other:
  "slot_key (slot uc f) \<noteq> Some k \<Longrightarrow> entry_ctxt uc K V opts (fs @ [f]) k = entry_ctxt uc K V opts fs k"
  by (simp add: entry_ctxt_def fields_other)

lemma entry_ctxt_absent:
  "k \<notin> set (entry_keys uc fs) \<Longrightarrow> entry_ctxt uc K V opts fs k = Some (ff_init K opts, ff_init V opts)"
  by (simp add: entry_ctxt_def fields_absent)

lemma entry_ctxt_snoc:
  assumes "slot_key (slot uc f) = Some k"
  shows "entry_ctxt uc K V opts (fs @ [f]) k =
    Option.bind (entry_ctxt uc K V opts fs k) (entry_push uc K V (k \<notin> set (entry_keys uc fs)) f)"
proof -
  consider (p) "slot uc f = Plain k" | (k) "slot uc f = KeyOf k" | (v) "slot uc f = ValOf k"
    using assms by (auto simp: slot_of_key)
  then show ?thesis
  proof cases
    case p
    have "push_field K c (Inl (from_value k)) = ff_push_value K c (from_value k)" for c by (simp add: push_field_def)
    with p show ?thesis
      by (cases "k \<in> set (entry_keys uc fs)")
        (auto simp: entry_ctxt_def entry_push_def fields_snoc fields_absent push_all_append on_key_def on_val_def
          split: Option.bind_split option.split)
  next
    case k
    then show ?thesis
      by (auto simp: entry_ctxt_def entry_push_def fields_snoc push_all_append on_key_def split: Option.bind_split option.split)
  next
    case v
    then show ?thesis
      by (auto simp: entry_ctxt_def entry_push_def fields_snoc push_all_append on_val_def split: Option.bind_split option.split)
  qed
qed

lemma with_entry_comp:
  "Option.bind (with_entry g i s) (with_entry h i) = with_entry (\<lambda>e. Option.bind (g e) h) i s"
  by (cases "g (mc_entries s ! i)") (auto simp: with_entry_def option.map_comp comp_def)

lemma push_field_map_split:
  "push_field (ff_map uc col K V) s f =
     Option.bind (map_push uc K V s (field_name f))
       (map_dispatch (\<lambda>c. push_field K c (shift_field f)) (\<lambda>c. push_field V c (shift_field f)))"
  by (cases f) (simp_all add: push_field_def ff_map_def map_push_value_def map_push_data_def field_name_def shift_field_def)

lemma push_field_map:
  assumes "slot_key (slot uc f) = Some k"
  shows "push_field (ff_map uc col K V) s f =
    (case map_ctxt K V k (field_name f) s of
       (i, s') \<Rightarrow> with_entry (entry_push uc K V (im_get id k (mc_table s) = None) f) i s')"
proof -
  obtain i s' where c: "map_ctxt K V k (field_name f) s = (i, s')" by (cases "map_ctxt K V k (field_name f) s")
  consider (p) "slot uc f = Plain k" "index_pair (field_name f) = (Some k, None)"
    | (k) kind where "slot uc f = KeyOf k" "index_pair (field_name f) = (Some kind, Some k)"
        "uncased_starts_with uc kind ''k''"
    | (v) kind where "slot uc f = ValOf k" "index_pair (field_name f) = (Some kind, Some k)"
        "\<not> uncased_starts_with uc kind ''k''" "uncased_starts_with uc kind ''v''"
    using assms by (auto simp: slot_def split: prod.splits option.splits if_splits)
  then show ?thesis
  proof cases
    case p
    have e: "entry_push uc K V new f = (\<lambda>e. Option.bind (if new then on_key (\<lambda>c. ff_push_value K c (from_value k)) e else Some e)
        (on_val (\<lambda>c. push_field V c (shift_field f))))" for new
      using p by (simp add: entry_push_def fun_eq_iff)
    show ?thesis
    proof (cases "im_get id k (mc_table s) = None")
      case True
      then show ?thesis unfolding push_field_map_split using p c
        by (simp add: map_push_def map_dispatch_def e with_entry_comp [symmetric] bind_map_option comp_def)
    next
      case False
      then obtain j where "im_get id k (mc_table s) = Some j" by auto
      then show ?thesis unfolding push_field_map_split using p c
        by (simp add: map_push_def map_dispatch_def e)
    qed
  next
    case k
    then have "entry_push uc K V new f = on_key (\<lambda>c. push_field K c (shift_field f))" for new
      by (simp add: entry_push_def fun_eq_iff)
    then show ?thesis unfolding push_field_map_split using k c by (simp add: map_push_def map_dispatch_def)
  next
    case v
    then have "entry_push uc K V new f = on_val (\<lambda>c. push_field V c (shift_field f))" for new
      by (simp add: entry_push_def fun_eq_iff)
    then show ?thesis unfolding push_field_map_split using v c by (simp add: map_push_def map_dispatch_def)
  qed
qed

lemma push_field_map_bad:
  "slot uc f = Nowhere \<Longrightarrow>
    push_field (ff_map uc col K V) s f = Some (s\<lparr>mc_errors := mc_errors s @ bad_slot uc f\<rparr>)"
  by (auto simp: push_field_map_split map_push_def map_dispatch_def slot_def bad_slot_def
      split: prod.splits option.splits if_splits)

lemma bad_slot_Nil: "slot_key (slot uc f) = Some k \<Longrightarrow> bad_slot uc f = []"
  by (auto simp: bad_slot_def)

section \<open>Lemmas: the context of a map\<close>

definition map_state ::
  "uncased_key \<Rightarrow> Options \<Rightarrow> 'd field list \<Rightarrow> ('a \<times> 'b) list \<Rightarrow> ('a, 'b, 'x) MapContext" where
  "map_state uc opts fs es =
     \<lparr>mc_opts = opts, mc_table = zip (entry_keys uc fs) [0..<length (entry_keys uc fs)], mc_entries = es,
      mc_metadata = map (entry_name uc fs) (entry_keys uc fs), mc_errors = concat (map (bad_slot uc) fs)\<rparr>"

lemma map_state_sel:
  "mc_opts (map_state uc opts fs es) = opts" "mc_entries (map_state uc opts fs es) = es"
  "mc_metadata (map_state uc opts fs es) = map (entry_name uc fs) (entry_keys uc fs)"
  "mc_errors (map_state uc opts fs es) = concat (map (bad_slot uc) fs)"
  "map fst (mc_table (map_state uc opts fs es)) = entry_keys uc fs"
  "mc_table (map_state uc opts fs es) = [] \<longleftrightarrow> entry_keys uc fs = []"
  by (simp_all add: map_state_def)

lemma entry_name_snoc: "k \<in> set (entry_keys uc fs) \<Longrightarrow> entry_name uc (fs @ [f]) k = entry_name uc fs k"
  using find_entry_None [of uc k fs] by (auto simp: entry_name_def find_snoc split: option.split)

lemma entry_name_new:
  "k \<notin> set (entry_keys uc fs) \<Longrightarrow> slot_key (slot uc f) = Some k \<Longrightarrow> entry_name uc (fs @ [f]) k = field_name f"
  using find_entry_None [of uc k fs] by (auto simp: entry_name_def find_snoc split: option.split)

lemma map_names_snoc:
  "map (entry_name uc (fs @ [f])) (entry_keys uc fs) = map (entry_name uc fs) (entry_keys uc fs)"
  by (simp add: entry_name_snoc)

lemma map_update:
  assumes "distinct ks" and "i < length ks" and "\<And>k. k \<noteq> ks ! i \<Longrightarrow> g' k = g k"
  shows "map g' ks = (map g ks)[i := g' (ks ! i)]"
  using assms by (auto intro!: nth_equalityI simp: nth_list_update nth_eq_iff_index_eq)

lemma map_push_known:
  fixes K :: "('a, 'd, 'x, 's) FromForm" and V :: "('b, 'd, 'x, 't) FromForm"
  assumes k: "slot_key (slot uc f) = Some k" "k \<in> set (entry_keys uc fs)"
    and es: "those (map (entry_ctxt uc K V opts fs) (entry_keys uc fs)) = Some es"
  shows "push_field (ff_map uc col K V) (map_state uc opts fs es) f =
    map_option (map_state uc opts (fs @ [f])) (those (map (entry_ctxt uc K V opts (fs @ [f])) (entry_keys uc (fs @ [f]))))"
proof -
  let ?ks = "entry_keys uc fs" and ?s = "map_state uc opts fs es :: ('a, 'b, 'x) MapContext"
  obtain i where i: "i < length ?ks" "k = ?ks ! i" using k(2) by (auto simp: in_set_conv_nth)
  have len: "length es = length ?ks" using those_length [OF es] by simp
  have t: "im_get id k (mc_table ?s) = Some i"
    using i im_get_zip [OF distinct_entry_keys [of uc fs], of i "[0..<length ?ks]"] by (simp add: map_state_def)
  have e: "entry_ctxt uc K V opts fs k = Some (es ! i)" using those_nth [OF es, of i] i by simp
  have ks: "entry_keys uc (fs @ [f]) = ?ks" using k by (simp add: entry_keys_snoc)
  have "map (entry_ctxt uc K V opts (fs @ [f])) ?ks =
      (map (entry_ctxt uc K V opts fs) ?ks)[i := entry_ctxt uc K V opts (fs @ [f]) (?ks ! i)]"
    using k i by (intro map_update distinct_entry_keys entry_ctxt_other) auto
  then have "those (map (entry_ctxt uc K V opts (fs @ [f])) ?ks) =
      map_option (\<lambda>e. es[i := e]) (entry_push uc K V False f (es ! i))"
    using those_update [OF es, of i] i entry_ctxt_snoc [OF k(1), of K V opts fs] e k(2) by simp
  moreover have "push_field (ff_map uc col K V) ?s f = with_entry (entry_push uc K V False f) i ?s"
    unfolding push_field_map [OF k(1)] using t by (simp add: map_ctxt_def)
  moreover have "(map_state uc opts (fs @ [f]) (es[i := x]) :: ('a, 'b, 'x) MapContext) = ?s\<lparr>mc_entries := es[i := x]\<rparr>" for x
    unfolding map_state_def ks map_names_snoc using k by (simp add: bad_slot_Nil)
  moreover have "mc_entries ?s = es" by (simp add: map_state_def)
  ultimately show ?thesis using i len by (simp add: with_entry_def ks option.map_comp comp_def)
qed

lemma map_push_new:
  fixes K :: "('a, 'd, 'x, 's) FromForm" and V :: "('b, 'd, 'x, 't) FromForm"
  assumes k: "slot_key (slot uc f) = Some k" "k \<notin> set (entry_keys uc fs)"
    and es: "those (map (entry_ctxt uc K V opts fs) (entry_keys uc fs)) = Some es"
  shows "push_field (ff_map uc col K V) (map_state uc opts fs es) f =
    map_option (map_state uc opts (fs @ [f])) (those (map (entry_ctxt uc K V opts (fs @ [f])) (entry_keys uc (fs @ [f]))))"
proof -
  let ?ks = "entry_keys uc fs" and ?s = "map_state uc opts fs es :: ('a, 'b, 'x) MapContext"
  let ?init = "(ff_init K opts, ff_init V opts)" and ?ks' = "entry_keys uc (fs @ [f])"
  have len: "length es = length ?ks" using those_length [OF es] by simp
  have t: "im_get id k (mc_table ?s) = None" using k by (simp add: map_state_def im_get_zip_None)
  have ks: "?ks' = ?ks @ [k]" using k by (simp add: entry_keys_snoc)
  have m: "map (entry_ctxt uc K V opts (fs @ [f])) ?ks = map (entry_ctxt uc K V opts fs) ?ks"
    using k by (auto intro!: entry_ctxt_other)
  have r: "those (map (entry_ctxt uc K V opts (fs @ [f])) ?ks') =
      map_option (\<lambda>e. es @ [e]) (entry_push uc K V True f ?init)"
    using es k by (simp add: ks those_snoc m entry_ctxt_snoc [OF k(1)] entry_ctxt_absent)
  have "map_ctxt K V k (field_name f) ?s =
      (length es, map_state uc opts (fs @ [f]) (es @ [?init]))"
    unfolding map_ctxt_def t
    by (simp add: map_state_def ks map_names_snoc entry_name_new k im_insert_zip len bad_slot_Nil Let_def)
  then have q: "push_field (ff_map uc col K V) ?s f =
      with_entry (entry_push uc K V True f) (length es) (map_state uc opts (fs @ [f]) (es @ [?init]))"
    unfolding push_field_map [OF k(1)] using t by simp
  have u: "(map_state uc opts (fs @ [f]) xs)\<lparr>mc_entries := ys\<rparr> = (map_state uc opts (fs @ [f]) ys :: ('a, 'b, 'x) MapContext)"
      "mc_entries (map_state uc opts (fs @ [f]) xs :: ('a, 'b, 'x) MapContext) = xs" for xs ys
    by (simp_all add: map_state_def)
  show ?thesis unfolding q r by (simp add: with_entry_def u option.map_comp comp_def)
qed

lemma map_push_all:
  "push_all (push_field (ff_map uc col K V)) (map_new opts) fs =
     map_option (map_state uc opts fs) (those (map (entry_ctxt uc K V opts fs) (entry_keys uc fs)))"
proof (induction fs rule: rev_induct)
  case Nil
  show ?case by (simp add: map_new_def map_state_def entry_keys_def firsts_def)
next
  case (snoc f fs)
  let ?g = "\<lambda>fs. entry_ctxt uc K V opts fs" and ?ks = "entry_keys uc fs" and ?ks' = "entry_keys uc (fs @ [f])"
  show ?case
  proof (cases "those (map (?g fs) ?ks)")
    case None
    then obtain k where k: "k \<in> set ?ks" "?g fs k = None" by (auto simp: those_None)
    then have "?g (fs @ [f]) k = None"
      by (cases "slot_key (slot uc f) = Some k") (simp_all add: entry_ctxt_snoc entry_ctxt_other)
    moreover have "k \<in> set ?ks'" using k by (auto simp: entry_keys_snoc split: option.split)
    ultimately have "those (map (?g (fs @ [f])) ?ks') = None" by (force simp: those_None)
    then show ?thesis using snoc None by (simp add: push_all_append)
  next
    case (Some es)
    then have p: "push_all (push_field (ff_map uc col K V)) (map_new opts) (fs @ [f]) =
        push_field (ff_map uc col K V) (map_state uc opts fs es) f"
      using snoc by (simp add: push_all_append)
    show ?thesis
    proof (cases "slot_key (slot uc f)")
      case None
      then have b: "slot uc f = Nowhere" by (cases "slot uc f") auto
      have m: "map (?g (fs @ [f])) ?ks = map (?g fs) ?ks" using None by (simp add: entry_ctxt_other)
      have ks: "?ks' = ?ks" using None by (simp add: entry_keys_snoc)
      show ?thesis unfolding p ks m using Some b
        by (simp add: push_field_map_bad map_state_def map_names_snoc ks)
    next
      case (Some k)
      then show ?thesis using p map_push_known map_push_new \<open>those (map (?g fs) ?ks) = Some es\<close> by metis
    qed
  qed
qed

section \<open>Maps\<close>

text \<open>The results of the key and the value of an entry.\<close>

definition entry_run ::
  "uncased_key \<Rightarrow> ('a, 'd, 'x, 's) FromForm \<Rightarrow> ('b, 'd, 'x, 't) FromForm \<Rightarrow> Options \<Rightarrow> 'd field list \<Rightarrow> str \<Rightarrow>
    (('s, 'x) form_result \<times> ('t, 'x) form_result) option" where
  "entry_run uc K V opts fs k =
     Option.bind (form_run K opts (key_fields uc k fs)) (\<lambda>rk.
       map_option (\<lambda>rv. (rk, rv)) (form_run V opts (val_fields uc k fs)))"

definition map_collect ::
  "(('s \<times> 't) list \<Rightarrow> 'm) \<Rightarrow> Options \<Rightarrow> 'x Errors \<Rightarrow> NameView list \<Rightarrow> str list \<Rightarrow>
    (('s, 'x) form_result \<times> ('t, 'x) form_result) list \<Rightarrow> ('m, 'x) form_result" where
  "map_collect col opts bad names ks rs =
     (let errors = bad @ concat (map (\<lambda>(n, k, rk, rv). entry_errors n k rk rv) (zip names (zip ks rs)))
      in if errors \<noteq> [] then Err errors
         else if opt_strict opts \<and> ks = [] then Err [error_from Missing]
         else Ok (col (concat (map (\<lambda>(rk, rv). entry_pair rk rv) rs))))"

definition entry_finalize ::
  "('a, 'd, 'x, 's) FromForm \<Rightarrow> ('b, 'd, 'x, 't) FromForm \<Rightarrow> 'a \<times> 'b \<Rightarrow>
    (('s, 'x) form_result \<times> ('t, 'x) form_result) option" where
  "entry_finalize K V e = Option.bind (ff_finalize K (fst e)) (\<lambda>a. map_option (\<lambda>b. (a, b)) (ff_finalize V (snd e)))"

lemma entry_run_finalize: "Option.bind (entry_ctxt uc K V opts fs k) (entry_finalize K V) = entry_run uc K V opts fs k"
  by (auto simp: entry_ctxt_def entry_run_def entry_finalize_def form_run_def split: Option.bind_split)

lemma map_finalize_loop_spec:
  fixes K :: "('a, 'd, 'x, 's) FromForm" and V :: "('b, 'd, 'x, 't) FromForm"
  shows "length es = length ks \<Longrightarrow> length ks = length names \<Longrightarrow>
    map_finalize_loop K V (zip es (zip names ks)) errors =
      map_option (\<lambda>rs. (concat (map (\<lambda>(rk, rv). entry_pair rk rv) rs),
          errors @ concat (map (\<lambda>(n, k, rk, rv). entry_errors n k rk rv) (zip names (zip ks rs)))))
        (those (map (entry_finalize K V) es))"
proof (induction es ks names arbitrary: errors rule: list_induct3)
  case (Cons e es k ks n names)
  obtain a b where e: "e = (a, b)" by (cases e)
  have en: "entry_errors n k rk rv =
      (case rk of Inl x \<Rightarrow> errors_set_name (buf_from_parts (parent n) (Owned (''k:'' @ k))) x | Inr _ \<Rightarrow> [])
      @ (case rv of Inl x \<Rightarrow> errors_set_name (buf_from_parts (parent n) (Borrowed k)) x | Inr _ \<Rightarrow> [])"
    for rk :: "('s, 'x) form_result" and rv :: "('t, 'x) form_result"
    by (cases rk; cases rv) (simp_all add: entry_errors_def errors_set_name_def)
  show ?case
    by (cases "ff_finalize K a"; cases "ff_finalize V b")
      (simp_all add: e entry_finalize_def Cons.IH option.map_comp comp_def en entry_pair_def)
qed simp

text \<open>
  C35. A map parsed from fields (\<open>HashMap<K, V>\<close>, \<open>BTreeMap<K, V>\<close>) has one entry for each key that occurs, in the
  order of first occurrence.  A field \<open>name[key]\<close> or \<open>name[v:key]\<close> belongs to the value of the entry, \<open>name[k:key]\<close> to its
  key, which is the text of the key itself when the entry starts with a plain field; both are parsed on their own, from
  exactly these fields.  All errors are reported, those of misplaced fields first, and an empty map is an error only when
  parsing strictly.
\<close>

theorem map_form_spec:
  "form_run (ff_map uc col K V) opts fs =
     map_option (map_collect col opts (concat (map (bad_slot uc) fs)) (map (entry_name uc fs) (entry_keys uc fs)) (entry_keys uc fs))
       (those (map (entry_run uc K V opts fs) (entry_keys uc fs)))"
proof -
  let ?ks = "entry_keys uc fs"
  let ?loop = "\<lambda>es. map_finalize_loop K V (zip es (zip (map (entry_name uc fs) ?ks) ?ks)) (concat (map (bad_slot uc) fs))"
  let ?done = "\<lambda>(pairs, errors). if errors \<noteq> [] then Err errors
      else if opt_strict opts \<and> ?ks = [] then Err [error_from Missing] else Ok (col pairs)"
  have i: "ff_init (ff_map uc col K V) = map_new" and e: "ff_finalize (ff_map uc col K V) = map_finalize K V col"
    by (simp_all add: ff_map_def)
  have "form_run (ff_map uc col K V) opts fs =
      Option.bind (those (map (entry_ctxt uc K V opts fs) ?ks)) (\<lambda>es. map_finalize K V col (map_state uc opts fs es))"
    unfolding form_run_def i e map_push_all by (cases "those (map (entry_ctxt uc K V opts fs) ?ks)") simp_all
  also have "\<dots> = Option.bind (those (map (entry_ctxt uc K V opts fs) ?ks)) (\<lambda>es. map_option ?done (?loop es))"
    unfolding map_finalize_def map_state_sel ..
  also have "\<dots> = Option.bind (those (map (entry_ctxt uc K V opts fs) ?ks)) (\<lambda>es.
      map_option (map_collect col opts (concat (map (bad_slot uc) fs)) (map (entry_name uc fs) ?ks) ?ks)
        (those (map2 (\<lambda>_. entry_finalize K V) ?ks es)))"
  proof (rule Option.bind_cong [OF refl])
    fix es assume "those (map (entry_ctxt uc K V opts fs) ?ks) = Some es"
    then have len: "length es = length ?ks" using those_length by fastforce
    then have "map2 (\<lambda>_. entry_finalize K V) ?ks es = map (entry_finalize K V) es"
      by (auto intro: nth_equalityI)
    then show "map_option ?done (?loop es) =
        map_option (map_collect col opts (concat (map (bad_slot uc) fs)) (map (entry_name uc fs) ?ks) ?ks)
          (those (map2 (\<lambda>_. entry_finalize K V) ?ks es))"
      using len by (cases "those (map (entry_finalize K V) es)")
        (simp_all add: map_finalize_loop_spec map_collect_def Let_def)
  qed
  also have "\<dots> = map_option (map_collect col opts (concat (map (bad_slot uc) fs)) (map (entry_name uc fs) ?ks) ?ks)
      (those (map (entry_run uc K V opts fs) ?ks))"
    unfolding entry_run_finalize [symmetric] those_bind [symmetric] map_option_bind comp_def ..
  finally show ?thesis .
qed

end
