(* ===== verification/FormGuards.thy ===== *)
theory FormGuards
  imports FormMaps
begin

text \<open>
  That parsing a form always returns, as a contract of the types it is parsed to, and what a contextual value
  (\<open>core/lib/src/form/context.rs\<close>) remembers of a form.
\<close>

section \<open>Forms that return\<close>

text \<open>A type that is parsed, from whatever fields, without panic and without running forever.\<close>

locale total_form =
  fixes T :: "('c, 'd, 'x, 't) FromForm"
  assumes returns: "form_run T opts fs \<noteq> None"
begin

lemma obtain_result: obtains r where "form_run T opts fs = Some r"
  using returns [of opts fs] by auto

lemma vec_returns: "total_form (ff_vec T)"
proof
  fix opts and fs :: "'d field list"
  have "None \<notin> set (map (\<lambda>g. form_run T opts (map shift_field g)) (key_runs fs))"
    using returns by (auto simp: image_iff) (metis option.distinct(1))
  then show "form_run (ff_vec T) opts fs \<noteq> None"
    by (simp add: vec_form_spec those_None del: set_map)
qed

lemma option_returns: "total_form (ff_option T)"
  by unfold_locales (use returns in \<open>simp add: option_form_spec\<close>)

lemma strict_returns: "total_form (ff_strict T)"
  by unfold_locales (use returns in \<open>simp add: strict_form_spec\<close>)

lemma lenient_returns: "total_form (ff_lenient T)"
  by unfold_locales (use returns in \<open>simp add: lenient_form_spec\<close>)

end

locale two_forms = left: total_form A + right: total_form B
  for A :: "('a, 'd, 'x, 's) FromForm" and B :: "('b, 'd, 'x, 't) FromForm"
begin

lemma pair_returns: "total_form (ff_pair A B)"
proof
  fix opts and fs :: "'d field list"
  obtain l where "form_run A opts (half ''0'' fs) = Some l" using left.obtain_result .
  moreover obtain r where "form_run B opts (half ''1'' fs) = Some r" using right.obtain_result .
  ultimately show "form_run (ff_pair A B) opts fs \<noteq> None" by (simp add: pair_form_spec)
qed

lemma map_returns: "total_form (ff_map uc col A B)"
proof
  fix opts and fs :: "'d field list"
  have "entry_run uc A B opts fs k \<noteq> None" for k
  proof -
    obtain a where "form_run A opts (key_fields uc k fs) = Some a" using left.obtain_result .
    moreover obtain b where "form_run B opts (val_fields uc k fs) = Some b" using right.obtain_result .
    ultimately show ?thesis by (simp add: entry_run_def)
  qed
  then have "None \<notin> set (map (entry_run uc A B opts fs) (entry_keys uc fs))"
    by (auto simp: image_iff) (metis option.distinct(1))
  then show "form_run (ff_map uc col A B) opts fs \<noteq> None"
    by (simp add: map_form_spec those_None del: set_map)
qed

end

interpretation field: total_form "ff_field F" for F
  by unfold_locales (simp add: field_form_spec)

interpretation fields: two_forms "ff_field F" "ff_field G" for F G
  by unfold_locales

interpretation field_vec: total_form "ff_vec (ff_field F)" for F
  by (rule field.vec_returns)

interpretation field_to_vec: two_forms "ff_field F" "ff_vec (ff_field G)" for F G
  by unfold_locales

text \<open>
  C38. Parsing a form returns: whatever the fields and their names are, the contexts of vectors, pairs, maps and maps
  to vectors of single values do not panic and end.
\<close>

theorem form_parsing_returns:
  "(\<exists>r. parse_iter (ff_vec (ff_field F)) fs = Some r)
    \<and> (\<exists>r. parse_iter (ff_pair (ff_field F) (ff_field G)) fs = Some r)
    \<and> (\<exists>r. parse_iter (ff_map uc col (ff_field F) (ff_field G)) fs = Some r)
    \<and> (\<exists>r. parse_iter (ff_map uc col' (ff_field F) (ff_vec (ff_field G))) fs = Some r)"
  unfolding parse_iter_run
  using field_vec.returns [of F Lenient "map Inl fs"]
    total_form.returns [OF fields.pair_returns, of F G Lenient "map Inl fs"]
    total_form.returns [OF fields.map_returns, of uc col F G Lenient "map Inl fs"]
    total_form.returns [OF field_to_vec.map_returns, of uc col' F G Lenient "map Inl fs"]
  by simp

section \<open>Contextual values\<close>

definition finite_field :: "'d field \<Rightarrow> bool" where
  "finite_field f = (name_keys (FormFields.source (field_name f)) \<noteq> None)"

definition values_named :: "str \<Rightarrow> 'd field list \<Rightarrow> str list" where
  "values_named n fs =
     concat (map (\<lambda>f. case f of
         Inl v \<Rightarrow> if name_keys (FormFields.source (vf_name v)) = name_keys n then [vf_value v] else []
       | Inr _ \<Rightarrow> []) fs)"

definition values_of :: "str \<Rightarrow> 'x Context \<Rightarrow> str list" where
  "values_of n c = (case im_get name_keys n (cx_values c) of Some vs \<Rightarrow> vs | None \<Rightarrow> [])"

definition has_data_field :: "str \<Rightarrow> 'x Context \<Rightarrow> bool" where
  "has_data_field n c = (name_keys n \<in> name_keys ` set (cx_data_fields c))"

definition data_named :: "str \<Rightarrow> 'd field list \<Rightarrow> bool" where
  "data_named n fs = (\<exists>d. Inr d \<in> set fs \<and> name_keys (FormFields.source (df_name d)) = name_keys n)"

text \<open>What a push into a contextual context does beside pushing into the context of the value.\<close>

lemma contextual_push:
  assumes "finite_field f"
  obtains cx' where
    "push_field (ff_contextual T) (c, cx) f = map_option (\<lambda>c. (c, cx')) (push_field T c f)"
    and "\<And>n. values_of n cx' = values_of n cx @ values_named n [f]"
    and "\<And>n. has_data_field n cx' \<longleftrightarrow> has_data_field n cx \<or> data_named n [f]"
    and "cx_errors cx' = cx_errors cx" and "cx_form_errors cx' = cx_form_errors cx" and "cx_status cx' = cx_status cx"
proof (cases f)
  case (Inl v)
  let ?n = "FormFields.source (vf_name v)"
  let ?cx = "cx\<lparr>cx_values := im_entry name_keys ?n [] (\<lambda>vs. vs @ [vf_value v]) (cx_values cx)\<rparr>"
  have p: "push_field (ff_contextual T) (c, cx) f = map_option (\<lambda>c. (c, ?cx)) (push_field T c f)"
    using assms Inl
    by (auto simp: push_field_def ff_contextual_def contextual_push_value_def finite_field_def field_name_def Let_def)
  have "values_of n ?cx = values_of n cx @ values_named n [f]" for n
    using Inl by (auto simp: values_of_def values_named_def im_get_entry split: option.split)
  moreover have "has_data_field n ?cx \<longleftrightarrow> has_data_field n cx \<or> data_named n [f]" for n
    using Inl by (simp add: has_data_field_def data_named_def)
  ultimately show ?thesis using p by (intro that [OF p]) simp_all
next
  case (Inr d)
  let ?n = "FormFields.source (df_name d)"
  let ?cx = "if name_keys ?n \<in> set (map name_keys (cx_data_fields cx)) then cx
      else cx\<lparr>cx_data_fields := cx_data_fields cx @ [?n]\<rparr>"
  have p: "push_field (ff_contextual T) (c, cx) f = map_option (\<lambda>c. (c, ?cx)) (push_field T c f)"
    using assms Inr
    by (auto simp: push_field_def ff_contextual_def contextual_push_data_def finite_field_def field_name_def Let_def)
  have "values_of n ?cx = values_of n cx @ values_named n [f]" for n
    using Inr by (simp add: values_of_def values_named_def)
  moreover have "has_data_field n ?cx \<longleftrightarrow> has_data_field n cx \<or> data_named n [f]" for n
    using Inr by (auto simp: has_data_field_def data_named_def)
  ultimately show ?thesis using p by (intro that [OF p]) simp_all
qed

lemma values_named_Cons: "values_named n (f # fs) = values_named n [f] @ values_named n fs"
  by (simp add: values_named_def)

lemma data_named_Cons: "data_named n (f # fs) \<longleftrightarrow> data_named n [f] \<or> data_named n fs"
  by (auto simp: data_named_def)

lemma contextual_push_all:
  assumes "list_all finite_field fs"
  shows "\<exists>cx'. push_all (push_field (ff_contextual T)) (c, cx) fs =
      map_option (\<lambda>c. (c, cx')) (push_all (push_field T) c fs)
    \<and> (\<forall>n. values_of n cx' = values_of n cx @ values_named n fs)
    \<and> (\<forall>n. has_data_field n cx' \<longleftrightarrow> has_data_field n cx \<or> data_named n fs)
    \<and> cx_errors cx' = cx_errors cx \<and> cx_form_errors cx' = cx_form_errors cx \<and> cx_status cx' = cx_status cx"
  using assms
proof (induction fs arbitrary: c cx)
  case Nil
  then show ?case by (intro exI [of _ cx]) (simp add: values_named_def data_named_def)
next
  case (Cons f fs)
  then have f: "finite_field f" and fs: "list_all finite_field fs" by simp_all
  obtain cx1 where 1: "push_field (ff_contextual T) (c, cx) f = map_option (\<lambda>c. (c, cx1)) (push_field T c f)"
    "\<And>n. values_of n cx1 = values_of n cx @ values_named n [f]"
    "\<And>n. has_data_field n cx1 \<longleftrightarrow> has_data_field n cx \<or> data_named n [f]"
    "cx_errors cx1 = cx_errors cx" "cx_form_errors cx1 = cx_form_errors cx" "cx_status cx1 = cx_status cx"
    using contextual_push [OF f, of T c cx] by metis
  show ?case
  proof (cases "push_field T c f")
    case None
    obtain cx' where "\<forall>n. values_of n cx' = values_of n cx1 @ values_named n fs"
      "\<forall>n. has_data_field n cx' \<longleftrightarrow> has_data_field n cx1 \<or> data_named n fs"
      "cx_errors cx' = cx_errors cx1" "cx_form_errors cx' = cx_form_errors cx1" "cx_status cx' = cx_status cx1"
      using Cons.IH [OF fs, of c cx1] by blast
    then show ?thesis using None 1 values_named_Cons [of _ f fs] data_named_Cons [of _ f fs]
      by (intro exI [of _ cx']) auto
  next
    case (Some c1)
    then show ?thesis using Cons.IH [OF fs, of c1 cx1] 1 values_named_Cons [of _ f fs] data_named_Cons [of _ f fs]
      by auto
  qed
qed

text \<open>A field whose name has endlessly many keys is never recorded.\<close>

lemma contextual_diverges: "\<not> finite_field f \<Longrightarrow> push_field (ff_contextual T) p f = None"
  by (cases f; cases p)
    (simp_all add: push_field_def ff_contextual_def contextual_push_value_def contextual_push_data_def finite_field_def
      field_name_def)

text \<open>
  C37. A contextual value (\<open>Contextual<T>\<close>) is never an error.  For fields whose names have finitely many keys it has the
  value that the form gives, if it gives one, and its context has the values of the form in order under the names of
  their fields, the names of the data fields, exactly the errors of the value, each under its own name or among those
  of the form, and the largest of their statuses.
\<close>

theorem contextual_form_spec:
  assumes "list_all finite_field fs" and "form_run T opts fs = Some r" and "list_all finite_name (errs [r])"
  shows "\<exists>ct. form_run (ff_contextual T) opts fs = Some (Ok ct)
    \<and> ct_value ct = (case r of Inr v \<Rightarrow> Some v | Inl _ \<Rightarrow> None)
    \<and> (\<forall>n. field_values n (ct_context ct) = (if name_keys n = None then None else Some (values_named n fs)))
    \<and> (\<forall>n. has_data_field n (ct_context ct) \<longleftrightarrow> data_named n fs)
    \<and> (\<forall>b. stored b (ct_context ct) = filter (named b) (errs [r]))
    \<and> cx_form_errors (ct_context ct) = filter (\<lambda>e. fe_name e = None) (errs [r])
    \<and> mset (context_errors (ct_context ct)) = mset (errs [r])
    \<and> cx_status (ct_context ct) = foldl status_max status_default (map error_status (errs [r]))"
proof -
  obtain c where c: "push_all (push_field T) (ff_init T opts) fs = Some c" "ff_finalize T c = Some r"
    using assms(2) by (auto simp: form_run_def bind_eq_Some_conv)
  obtain cx where cx: "push_all (push_field (ff_contextual T)) (ff_init T opts, context_default) fs = Some (c, cx)"
    "\<forall>n. values_of n cx = values_named n fs" "\<forall>n. has_data_field n cx \<longleftrightarrow> data_named n fs"
    "cx_errors cx = []" "cx_form_errors cx = []" "cx_status cx = status_default"
    using contextual_push_all [OF assms(1), of T "ff_init T opts" context_default] c(1)
    by (auto simp: context_default_def values_of_def has_data_field_def)
  obtain cx' where e: "push_errors cx (errs [r]) = Some cx'" "\<forall>b. stored b cx' = stored b cx @ filter (named b) (errs [r])"
    "cx_form_errors cx' = cx_form_errors cx @ filter (\<lambda>e. fe_name e = None) (errs [r])"
    "cx_status cx' = foldl status_max (cx_status cx) (map error_status (errs [r]))"
    "cx_values cx' = cx_values cx" "cx_data_fields cx' = cx_data_fields cx"
    "mset (context_errors cx') = mset (context_errors cx) + mset (errs [r])"
    using push_errors_spec [OF assms(3), of cx] by blast
  have "form_run (ff_contextual T) opts fs = contextual_finalize T (c, cx)"
    using cx(1) by (simp add: form_run_def ff_contextual_def)
  also have "\<dots> = Some (Ok \<lparr>ct_value = (case r of Inr v \<Rightarrow> Some v | Inl _ \<Rightarrow> None), ct_context = cx'\<rparr>)"
    using c(2) e(1) by (cases r) (simp_all add: contextual_finalize_def)
  finally show ?thesis
    using cx e by (intro exI [of _ "\<lparr>ct_value = _, ct_context = cx'\<rparr>"])
      (auto simp: field_values_def values_of_def has_data_field_def stored_def context_errors_def)
qed

lemma name_keys_finite: "eq_sign \<notin> set n \<Longrightarrow> name_keys n \<noteq> None"
  using no_eq_slices [of n] by (cases "slices n") (simp add: name_keys_eq)

theorem contextual_form_spec_witness:
  "\<exists>ct. form_run (ff_contextual (ff_field (parse_field Ok :: (unit, unit, str) FromFormField))) Lenient
      (map Inl (form_values ''a=1&a=2'')) = Some (Ok ct)
    \<and> ct_value ct = Some ''1'' \<and> field_values ''a'' (ct_context ct) = Some [''1'', ''2'']
    \<and> context_errors (ct_context ct) = [] \<and> cx_status (ct_context ct) = status_new 200"
proof -
  let ?f = "\<lambda>v. \<lparr>vf_name = \<lparr>nv_name = ''a'', nv_start = 0, nv_end = 1\<rparr>, vf_value = v\<rparr>"
  let ?fs = "[Inl (?f ''1''), Inl (?f ''2'')] :: unit field list"
  let ?T = "ff_field (parse_field Ok :: (unit, unit, str) FromFormField)"
  have fs: "map Inl (form_values ''a=1&a=2'') = ?fs"
    by (simp add: form_values_def field_parse_def value_field_from_def view_new_def shift_def shift_len_def
        split_at_byte_def is_ascii_def start_delim_def)
  have k: "name_keys ''a'' \<noteq> None" by (rule name_keys_finite) simp
  have r: "form_run ?T Lenient ?fs = Some (Ok ''1'')"
    by (simp add: field_form_spec counts_def field_result_def parse_field_def Lenient_def)
  have "list_all finite_field ?fs" using k by (simp add: finite_field_def field_name_def FormFields.source_def)
  from contextual_form_spec [OF this r] show ?thesis unfolding fs
    using k by (auto simp: values_named_def FormFields.source_def status_default_def)
qed

end
