(* ===== verification/EventLines.thy ===== *)
theory EventLines
  imports Prelude
begin

text \<open>
  The lines of a server-sent event (\<open>core/lib/src/response/stream/raw_sse.rs\<close>): a field with a name and a value that
  is read, byte by byte if need be, as one line \<open>name:value\<close> for each line of the value.

  The cursors over the name and the value are byte strings with a position, the value's with the limit of \<open>Take\<close>; the
  buffer of a read is the bytes written so far and the room that is left.  Positions and lengths are those of byte
  strings in memory, natural numbers that the 64-bit counters of the code hold.  The loop of \<open>poll_read\<close> is partial: it
  does not end in a state whose limit lies behind the end of the value, which no constructor makes.
\<close>

section \<open>Model\<close>

abbreviation LF :: byte where "LF \<equiv> CHR 0x0A"
abbreviation CR :: byte where "CR \<equiv> CHR 0x0D"
abbreviation colon :: byte where "colon \<equiv> CHR '':''"
abbreviation space :: byte where "space \<equiv> CHR '' ''"

datatype LineState = State_Name | State_Colon | State_Value | State_NewLine | State_Done

record RawLinedEvent =
  re_name :: str
  re_name_pos :: nat
  re_value :: str
  re_pos :: nat
  re_limit :: nat
  re_state :: LineState

text \<open>\<open>farm\<close> is the same bytes; \<open>to_mut\<close> makes the string owned.\<close>

function farm_loop :: "(byte \<Rightarrow> bool) \<Rightarrow> nat \<Rightarrow> str cow \<Rightarrow> str cow" where
  "farm_loop bad i cow =
     (if i < length (cow_val cow) then
        (case find_index bad (drop i (cow_val cow)) of
           Some k \<Rightarrow> farm_loop bad (i + k + 1) (Owned ((cow_val cow)[i + k := space]))
         | None \<Rightarrow> cow)
      else cow)"
  by pat_completeness auto
termination
  by (relation "measure (\<lambda>(bad, i, cow). length (cow_val cow) - i)") auto

declare farm_loop.simps [simp del]

definition farm_name :: "str cow \<Rightarrow> str cow" where
  "farm_name cow = farm_loop (\<lambda>b. b = CR \<or> b = LF \<or> b = colon) 0 cow"

definition farm_value :: "str cow \<Rightarrow> str cow" where
  "farm_value cow = farm_loop (\<lambda>b. b = CR \<or> b = LF) 0 cow"

definition is_newline :: "byte \<Rightarrow> bool" where
  "is_newline b = (b = LF \<or> b = CR)"

definition advance :: "RawLinedEvent \<Rightarrow> RawLinedEvent" where
  "advance self =
     (let pos = min (length (re_value self)) (re_pos self);
          inner = re_value self;
          next = (case find_index is_newline (drop pos inner) of Some i \<Rightarrow> pos + i | None \<Rightarrow> length inner)
      in self\<lparr>re_limit := next - pos\<rparr>)"

definition skip :: "RawLinedEvent \<Rightarrow> RawLinedEvent" where
  "skip self =
     (let pos = min (length (re_value self)) (re_pos self)
      in case drop pos (re_value self) of
           b # rest \<Rightarrow>
             if b = LF then self\<lparr>re_pos := pos + 1\<rparr>
             else if b = CR then
               (case rest of
                  c # _ \<Rightarrow> if c = LF then self\<lparr>re_pos := pos + 2\<rparr> else self\<lparr>re_pos := pos + 1\<rparr>
                | [] \<Rightarrow> self\<lparr>re_pos := pos + 1\<rparr>)
             else self
         | [] \<Rightarrow> self)"

definition prefarmed :: "str \<Rightarrow> str \<Rightarrow> RawLinedEvent" where
  "prefarmed name value =
     advance \<lparr>re_name = name, re_name_pos = 0, re_value = value, re_pos = 0, re_limit = 0, re_state = State_Name\<rparr>"

definition event_one :: "str cow \<Rightarrow> str cow \<Rightarrow> RawLinedEvent" where
  "event_one name value = prefarmed (cow_val (farm_name name)) (cow_val (farm_value value))"

definition event_many :: "str cow \<Rightarrow> str cow \<Rightarrow> RawLinedEvent" where
  "event_many name value = prefarmed (cow_val (farm_name name)) (cow_val value)"

definition event_raw :: "str cow \<Rightarrow> RawLinedEvent" where
  "event_raw value =
     \<lparr>re_name = [], re_name_pos = 0, re_value = cow_val value, re_pos = 0, re_limit = length (cow_val value),
      re_state = State_Value\<rparr>"

text \<open>
  Reading from a cursor, and from a cursor under a limit: as many of the bytes after the position as there is room for.
\<close>

definition read_name :: "nat \<Rightarrow> RawLinedEvent \<Rightarrow> str \<times> RawLinedEvent" where
  "read_name room self =
     (let bs = take room (drop (re_name_pos self) (re_name self))
      in (bs, self\<lparr>re_name_pos := re_name_pos self + length bs\<rparr>))"

definition read_value :: "nat \<Rightarrow> RawLinedEvent \<Rightarrow> str \<times> RawLinedEvent" where
  "read_value room self =
     (let bs = take (min (re_limit self) room) (drop (re_pos self) (re_value self))
      in (bs, self\<lparr>re_pos := re_pos self + length bs, re_limit := re_limit self - length bs\<rparr>))"

partial_function (option) line_poll_read :: "RawLinedEvent \<Rightarrow> nat \<Rightarrow> str \<Rightarrow> (str \<times> RawLinedEvent) option" where
  "line_poll_read self room buf =
     (if room = 0 then Some (buf, self)
      else case re_state self of
        State_Name \<Rightarrow>
          (let (bs, self) = read_name room self;
               self = (if length (re_name self) \<le> re_name_pos self
                       then self\<lparr>re_name_pos := 0, re_state := State_Colon\<rparr> else self)
           in line_poll_read self (room - length bs) (buf @ bs))
      | State_Colon \<Rightarrow> line_poll_read (self\<lparr>re_state := State_Value\<rparr>) (room - 1) (buf @ [colon])
      | State_Value \<Rightarrow>
          (let (bs, self) = read_value room self;
               self = (if re_limit self = 0 then self\<lparr>re_state := State_NewLine\<rparr> else self)
           in line_poll_read self (room - length bs) (buf @ bs))
      | State_NewLine \<Rightarrow>
          (let self = (if re_pos self < length (re_value self)
                       then (advance (skip self))\<lparr>re_state := State_Name\<rparr>
                       else self\<lparr>re_state := State_Done\<rparr>)
           in line_poll_read self (room - 1) (buf @ [LF]))
      | State_Done \<Rightarrow> Some (buf, self))"

section \<open>Farmed names and values\<close>

lemma find_index_split:
  "find_index P xs = Some k \<Longrightarrow> k < length xs \<and> P (xs ! k) \<and> (\<forall>x \<in> set (take k xs). \<not> P x)"
proof (induction xs arbitrary: k)
  case (Cons x xs)
  then show ?case by (cases k) (auto split: if_splits)
qed simp

lemma farm_loop_map:
  "cow_val (farm_loop bad i cow) =
     take i (cow_val cow) @ map (\<lambda>b. if bad b then space else b) (drop i (cow_val cow))"
proof (induction bad i cow rule: farm_loop.induct)
  case (1 bad i cow)
  let ?s = "cow_val cow" and ?f = "\<lambda>b. if bad b then space else b"
  consider (stop) "\<not> i < length ?s" | (none) "i < length ?s" "find_index bad (drop i ?s) = None"
    | (some) k where "i < length ?s" "find_index bad (drop i ?s) = Some k" by blast
  then show ?case
  proof cases
    case none
    then have "map ?f (drop i ?s) = drop i ?s" by (intro map_idI) (auto simp: find_index_None)
    then show ?thesis using none by (subst farm_loop.simps) simp
  next
    case some
    note k = find_index_split [OF some(2)]
    then have s: "drop i ?s = take k (drop i ?s) @ ?s ! (i + k) # drop (i + k + 1) ?s"
      by (metis (no_types, lifting) Cons_nth_drop_Suc Suc_eq_plus1 append_take_drop_id drop_drop length_drop less_diff_conv
          add.commute nth_drop less_or_eq_imp_le some(1))
    have bad: "i + k < length ?s" "bad (?s ! (i + k))" using k some(1) by auto
    have id: "map ?f (take k (drop i ?s)) = take k (drop i ?s)" using k by (intro map_idI) auto
    have "cow_val (farm_loop bad i cow) =
        take (i + k + 1) (?s[i + k := space]) @ map ?f (drop (i + k + 1) (?s[i + k := space]))"
      using some 1 by (subst farm_loop.simps) simp
    also have "\<dots> = take i ?s @ map ?f (take k (drop i ?s) @ ?s ! (i + k) # drop (i + k + 1) ?s)"
      using k some(1) by (simp add: id bad take_Suc_conv_app_nth [of "i + k"] take_add drop_update_swap)
    finally show ?thesis by (simp only: s [symmetric])
  qed (subst farm_loop.simps, simp)
qed

lemma farm_name_map: "cow_val (farm_name c) = map (\<lambda>b. if is_newline b \<or> b = colon then space else b) (cow_val c)"
  by (simp add: farm_name_def farm_loop_map is_newline_def disj_ac)

lemma farm_value_map: "cow_val (farm_value c) = map (\<lambda>b. if is_newline b then space else b) (cow_val c)"
  by (simp add: farm_value_def farm_loop_map is_newline_def disj_commute)

section \<open>What is read\<close>

text \<open>The lines of a text, which end at a line feed, a carriage return or both.\<close>

fun lines_of :: "str \<Rightarrow> str list" where
  "lines_of [] = [[]]"
| "lines_of (b # s) =
     (if b = LF then [] # lines_of s
      else if b = CR then [] # lines_of (if s \<noteq> [] \<and> hd s = LF then tl s else s)
      else (case lines_of s of l # ls \<Rightarrow> (b # l) # ls | [] \<Rightarrow> []))"

fun after_newline :: "str \<Rightarrow> str" where
  "after_newline [] = []"
| "after_newline (b # s) =
     (if b = LF then s else if b = CR then (if s \<noteq> [] \<and> hd s = LF then tl s else s) else b # s)"

definition field_bytes :: "str \<Rightarrow> str \<Rightarrow> str" where
  "field_bytes name value = concat (map (\<lambda>l. name @ colon # l @ [LF]) (lines_of value))"

definition line_end :: "RawLinedEvent \<Rightarrow> nat \<Rightarrow> str" where
  "line_end self p =
     LF # (if p < length (re_value self) then field_bytes (re_name self) (after_newline (drop p (re_value self))) else [])"

text \<open>The bytes that are still to be read.\<close>

definition line_rest :: "RawLinedEvent \<Rightarrow> str" where
  "line_rest self =
     (let value = take (re_limit self) (drop (re_pos self) (re_value self)) @ line_end self (re_pos self + re_limit self)
      in case re_state self of
           State_Name \<Rightarrow> drop (re_name_pos self) (re_name self) @ colon # value
         | State_Colon \<Rightarrow> colon # value
         | State_Value \<Rightarrow> value
         | State_NewLine \<Rightarrow> line_end self (re_pos self)
         | State_Done \<Rightarrow> [])"

definition line_wf :: "RawLinedEvent \<Rightarrow> bool" where
  "line_wf self =
     (re_name_pos self \<le> length (re_name self)
      \<and> re_pos self + re_limit self \<le> length (re_value self)
      \<and> (re_pos self + re_limit self < length (re_value self) \<longrightarrow>
            is_newline (re_value self ! (re_pos self + re_limit self)))
      \<and> (re_state self \<noteq> State_Name \<longrightarrow> re_name_pos self = 0)
      \<and> (re_state self = State_NewLine \<longrightarrow> re_limit self = 0))"

lemma lines_of_not_Nil [simp]: "lines_of s \<noteq> []"
  by (induction s rule: lines_of.induct) (auto split: list.splits)

lemma lines_of_next:
  "lines_of s = (case find_index is_newline s of
     None \<Rightarrow> [s] | Some i \<Rightarrow> take i s # lines_of (after_newline (drop i s)))"
proof (induction s)
  case (Cons b s)
  show ?case
  proof (cases "is_newline b")
    case True
    then show ?thesis by (auto simp: is_newline_def)
  next
    case False
    then have "b \<noteq> LF" "b \<noteq> CR" by (simp_all add: is_newline_def)
    then show ?thesis using Cons False by (cases "find_index is_newline s") simp_all
  qed
qed simp

lemma after_newline_shorter: "s \<noteq> [] \<Longrightarrow> is_newline (hd s) \<Longrightarrow> length (after_newline s) < length s"
  by (cases s) (auto simp: is_newline_def)

lemma skip_eq:
  assumes "re_pos self < length (re_value self)" and "is_newline (re_value self ! re_pos self)"
  shows "\<exists>p. skip self = self\<lparr>re_pos := p\<rparr> \<and> re_pos self < p \<and> p \<le> length (re_value self)
    \<and> drop p (re_value self) = after_newline (drop (re_pos self) (re_value self))"
proof -
  let ?p = "re_pos self" and ?v = "re_value self"
  have d: "drop ?p ?v = ?v ! ?p # drop (Suc ?p) ?v" using assms(1) by (simp add: Cons_nth_drop_Suc)
  show ?thesis
  proof (cases "?v ! ?p \<noteq> LF \<and> drop (Suc ?p) ?v \<noteq> [] \<and> hd (drop (Suc ?p) ?v) = LF")
    case True
    then have "drop (Suc ?p) ?v = LF # drop (?p + 2) ?v" by (cases "drop (Suc ?p) ?v") (auto simp: drop_Suc tl_drop [symmetric])
    moreover have "?p + 2 \<le> length ?v" using True by simp
    ultimately show ?thesis using True d assms by (intro exI [of _ "?p + 2"]) (auto simp: skip_def is_newline_def)
  next
    case False
    then show ?thesis using d assms
      by (intro exI [of _ "?p + 1"]) (auto simp: skip_def is_newline_def Let_def split: list.splits)
  qed
qed

lemma advance_eq:
  assumes "re_pos self \<le> length (re_value self)"
  shows "\<exists>n. advance self = self\<lparr>re_limit := n\<rparr> \<and> re_pos self + n \<le> length (re_value self)
    \<and> (re_pos self + n < length (re_value self) \<longrightarrow> is_newline (re_value self ! (re_pos self + n)))
    \<and> field_bytes (re_name self) (drop (re_pos self) (re_value self)) =
        re_name self @ colon # take n (drop (re_pos self) (re_value self)) @ line_end self (re_pos self + n)"
proof -
  let ?s = "drop (re_pos self) (re_value self)"
  show ?thesis
  proof (cases "find_index is_newline ?s")
    case None
    then show ?thesis using assms lines_of_next [of ?s]
      by (intro exI [of _ "length ?s"]) (simp add: advance_def field_bytes_def line_end_def Let_def min.absorb2)
  next
    case (Some i)
    note i = find_index_split [OF Some]
    then have "re_pos self + i < length (re_value self)" by auto
    then show ?thesis using Some assms lines_of_next [of ?s] i
      by (intro exI [of _ i]) (simp add: advance_def field_bytes_def line_end_def Let_def min.absorb2 add.commute)
  qed
qed

lemma prefarmed_rest: "line_wf (prefarmed name value) \<and> line_rest (prefarmed name value) = field_bytes name value"
proof -
  let ?e = "\<lparr>re_name = name, re_name_pos = 0, re_value = value, re_pos = 0, re_limit = 0, re_state = State_Name\<rparr>"
  obtain n where "advance ?e = ?e\<lparr>re_limit := n\<rparr>" "n \<le> length value" "n < length value \<longrightarrow> is_newline (value ! n)"
    "field_bytes name value = name @ colon # take n value @ line_end ?e n"
    using advance_eq [of ?e] by auto
  then show ?thesis by (simp add: prefarmed_def line_wf_def line_rest_def line_end_def Let_def)
qed

lemma event_raw_rest: "line_wf (event_raw v) \<and> line_rest (event_raw v) = cow_val v @ [LF]"
  by (simp add: event_raw_def line_wf_def line_rest_def line_end_def)

definition state_rank :: "LineState \<Rightarrow> nat" where
  "state_rank s = (case s of State_Name \<Rightarrow> 4 | State_Colon \<Rightarrow> 3 | State_Value \<Rightarrow> 2 | State_NewLine \<Rightarrow> 1 | State_Done \<Rightarrow> 0)"

definition line_work :: "RawLinedEvent \<times> nat \<Rightarrow> nat" where
  "line_work = (\<lambda>(self, room). 6 * (length (re_value self) - re_pos self) + state_rank (re_state self) + room)"

text \<open>One round of the loop writes the next bytes and leaves less to do.\<close>

definition line_round :: "nat \<Rightarrow> RawLinedEvent \<Rightarrow> str \<Rightarrow> RawLinedEvent \<Rightarrow> bool" where
  "line_round room self bs self' =
     ((\<forall>buf. line_poll_read self room buf = line_poll_read self' (room - length bs) (buf @ bs))
      \<and> length bs \<le> room \<and> line_wf self' \<and> line_rest self = bs @ line_rest self'
      \<and> line_work (self', room - length bs) < line_work (self, room))"

lemma name_round:
  assumes "line_wf self" "0 < room" "re_state self = State_Name"
  shows "\<exists>bs self'. line_round room self bs self'"
proof -
  let ?n = "drop (re_name_pos self) (re_name self)"
  let ?bs = "take room ?n"
  let ?self = "self\<lparr>re_name_pos := re_name_pos self + length ?bs\<rparr>"
  have n: "length (re_name self) \<le> re_name_pos self + length ?bs \<longleftrightarrow> length ?n \<le> room" using assms(1)
    by (auto simp: line_wf_def)
  show ?thesis
  proof (cases "length ?n \<le> room")
    case True
    then have "?bs = ?n" by simp
    then show ?thesis using True assms n
      by (intro exI [of _ ?n] exI [of _ "?self\<lparr>re_name_pos := 0, re_state := State_Colon\<rparr>"],
          simp add: line_round_def line_poll_read.simps [of self] read_name_def Let_def line_wf_def line_rest_def line_end_def
            line_work_def state_rank_def, linarith)
  next
    case False
    then show ?thesis using assms n
      by (intro exI [of _ ?bs] exI [of _ ?self],
          simp add: line_round_def line_poll_read.simps [of self] read_name_def Let_def line_wf_def line_rest_def line_end_def
            line_work_def state_rank_def flip: append_assoc,
          metis add.commute append_take_drop_id drop_drop)
  qed
qed

lemma value_round:
  assumes "line_wf self" "0 < room" "re_state self = State_Value"
  shows "\<exists>bs self'. line_round room self bs self'"
proof -
  let ?v = "drop (re_pos self) (re_value self)" and ?m = "min (re_limit self) room"
  let ?bs = "take ?m ?v"
  let ?self = "self\<lparr>re_pos := re_pos self + ?m, re_limit := re_limit self - ?m\<rparr>"
  have m: "length ?bs = ?m" "re_pos self + ?m \<le> length (re_value self)" using assms(1) by (auto simp: line_wf_def)
  have split: "take (re_limit self) ?v = ?bs @ take (re_limit self - ?m) (drop (re_pos self + ?m) (re_value self))"
    by (metis add.commute append_take_drop_id drop_drop le_add_diff_inverse min.cobounded1 take_add)
  have "line_round room self ?bs (if re_limit self - ?m = 0 then ?self\<lparr>re_state := State_NewLine\<rparr> else ?self)"
    using assms m split
    by (simp add: line_round_def line_poll_read.simps [of self] read_value_def Let_def line_wf_def line_rest_def line_end_def
        line_work_def state_rank_def del: length_take) auto
  then show ?thesis by blast
qed

lemma newline_round:
  assumes "line_wf self" "0 < room" "re_state self = State_NewLine"
  shows "line_round room self [LF] (if re_pos self < length (re_value self)
    then (advance (skip self))\<lparr>re_state := State_Name\<rparr> else self\<lparr>re_state := State_Done\<rparr>)"
proof (cases "re_pos self < length (re_value self)")
  case False
  then show ?thesis using assms
    by (simp add: line_round_def line_poll_read.simps [of self] line_wf_def line_rest_def line_end_def line_work_def
        state_rank_def)
next
  case True
  moreover have "is_newline (re_value self ! re_pos self)" using assms True by (auto simp: line_wf_def)
  ultimately obtain p where p: "skip self = self\<lparr>re_pos := p\<rparr>" "re_pos self < p" "p \<le> length (re_value self)"
    "drop p (re_value self) = after_newline (drop (re_pos self) (re_value self))"
    using skip_eq by blast
  obtain n where n: "advance (self\<lparr>re_pos := p\<rparr>) = self\<lparr>re_pos := p, re_limit := n\<rparr>" "p + n \<le> length (re_value self)"
    "p + n < length (re_value self) \<longrightarrow> is_newline (re_value self ! (p + n))"
    "field_bytes (re_name self) (drop p (re_value self)) =
       re_name self @ colon # take n (drop p (re_value self)) @ line_end (self\<lparr>re_pos := p\<rparr>) (p + n)"
    using advance_eq [of "self\<lparr>re_pos := p\<rparr>"] p(3) by auto
  have "6 * (length (re_value self) - p) + 4 + (room - 1) < 6 * (length (re_value self) - re_pos self) + 1 + room"
    using p assms(2) True by linarith
  then show ?thesis using assms True p n
    by (simp add: line_round_def line_poll_read.simps [of self] line_wf_def line_rest_def line_end_def line_work_def
        state_rank_def Let_def)
qed

lemma colon_round:
  "line_wf self \<Longrightarrow> 0 < room \<Longrightarrow> re_state self = State_Colon \<Longrightarrow>
    line_round room self [colon] (self\<lparr>re_state := State_Value\<rparr>)"
  by (simp add: line_round_def line_poll_read.simps [of self] line_wf_def line_rest_def line_end_def line_work_def
      state_rank_def Let_def)

lemma line_reads:
  "line_wf self \<Longrightarrow>
    \<exists>self'. line_poll_read self room buf = Some (buf @ take room (line_rest self), self')
      \<and> line_wf self' \<and> line_rest self' = drop room (line_rest self)"
proof (induction "line_work (self, room)" arbitrary: self room buf rule: less_induct)
  case less
  show ?case
  proof (cases "room = 0 \<or> re_state self = State_Done")
    case True
    then show ?thesis using less.prems by (auto simp: line_poll_read.simps [of self] line_rest_def)
  next
    case False
    then have "0 < room" by simp
    note wf = less.prems this
    have "\<exists>bs self'. line_round room self bs self'"
    proof (cases "re_state self")
      case State_Name
      then show ?thesis by (rule name_round [OF wf])
    next
      case State_Colon
      then show ?thesis using colon_round [OF wf] by blast
    next
      case State_Value
      then show ?thesis by (rule value_round [OF wf])
    next
      case State_NewLine
      then show ?thesis using newline_round [OF wf] by blast
    qed (use False in simp)
    then obtain bs self' where "line_round room self bs self'" by blast
    then show ?thesis using less.hyps [of self' "room - length bs" "buf @ bs"] by (auto simp: line_round_def)
  qed
qed

lemma lines_of_plain: "list_all (\<lambda>b. \<not> is_newline b) s \<Longrightarrow> lines_of s = [s]"
  using find_index_None [of is_newline s] by (simp add: lines_of_next [of s] list_all_iff)

definition farmed :: "str \<Rightarrow> str" where
  "farmed v = map (\<lambda>b. if is_newline b then space else b) v"

definition farmed_name :: "str \<Rightarrow> str" where
  "farmed_name n = map (\<lambda>b. if is_newline b \<or> b = colon then space else b) n"

lemma farmed_plain: "list_all (\<lambda>b. \<not> is_newline b) (farmed v)"
  by (auto simp: farmed_def list_all_iff is_newline_def)

lemma event_many_rest:
  "line_wf (event_many n v) \<and> line_rest (event_many n v) = field_bytes (farmed_name (cow_val n)) (cow_val v)"
  by (simp add: event_many_def prefarmed_rest farm_name_map farmed_name_def)

lemma event_one_rest:
  "line_wf (event_one n v)
    \<and> line_rest (event_one n v) = farmed_name (cow_val n) @ colon # farmed (cow_val v) @ [LF]"
  using lines_of_plain [OF farmed_plain, of "cow_val v"]
  by (simp add: event_one_def prefarmed_rest farm_name_map farm_value_map field_bytes_def farmed_name_def farmed_def)

text \<open>Reads one after another, each with its own room.\<close>

fun line_read_all :: "nat list \<Rightarrow> RawLinedEvent \<Rightarrow> str option" where
  "line_read_all [] self = Some []"
| "line_read_all (room # rooms) self =
     (case line_poll_read self room [] of
        None \<Rightarrow> None
      | Some (bs, self) \<Rightarrow> map_option (\<lambda>cs. bs @ cs) (line_read_all rooms self))"

lemma line_read_all_rest: "line_wf self \<Longrightarrow> line_read_all rooms self = Some (take (sum_list rooms) (line_rest self))"
proof (induction rooms arbitrary: self)
  case (Cons room rooms)
  obtain self' where "line_poll_read self room [] = Some (take room (line_rest self), self')" "line_wf self'"
    "line_rest self' = drop room (line_rest self)"
    using line_reads [OF Cons.prems, of room "[]"] by auto
  then show ?case using Cons.IH [of self'] by (simp add: take_add)
qed simp

section \<open>Properties\<close>

text \<open>
  Reading a line of an event (\<open>RawLinedEvent::one\<close>, \<open>many\<close>, \<open>raw\<close> and their \<open>poll_read\<close>): however the reads are cut
  into pieces they return, never fail, and give the same bytes in order, which are \<open>name:line\<close> and a line feed for every
  line of the value.  Line breaks and colons in a name, and line breaks in the value of \<open>one\<close>, are spaces, so that no
  name and no such value starts a line of its own.
\<close>

theorem event_lines_read:
  "line_read_all rooms (event_many n v) =
      Some (take (sum_list rooms) (concat (map (\<lambda>l. farmed_name (cow_val n) @ colon # l @ [LF]) (lines_of (cow_val v)))))
    \<and> line_read_all rooms (event_one n v) =
      Some (take (sum_list rooms) (farmed_name (cow_val n) @ colon # farmed (cow_val v) @ [LF]))
    \<and> line_read_all rooms (event_raw v) = Some (take (sum_list rooms) (cow_val v @ [LF]))
    \<and> list_all (\<lambda>b. \<not> is_newline b \<and> b \<noteq> colon) (farmed_name (cow_val n))
    \<and> list_all (\<lambda>l. list_all (\<lambda>b. \<not> is_newline b) l) (farmed (cow_val v) # lines_of (cow_val v))"
proof -
  have "list_all (\<lambda>l. list_all (\<lambda>b. \<not> is_newline b) l) (lines_of s)" for s
    by (induction s rule: lines_of.induct) (auto simp: is_newline_def split: list.splits)
  then show ?thesis
    using line_read_all_rest [of "event_many n v" rooms] line_read_all_rest [of "event_one n v" rooms]
      line_read_all_rest [of "event_raw v" rooms] event_many_rest [of n v] event_one_rest [of n v] event_raw_rest [of v]
      farmed_plain
    by (simp add: field_bytes_def) (auto simp: farmed_name_def list_all_iff is_newline_def)
qed

end
