(* ===== verification/EventStreams.thy ===== *)
theory EventStreams
  imports EventLines ResponseModel
begin

text \<open>
  Response streams (\<open>core/lib/src/response/stream\<close>: \<open>one.rs\<close>, \<open>reader.rs\<close>, \<open>bytes.rs\<close>, \<open>text.rs\<close>, \<open>sse.rs\<close>;
  \<open>core/lib/src/util/join.rs\<close>): a stream of readers read as one, and server-sent events with their heartbeats.

  A stream is a state and a function that polls it; a reader a state and a function that reads with some room.  The
  locale \<open>ready_reader\<close> states what the readers of these streams promise: a read is ready and gives the next
  bytes.  The stream of the user, the interval of the heartbeats and \<open>flatten\<close> of the crate \<open>futures\<close> are parameters.
  What a client makes of the bytes is the event stream interpretation of the HTML standard.
\<close>

section \<open>Model: streams of readers\<close>

datatype 'a Poll = Pending | Ready 'a

type_synonym ('s, 'a) stream = "'s \<Rightarrow> 'a option Poll \<times> 's"
type_synonym ('r, 'e) poll_reader = "nat \<Rightarrow> 'r \<Rightarrow> ((str, 'e) result Poll \<times> 'r) option"

datatype 'a One = One "'a option"

definition one_from :: "'a \<Rightarrow> 'a One" where
  "one_from value = One (Some value)"

fun one_poll_next :: "('a One, 'a) stream" where
  "one_poll_next (One v) = (Ready v, One None)"

datatype 'r ReaderState = RS_Pending | RS_Reading 'r | RS_Done

record ('s, 'r) ReaderStream =
  rs_stream :: 's
  rs_state :: "'r ReaderState"

definition rs_from :: "'s \<Rightarrow> ('s, 'r) ReaderStream" where
  "rs_from stream = \<lparr>rs_stream = stream, rs_state = RS_Pending\<rparr>"

definition rs_one :: "'r \<Rightarrow> ('r One, 'r) ReaderStream" where
  "rs_one reader = rs_from (one_from reader)"

partial_function (option) rs_poll_read ::
  "('s, 'r) stream \<Rightarrow> ('r, 'e) poll_reader \<Rightarrow> nat \<Rightarrow> ('s, 'r) ReaderStream \<Rightarrow>
    ((str, 'e) result Poll \<times> ('s, 'r) ReaderStream) option" where
  "rs_poll_read next read room me =
     (case rs_state me of
        RS_Pending \<Rightarrow>
          (case next (rs_stream me) of (p, s) \<Rightarrow>
             (case p of
                Pending \<Rightarrow> Some (Pending, me\<lparr>rs_stream := s\<rparr>)
              | Ready item \<Rightarrow>
                  (case item of
                     None \<Rightarrow> rs_poll_read next read room (me\<lparr>rs_stream := s, rs_state := RS_Done\<rparr>)
                   | Some reader \<Rightarrow> rs_poll_read next read room (me\<lparr>rs_stream := s, rs_state := RS_Reading reader\<rparr>))))
      | RS_Reading reader \<Rightarrow>
          Option.bind (read room reader) (\<lambda>(p, reader).
             if p = Ready (Ok []) then rs_poll_read next read room (me\<lparr>rs_state := RS_Pending\<rparr>)
             else Some (p, me\<lparr>rs_state := RS_Reading reader\<rparr>))
      | RS_Done \<Rightarrow> Some (Ready (Ok []), me))"

text \<open>The reader of a line, and a cursor over bytes.\<close>

definition line_read :: "(RawLinedEvent, 'e) poll_reader" where
  "line_read room self = map_option (\<lambda>(bs, self). (Ready (Ok bs), self)) (line_poll_read self room [])"

definition cursor_read :: "(str \<times> nat, 'e) poll_reader" where
  "cursor_read room self =
     (case self of (s, pos) \<Rightarrow> let bs = take room (drop pos s) in Some (Ready (Ok bs), (s, pos + length bs)))"

text \<open>\<open>map(Cursor::new)\<close> of a stream of bytes or text.\<close>

definition map_next :: "('a \<Rightarrow> 'b) \<Rightarrow> ('s, 'a) stream \<Rightarrow> ('s, 'b) stream" where
  "map_next f next s = (case next s of (Pending, s) \<Rightarrow> (Pending, s) | (Ready v, s) \<Rightarrow> (Ready (map_option f v), s))"

definition reader_stream_respond_to :: "(('s, 'r) ReaderStream \<Rightarrow> 'b) \<Rightarrow> ('s, 'r) ReaderStream \<Rightarrow> ('b, 'io) Response" where
  "reader_stream_respond_to mk self = fst (builder_finalize (builder_streamed_body (mk self) build))"

definition typed_stream_respond_to ::
  "uncased_key \<Rightarrow> MediaType \<Rightarrow> (('s, str \<times> nat) ReaderStream \<Rightarrow> 'b) \<Rightarrow> 's \<Rightarrow> ('b, 'io) Response" where
  "typed_stream_respond_to uc mt mk stream =
     (let (n, v) = content_type_header (ContentType mt)
      in fst (builder_finalize (builder_streamed_body (mk (rs_from stream)) (builder_header uc (header_new n v) build))))"

definition text_stream_respond_to ::
  "uncased_key \<Rightarrow> (('s, str \<times> nat) ReaderStream \<Rightarrow> 'b) \<Rightarrow> 's \<Rightarrow> ('b, 'io) Response" where
  "text_stream_respond_to uc mk stream = typed_stream_respond_to uc MT_Text mk stream"

definition byte_stream_respond_to ::
  "uncased_key \<Rightarrow> (('s, str \<times> nat) ReaderStream \<Rightarrow> 'b) \<Rightarrow> 's \<Rightarrow> ('b, 'io) Response" where
  "byte_stream_respond_to uc mk stream = typed_stream_respond_to uc MT_Binary mk stream"

section \<open>Model: joined streams\<close>

record ('a, 'b) Join =
  jn_a :: 'a
  jn_b :: "'b option"
  jn_done :: bool

definition join_new :: "'a \<Rightarrow> 'b \<Rightarrow> ('a, 'b) Join" where
  "join_new a b = \<lparr>jn_a = a, jn_b = Some b, jn_done = False\<rparr>"

definition join_poll_next :: "('a, 'i) stream \<Rightarrow> ('b, 'i) stream \<Rightarrow> (('a, 'b) Join, 'i) stream" where
  "join_poll_next next_a next_b self =
     (if jn_done self then (Ready None, self)
      else case next_a (jn_a self) of
        (Ready opt, a) \<Rightarrow> (Ready opt, self\<lparr>jn_a := a, jn_done := (opt = None)\<rparr>)
      | (Pending, a) \<Rightarrow>
          (case jn_b self of
             None \<Rightarrow> (Pending, self\<lparr>jn_a := a\<rparr>)
           | Some b \<Rightarrow>
               (case next_b b of
                  (Pending, b) \<Rightarrow> (Pending, self\<lparr>jn_a := a, jn_b := Some b\<rparr>)
                | (Ready (Some value), b) \<Rightarrow> (Ready (Some value), self\<lparr>jn_a := a, jn_b := Some b\<rparr>)
                | (Ready None, b) \<Rightarrow> (Pending, self\<lparr>jn_a := a, jn_b := None\<rparr>))))"

type_synonym hint = "64 word \<times> 64 word option"

definition saturating_add :: "64 word \<Rightarrow> 64 word \<Rightarrow> 64 word" where
  "saturating_add a b = (if unat a + unat b < 2 ^ 64 then a + b else - 1)"

definition checked_add :: "64 word \<Rightarrow> 64 word \<Rightarrow> 64 word option" where
  "checked_add a b = (if unat a + unat b < 2 ^ 64 then Some (a + b) else None)"

definition join_size_hint :: "('a \<Rightarrow> hint) \<Rightarrow> ('b \<Rightarrow> hint) \<Rightarrow> ('a, 'b) Join \<Rightarrow> hint" where
  "join_size_hint hint_a hint_b self =
     (let (left_low, left_high) = hint_a (jn_a self);
          (right_low, right_high) = (case jn_b self of Some b \<Rightarrow> hint_b b | None \<Rightarrow> (0, None));
          low = saturating_add left_low right_low;
          high = (case (left_high, right_high) of (Some h1, Some h2) \<Rightarrow> checked_add h1 h2 | _ \<Rightarrow> None)
      in (low, high))"

section \<open>Model: events\<close>

text \<open>\<open>Duration\<close> and its \<open>as_millis\<close>, which is 128 bits wide and does not overflow.\<close>

record Duration =
  du_secs :: "64 word"
  du_nanos :: "32 word"

definition as_millis :: "Duration \<Rightarrow> nat" where
  "as_millis d = unat (du_secs d) * 1000 + unat (du_nanos d) div 1000000"

record Event =
  ev_comment :: "str cow option"
  ev_retry :: "Duration option"
  ev_id :: "str cow option"
  ev_event :: "str cow option"
  ev_data :: "str cow option"

definition event_new :: Event where
  "event_new = \<lparr>ev_comment = None, ev_retry = None, ev_id = None, ev_event = None, ev_data = None\<rparr>"

definition event_of_data :: "str cow \<Rightarrow> Event" where
  "event_of_data data = event_new\<lparr>ev_data := Some data\<rparr>"

definition event_empty :: Event where
  "event_empty = event_of_data (Borrowed [])"

text \<open>\<open>to_string\<close> of \<open>serde_json\<close> is a parameter; a failure gives the empty text.\<close>

definition event_json :: "('t \<Rightarrow> str option) \<Rightarrow> 't \<Rightarrow> Event" where
  "event_json to_string data = event_of_data (Owned (case to_string data of Some s \<Rightarrow> s | None \<Rightarrow> []))"

definition event_of_comment :: "str cow \<Rightarrow> Event" where
  "event_of_comment data = event_new\<lparr>ev_comment := Some data\<rparr>"

definition event_of_retry :: "Duration \<Rightarrow> Event" where
  "event_of_retry period = event_new\<lparr>ev_retry := Some period\<rparr>"

definition event_event :: "str cow \<Rightarrow> Event \<Rightarrow> Event" where
  "event_event event self = self\<lparr>ev_event := Some event\<rparr>"

definition event_id :: "str cow \<Rightarrow> Event \<Rightarrow> Event" where
  "event_id i self = self\<lparr>ev_id := Some i\<rparr>"

definition event_with_data :: "str cow \<Rightarrow> Event \<Rightarrow> Event" where
  "event_with_data data self = self\<lparr>ev_data := Some data\<rparr>"

definition event_with_comment :: "str cow \<Rightarrow> Event \<Rightarrow> Event" where
  "event_with_comment data self = self\<lparr>ev_comment := Some data\<rparr>"

definition event_with_retry :: "Duration \<Rightarrow> Event \<Rightarrow> Event" where
  "event_with_retry period self = self\<lparr>ev_retry := Some period\<rparr>"

definition opt_list :: "'a option \<Rightarrow> 'a list" where
  "opt_list o' = (case o' of None \<Rightarrow> [] | Some x \<Rightarrow> [x])"

text \<open>The items of the stream of an event, all of which are ready at once (\<open>stream::iter\<close>).\<close>

definition event_into_stream :: "Event \<Rightarrow> RawLinedEvent list" where
  "event_into_stream self =
     concat (map opt_list
       [map_option (\<lambda>v. event_many (Borrowed '''') v) (ev_comment self),
        map_option (\<lambda>r. event_one (Borrowed ''retry'') (Owned (nat_to_string (as_millis r)))) (ev_retry self),
        map_option (\<lambda>v. event_one (Borrowed ''id'') v) (ev_id self),
        map_option (\<lambda>v. event_one (Borrowed ''event'') v) (ev_event self),
        map_option (\<lambda>v. event_many (Borrowed ''data'') v) (ev_data self),
        Some (event_raw (Borrowed ''''))])"

record 's EventStream =
  es_stream :: 's
  es_heartbeat :: "Duration option"

definition event_stream_from :: "'s \<Rightarrow> 's EventStream" where
  "event_stream_from stream = \<lparr>es_stream = stream, es_heartbeat = Some \<lparr>du_secs = 30, du_nanos = 0\<rparr>\<rparr>"

definition heartbeat :: "Duration option \<Rightarrow> 's EventStream \<Rightarrow> 's EventStream" where
  "heartbeat beat self = self\<lparr>es_heartbeat := beat\<rparr>"

text \<open>\<open>interval\<close> makes an interval of a period and \<open>tick\<close> polls it; without a period the stream is empty.\<close>

definition heartbeat_stream :: "(Duration \<Rightarrow> 'i) \<Rightarrow> 's EventStream \<Rightarrow> 'i option" where
  "heartbeat_stream interval self = map_option interval (es_heartbeat self)"

definition heartbeat_next :: "('i, 'instant) stream \<Rightarrow> ('i option, RawLinedEvent) stream" where
  "heartbeat_next tick h =
     (case h of
        None \<Rightarrow> (Ready None, None)
      | Some i \<Rightarrow> (case map_next (\<lambda>_. event_raw (Borrowed '':'')) tick i of (p, i) \<Rightarrow> (p, Some i)))"

text \<open>\<open>flatten\<close> makes the stream of the lines of the events of a stream.\<close>

definition event_stream_into_stream ::
  "('s \<Rightarrow> 'f) \<Rightarrow> (Duration \<Rightarrow> 'i) \<Rightarrow> 's EventStream \<Rightarrow> ('f, 'i option) Join" where
  "event_stream_into_stream flatten interval self =
     (let heartbeats = heartbeat_stream interval self;
          events = flatten (es_stream self)
      in join_new events heartbeats)"

definition event_stream_next ::
  "('f, RawLinedEvent) stream \<Rightarrow> ('i, 'instant) stream \<Rightarrow> (('f, 'i option) Join, RawLinedEvent) stream" where
  "event_stream_next flat_next tick = join_poll_next flat_next (heartbeat_next tick)"

definition event_stream_into_reader ::
  "('s \<Rightarrow> 'f) \<Rightarrow> (Duration \<Rightarrow> 'i) \<Rightarrow> 's EventStream \<Rightarrow> (('f, 'i option) Join, RawLinedEvent) ReaderStream" where
  "event_stream_into_reader flatten interval self = rs_from (event_stream_into_stream flatten interval self)"

definition event_stream_respond_to ::
  "uncased_key \<Rightarrow> ((('f, 'i option) Join, RawLinedEvent) ReaderStream \<Rightarrow> 'b) \<Rightarrow> ('s \<Rightarrow> 'f) \<Rightarrow> (Duration \<Rightarrow> 'i) \<Rightarrow>
    's EventStream \<Rightarrow> ('b, 'io) Response" where
  "event_stream_respond_to uc mk flatten interval self =
     (let (n, v) = content_type_header (ContentType MT_EventStream)
      in fst (builder_finalize
           (builder_streamed_body (mk (event_stream_into_reader flatten interval self))
             (builder_raw_header uc ''Expires'' ''0''
               (builder_raw_header uc ''Cache-Control'' ''no-cache''
                 (builder_header uc (header_new n v) build))))))"

section \<open>What polling a stream gives\<close>

fun polls :: "('s, 'a) stream \<Rightarrow> 's \<Rightarrow> nat \<Rightarrow> 'a option Poll list" where
  "polls next s 0 = []"
| "polls next s (Suc n) = fst (next s) # polls next (snd (next s)) n"

fun after :: "('s, 'a) stream \<Rightarrow> 's \<Rightarrow> nat \<Rightarrow> 's" where
  "after next s 0 = s"
| "after next s (Suc n) = after next (snd (next s)) n"

fun item_of :: "'a option Poll \<Rightarrow> 'a list" where
  "item_of (Ready (Some x)) = [x]"
| "item_of _ = []"

definition items :: "'a option Poll list \<Rightarrow> 'a list" where
  "items ps = concat (map item_of ps)"

lemma items_simps [simp]: "items [] = []" "items (p # ps) = item_of p @ items ps" "items (ps @ qs) = items ps @ items qs"
  by (simp_all add: items_def)

lemma polls_add: "polls next s (m + n) = polls next s m @ polls next (after next s m) n"
  by (induction m arbitrary: s) simp_all

lemma after_add: "after next s (m + n) = after next (after next s m) n"
  by (induction m arbitrary: s) simp_all

lemma length_polls [simp]: "length (polls next s n) = n"
  by (induction n arbitrary: s) simp_all

fun read_bytes :: "(str, 'e) result Poll \<Rightarrow> str" where
  "read_bytes (Ready (Inr bs)) = bs"
| "read_bytes _ = []"

text \<open>Reads one after another; no bytes are read when the stream is pending.\<close>

fun rs_read_all ::
  "('s, 'r) stream \<Rightarrow> ('r, 'e) poll_reader \<Rightarrow> nat list \<Rightarrow> ('s, 'r) ReaderStream \<Rightarrow> (str \<times> ('s, 'r) ReaderStream) option" where
  "rs_read_all next read [] me = Some ([], me)"
| "rs_read_all next read (room # rooms) me =
     (case rs_poll_read next read room me of
        None \<Rightarrow> None
      | Some (p, me) \<Rightarrow> map_option (\<lambda>(bs, me). (read_bytes p @ bs, me)) (rs_read_all next read rooms me))"

section \<open>Streams of readers that are ready\<close>

locale ready_reader =
  fixes read :: "('r, 'e) poll_reader" and content :: "'r \<Rightarrow> str" and ok :: "'r \<Rightarrow> bool"
  assumes reads: "ok r \<Longrightarrow> \<exists>r'. read room r = Some (Ready (Ok (take room (content r))), r')
      \<and> ok r' \<and> content r' = drop room (content r)"
begin

definition state_content :: "'r ReaderState \<Rightarrow> str" where
  "state_content st = (case st of RS_Reading r \<Rightarrow> content r | _ \<Rightarrow> [])"

definition state_ok :: "'r ReaderState \<Rightarrow> bool" where
  "state_ok st = (case st of RS_Reading r \<Rightarrow> ok r | _ \<Rightarrow> True)"

text \<open>A read stops at a poll that is pending, at the end, or at a reader that has bytes.\<close>

definition stops :: "'r option Poll \<Rightarrow> bool" where
  "stops p = (case p of Ready (Some r) \<Rightarrow> content r \<noteq> [] | _ \<Rightarrow> True)"

definition reads_to ::
  "('s, 'r) stream \<Rightarrow> 's \<Rightarrow> 'r ReaderState \<Rightarrow> ((str, 'e) result Poll \<times> ('s, 'r) ReaderStream) option \<Rightarrow> bool" where
  "reads_to next s st result =
     (\<exists>k p me. result = Some (p, me) \<and> (p = Pending \<or> (\<exists>bs. p = Ready (Ok bs)))
        \<and> rs_stream me = after next s k \<and> state_ok (rs_state me)
        \<and> state_content st @ concat (map content (items (polls next s k))) = read_bytes p @ state_content (rs_state me)
        \<and> (p = Ready (Ok []) \<longrightarrow> rs_state me = RS_Done))"

lemma read_reading:
  assumes "ok r" "content r \<noteq> []" "0 < room" "rs_state me = RS_Reading r"
  shows "reads_to next (rs_stream me) (RS_Reading r) (rs_poll_read next read room me)"
proof -
  obtain r' where r': "read room r = Some (Ready (Ok (take room (content r))), r')" "ok r'" "content r' = drop room (content r)"
    using reads [OF assms(1)] by blast
  then show ?thesis using assms
    by (simp add: reads_to_def rs_poll_read.simps [of "next" read room me] state_ok_def state_content_def exI [of _ 0])
qed

lemma read_pending:
  assumes "list_all ok (items (polls next s n))" "list_ex stops (polls next s n)" "0 < room"
  shows "reads_to next s RS_Pending (rs_poll_read next read room \<lparr>rs_stream = s, rs_state = RS_Pending\<rparr>)"
  using assms
proof (induction n arbitrary: s)
  case (Suc n)
  obtain p s' where p: "next s = (p, s')" by (cases "next s")
  note step = rs_poll_read.simps [of "next" read room "\<lparr>rs_stream = s, rs_state = RS_Pending\<rparr>"]
  consider (wait) "p = Pending" | (stop) "p = Ready None"
    | (empty) r where "p = Ready (Some r)" "content r = []" | (more) r where "p = Ready (Some r)" "content r \<noteq> []"
    by (metis Poll.exhaust option.exhaust)
  then show ?case
  proof cases
    case wait
    then show ?thesis by (auto simp: reads_to_def step p state_ok_def state_content_def intro!: exI [of _ 1])
  next
    case stop
    then show ?thesis
      by (auto simp: reads_to_def step p state_ok_def state_content_def intro!: exI [of _ 1])
        (simp add: rs_poll_read.simps [of "next" read room "\<lparr>rs_stream = s', rs_state = RS_Done\<rparr>"])
  next
    case (empty r)
    then have "ok r" using Suc.prems p by simp
    then obtain r' where "read room r = Some (Ready (Ok []), r')" using reads [of r room] empty by auto
    then have eq: "rs_poll_read next read room \<lparr>rs_stream = s, rs_state = RS_Pending\<rparr> =
        rs_poll_read next read room \<lparr>rs_stream = s', rs_state = RS_Pending\<rparr>"
      using empty by (simp add: step p rs_poll_read.simps [of "next" read room "\<lparr>rs_stream = s', rs_state = RS_Reading r\<rparr>"])
    have "reads_to next s' RS_Pending (rs_poll_read next read room \<lparr>rs_stream = s', rs_state = RS_Pending\<rparr>)"
      using Suc p empty by (simp add: stops_def)
    then obtain k q me where k: "rs_poll_read next read room \<lparr>rs_stream = s', rs_state = RS_Pending\<rparr> = Some (q, me)"
      "q = Pending \<or> (\<exists>bs. q = Ready (Ok bs))" "rs_stream me = after next s' k" "state_ok (rs_state me)"
      "concat (map content (items (polls next s' k))) = read_bytes q @ state_content (rs_state me)"
      "q = Ready (Ok []) \<longrightarrow> rs_state me = RS_Done"
      by (auto simp: reads_to_def state_content_def)
    then show ?thesis unfolding reads_to_def eq using empty p
      by (intro exI [of _ "Suc k"] exI [of _ q] exI [of _ me]) (simp add: state_content_def)
  next
    case (more r)
    have "reads_to next s' (RS_Reading r) (rs_poll_read next read room \<lparr>rs_stream = s', rs_state = RS_Reading r\<rparr>)"
      using read_reading [of r room "\<lparr>rs_stream = s', rs_state = RS_Reading r\<rparr>" "next"] more p Suc.prems by simp
    moreover have "rs_poll_read next read room \<lparr>rs_stream = s, rs_state = RS_Pending\<rparr> =
        rs_poll_read next read room \<lparr>rs_stream = s', rs_state = RS_Reading r\<rparr>"
      using more by (simp add: step p)
    ultimately obtain k q me where k: "rs_poll_read next read room \<lparr>rs_stream = s, rs_state = RS_Pending\<rparr> = Some (q, me)"
      "q = Pending \<or> (\<exists>bs. q = Ready (Ok bs))" "rs_stream me = after next s' k" "state_ok (rs_state me)"
      "content r @ concat (map content (items (polls next s' k))) = read_bytes q @ state_content (rs_state me)"
      "q = Ready (Ok []) \<longrightarrow> rs_state me = RS_Done"
      by (auto simp: reads_to_def state_content_def)
    then show ?thesis unfolding reads_to_def using more p
      by (intro exI [of _ "Suc k"] exI [of _ q] exI [of _ me]) (simp add: state_content_def)
  qed
qed simp

text \<open>However often the stream has been polled, it comes to a poll at which a read stops.\<close>

definition productive :: "('s, 'r) stream \<Rightarrow> 's \<Rightarrow> bool" where
  "productive next s = (\<forall>m. list_all ok (items (polls next s m)) \<and> (\<exists>n. list_ex stops (polls next (after next s m) n)))"

lemma productive_after: "productive next s \<Longrightarrow> productive next (after next s k)"
  unfolding productive_def by (metis after_add append_is_Nil_conv items_simps(3) list_all_append polls_add)

lemma read_once:
  assumes "productive next (rs_stream me)" "state_ok (rs_state me)" "0 < room"
  shows "reads_to next (rs_stream me) (rs_state me) (rs_poll_read next read room me)"
proof (cases "rs_state me")
  case RS_Pending
  obtain n where "list_ex stops (polls next (rs_stream me) n)" "list_all ok (items (polls next (rs_stream me) n))"
    using assms(1) unfolding productive_def by (metis after.simps(1))
  then show ?thesis using read_pending assms(3) RS_Pending by (metis ReaderStream.surjective old.unit.exhaust)
next
  case (RS_Reading r)
  show ?thesis
  proof (cases "content r = []")
    case True
    let ?me = "me\<lparr>rs_state := RS_Pending\<rparr>"
    obtain n where "list_ex stops (polls next (rs_stream me) n)" "list_all ok (items (polls next (rs_stream me) n))"
      using assms(1) unfolding productive_def by (metis after.simps(1))
    then have "reads_to next (rs_stream me) RS_Pending (rs_poll_read next read room ?me)"
      using read_pending [of "next" "rs_stream me" n room] assms(3) by (cases me) simp
    moreover have "rs_poll_read next read room me = rs_poll_read next read room ?me"
      using reads [of r room] True assms(2) RS_Reading
      by (auto simp: rs_poll_read.simps [of "next" read room me] state_ok_def)
    ultimately show ?thesis using True RS_Reading by (simp add: reads_to_def state_content_def)
  next
    case False
    then show ?thesis using read_reading [of r room me "next"] assms RS_Reading by (simp add: state_ok_def)
  qed
next
  case RS_Done
  then show ?thesis
    by (simp add: reads_to_def rs_poll_read.simps [of "next" read room me] state_ok_def state_content_def exI [of _ 0])
qed

text \<open>What has been read and what the current reader still has is the content of the readers in order.\<close>

lemma read_all:
  assumes "productive next (rs_stream me)" "state_ok (rs_state me)" "list_all (\<lambda>room. 0 < room) rooms"
  shows "\<exists>k bs me'. rs_read_all next read rooms me = Some (bs, me') \<and> rs_stream me' = after next (rs_stream me) k
    \<and> state_content (rs_state me) @ concat (map content (items (polls next (rs_stream me) k)))
        = bs @ state_content (rs_state me')"
  using assms
proof (induction rooms arbitrary: me)
  case Nil
  then show ?case by (simp add: exI [of _ 0])
next
  case (Cons room rooms)
  have "reads_to next (rs_stream me) (rs_state me) (rs_poll_read next read room me)"
    by (rule read_once) (use Cons.prems in simp_all)
  then obtain k p me1 where k: "rs_poll_read next read room me = Some (p, me1)" "rs_stream me1 = after next (rs_stream me) k"
    "state_ok (rs_state me1)"
    "state_content (rs_state me) @ concat (map content (items (polls next (rs_stream me) k)))
       = read_bytes p @ state_content (rs_state me1)"
    unfolding reads_to_def by blast
  obtain k' bs me' where k': "rs_read_all next read rooms me1 = Some (bs, me')" "rs_stream me' = after next (rs_stream me1) k'"
    "state_content (rs_state me1) @ concat (map content (items (polls next (rs_stream me1) k')))
       = bs @ state_content (rs_state me')"
    using Cons.IH [of me1] Cons.prems productive_after [OF Cons.prems(1), of k] k by auto
  show ?case
    by (rule exI [of _ "k + k'"]) (use k k' in \<open>simp add: polls_add after_add flip: append_assoc, simp\<close>)
qed

end

interpretation lines: ready_reader line_read line_rest line_wf
proof
  fix r :: RawLinedEvent and room
  assume "line_wf r"
  then obtain r' where "line_poll_read r room [] = Some (take room (line_rest r), r')" "line_wf r'"
    "line_rest r' = drop room (line_rest r)"
    using line_reads [of r room "[]"] by auto
  then show "\<exists>r'. line_read room r = Some (Ready (Ok (take room (line_rest r))), r') \<and> line_wf r'
      \<and> line_rest r' = drop room (line_rest r)"
    by (simp add: line_read_def)
qed

interpretation cursors: ready_reader cursor_read "\<lambda>(s, pos). drop pos s" "\<lambda>_. True"
  by unfold_locales (auto simp: cursor_read_def Let_def drop_take min_def add.commute)

section \<open>What a client receives\<close>

text \<open>
  The interpretation of an event stream by a client: lines that end in the stream are taken one by one; a line without a
  name is a comment, \<open>data\<close> collects lines, an empty line dispatches a message if there is data, and one space after the
  colon does not belong to the value.
\<close>

record Message =
  msg_type :: str
  msg_data :: str
  msg_id :: str

record Client =
  cl_type :: str
  cl_data :: str
  cl_id :: str
  cl_retry :: "nat option"

fun unspace :: "str \<Rightarrow> str" where
  "unspace [] = []"
| "unspace (b # s) = (if b = space then s else b # s)"

definition client_field :: "str \<Rightarrow> str \<Rightarrow> Client \<Rightarrow> Client" where
  "client_field name value c =
     (if name = ''event'' then c\<lparr>cl_type := value\<rparr>
      else if name = ''data'' then c\<lparr>cl_data := cl_data c @ value @ [LF]\<rparr>
      else if name = ''id'' then (if CHR 0x00 \<in> set value then c else c\<lparr>cl_id := value\<rparr>)
      else if name = ''retry'' \<and> value \<noteq> [] \<and> list_all (\<lambda>b. 48 \<le> (of_char b :: nat) \<and> of_char b \<le> (57 :: nat)) value
           then c\<lparr>cl_retry := Some (digits_value value)\<rparr>
      else c)"

definition client_line :: "str \<Rightarrow> Client \<Rightarrow> Message list \<times> Client" where
  "client_line l c =
     (if l = [] then
        (if cl_data c = [] then [] else [\<lparr>msg_type = cl_type c, msg_data = butlast (cl_data c), msg_id = cl_id c\<rparr>],
         c\<lparr>cl_type := [], cl_data := []\<rparr>)
      else case split_once colon l of
        Some (name, value) \<Rightarrow> ([], if name = [] then c else client_field name (unspace value) c)
      | None \<Rightarrow> ([], client_field l [] c))"

fun client_lines :: "str list \<Rightarrow> Client \<Rightarrow> Message list \<times> Client" where
  "client_lines [] c = ([], c)"
| "client_lines (l # ls) c =
     (let (ms, c) = client_line l c; (ms', c) = client_lines ls c in (ms @ ms', c))"

definition client_bytes :: "str \<Rightarrow> Client \<Rightarrow> Message list \<times> Client" where
  "client_bytes bs c = client_lines (butlast (lines_of bs)) c"

text \<open>What an event says: the message it carries, if it has data, and the state it leaves.\<close>

definition event_id_after :: "Event \<Rightarrow> str \<Rightarrow> str" where
  "event_id_after e i =
     (case ev_id e of
        Some v \<Rightarrow> if CHR 0x00 \<in> set (unspace (farmed (cow_val v))) then i else unspace (farmed (cow_val v))
      | None \<Rightarrow> i)"

definition event_messages :: "Event \<Rightarrow> str \<Rightarrow> Message list" where
  "event_messages e i =
     (case ev_data e of
        Some d \<Rightarrow>
          [\<lparr>msg_type = (case ev_event e of Some v \<Rightarrow> unspace (farmed (cow_val v)) | None \<Rightarrow> []),
            msg_data = join LF (map unspace (lines_of (cow_val d))), msg_id = event_id_after e i\<rparr>]
      | None \<Rightarrow> [])"

definition event_after :: "Event \<Rightarrow> Client \<Rightarrow> Client" where
  "event_after e c =
     \<lparr>cl_type = [], cl_data = [], cl_id = event_id_after e (cl_id c),
      cl_retry = (case ev_retry e of Some d \<Rightarrow> Some (as_millis d) | None \<Rightarrow> cl_retry c)\<rparr>"

fun messages_of :: "Event list \<Rightarrow> Client \<Rightarrow> Message list \<times> Client" where
  "messages_of [] c = ([], c)"
| "messages_of (e # es) c =
     (let (ms, c') = messages_of es (event_after e c) in (event_messages e (cl_id c) @ ms, c'))"

definition fresh :: "Client \<Rightarrow> bool" where
  "fresh c = (cl_type c = [] \<and> cl_data c = [])"

definition unlines :: "str list \<Rightarrow> str" where
  "unlines ls = concat (map (\<lambda>l. l @ [LF]) ls)"

lemma lines_of_line: "list_all (\<lambda>b. \<not> is_newline b) l \<Longrightarrow> lines_of (l @ LF # s) = l # lines_of s"
  by (induction l) (auto simp: is_newline_def)

lemma lines_of_unlines:
  "list_all (list_all (\<lambda>b. \<not> is_newline b)) ls \<Longrightarrow> lines_of (unlines ls) = ls @ [[]]"
  by (induction ls) (simp_all add: unlines_def lines_of_line)

lemma client_lines_append:
  "client_lines (xs @ ys) c =
     (let (ms, c) = client_lines xs c; (ms', c) = client_lines ys c in (ms @ ms', c))"
  by (induction xs arbitrary: c) (auto simp: split_beta Let_def)

definition field_lines :: "str \<Rightarrow> str list \<Rightarrow> str list" where
  "field_lines name vs = map (\<lambda>v. name @ colon # v) vs"

definition event_lines :: "Event \<Rightarrow> str list" where
  "event_lines e =
     (case ev_comment e of Some v \<Rightarrow> field_lines [] (lines_of (cow_val v)) | None \<Rightarrow> [])
     @ (case ev_retry e of Some d \<Rightarrow> field_lines ''retry'' [nat_to_string (as_millis d)] | None \<Rightarrow> [])
     @ (case ev_id e of Some v \<Rightarrow> field_lines ''id'' [farmed (cow_val v)] | None \<Rightarrow> [])
     @ (case ev_event e of Some v \<Rightarrow> field_lines ''event'' [farmed (cow_val v)] | None \<Rightarrow> [])
     @ (case ev_data e of Some v \<Rightarrow> field_lines ''data'' (lines_of (cow_val v)) | None \<Rightarrow> [])
     @ [[]]"

lemma nat_to_string_plain: "farmed (nat_to_string n) = nat_to_string n"
  using nat_to_string_value [of n] unfolding farmed_def
  by (intro map_idI) (auto simp: list_all_iff is_newline_def)

lemma field_name_plain:
  "farmed_name [] = []" "farmed_name ''retry'' = ''retry''" "farmed_name ''id'' = ''id''"
  "farmed_name ''event'' = ''event''" "farmed_name ''data'' = ''data''"
  by (simp_all add: farmed_name_def is_newline_def)

lemma unlines_append: "unlines (xs @ ys) = unlines xs @ unlines ys"
  by (simp add: unlines_def)

lemma field_bytes_lines: "field_bytes name v = unlines (field_lines name (lines_of v))"
  by (simp add: field_bytes_def unlines_def field_lines_def comp_def)

lemma event_bytes: "concat (map line_rest (event_into_stream e)) = unlines (event_lines e)"
  by (simp add: event_into_stream_def event_lines_def event_many_rest event_one_rest event_raw_rest field_name_plain
      nat_to_string_plain field_bytes_lines unlines_append opt_list_def split: option.splits)
    (simp add: unlines_def field_lines_def)

lemma lines_plain: "list_all (list_all (\<lambda>b. \<not> is_newline b)) (lines_of s)"
  by (induction s rule: lines_of.induct) (auto simp: is_newline_def split: list.splits)

lemma event_lines_plain: "list_all (list_all (\<lambda>b. \<not> is_newline b)) (event_lines e)"
  using lines_plain farmed_plain nat_to_string_plain farmed_plain [of "nat_to_string n" for n]
  by (auto simp: event_lines_def field_lines_def list.pred_map comp_def is_newline_def split: option.splits)

lemma client_line_field:
  "colon \<notin> set name \<Longrightarrow> name \<noteq> [] \<Longrightarrow> client_line (name @ colon # v) c = ([], client_field name (unspace v) c)"
  using split_once_Some [of colon "name @ colon # v" name v] by (simp add: client_line_def)

lemma client_comments: "client_lines (field_lines [] vs) c = ([], c)"
  by (induction vs) (simp_all add: field_lines_def client_line_def)

lemma client_data:
  "client_lines (field_lines ''data'' vs) c =
     ([], c\<lparr>cl_data := cl_data c @ unlines (map unspace vs)\<rparr>)"
  by (induction vs arbitrary: c)
    (simp_all add: field_lines_def client_line_field [of "''data''", simplified] client_field_def unlines_def)

lemma butlast_unlines: "ls \<noteq> [] \<Longrightarrow> butlast (unlines ls) = join LF ls \<and> unlines ls \<noteq> []"
proof (induction ls)
  case (Cons l ls)
  then show ?case by (cases ls) (simp_all add: unlines_def butlast_append)
qed simp

lemma unspace_digits: "unspace (nat_to_string n) = nat_to_string n"
  using nat_to_string_value [of n] nat_to_string_nonempty [of n] by (cases "nat_to_string n") auto

lemma client_one:
  "colon \<notin> set name \<Longrightarrow> name \<noteq> [] \<Longrightarrow>
    client_lines (field_lines name [v]) c = ([], client_field name (unspace v) c)"
  by (simp add: field_lines_def client_line_field)

lemma client_event:
  assumes "fresh c"
  shows "client_lines (event_lines e) c = (event_messages e (cl_id c), event_after e c)"
proof -
  have d: "list_all (\<lambda>b. 48 \<le> (of_char b :: nat) \<and> of_char b \<le> (57 :: nat)) (nat_to_string n)"
    "digits_value (nat_to_string n) = n" for n
    using nat_to_string_value by auto
  have r: "client_lines (field_lines ''retry'' [nat_to_string n]) c = ([], c\<lparr>cl_retry := Some n\<rparr>)" for n c
    by (subst client_one) (simp_all add: client_field_def unspace_digits nat_to_string_nonempty d)
  have i: "client_lines (field_lines ''id'' [v]) c =
      ([], if CHR 0x00 \<in> set (unspace v) then c else c\<lparr>cl_id := unspace v\<rparr>)" for v c
    by (subst client_one) (simp_all add: client_field_def)
  have t: "client_lines (field_lines ''event'' [v]) c = ([], c\<lparr>cl_type := unspace v\<rparr>)" for v c
    by (subst client_one) (simp_all add: client_field_def)
  have b: "butlast (unlines (map unspace (lines_of v))) = join LF (map unspace (lines_of v))"
    "unlines (map unspace (lines_of v)) \<noteq> []" for v
    using butlast_unlines [of "map unspace (lines_of v)"] by simp_all
  show ?thesis using assms
    by (cases c)
      (simp add: event_lines_def client_lines_append client_comments r i t client_data client_line_def b fresh_def
        event_messages_def event_id_after_def event_after_def split: option.splits)
qed

section \<open>Events and heartbeats\<close>

text \<open>The polls of a flattened stream of events, of which \<open>None\<close> is a poll that is pending.\<close>

definition line_polls :: "Event option \<Rightarrow> RawLinedEvent option Poll list" where
  "line_polls p = (case p of None \<Rightarrow> [Pending] | Some e \<Rightarrow> map (\<lambda>l. Ready (Some l)) (event_into_stream e))"

definition beat :: RawLinedEvent where
  "beat = event_raw (Borrowed '':'')"

text \<open>The lines of the events, with a heartbeat or not whenever the stream is pending.\<close>

definition beaten :: "Event option \<times> bool \<Rightarrow> RawLinedEvent list" where
  "beaten pb = (case fst pb of Some e \<Rightarrow> event_into_stream e | None \<Rightarrow> if snd pb then [beat] else [])"

lemma join_ready:
  "\<not> jn_done j \<Longrightarrow> polls next_a (jn_a j) (length xs) = map (\<lambda>x. Ready (Some x)) xs \<Longrightarrow>
    polls (join_poll_next next_a next_b) j (length xs) = map (\<lambda>x. Ready (Some x)) xs
    \<and> after (join_poll_next next_a next_b) j (length xs) = j\<lparr>jn_a := after next_a (jn_a j) (length xs)\<rparr>"
proof (induction xs arbitrary: j)
  case (Cons x xs)
  obtain a where a: "next_a (jn_a j) = (Ready (Some x), a)" using Cons.prems by (cases "next_a (jn_a j)") simp
  then have "join_poll_next next_a next_b j = (Ready (Some x), j\<lparr>jn_a := a\<rparr>)"
    using Cons.prems by (cases j) (simp add: join_poll_next_def)
  then show ?case using Cons.IH [of "j\<lparr>jn_a := a\<rparr>"] Cons.prems a by simp
qed simp

lemma heartbeat_next_beat:
  "\<exists>h'. heartbeat_next tick h = (Pending, h') \<or> heartbeat_next tick h = (Ready None, h')
    \<or> heartbeat_next tick h = (Ready (Some beat), h')"
  by (auto simp: heartbeat_next_def map_next_def beat_def split: option.splits prod.splits Poll.splits)

lemma join_pending:
  assumes "\<not> jn_done j" "next_a (jn_a j) = (Pending, a)"
  shows "\<exists>p j' b. join_poll_next next_a (heartbeat_next tick) j = (p, j') \<and> \<not> jn_done j' \<and> jn_a j' = a
    \<and> item_of p = (if b then [beat] else [])"
proof (cases "jn_b j")
  case None
  then show ?thesis using assms by (auto simp: join_poll_next_def intro!: exI [of _ False])
next
  case (Some h)
  obtain h' where "heartbeat_next tick h = (Pending, h') \<or> heartbeat_next tick h = (Ready None, h')
      \<or> heartbeat_next tick h = (Ready (Some beat), h')"
    using heartbeat_next_beat by blast
  then show ?thesis using assms Some
    by (elim disjE) (auto simp: join_poll_next_def intro: exI [of _ True] exI [of _ False])
qed

lemma join_beaten:
  "\<not> jn_done j \<Longrightarrow> polls next_a (jn_a j) n = concat (map line_polls ps) \<Longrightarrow>
    \<exists>bs. length bs = length ps
      \<and> items (polls (join_poll_next next_a (heartbeat_next tick)) j n) = concat (map beaten (zip ps bs))"
proof (induction ps arbitrary: j n)
  case Nil
  then show ?case by (metis concat.simps(1) items_simps(1) length_polls list.map(1) list.size(3) polls.simps(1) zip_Nil)
next
  case (Cons p ps)
  let ?J = "join_poll_next next_a (heartbeat_next tick)"
  obtain m where n: "n = length (line_polls p) + m"
    using arg_cong [OF Cons.prems(2), of length] by simp
  have split: "polls next_a (jn_a j) (length (line_polls p)) = line_polls p"
    "polls next_a (after next_a (jn_a j) (length (line_polls p))) m = concat (map line_polls ps)"
    using Cons.prems(2) by (simp_all add: n polls_add)
  have "\<exists>b. let k = length (line_polls p) in items (polls ?J j k) = beaten (p, b) \<and> \<not> jn_done (after ?J j k)
      \<and> jn_a (after ?J j k) = after next_a (jn_a j) k"
  proof (cases p)
    case None
    then obtain a where "next_a (jn_a j) = (Pending, a)"
      using split(1) by (cases "next_a (jn_a j)") (simp add: line_polls_def)
    then obtain q j' b where q: "?J j = (q, j')" "\<not> jn_done j'" "jn_a j' = a" "item_of q = (if b then [beat] else [])"
      using join_pending [OF Cons.prems(1)] by blast
    then show ?thesis using None \<open>next_a (jn_a j) = (Pending, a)\<close>
      by (intro exI [of _ b]) (simp add: line_polls_def beaten_def)
  next
    case (Some e)
    have "items (map (\<lambda>l. Ready (Some l)) ls) = ls" for ls :: "RawLinedEvent list" by (induction ls) simp_all
    then show ?thesis
      using join_ready [OF Cons.prems(1), of next_a "event_into_stream e" "heartbeat_next tick"] split(1) Some Cons.prems(1)
      by (simp add: line_polls_def beaten_def Let_def)
  qed
  then obtain b where b: "items (polls ?J j (length (line_polls p))) = beaten (p, b)"
    "\<not> jn_done (after ?J j (length (line_polls p)))"
    "jn_a (after ?J j (length (line_polls p))) = after next_a (jn_a j) (length (line_polls p))"
    by (auto simp: Let_def)
  obtain bs where "length bs = length ps"
    "items (polls ?J (after ?J j (length (line_polls p))) m) = concat (map beaten (zip ps bs))"
    using Cons.IH [OF b(2)] split(2) b(3) by auto
  then show ?case using b(1) by (intro exI [of _ "b # bs"]) (simp add: n polls_add)
qed

definition beaten_lines :: "Event option \<times> bool \<Rightarrow> str list" where
  "beaten_lines pb = (case fst pb of Some e \<Rightarrow> event_lines e | None \<Rightarrow> if snd pb then ['':''] else [])"

lemma beaten_bytes: "concat (map line_rest (concat (map beaten pbs))) = unlines (concat (map beaten_lines pbs))"
proof (induction pbs)
  case (Cons pb pbs)
  have "concat (map line_rest (beaten pb)) = unlines (beaten_lines pb)"
  proof (cases "fst pb")
    case None
    then show ?thesis by (simp add: beaten_def beaten_lines_def beat_def event_raw_rest unlines_def)
  next
    case (Some e)
    then show ?thesis by (simp add: beaten_def beaten_lines_def event_bytes)
  qed
  then show ?case using Cons by (simp add: unlines_append)
qed (simp add: unlines_def)

lemma beaten_plain: "list_all (list_all (\<lambda>b. \<not> is_newline b)) (concat (map beaten_lines pbs))"
proof (induction pbs)
  case (Cons pb pbs)
  have "list_all (list_all (\<lambda>b. \<not> is_newline b)) (beaten_lines pb)"
    using event_lines_plain by (cases "fst pb") (simp_all add: beaten_lines_def is_newline_def)
  then show ?case using Cons by simp
qed simp

lemma client_beaten:
  "fresh c \<Longrightarrow> length bs = length ps \<Longrightarrow>
    client_lines (concat (map beaten_lines (zip ps bs))) c = messages_of (concat (map opt_list ps)) c"
proof (induction ps arbitrary: bs c)
  case (Cons p ps)
  obtain b bs' where bs: "bs = b # bs'" using Cons.prems(2) by (cases bs) auto
  show ?case
  proof (cases p)
    case None
    then show ?thesis using Cons bs by (simp add: beaten_lines_def opt_list_def client_line_def)
  next
    case (Some e)
    have "fresh (event_after e c)" by (simp add: fresh_def event_after_def)
    then show ?thesis using Cons bs Some
      by (simp add: beaten_lines_def opt_list_def client_lines_append client_event split_beta)
  qed
qed simp

definition good_line :: "RawLinedEvent \<Rightarrow> bool" where
  "good_line l = (line_wf l \<and> line_rest l \<noteq> [])"

definition good_stream :: "('s, RawLinedEvent) stream \<Rightarrow> 's \<Rightarrow> bool" where
  "good_stream next s = (\<forall>m. list_all good_line (items (polls next s m)))"

lemma good_stream_step: "good_stream next s \<Longrightarrow> list_all good_line (item_of (fst (next s))) \<and> good_stream next (snd (next s))"
  unfolding good_stream_def by (metis items_simps(2) list_all_append polls.simps(2))

lemma join_good: "good_stream next_a (jn_a j) \<Longrightarrow> good_stream (join_poll_next next_a (heartbeat_next tick)) j"
  unfolding good_stream_def
proof
  fix m
  assume "\<forall>m. list_all good_line (items (polls next_a (jn_a j) m))"
  then have "good_stream next_a (jn_a j)" by (simp add: good_stream_def)
  then show "list_all good_line (items (polls (join_poll_next next_a (heartbeat_next tick)) j m))"
  proof (induction m arbitrary: j)
    case (Suc m)
    let ?J = "join_poll_next next_a (heartbeat_next tick)"
    have "good_line beat" using event_raw_rest by (simp add: good_line_def beat_def)
    then have "list_all good_line (item_of (fst (?J j))) \<and> good_stream next_a (jn_a (snd (?J j)))"
      using good_stream_step [OF Suc.prems] Suc.prems heartbeat_next_beat [of tick "the (jn_b j)"]
      by (auto simp: join_poll_next_def split: Poll.splits prod.splits option.splits)
    then show ?case using Suc.IH [of "snd (?J j)"] by simp
  qed simp
qed

lemma good_productive: "good_stream next s \<Longrightarrow> lines.productive next s"
  unfolding lines.productive_def
proof (intro allI conjI)
  fix m
  assume g: "good_stream next s"
  show "list_all line_wf (items (polls next s m))"
    using g by (auto simp: good_stream_def good_line_def list_all_iff)
  have "list_all good_line (items (polls next s (m + 1)))" using g unfolding good_stream_def by blast
  then have "list_all good_line (item_of (fst (next (after next s m))))" by (simp add: polls_add del: add_Suc_right One_nat_def) simp
  then have "lines.stops (fst (next (after next s m)))"
    by (auto simp: lines.stops_def good_line_def split: Poll.splits option.splits)
  then show "\<exists>n. list_ex lines.stops (polls next (after next s m) n)" by (intro exI [of _ 1]) simp
qed

lemma event_lines_good: "list_all good_line (event_into_stream e)"
  using event_many_rest event_one_rest event_raw_rest
  by (auto simp: event_into_stream_def opt_list_def good_line_def field_bytes_def list_all_iff split: option.splits)

text \<open>The bytes that the reader of a stream of lines still has of the current line.\<close>

definition line_pending :: "('s, RawLinedEvent) ReaderStream \<Rightarrow> str" where
  "line_pending me = (case rs_state me of RS_Reading l \<Rightarrow> line_rest l | _ \<Rightarrow> [])"

section \<open>Properties\<close>

text \<open>
  C27. An event stream arrives as it was sent (\<open>EventStream\<close>, \<open>Event::into_stream\<close>, \<open>Join\<close>, \<open>ReaderStream::poll_read\<close>).  When
  the flattened stream gives the lines of its events, pending now and then, a client makes of the bytes exactly one
  message for every event with data, in order, with its type and the last id sent, whenever heartbeats come between; a
  message has the lines of the data without one leading space each.  Reading returns for every size of the buffer
  but zero, and what it gives and the rest of the current line are these bytes in order.
\<close>

theorem event_stream_received:
  assumes "polls flat_next (flatten (es_stream self)) n = concat (map line_polls ps)"
    and "good_stream flat_next (flatten (es_stream self))"
    and "fresh c" and "list_all (\<lambda>room. 0 < room) rooms"
  shows "client_bytes (concat (map line_rest
        (items (polls (event_stream_next flat_next tick) (event_stream_into_stream flatten interval self) n)))) c
      = messages_of (concat (map opt_list ps)) c
    \<and> (\<exists>k out me.
        rs_read_all (event_stream_next flat_next tick) line_read rooms (event_stream_into_reader flatten interval self)
          = Some (out, me)
        \<and> concat (map line_rest
             (items (polls (event_stream_next flat_next tick) (event_stream_into_stream flatten interval self) k)))
          = out @ line_pending me)"
proof
  let ?J = "event_stream_next flat_next tick" and ?j = "event_stream_into_stream flatten interval self"
  let ?r = "event_stream_into_reader flatten interval self"
  have j: "\<not> jn_done ?j" "jn_a ?j = flatten (es_stream self)"
    by (simp_all add: event_stream_into_stream_def join_new_def)
  obtain bs where bs: "length bs = length ps" "items (polls ?J ?j n) = concat (map beaten (zip ps bs))"
    using join_beaten [OF j(1), of flat_next n ps tick] assms(1) j(2) unfolding event_stream_next_def by auto
  show "client_bytes (concat (map line_rest (items (polls ?J ?j n)))) c = messages_of (concat (map opt_list ps)) c"
    using client_beaten [OF assms(3) bs(1)] lines_of_unlines [OF beaten_plain]
    by (simp add: bs(2) beaten_bytes client_bytes_def)
  have "good_stream ?J ?j" unfolding event_stream_next_def using join_good assms(2) j(2) by metis
  then have "lines.productive ?J (rs_stream ?r)"
    using good_productive by (simp add: event_stream_into_reader_def rs_from_def)
  moreover have "lines.state_ok (rs_state ?r)" "lines.state_content (rs_state ?r) = []" "rs_stream ?r = ?j"
    by (simp_all add: lines.state_ok_def lines.state_content_def event_stream_into_reader_def rs_from_def)
  ultimately show "\<exists>k out me. rs_read_all ?J line_read rooms ?r = Some (out, me)
      \<and> concat (map line_rest (items (polls ?J ?j k))) = out @ line_pending me"
    using lines.read_all [of ?J ?r rooms] assms(4)
    by (auto simp: lines.state_content_def line_pending_def)
qed

fun list_next :: "('a option Poll list, 'a) stream" where
  "list_next [] = (Ready None, [])"
| "list_next (p # ps) = (p, ps)"

lemma polls_list: "polls list_next ps (length ps) = ps"
  by (induction ps) simp_all

lemma items_list: "set (items (polls list_next ps m)) \<subseteq> set (items ps)"
proof (induction m arbitrary: ps)
  case (Suc m)
  then show ?case using Suc [of "tl ps"] Suc [of "[]"] by (cases ps) auto
qed simp

lemma good_list: "good_stream list_next (concat (map line_polls ps))"
proof -
  have "list_all good_line (items (line_polls p))" for p
    using event_lines_good by (cases p) (auto simp: line_polls_def items_def list_all_iff comp_def)
  then have "list_all good_line (items (concat (map line_polls ps)))" by (induction ps) simp_all
  then show ?thesis using items_list unfolding good_stream_def list_all_iff by (meson subsetD)
qed

definition sample_events :: "Event option list" where
  "sample_events = [Some (event_id (Borrowed ''7'') (event_of_data (Borrowed ''a:b''))), None, Some event_empty]"

theorem event_stream_received_witness:
  "client_bytes (concat (map line_rest (items (polls (event_stream_next list_next (\<lambda>i. (Ready (Some i), i)))
      (event_stream_into_stream (\<lambda>ps. concat (map line_polls ps)) id (event_stream_from sample_events))
      (length (concat (map line_polls sample_events)))))))
      \<lparr>cl_type = [], cl_data = [], cl_id = [], cl_retry = None\<rparr>
    = ([\<lparr>msg_type = [], msg_data = ''a:b'', msg_id = ''7''\<rparr>, \<lparr>msg_type = [], msg_data = [], msg_id = ''7''\<rparr>],
       \<lparr>cl_type = [], cl_data = [], cl_id = ''7'', cl_retry = None\<rparr>)"
proof -
  let ?c = "\<lparr>cl_type = [], cl_data = [], cl_id = [], cl_retry = None\<rparr>"
  let ?flat = "\<lambda>ps. concat (map line_polls ps)"
  have f: "fresh ?c" by (simp add: fresh_def)
  have m: "messages_of (concat (map opt_list sample_events)) ?c =
      ([\<lparr>msg_type = [], msg_data = ''a:b'', msg_id = ''7''\<rparr>, \<lparr>msg_type = [], msg_data = [], msg_id = ''7''\<rparr>],
       \<lparr>cl_type = [], cl_data = [], cl_id = ''7'', cl_retry = None\<rparr>)"
    by (simp add: sample_events_def opt_list_def event_empty_def event_of_data_def event_new_def event_id_def
        event_messages_def event_after_def event_id_after_def farmed_def is_newline_def)
  have p: "polls list_next (?flat (es_stream (event_stream_from sample_events))) (length (?flat sample_events)) =
      ?flat sample_events"
    and g: "good_stream list_next (?flat (es_stream (event_stream_from sample_events)))"
    and rooms: "list_all (\<lambda>room. 0 < room) [1, 5 :: nat]"
    using polls_list good_list by (simp_all add: event_stream_from_def)
  show ?thesis by (rule trans [OF event_stream_received [of list_next ?flat, OF p g f rooms, THEN conjunct1] m])
qed

text \<open>Data arrives unchanged when it has no carriage return and no line of it starts with a space; else it does not.\<close>

lemma data_survives:
  "CR \<notin> set d \<Longrightarrow> list_all (\<lambda>l. unspace l = l) (lines_of d) \<Longrightarrow> join LF (map unspace (lines_of d)) = d"
proof -
  have "CR \<notin> set d \<Longrightarrow> lines_of d = split LF d" by (induction d rule: lines_of.induct) (auto split: list.splits)
  then show "CR \<notin> set d \<Longrightarrow> list_all (\<lambda>l. unspace l = l) (lines_of d) \<Longrightarrow> ?thesis"
    by (simp add: map_idI list_all_iff)
qed

lemma leading_space_lost: "event_messages (event_of_data (Borrowed '' a'')) i = [\<lparr>msg_type = [], msg_data = ''a'', msg_id = i\<rparr>]"
  by (simp add: event_messages_def event_of_data_def event_new_def event_id_after_def)

text \<open>A read without room takes the current reader for finished and drops what it has.\<close>

lemma empty_read_drops:
  "line_wf l \<Longrightarrow> rs_poll_read next (line_read :: (RawLinedEvent, 'e) poll_reader) 0 \<lparr>rs_stream = s, rs_state = RS_Reading l\<rparr> =
    rs_poll_read next line_read 0 \<lparr>rs_stream = s, rs_state = RS_Pending\<rparr>"
proof -
  assume "line_wf l"
  then obtain l' where "(line_read :: (RawLinedEvent, 'e) poll_reader) 0 l = Some (Ready (Ok []), l')" using lines.reads [of l 0] by auto
  then show ?thesis
    by (simp add: rs_poll_read.simps [of "next" line_read 0 "\<lparr>rs_stream = s, rs_state = RS_Reading l\<rparr>"])
qed

text \<open>The lower bound of the size hint counts items of the second stream that the joined stream does not give.\<close>

lemma join_hint_wrong:
  "fst (join_size_hint (\<lambda>ps. (of_nat (length ps), None)) (\<lambda>_. (- 1, None)) (join_new [] i)) = - 1
    \<and> fst (join_poll_next list_next next_b (join_new [] i)) = Ready None"
  by (simp add: join_size_hint_def join_new_def saturating_add_def join_poll_next_def)

end
