(* ===== verification/ErrorPages.thy ===== *)
theory ErrorPages
  imports ResponseModel RequestModel
begin

text \<open>
  The default catcher (\<open>core/lib/src/catcher/catcher.rs\<close>, from \<open>html_error_template!\<close> on): the pages Rocket
  answers with when no catcher is registered or the 500 catcher itself fails.

  \<open>mk\<close> makes the reader of a text (\<open>Cursor::new\<close>).  Numbers are printed in decimal as \<open>concat!\<close> and
  \<open>format!\<close> print them.
\<close>

section \<open>Model\<close>

abbreviation nl :: str where "nl \<equiv> [CHR 0x0A]"

definition html_error_template :: "str \<Rightarrow> str \<Rightarrow> str \<Rightarrow> str" where
  \<open>html_error_template cd rsn description =
     ''<!DOCTYPE html>'' @ nl @
     ''<html lang="en">'' @ nl @
     ''<head>'' @ nl @
     ''    <meta charset="utf-8">'' @ nl @
     ''    <meta name="color-scheme" content="light dark">'' @ nl @
     ''    <title>'' @ cd @ '' '' @ rsn @ ''</title>'' @ nl @
     ''</head>'' @ nl @
     ''<body align="center">'' @ nl @
     ''    <div role="main" align="center">'' @ nl @
     ''        <h1>'' @ cd @ '': '' @ rsn @ ''</h1>'' @ nl @
     ''        <p>'' @ description @ ''</p>'' @ nl @
     ''        <hr />'' @ nl @
     ''    </div>'' @ nl @
     ''    <div role="contentinfo" align="center">'' @ nl @
     ''        <small>Rocket</small>'' @ nl @
     ''    </div>'' @ nl @
     ''</body>'' @ nl @
     ''</html>''\<close>

definition json_error_template :: "str \<Rightarrow> str \<Rightarrow> str \<Rightarrow> str" where
  \<open>json_error_template cd rsn description =
     ''{'' @ nl @
     ''  "error": {'' @ nl @
     ''    "code": '' @ cd @ '','' @ nl @
     ''    "reason": "'' @ rsn @ ''",'' @ nl @
     ''    "description": "'' @ description @ ''"'' @ nl @
     ''  }'' @ nl @
     ''}''\<close>

definition default_pages :: "(u16 \<times> str \<times> str) list" where
  "default_pages = [
    (400, ''Bad Request'',
      ''The request could not be understood by the server due to malformed syntax.''),
    (401, ''Unauthorized'',
      ''The request requires user authentication.''),
    (402, ''Payment Required'',
      ''The request could not be processed due to lack of payment.''),
    (403, ''Forbidden'',
      ''The server refused to authorize the request.''),
    (404, ''Not Found'',
      ''The requested resource could not be found.''),
    (405, ''Method Not Allowed'',
      ''The request method is not supported for the requested resource.''),
    (406, ''Not Acceptable'',
      ''The requested resource is capable of generating only content not acceptable '' @
      ''according to the Accept headers sent in the request.''),
    (407, ''Proxy Authentication Required'',
      ''Authentication with the proxy is required.''),
    (408, ''Request Timeout'',
      ''The server timed out waiting for the request.''),
    (409, ''Conflict'',
      ''The request could not be processed because of a conflict in the request.''),
    (410, ''Gone'',
      ''The resource requested is no longer available and will not be available again.''),
    (411, ''Length Required'',
      ''The request did not specify the length of its content, which is required by '' @
      ''the requested resource.''),
    (412, ''Precondition Failed'',
      ''The server does not meet one of the preconditions specified in the request.''),
    (413, ''Payload Too Large'',
      ''The request is larger than the server is willing or able to process.''),
    (414, ''URI Too Long'',
      ''The URI provided was too long for the server to process.''),
    (415, ''Unsupported Media Type'',
      ''The request entity has a media type which the server or resource does not '' @
      ''support.''),
    (416, ''Range Not Satisfiable'',
      ''The portion of the requested file cannot be supplied by the server.''),
    (417, ''Expectation Failed'',
      ''The server cannot meet the requirements of the Expect request-header field.''),
    (418, ''I'm a teapot'',
      ''I was requested to brew coffee, and I am a teapot.''),
    (421, ''Misdirected Request'',
      ''The server cannot produce a response for this request.''),
    (422, ''Unprocessable Entity'',
      ''The request was well-formed but was unable to be followed due to semantic '' @
      ''errors.''),
    (426, ''Upgrade Required'',
      ''Switching to the protocol in the Upgrade header field is required.''),
    (428, ''Precondition Required'',
      ''The server requires the request to be conditional.''),
    (429, ''Too Many Requests'',
      ''Too many requests have been received recently.''),
    (431, ''Request Header Fields Too Large'',
      ''The server is unwilling to process the request because either an individual '' @
      ''header field, or all the header fields collectively, are too large.''),
    (451, ''Unavailable For Legal Reasons'',
      ''The requested resource is unavailable due to a legal demand to deny access to '' @
      ''this resource.''),
    (500, ''Internal Server Error'',
      ''The server encountered an internal error while processing this request.''),
    (501, ''Not Implemented'',
      ''The server either does not recognize the request method, or it lacks the '' @
      ''ability to fulfill the request.''),
    (503, ''Service Unavailable'',
      ''The server is currently unavailable.''),
    (504, ''Gateway Timeout'',
      ''The server did not receive a timely response from an upstream server.''),
    (510, ''Not Extended'',
      ''Further extensions to the request are required for the server to fulfill it.'')]"

definition page_text :: "u16 \<Rightarrow> str \<times> str" where
  "page_text cd =
     (case map_of default_pages cd of
        Some rd \<Rightarrow> rd
      | None \<Rightarrow> (''Unknown Error'', ''An unknown error has occurred.''))"

definition default_handler :: "ext \<Rightarrow> (str \<Rightarrow> 'b) \<Rightarrow> Status \<Rightarrow> 'h Request \<Rightarrow> ('b, 'io) Response" where
  "default_handler x mk st req =
     (let preferred_type = map_option (preferred (x_uc x)) (fst (accept x req));
          (rsn, description) = page_text (code st);
          cd = nat_to_string (unat (code st));
          (mime, txt) =
            (if (case preferred_type of Some a \<Rightarrow> mt_eq (x_uc x) (q_mt a) MT_JSON | None \<Rightarrow> False)
             then (ContentType MT_JSON, json_error_template cd rsn description)
             else (ContentType MT_HTML, html_error_template cd rsn description));
          (hn, hv) = content_type_header mime;
          r = fst (builder_finalize (builder_header (x_uc x) (header_new hn hv) (builder_status st build)))
      in set_sized_body (Some (of_nat (length txt))) (mk txt) r)"

section \<open>Lemmas\<close>

text \<open>A character that needs no escaping in a JSON string or in HTML text: ASCII, not a control character.\<close>

definition page_char :: "byte \<Rightarrow> bool" where
  "page_char c =
     (c \<notin> {CHR 0x22, CHR 0x5C, CHR ''<'', CHR ''>'', CHR ''&'', CHR 0x7F}
      \<and> (case c of Char b0 b1 b2 b3 b4 b5 b6 b7 \<Rightarrow> \<not> b7 \<and> (b5 \<or> b6)))"

lemma default_pages_safe:
  "list_all (\<lambda>(c, r, d). list_all page_char r \<and> list_all page_char d) default_pages"
  by code_simp

lemma default_pages_reasons: "list_all (\<lambda>(c, r, d). reason \<lparr>code = c\<rparr> = Some r) default_pages"
  by code_simp

lemma page_text_facts:
  assumes "page_text c = (r, d)"
  shows "list_all page_char r \<and> list_all page_char d
    \<and> (if c \<in> set (map fst default_pages) then reason \<lparr>code = c\<rparr> = Some r else r = ''Unknown Error'')"
proof (cases "map_of default_pages c")
  case None
  then have "r = ''Unknown Error''" "d = ''An unknown error has occurred.''" and "c \<notin> fst ` set default_pages"
    using assms by (simp_all add: page_text_def) (simp add: map_of_eq_None_iff)
  moreover have "list_all page_char ''Unknown Error''" "list_all page_char ''An unknown error has occurred.''"
    by (simp_all add: page_char_def)
  ultimately show ?thesis by simp
next
  case (Some rd)
  then have "(c, r, d) \<in> set default_pages" using assms by (auto simp: page_text_def dest: map_of_SomeD)
  then have "(case (c, r, d) of (c, r, d) \<Rightarrow> list_all page_char r \<and> list_all page_char d)"
    and "(case (c, r, d) of (c, r, d) \<Rightarrow> reason \<lparr>code = c\<rparr> = Some r)" and "c \<in> set (map fst default_pages)"
    using list_all_iff [THEN iffD1, OF default_pages_safe] list_all_iff [THEN iffD1, OF default_pages_reasons]
    by (blast, blast, force)
  then show ?thesis by simp
qed

section \<open>Properties\<close>

text \<open>
  The default error page (\<open>default_handler\<close>, \<open>catcher.rs\<close>): the response has the status asked for and
  a body whose preset size is the length of its text; the text is the JSON page, declared as JSON,
  exactly when the preferred accepted type is JSON, and the HTML page otherwise.  The code printed in
  it reads back as the status code, the reason is the one \<open>Status::reason\<close> gives whenever the code has
  a page, and reason and description never need escaping in either format.
\<close>

theorem default_handler_page:
  "let json = (case fst (accept x req) of
                 Some a \<Rightarrow> mt_eq (x_uc x) (q_mt (preferred (x_uc x) a)) MT_JSON | None \<Rightarrow> False);
       cd = nat_to_string (unat (code st));
       (rsn, desc) = page_text (code st);
       txt = (if json then json_error_template cd rsn desc else html_error_template cd rsn desc);
       r = (default_handler x mk st req :: ('b, 'io) Response)
   in status r = st
      \<and> rs_body r = with_sized (mk txt) (Some (of_nat (length txt)))
      \<and> hm_get (x_uc x) ''Content-Type'' (rs_headers r) =
          [if json then ''application/json'' else ''text/html; charset=utf-8'']
      \<and> digits_value cd = unat (code st)
      \<and> (if code st \<in> set (map fst default_pages) then reason st = Some rsn else rsn = ''Unknown Error'')
      \<and> list_all page_char rsn \<and> list_all page_char desc"
proof -
  obtain rsn desc where p: "page_text (code st) = (rsn, desc)" by (cases "page_text (code st)")
  have st: "\<lparr>code = code st\<rparr> = st" by simp
  have get: "hm_get (x_uc x) n (im_insert (x_uc x) n [v] hm_new) = [v]" for n v
    by (simp add: hm_get_def im_get_insert hm_new_def)
  show ?thesis
    using page_text_facts [OF p, unfolded st] nat_to_string_value [of "unat (code st)"]
    by (simp add: p default_handler_def Let_def builder_finalize_def builder_header_def builder_status_def
        build_def build_from_def set_sized_body_def set_status_def set_header_def status_def hm_replace_def
        header_new_def content_type_header_def known_source_def MT_JSON_def MT_HTML_def new_known_def
        response_new_def get split: option.split prod.split)
qed

end
