(* ===== verification/DataModel.thy ===== *)
theory DataModel
  imports Prelude
begin

text \<open>
  Request data (\<open>core/lib/src/data\<close>: \<open>peekable.rs\<close>, \<open>data.rs\<close>, \<open>capped.rs\<close>; \<open>core/lib/src/util/chain.rs\<close>): the
  peek buffer in front of the body's reader, and the chain of two readers that hands the buffered
  bytes out again before the rest.

  A reader is a state with a function \<open>read room\<close> that yields at most \<open>room\<close> bytes, and no bytes at the end;
  the locale \<open>async_reader\<close> states what \<open>AsyncRead\<close> promises in terms of the bytes still to come.  The
  capacity a vector has while it is read into is chosen by the allocator and is the parameter
  \<open>capacity\<close>; \<open>read_buf\<close> never reads into a full vector.
\<close>

section \<open>Model\<close>

type_synonym ('r, 'e) reader = "nat \<Rightarrow> 'r \<Rightarrow> (str, 'e) result \<times> 'r"

record 'r Peekable =
  pk_buffer :: str
  pk_complete :: bool
  pk_reader :: 'r

definition peekable_new :: "'r \<Rightarrow> 'r Peekable" where
  "peekable_new reader = \<lparr>pk_buffer = [], pk_complete = False, pk_reader = reader\<rparr>"

definition with_buffer :: "str \<Rightarrow> bool \<Rightarrow> 'r \<Rightarrow> 'r Peekable" where
  "with_buffer buffer complete reader = \<lparr>pk_buffer = buffer, pk_complete = complete, pk_reader = reader\<rparr>"

function peek_loop :: "('r, 'e) reader \<Rightarrow> (str \<Rightarrow> nat) \<Rightarrow> nat \<Rightarrow> 'r Peekable \<Rightarrow> 'r Peekable" where
  "peek_loop read capacity to_read self =
     (if length (pk_buffer self) < to_read then
        (case read (capacity (pk_buffer self) - length (pk_buffer self)) (pk_reader self) of
           (Ok [], rd) \<Rightarrow>
             self\<lparr>pk_complete := (capacity (pk_buffer self) > length (pk_buffer self)), pk_reader := rd\<rparr>
         | (Ok (b # bs), rd) \<Rightarrow>
             peek_loop read capacity to_read (self\<lparr>pk_buffer := pk_buffer self @ b # bs, pk_reader := rd\<rparr>)
         | (Err _, rd) \<Rightarrow> self\<lparr>pk_reader := rd\<rparr>)
      else self)"
  by pat_completeness auto
termination
  by (relation "measure (\<lambda>(read, capacity, to_read, self). to_read - length (pk_buffer self))") auto

declare peek_loop.simps [simp del]

text \<open>\<open>Peekable<512, _>::peek\<close>.\<close>

definition peekable_peek :: "('r, 'e) reader \<Rightarrow> (str \<Rightarrow> nat) \<Rightarrow> nat \<Rightarrow> 'r Peekable \<Rightarrow> str \<times> 'r Peekable" where
  "peekable_peek read capacity num self =
     (if pk_complete self then (pk_buffer self, self)
      else
        let to_read = min 512 num
        in if length (pk_buffer self) \<ge> to_read then (pk_buffer self, self)
           else let self = peek_loop read capacity to_read self in (pk_buffer self, self))"

record ('r, 't) Data =
  da_stream :: "'r Peekable"
  da_transforms :: "'t list"

definition data_new :: "'r Peekable \<Rightarrow> ('r, 't) Data" where
  "data_new stream = \<lparr>da_stream = stream, da_transforms = []\<rparr>"

definition data_from :: "'r \<Rightarrow> ('r, 't) Data" where
  "data_from stream = data_new (peekable_new stream)"

definition data_local :: "str \<Rightarrow> 'r \<Rightarrow> ('r, 't) Data" where
  "data_local bytes raw = data_new (with_buffer bytes True raw)"

definition peek :: "('r, 'e) reader \<Rightarrow> (str \<Rightarrow> nat) \<Rightarrow> nat \<Rightarrow> ('r, 't) Data \<Rightarrow> str \<times> ('r, 't) Data" where
  "peek read capacity num self =
     (let (bytes, stream) = peekable_peek read capacity num (da_stream self)
      in (bytes, self\<lparr>da_stream := stream\<rparr>))"

definition peek_complete :: "('r, 't) Data \<Rightarrow> bool" where
  "peek_complete self = pk_complete (da_stream self)"

definition chain_transform :: "'t \<Rightarrow> ('r, 't) Data \<Rightarrow> ('r, 't) Data" where
  "chain_transform transform self = self\<lparr>da_transforms := da_transforms self @ [transform]\<rparr>"

text \<open>\<open>Chain\<close>: the second reader takes over once the first yields nothing.\<close>

record ('a, 'b) Chain =
  ch_first :: "'a option"
  ch_second :: 'b

definition chain_new :: "'a \<Rightarrow> 'b \<Rightarrow> ('a, 'b) Chain" where
  "chain_new first second = \<lparr>ch_first = Some first, ch_second = second\<rparr>"

definition chain_second ::
  "('b, 'e) reader \<Rightarrow> nat \<Rightarrow> ('a, 'b) Chain \<Rightarrow> (str, 'e) result \<times> ('a, 'b) Chain" where
  "chain_second read2 room self =
     (case read2 room (ch_second self) of (r, s) \<Rightarrow> (r, self\<lparr>ch_second := s\<rparr>))"

definition chain_read ::
  "('a, 'e) reader \<Rightarrow> ('b, 'e) reader \<Rightarrow> (('a, 'b) Chain, 'e) reader" where
  "chain_read read1 read2 room self =
     (case ch_first self of
        Some first \<Rightarrow>
          (case read1 room first of
             (Err e, f) \<Rightarrow> (Err e, self\<lparr>ch_first := Some f\<rparr>)
           | (Ok [], f) \<Rightarrow> chain_second read2 room (self\<lparr>ch_first := None\<rparr>)
           | (Ok bs, f) \<Rightarrow> (Ok bs, self\<lparr>ch_first := Some f\<rparr>))
      | None \<Rightarrow> chain_second read2 room self)"

text \<open>\<open>N\<close> and \<open>Capped\<close>: a value read under a limit, with how much was read and whether that was all.\<close>

record N =
  n_written :: nat
  n_complete :: bool

record 'v Capped =
  cp_value :: 'v
  cp_n :: N

definition capped_new :: "'v \<Rightarrow> N \<Rightarrow> 'v Capped" where
  "capped_new v n = \<lparr>cp_value = v, cp_n = n\<rparr>"

definition capped_complete :: "'v \<Rightarrow> nat \<Rightarrow> 'v Capped" where
  "capped_complete v len = \<lparr>cp_value = v, cp_n = \<lparr>n_written = len, n_complete = True\<rparr>\<rparr>"

definition capped_map :: "('v \<Rightarrow> 'u) \<Rightarrow> 'v Capped \<Rightarrow> 'u Capped" where
  "capped_map f self = \<lparr>cp_value = f (cp_value self), cp_n = cp_n self\<rparr>"

definition capped_is_empty :: "'v Capped \<Rightarrow> bool" where
  "capped_is_empty self = (n_written (cp_n self) = 0)"

definition is_complete :: "'v Capped \<Rightarrow> bool" where
  "is_complete self = n_complete (cp_n self)"

definition into_inner :: "'v Capped \<Rightarrow> 'v" where
  "into_inner self = cp_value self"

definition capped_from :: "str \<Rightarrow> str Capped" where
  "capped_from v = (let len = length v in capped_complete v len)"

section \<open>What a reader promises\<close>

text \<open>
  \<open>content\<close> is what is still to be read.  A read with room yields the next bytes, at most as many as
  there is room for, and none only at the end; a failed read consumes nothing.
\<close>

locale async_reader =
  fixes read :: "('r, 'e) reader" and content :: "'r \<Rightarrow> str"
  assumes read_ok: "0 < room \<Longrightarrow> read room rd = (Ok bs, rd') \<Longrightarrow>
      content rd = bs @ content rd' \<and> length bs \<le> room \<and> (bs = [] \<longrightarrow> content rd = [])"
    and read_err: "0 < room \<Longrightarrow> read room rd = (Err e, rd') \<Longrightarrow> content rd' = content rd"
begin

definition peeked :: "nat \<Rightarrow> 'r Peekable \<Rightarrow> 'r Peekable \<Rightarrow> bool" where
  "peeked n p p' =
     (pk_buffer p' @ content (pk_reader p') = pk_buffer p @ content (pk_reader p)
      \<and> (\<exists>bs. pk_buffer p' = pk_buffer p @ bs)
      \<and> (pk_complete p' \<longrightarrow> pk_complete p \<or> content (pk_reader p') = [])
      \<and> ((\<forall>room rd e. fst (read room rd) \<noteq> Err e) \<longrightarrow> n \<le> length (pk_buffer p') \<or> pk_complete p'))"

lemma peek_loop_peeked:
  assumes cap: "\<And>b. length b < capacity b"
  shows "peeked n p (peek_loop read capacity n p)"
proof (induction "n - length (pk_buffer p)" arbitrary: p rule: less_induct)
  case less
  let ?room = "capacity (pk_buffer p) - length (pk_buffer p)"
  have room: "0 < ?room" using cap by simp
  obtain r rd where r: "read ?room (pk_reader p) = (r, rd)" by (cases "read ?room (pk_reader p)")
  show ?case
  proof (cases "length (pk_buffer p) < n")
    case False
    then show ?thesis by (simp add: peek_loop.simps [of _ _ n p] peeked_def)
  next
    case True
    consider (stop) "r = Ok []" | (more) b bs where "r = Ok (b # bs)" | (fail) e where "r = Err e"
      by (metis list.exhaust sum.exhaust)
    then show ?thesis
    proof cases
      case stop
      then show ?thesis using True r read_ok [OF room] cap
        by (subst peek_loop.simps) (force simp: peeked_def)
    next
      case more
      let ?p = "p\<lparr>pk_buffer := pk_buffer p @ b # bs, pk_reader := rd\<rparr>"
      have step: "peek_loop read capacity n p = peek_loop read capacity n ?p"
        using True r more by (subst peek_loop.simps) simp
      have "content (pk_reader p) = (b # bs) @ content rd" using read_ok [OF room] r more by blast
      moreover have "peeked n ?p (peek_loop read capacity n ?p)" using True by (intro less) simp
      ultimately show ?thesis unfolding step by (auto simp: peeked_def)
    next
      case fail
      then have "\<exists>room rd e. fst (read room rd) = Err e" using r by (metis fst_conv)
      then show ?thesis using True r fail read_err [OF room]
        by (subst peek_loop.simps) (force simp: peeked_def)
    qed
  qed
qed

lemma peekable_peek_peeked:
  assumes cap: "\<And>b. length b < capacity b"
  shows "peeked (min 512 num) p (snd (peekable_peek read capacity num p))
    \<and> fst (peekable_peek read capacity num p) = pk_buffer (snd (peekable_peek read capacity num p))"
  using peek_loop_peeked [OF cap] by (simp add: peekable_peek_def Let_def) (simp add: peeked_def)

end

section \<open>Chains of readers\<close>

definition chain_content :: "('a \<Rightarrow> str) \<Rightarrow> ('b \<Rightarrow> str) \<Rightarrow> ('a, 'b) Chain \<Rightarrow> str" where
  "chain_content c1 c2 ch = (case ch_first ch of Some f \<Rightarrow> c1 f | None \<Rightarrow> []) @ c2 (ch_second ch)"

locale two_readers =
  first: async_reader read1 c1 + second: async_reader read2 c2
  for read1 :: "('a, 'e) reader" and c1 :: "'a \<Rightarrow> str" and read2 :: "('b, 'e) reader" and c2 :: "'b \<Rightarrow> str"
begin

lemma chain_second_ok:
  "0 < room \<Longrightarrow> chain_second read2 room ch = (Ok bs, ch') \<Longrightarrow>
   ch_first ch' = ch_first ch \<and> c2 (ch_second ch) = bs @ c2 (ch_second ch') \<and> length bs \<le> room
   \<and> (bs = [] \<longrightarrow> c2 (ch_second ch) = [])"
  using second.read_ok [of room "ch_second ch"] by (auto simp: chain_second_def split: prod.splits)

lemma chain_second_err:
  "0 < room \<Longrightarrow> chain_second read2 room ch = (Err e, ch') \<Longrightarrow>
   ch_first ch' = ch_first ch \<and> c2 (ch_second ch') = c2 (ch_second ch)"
  using second.read_err [of room "ch_second ch"] by (auto simp: chain_second_def split: prod.splits)

lemma chain_read_ok:
  assumes room: "0 < room" and eq: "chain_read read1 read2 room ch = (Ok bs, ch')"
  shows "chain_content c1 c2 ch = bs @ chain_content c1 c2 ch' \<and> length bs \<le> room
    \<and> (bs = [] \<longrightarrow> chain_content c1 c2 ch = [])"
proof (cases "ch_first ch")
  case None
  then show ?thesis using chain_second_ok [OF room, of ch] eq by (auto simp: chain_read_def chain_content_def)
next
  case (Some f)
  obtain r f' where r: "read1 room f = (r, f')" by (cases "read1 room f")
  consider "r = Ok []" | b as where "r = Ok (b # as)" | e where "r = Err e" by (metis list.exhaust sum.exhaust)
  then show ?thesis
  proof cases
    case 1
    then have "c1 f = []" using first.read_ok [OF room] r by blast
    then show ?thesis
      using chain_second_ok [OF room, of "ch\<lparr>ch_first := None\<rparr>"] eq Some r 1
      by (auto simp: chain_read_def chain_content_def)
  next
    case 2
    then show ?thesis using first.read_ok [OF room, of f] eq Some r by (auto simp: chain_read_def chain_content_def)
  next
    case 3
    then show ?thesis using eq Some r by (simp add: chain_read_def)
  qed
qed

lemma chain_read_err:
  assumes room: "0 < room" and eq: "chain_read read1 read2 room ch = (Err e, ch')"
  shows "chain_content c1 c2 ch' = chain_content c1 c2 ch"
proof (cases "ch_first ch")
  case None
  then show ?thesis using chain_second_err [OF room, of ch] eq by (auto simp: chain_read_def chain_content_def)
next
  case (Some f)
  obtain r f' where r: "read1 room f = (r, f')" by (cases "read1 room f")
  consider "r = Ok []" | b as where "r = Ok (b # as)" | e where "r = Err e" by (metis list.exhaust sum.exhaust)
  then show ?thesis
  proof cases
    case 1
    then have "c1 f = []" using first.read_ok [OF room] r by blast
    then show ?thesis
      using chain_second_err [OF room, of "ch\<lparr>ch_first := None\<rparr>"] eq Some r 1
      by (auto simp: chain_read_def chain_content_def)
  next
    case 2
    then show ?thesis using eq Some r by (simp add: chain_read_def)
  next
    case 3
    then show ?thesis using first.read_err [OF room, of f] eq Some r by (auto simp: chain_read_def chain_content_def)
  qed
qed

end

sublocale two_readers \<subseteq> chain: async_reader "chain_read read1 read2" "chain_content c1 c2"
  by unfold_locales (rule chain_read_ok chain_read_err; assumption)+

text \<open>A cursor over bytes in memory, here the bytes not yet read; the data of a local request and the peek buffer.\<close>

definition cursor_read :: "(str, 'e) reader" where
  "cursor_read room s = (Ok (take room s), drop room s)"

interpretation cursor: async_reader "cursor_read :: (str, 'e) reader" "\<lambda>s. s"
  by unfold_locales (auto simp: cursor_read_def)

interpretation stream: two_readers "cursor_read :: (str, 'e) reader" "\<lambda>s. s" "cursor_read :: (str, 'e) reader" "\<lambda>s. s"
  by unfold_locales

section \<open>Properties\<close>

text \<open>
  C30. Peeking (\<open>Peekable::peek\<close>, \<open>peekable.rs\<close>) never loses or reorders a byte of the body: the buffer
  only grows, and followed by what the reader still holds it is the same stream as before, so the chain
  that \<open>Data::open\<close> builds reads the whole body.  The data is marked complete only at its end, and when
  no read fails the buffer afterwards holds what was asked for, up to 512 bytes, or everything.
\<close>

theorem peek_keeps_stream:
  assumes reader: "async_reader read content" and cap: "\<And>b. length b < capacity b"
  shows "let (bytes, d') = peek read capacity num d; p = da_stream d; p' = da_stream d' in
    bytes = pk_buffer p' \<and> (\<exists>bs. pk_buffer p' = pk_buffer p @ bs) \<and> da_transforms d' = da_transforms d
    \<and> chain_content (\<lambda>s. s) content (chain_new (pk_buffer p') (pk_reader p'))
        = chain_content (\<lambda>s. s) content (chain_new (pk_buffer p) (pk_reader p))
    \<and> (pk_complete p' \<longrightarrow> pk_complete p \<or> content (pk_reader p') = [])
    \<and> ((\<forall>room rd e. fst (read room rd) \<noteq> Err e) \<longrightarrow> min 512 num \<le> length bytes \<or> pk_complete p')"
  using async_reader.peekable_peek_peeked [OF reader cap, where num = num and p = "da_stream d"]
  by (auto simp: peek_def async_reader.peeked_def [OF reader] chain_content_def chain_new_def Let_def
      split: prod.splits)

theorem peek_keeps_stream_witness:
  "pk_buffer (da_stream (snd (peek (cursor_read :: (str, unit) reader) (\<lambda>b. length b + 2) 3 (data_from ''hello'' :: (str, nat) Data)))) = ''hell''
   \<and> chain_content (\<lambda>s. s) (\<lambda>s. s) (chain_new ''hell'' ''o'') = ''hello''"
proof -
  have p: "peek (cursor_read :: (str, unit) reader) (\<lambda>b. length b + 2) 3 (data_from ''hello'' :: (str, nat) Data)
      = (''hell'', \<lparr>da_stream = \<lparr>pk_buffer = ''hell'', pk_complete = False, pk_reader = ''o''\<rparr>, da_transforms = []\<rparr>)"
    by (simp add: peek_def peekable_peek_def data_from_def data_new_def peekable_new_def peek_loop.simps cursor_read_def)
  show ?thesis
    using peek_keeps_stream [OF cursor.async_reader_axioms, of "\<lambda>b. length b + 2" 3 "data_from ''hello'' :: (str, nat) Data"]
    unfolding p by (simp add: data_from_def data_new_def peekable_new_def chain_content_def chain_new_def)
qed

end
