(* ===== verification/Lifecycle.thy ===== *)
theory Lifecycle
  imports Router Fairings FormFields ErrorPages DataModel
begin

text \<open>
  The life of a request (\<open>core/lib/src/lifecycle.rs\<close>): preprocessing, routing, the catchers, and the
  response that is sent.

  User code is a field of the record \<open>app\<close>: handlers and catchers run on the request, the data and the
  cookie jar, return the jar they leave behind, and return no result when they panic, which is what
  \<open>catch_handle\<close> turns a panic into; fairings transform the request, its jar and data, or the response.
  External code used here is in the same record.
\<close>

section \<open>Model: the server\<close>

record ('h, 'c, 'f) Rocket =
  rk_router :: "('h, 'c) Finalized"
  rk_fairings :: "'f Fairings"
  rk_ident :: "str option"
  rk_alt_svc :: "str option"

record ('h, 'c, 'f, 'r, 't, 'e, 'k, 'b, 'io) app =
  a_ext :: ext
  a_cookies :: "'k cookie_crate"
  a_read :: "('r, 'e) reader"
  a_capacity :: "str \<Rightarrow> nat"
  a_seek :: "'b seek"
  a_cursor :: "str \<Rightarrow> 'b"
  a_route :: "'h \<Rightarrow> 'h Request \<Rightarrow> ('r, 't) Data \<Rightarrow> 'k CookieJar \<Rightarrow>
    (('b, 'io) Response, Status, ('r, 't) Data \<times> Status) Outcome option \<times> 'k CookieJar"
  a_catcher :: "'c \<Rightarrow> Status \<Rightarrow> 'h Request \<Rightarrow> 'k CookieJar \<Rightarrow>
    (('b, 'io) Response, Status) result option \<times> 'k CookieJar"
  a_on_request :: "'f \<Rightarrow> ('h Request \<times> 'k CookieJar) \<times> ('r, 't) Data \<Rightarrow> ('h Request \<times> 'k CookieJar) \<times> ('r, 't) Data"
  a_on_response :: "'f \<Rightarrow> 'h Request \<times> 'k CookieJar \<Rightarrow> ('b, 'io) Response \<Rightarrow> ('b, 'io) Response"

section \<open>Model: preprocessing\<close>

text \<open>\<open>std::str::from_utf8\<close> succeeds on well-formed UTF-8.\<close>

definition cont :: "byte \<Rightarrow> bool" where
  "cont c = (128 \<le> (of_char c :: nat) \<and> (of_char c :: nat) < 192)"

definition between :: "nat \<Rightarrow> byte \<Rightarrow> nat \<Rightarrow> bool" where
  "between lo c hi = (lo \<le> of_char c \<and> of_char c \<le> hi)"

fun utf8 :: "str \<Rightarrow> bool" where
  "utf8 [] = True"
| "utf8 (a # s) =
     (if between 0 a 127 then utf8 s
      else case s of
        [] \<Rightarrow> False
      | b # t \<Rightarrow>
          if between 194 a 223 then cont b \<and> utf8 t
          else case t of
            [] \<Rightarrow> False
          | c # u \<Rightarrow>
              if between 224 a 239 then
                cont b \<and> cont c \<and> (of_char a = (224 :: nat) \<longrightarrow> between 160 b 191)
                \<and> (of_char a = (237 :: nat) \<longrightarrow> between 128 b 159) \<and> utf8 u
              else case u of
                [] \<Rightarrow> False
              | d # v \<Rightarrow>
                  between 240 a 244 \<and> cont b \<and> cont c \<and> cont d
                  \<and> (of_char a = (240 :: nat) \<longrightarrow> between 144 b 191)
                  \<and> (of_char a = (244 :: nat) \<longrightarrow> between 128 b 143) \<and> utf8 v)"

text \<open>The method named by the first field of a form, if that field is \<open>_method\<close>.\<close>

definition form_method :: "str \<Rightarrow> Method option" where
  "form_method peek_buffer =
     (if utf8 peek_buffer then
        (case form_values peek_buffer of
           [] \<Rightarrow> None
         | field # _ \<Rightarrow>
             if view_eq_str (vf_name field) ''_method'' = Some True then ok_opt (method_try_from (vf_value field))
             else None)
      else None)"

definition rewrite_method ::
  "('h, 'c, 'f, 'r, 't, 'e, 'k, 'b, 'io) app \<Rightarrow> 'h Request \<Rightarrow> ('r, 't) Data \<Rightarrow> 'h Request \<times> ('r, 't) Data" where
  "rewrite_method a req data =
     (if rq_method req = Post then
        let (ct, req) = content_type (a_ext a) req
        in if (case ct of Some v \<Rightarrow> mt_eq (x_uc (a_ext a)) (ct_media_type v) MT_Form | None \<Rightarrow> False) then
             let (peek_buffer, data) = peek (a_read a) (a_capacity a) 32 data
             in case form_method peek_buffer of
                  Some m \<Rightarrow> (set_method m req, data)
                | None \<Rightarrow> (req, data)
           else (req, data)
      else (req, data))"

definition preprocess ::
  "('h, 'c, 'f, 'r, 't, 'e, 'k, 'b, 'io) app \<Rightarrow> ('h, 'c, 'f) Rocket \<Rightarrow> 'h Request \<Rightarrow> 'k CookieJar \<Rightarrow> ('r, 't) Data \<Rightarrow>
   ('h Request \<times> 'k CookieJar) \<times> ('r, 't) Data" where
  "preprocess a self req jar data =
     (let (req, data) = rewrite_method a req data
      in handle_request (a_on_request a) (rk_fairings self) ((req, jar), data))"

section \<open>Model: routing\<close>

text \<open>
  The loop over the matching routes.  The iterator of \<open>router.route\<close> is lazy, but the loop changes only the
  matched route of the request, which matching does not read.
\<close>

fun route_loop ::
  "('h, 'c, 'f, 'r, 't, 'e, 'k, 'b, 'io) app \<Rightarrow> 'h Route list \<Rightarrow> 'h Request \<Rightarrow> ('r, 't) Data \<Rightarrow> Status \<Rightarrow> 'k CookieJar \<Rightarrow>
   (('b, 'io) Response, Status, ('r, 't) Data \<times> Status) Outcome \<times> 'h Request \<times> 'k CookieJar" where
  "route_loop a [] req data st jar = (Forward (data, st), req, jar)"
| "route_loop a (r # rs) req data st jar =
     (let req = set_route r req;
          (res, jar) = a_route a (rt_handler r) req data jar;
          outcome = (case res of Some v \<Rightarrow> v | None \<Rightarrow> Error Status_InternalServerError)
      in case outcome of
           Success response \<Rightarrow> (Success response, req, jar)
         | Error st \<Rightarrow> (Error st, req, jar)
         | Forward (data, st) \<Rightarrow> route_loop a rs req data st jar)"

definition route_request ::
  "('h, 'c, 'f, 'r, 't, 'e, 'k, 'b, 'io) app \<Rightarrow> ('h, 'c, 'f) Rocket \<Rightarrow> 'h Request \<Rightarrow> ('r, 't) Data \<Rightarrow> 'k CookieJar \<Rightarrow>
   (('b, 'io) Response, Status, ('r, 't) Data \<times> Status) Outcome \<times> 'h Request \<times> 'k CookieJar" where
  "route_request a self req data jar =
     route_loop a (route (a_ext a) (rk_router self) req) req data Status_NotFound jar"

section \<open>Model: catchers\<close>

definition invoke_catcher ::
  "('h, 'c, 'f, 'r, 't, 'e, 'k, 'b, 'io) app \<Rightarrow> ('h, 'c, 'f) Rocket \<Rightarrow> Status \<Rightarrow> 'h Request \<Rightarrow> 'k CookieJar \<Rightarrow>
   (('b, 'io) Response, Status option) result \<times> 'k CookieJar" where
  "invoke_catcher a self st req jar =
     (case catch (a_ext a) (rk_router self) st req of
        Some catcher \<Rightarrow>
          (case a_catcher a (ca_handler catcher) st req jar of
             (Some (Ok r), jar) \<Rightarrow> (Ok r, jar)
           | (Some (Err s), jar) \<Rightarrow> (Err (Some s), jar)
           | (None, jar) \<Rightarrow> (Err None, jar))
      | None \<Rightarrow> (Ok (default_handler (a_ext a) (a_cursor a) st req), jar))"

function error_loop ::
  "('h, 'c, 'f, 'r, 't, 'e, 'k, 'b, 'io) app \<Rightarrow> ('h, 'c, 'f) Rocket \<Rightarrow> Status \<Rightarrow> 'h Request \<Rightarrow> 'k CookieJar \<Rightarrow>
   ('b, 'io) Response \<times> 'k CookieJar" where
  "error_loop a self st req jar =
     (case invoke_catcher a self st req jar of
        (Ok r, jar) \<Rightarrow> (r, jar)
      | (Err e, jar) \<Rightarrow>
          if code st \<noteq> 500 then error_loop a self Status_InternalServerError req jar
          else (default_handler (a_ext a) (a_cursor a) Status_InternalServerError req, jar))"
  by pat_completeness auto
termination
  by (relation "measure (\<lambda>(a, self, st, req, jar). if code st = 500 then 0 else 1)") auto

declare error_loop.simps [simp del]

definition dispatch_error ::
  "('h, 'c, 'f, 'r, 't, 'e, 'k, 'b, 'io) app \<Rightarrow> ('h, 'c, 'f) Rocket \<Rightarrow> Status \<Rightarrow> 'h Request \<Rightarrow> 'k CookieJar \<Rightarrow>
   ('b, 'io) Response \<times> 'k CookieJar" where
  "dispatch_error a self st req jar = error_loop a self st req (reset_delta jar)"

section \<open>Model: dispatch\<close>

text \<open>The first half of \<open>dispatch\<close>: the response of a route or a catcher.\<close>

definition respond ::
  "('h, 'c, 'f, 'r, 't, 'e, 'k, 'b, 'io) app \<Rightarrow> ('h, 'c, 'f) Rocket \<Rightarrow> 'h Request \<Rightarrow> ('r, 't) Data \<Rightarrow> 'k CookieJar \<Rightarrow>
   ('b, 'io) Response \<times> 'h Request \<times> 'k CookieJar" where
  "respond a self req data jar =
     (case route_request a self req data jar of
        (Success response, req, jar) \<Rightarrow> (response, req, jar)
      | (Forward (data, st), req, jar) \<Rightarrow>
          if rq_method req = Head then
            let req = set_method Get req
            in case route_request a self req data jar of
                 (Success response, req, jar) \<Rightarrow> (response, req, jar)
               | (Error st, req, jar) \<Rightarrow>
                   (case dispatch_error a self st req jar of (r, jar) \<Rightarrow> (r, req, jar))
               | (Forward (_, st), req, jar) \<Rightarrow>
                   (case dispatch_error a self st req jar of (r, jar) \<Rightarrow> (r, req, jar))
          else (case dispatch_error a self st req jar of (r, jar) \<Rightarrow> (r, req, jar))
      | (Error st, req, jar) \<Rightarrow> (case dispatch_error a self st req jar of (r, jar) \<Rightarrow> (r, req, jar)))"

text \<open>The second half: cookies, the \<open>Server\<close> header, response fairings, and the body.\<close>

definition set_cookies :: "uncased_key \<Rightarrow> 'k cookie_crate \<Rightarrow> Cookie list \<Rightarrow> ('b, 'io) Response \<Rightarrow> ('b, 'io) Response" where
  "set_cookies uc cc delta response = fold (\<lambda>cookie. adjoin_header uc (cookie_header cc cookie)) delta response"





definition extract_io_handler ::
  "uncased_key \<Rightarrow> 'h Request \<Rightarrow> ('b, 'io) Response \<Rightarrow> (str \<times> 'io) option \<times> ('b, 'io) Response" where
  "extract_io_handler uc req response =
     (case search_upgrades uc (hm_get uc ''upgrade'' (rq_headers req)) response of
        (Err _, response) \<Rightarrow> (None, response)
      | (Ok None, response) \<Rightarrow> (None, response)
      | (Ok (Some (proto, io_handler)), response) \<Rightarrow>
          let response = set_status \<lparr>code = 101\<rparr> response;
              response = snd (set_raw_header uc ''Connection'' ''Upgrade'' response);
              response = snd (set_raw_header uc ''Upgrade'' proto response)
          in (Some (proto, io_handler), response))"

section \<open>Lemmas: routing\<close>

text \<open>Matching does not read the matched route, so the lazy iterator sees the same routes at every step.\<close>

lemma route_matches_set_route: "route_matches x r (set_route r' req) = route_matches x r req"
  by (simp add: route_matches_def methods_match_def paths_match_def queries_match_def formats_match_def
      set_route_def format_def content_type_def accept_def Let_def query_fields_def
      split: option.split)

lemma route_set_route: "route x f (set_route r req) = route x f req"
proof -
  have "rq_method (set_route r req) = rq_method req" by (simp add: set_route_def)
  then show ?thesis unfolding route_def by (simp add: route_matches_set_route cong: option.case_cong)
qed

text \<open>\<open>forwards\<close>: every one of these routes is tried and forwards; the data, status and jar it leaves.\<close>

fun forwards ::
  "('h, 'c, 'f, 'r, 't, 'e, 'k, 'b, 'io) app \<Rightarrow> 'h Route list \<Rightarrow> 'h Request \<Rightarrow>
   ('r, 't) Data \<times> Status \<times> 'k CookieJar \<Rightarrow> (('r, 't) Data \<times> Status \<times> 'k CookieJar) option" where
  "forwards a [] req s = Some s"
| "forwards a (r # rs) req (data, st, jar) =
     (case a_route a (rt_handler r) (set_route r req) data jar of
        (Some (Forward (data', st')), jar') \<Rightarrow> forwards a rs req (data', st', jar')
      | _ \<Rightarrow> None)"

lemma set_route_set_route [simp]: "set_route r (set_route r' req) = set_route r req"
  by (simp add: set_route_def)

lemma forwards_set_route: "forwards a rs (set_route r req) s = forwards a rs req s"
  by (induction a rs req s rule: forwards.induct) (auto split: option.splits prod.splits Outcome.splits)

text \<open>What one route that does not forward makes of the outcome.\<close>

definition concludes ::
  "('h, 'c, 'f, 'r, 't, 'e, 'k, 'b, 'io) app \<Rightarrow> 'h Route \<Rightarrow> 'h Request \<Rightarrow> ('r, 't) Data \<Rightarrow> 'k CookieJar \<Rightarrow>
   (('b, 'io) Response, Status, ('r, 't) Data \<times> Status) Outcome \<Rightarrow> 'k CookieJar \<Rightarrow> bool" where
  "concludes a r req data jar out jar' =
     (case a_route a (rt_handler r) (set_route r req) data jar of
        (None, j) \<Rightarrow> out = Error Status_InternalServerError \<and> jar' = j
      | (Some v, j) \<Rightarrow> \<not> is_forward v \<and> out = v \<and> jar' = j)"

lemma route_loop_outcome:
  "route_loop a rs req data st jar = (out, req', jar') \<Longrightarrow>
   \<exists>pre post d s j. rs = pre @ post \<and> forwards a pre req (data, st, jar) = Some (d, s, j)
     \<and> (case post of
          [] \<Rightarrow> out = Forward (d, s) \<and> jar' = j \<and> req' = (if pre = [] then req else set_route (last pre) req)
        | r # _ \<Rightarrow> concludes a r req d j out jar' \<and> req' = set_route r req)"
proof (induction a rs req data st jar rule: route_loop.induct)
  case (1 a req data st jar)
  then show ?case by simp
next
  case (2 a r rs req data st jar)
  obtain res j where res: "a_route a (rt_handler r) (set_route r req) data jar = (res, j)"
    by (cases "a_route a (rt_handler r) (set_route r req) data jar")
  show ?case
  proof (cases "\<exists>d' s'. res = Some (Forward (d', s'))")
    case True
    then obtain d' s' where f: "res = Some (Forward (d', s'))" by blast
    then have "route_loop a rs (set_route r req) d' s' j = (out, req', jar')"
      using 2(2) res by simp
    then obtain pre post d s j' where
      "rs = pre @ post" "forwards a pre (set_route r req) (d', s', j) = Some (d, s, j')"
      "case post of [] \<Rightarrow> out = Forward (d, s) \<and> jar' = j'
           \<and> req' = (if pre = [] then set_route r req else set_route (last pre) (set_route r req))
       | q # _ \<Rightarrow> concludes a q (set_route r req) d j' out jar' \<and> req' = set_route q (set_route r req)"
      using 2(1) [OF refl res [symmetric] refl] f by fastforce
    then show ?thesis
      using f res
      by (intro exI [of _ "r # pre"] exI [of _ post] exI [of _ d] exI [of _ s] exI [of _ j'])
         (auto simp: forwards_set_route concludes_def split: list.splits)
  next
    case False
    then have "concludes a r req data jar out jar' \<and> req' = set_route r req"
      using 2(2) res
      by (cases res; cases "the res") (auto simp: concludes_def)
    then show ?thesis by (intro exI [of _ "[]"] exI [of _ "r # rs"]) auto
  qed
qed

lemma route_loop_method:
  assumes "route_loop a rs req data st jar = (out, req', jar')"
  shows "rq_method req' = rq_method req"
proof -
  obtain pre post d s j where
    "case post of
       [] \<Rightarrow> out = Forward (d, s) \<and> jar' = j \<and> req' = (if pre = [] then req else set_route (last pre) req)
     | r # _ \<Rightarrow> concludes a r req d j out jar' \<and> req' = set_route r req"
    using route_loop_outcome [OF assms] by blast
  then show ?thesis by (cases post) (auto simp: set_route_def split: if_splits)
qed

lemma route_request_method:
  "route_request a self req data jar = (out, req', jar') \<Longrightarrow> rq_method req' = rq_method req"
  unfolding route_request_def by (rule route_loop_method)

section \<open>Lemmas: the final response\<close>

lemma hm_get_set_raw:
  "hm_get uc k (rs_headers (snd (set_raw_header uc n v r))) = (if uc n = uc k then [v] else hm_get uc k (rs_headers r))"
  by (simp add: set_raw_header_def set_header_def hm_replace_def header_new_def hm_get_def im_get_insert Let_def)

lemma set_raw_header_frame [simp]:
  "rs_status (snd (set_raw_header uc n v r)) = rs_status r" "rs_body (snd (set_raw_header uc n v r)) = rs_body r"
  "status (snd (set_raw_header uc n v r)) = status r"
  by (simp_all add: set_raw_header_def set_header_def status_def Let_def split: prod.split)



section \<open>Properties\<close>

text \<open>
  C3. Routing a request (\<open>Rocket::route\<close>, \<open>lifecycle.rs\<close>): the matching routes are tried in the router's
  order, each with the data, status and cookies the previous one forwarded, until one does not
  forward; its success or error is the outcome, and a panic in it is an internal server error.  When
  all forward, the outcome forwards with the status of the last, and with 404 when there was none.
\<close>

theorem route_request_outcome:
  "case route_request a self req data jar of (out, req', jar') \<Rightarrow>
     \<exists>pre post d s j. route (a_ext a) (rk_router self) req = pre @ post
       \<and> forwards a pre req (data, Status_NotFound, jar) = Some (d, s, j)
       \<and> (case post of
            [] \<Rightarrow> out = Forward (d, s) \<and> jar' = j
          | r # _ \<Rightarrow> rq_route req' = Some r \<and> concludes a r req d j out jar')"
proof -
  obtain out req' jar' where o: "route_request a self req data jar = (out, req', jar')"
    by (metis prod.exhaust)
  then obtain pre post d s j where p: "route (a_ext a) (rk_router self) req = pre @ post"
    "forwards a pre req (data, Status_NotFound, jar) = Some (d, s, j)"
    "case post of
       [] \<Rightarrow> out = Forward (d, s) \<and> jar' = j \<and> req' = (if pre = [] then req else set_route (last pre) req)
     | r # _ \<Rightarrow> concludes a r req d j out jar' \<and> req' = set_route r req"
    unfolding route_request_def by (blast dest: route_loop_outcome)
  from p(3) have "case post of [] \<Rightarrow> out = Forward (d, s) \<and> jar' = j
      | r # _ \<Rightarrow> rq_route req' = Some r \<and> concludes a r req d j out jar'"
    by (cases post) (auto simp: set_route_def)
  with p(1,2) show ?thesis unfolding o prod.case by blast
qed

text \<open>
  C4. Error handling (\<open>Rocket::dispatch_error\<close>, \<open>lifecycle.rs\<close>) always ends with a response, after at most two
  catchers: the one for the status, then, if that fails or panics and the status was not 500 already,
  the one for 500, and then the default 500 page, which cannot fail.  Cookies that were pending before
  have no influence on it.
\<close>

theorem dispatch_error_spec:
  "dispatch_error a self st req jar =
     (let page = default_handler (a_ext a) (a_cursor a) Status_InternalServerError req
      in case invoke_catcher a self st req (reset_delta jar) of
           (Ok r, j) \<Rightarrow> (r, j)
         | (Err _, j) \<Rightarrow>
             if code st = 500 then (page, j)
             else (case invoke_catcher a self Status_InternalServerError req j of
                     (Ok r, j') \<Rightarrow> (r, j')
                   | (Err _, j') \<Rightarrow> (page, j')))
   \<and> dispatch_error a self st req (jar\<lparr>cj_ops := ops\<rparr>) = dispatch_error a self st req jar"
proof -
  have "error_loop a self Status_InternalServerError req j =
      (case invoke_catcher a self Status_InternalServerError req j of
         (Ok r, j') \<Rightarrow> (r, j')
       | (Err _, j') \<Rightarrow> (default_handler (a_ext a) (a_cursor a) Status_InternalServerError req, j'))" for j
    by (subst error_loop.simps) (simp split: prod.split sum.split)
  then show ?thesis
    unfolding dispatch_error_def
    by (subst error_loop.simps) (auto simp: reset_delta_def Let_def split: prod.split sum.split)
qed

text \<open>
  A HEAD request that no HEAD route answers (\<open>Rocket::dispatch\<close>, \<open>lifecycle.rs\<close>) is answered as the GET
  request, with the data and cookies that the HEAD routes forwarded; a HEAD route that does not
  forward decides the response itself.
\<close>

theorem head_falls_back:
  "if rq_method req = Head then
     (case route_request a self req data jar of
        (Success r, req', j) \<Rightarrow> respond a self req data jar = (r, req', j)
      | (Error st, req', j) \<Rightarrow>
          respond a self req data jar = (case dispatch_error a self st req' j of (r, j') \<Rightarrow> (r, req', j'))
      | (Forward (d, st), req', j) \<Rightarrow> respond a self req data jar = respond a self (set_method Get req') d j)
   else True"
proof (cases "rq_method req = Head")
  case True
  obtain out req' j where o: "route_request a self req data jar = (out, req', j)" by (metis prod.exhaust)
  then have head: "rq_method req' = Head" using route_request_method True by metis
  show ?thesis
  proof (cases out)
    case (Forward ds)
    obtain d st where ds: "ds = (d, st)" by (cases ds)
    obtain out2 req2 j2 where o2: "route_request a self (set_method Get req') d j = (out2, req2, j2)"
      by (metis prod.exhaust)
    then have "rq_method req2 = Get" using route_request_method by (fastforce simp: set_method_def)
    then show ?thesis
      using True head
      by (cases out2) (auto simp: respond_def o o2 Forward ds split: prod.splits)
  qed (simp_all add: True o respond_def)
qed simp






text \<open>
  The method override of forms (\<open>Rocket::preprocess\<close>, \<open>lifecycle.rs\<close>): the first nonempty field of the
  peeked bytes names the method exactly when the bytes are UTF-8, the first key of the field's name is
  \<open>_method\<close>, and its value parses as a method.  The comparison of names it makes always ends.
\<close>

theorem form_method_spec:
  "form_method bytes =
     (case filter (\<lambda>s. s \<noteq> []) (split amp bytes) of
        [] \<Rightarrow> None
      | piece # _ \<Rightarrow>
          (case split_at_byte eq_sign piece of (n, v) \<Rightarrow>
             if utf8 bytes \<and> n \<noteq> [] \<and> slice_key True (take (shift_len n) n) = ''_method''
             then ok_opt (method_try_from v) else None))"
proof (cases "filter (\<lambda>s. s \<noteq> []) (split amp bytes)")
  case Nil
  then show ?thesis by (simp add: form_method_def form_values_def)
next
  case (Cons piece rest)
  obtain n v where nv: "split_at_byte eq_sign piece = (n, v)" by (cases "split_at_byte eq_sign piece")
  have "eq_sign \<notin> set n"
    using nv by (auto simp: split_at_byte_eq is_ascii_def split_once_Some split_once_None split: option.splits)
  moreover have "name_keys ''_method'' = Some [''_method'']"
  proof -
    have "shift_len ''_method'' = 7" by (simp add: shift_len_def start_delim_def)
    then have "slices ''_method'' = ([''_method''], [])"
      by (simp add: slices.simps [of "''_method''"] slices.simps [of "[]"])
    then show ?thesis by (simp add: name_keys_eq slice_key_def)
  qed
  ultimately have "view_eq_str (view_new n) ''_method'' =
      Some ([''_method''] = (if n = [] then [] else [slice_key True (take (shift_len n) n)]))"
    by (rule view_eq_first_key)
  then show ?thesis
    by (auto simp: form_method_def form_values_def Cons field_parse_def value_field_from_def nv)
qed

section \<open>Properties: cookies and upgrades\<close>

lemma hm_get_adjoin:
  "hm_get uc k (rs_headers (adjoin_header uc h r)) =
     (if uc (h_name h) = uc k then hm_get uc k (rs_headers r) @ [h_value h] else hm_get uc k (rs_headers r))"
  by (auto simp: adjoin_header_def hm_add_def hm_get_def im_get_entry split: option.splits)

text \<open>
  Pending cookies (the loop over \<open>take_delta_jar().delta()\<close> in \<open>Rocket::dispatch\<close>, \<open>lifecycle.rs\<close>) are sent as
  one \<open>Set-Cookie\<close> value each, in order, after those the handler set itself, and no other header, nor
  the status or the body, is touched.
\<close>

theorem set_cookies_sent:
  "hm_get uc k (rs_headers (set_cookies uc cc delta r)) =
     hm_get uc k (rs_headers r) @ (if uc ''Set-Cookie'' = uc k then map (cc_encoded cc) delta else [])
   \<and> rs_status (set_cookies uc cc delta r) = rs_status r \<and> rs_body (set_cookies uc cc delta r) = rs_body r"
proof (induction delta arbitrary: r)
  case (Cons c delta)
  have "set_cookies uc cc (c # delta) r = set_cookies uc cc delta (adjoin_header uc (cookie_header cc c) r)"
    by (simp add: set_cookies_def)
  moreover have "rs_status (adjoin_header uc h r) = rs_status r" "rs_body (adjoin_header uc h r) = rs_body r" for h
    by (simp_all add: adjoin_header_def)
  ultimately show ?case
    using Cons [of "adjoin_header uc (cookie_header cc c) r"]
    by (simp add: hm_get_adjoin) (simp add: cookie_header_def header_new_def)
qed (simp add: set_cookies_def)

lemma remove_entry_get:
  "case remove_entry uc k m of
     (None, m') \<Rightarrow> m' = m \<and> im_get uc k m = None
   | (Some (k', v), m') \<Rightarrow> uc k' = uc k \<and> im_get uc k m = Some v"
  by (induction uc k m rule: remove_entry.induct) (auto split: prod.splits option.splits)

lemma find_upgrade_first:
  "case find_upgrade uc ps m of
     (None, m') \<Rightarrow> m' = m \<and> list_all (\<lambda>p. im_get uc p m = None) ps
   | (Some (p, h), m') \<Rightarrow> \<exists>pre q post. ps = pre @ q # post \<and> list_all (\<lambda>p. im_get uc p m = None) pre
        \<and> uc p = uc q \<and> im_get uc q m = Some h"
proof (induction uc ps m rule: find_upgrade.induct)
  case (2 uc p ps m)
  note entry = remove_entry_get [where uc = uc and k = p and m = m]
  obtain e m' where e: "remove_entry uc p m = (e, m')" by (cases "remove_entry uc p m")
  show ?case
  proof (cases e)
    case None
    then have m: "m' = m" "im_get uc p m = None" using entry e by simp_all
    have step: "find_upgrade uc (p # ps) m = find_upgrade uc ps m" using e None m by simp
    show ?thesis
    proof (cases "find_upgrade uc ps m")
      case (Pair f n)
      note IH = 2 [OF e [symmetric] None, unfolded m Pair prod.case]
      show ?thesis
      proof (cases f)
        case (Some ph)
        obtain w h where ph: "ph = (w, h)" by (cases ph)
        then obtain pre q post where "ps = pre @ q # post" "list_all (\<lambda>p. im_get uc p m = None) pre"
          "uc w = uc q" "im_get uc q m = Some h"
          using IH Some by auto
        then have "p # ps = (p # pre) @ q # post \<and> list_all (\<lambda>p. im_get uc p m = None) (p # pre)
            \<and> uc w = uc q \<and> im_get uc q m = Some h" using m by simp
        then show ?thesis unfolding step Pair Some ph prod.case option.case by blast
      qed (use IH m step Pair in simp)
    qed
  next
    case (Some kv)
    obtain w h where kv: "kv = (w, h)" by (cases kv)
    then have "p # ps = [] @ p # ps \<and> list_all (\<lambda>p. im_get uc p m = None) [] \<and> uc w = uc p \<and> im_get uc p m = Some h"
      using entry e Some by simp
    then show ?thesis unfolding find_upgrade.simps e Some kv prod.case option.case by blast
  qed
qed simp

text \<open>The protocols a request asks to upgrade to, in order.\<close>

definition requested :: "uncased_key \<Rightarrow> 'h Request \<Rightarrow> str list" where
  "requested uc req = concat (map (\<lambda>v. map trim (split (CHR '','') v)) (hm_get uc ''upgrade'' (rq_headers req)))"

text \<open>
  Upgrading a connection (\<open>Rocket::extract_io_handler\<close>, \<open>lifecycle.rs\<close>; \<open>Response::search_upgrades\<close>,
  \<open>response.rs\<close>): the handler of the first requested protocol that the response registered is taken, and
  exactly then the response becomes a 101 with the two upgrade headers; otherwise no requested
  protocol was registered and status and headers are unchanged.
\<close>

theorem io_upgrade:
  assumes names: "uc ''Connection'' \<noteq> uc ''Upgrade''"
  shows "case extract_io_handler uc req r of
      (None, r') \<Rightarrow> rs_status r' = rs_status r \<and> rs_headers r' = rs_headers r
        \<and> list_all (\<lambda>p. im_get uc p (rs_upgrade r) = None) (requested uc req)
    | (Some (p, h), r') \<Rightarrow>
        (\<exists>pre q post. requested uc req = pre @ q # post \<and> list_all (\<lambda>p. im_get uc p (rs_upgrade r) = None) pre
           \<and> uc p = uc q \<and> im_get uc q (rs_upgrade r) = Some h)
        \<and> code (status r') = 101 \<and> rs_body r' = rs_body r
        \<and> hm_get uc ''Connection'' (rs_headers r') = [''Upgrade''] \<and> hm_get uc ''Upgrade'' (rs_headers r') = [p]"
proof (cases "rs_upgrade r = []")
  case True
  then show ?thesis by (simp add: extract_io_handler_def search_upgrades_def list_all_iff)
next
  case False
  obtain f m where f: "find_upgrade uc (requested uc req) (rs_upgrade r) = (f, m)"
    by (cases "find_upgrade uc (requested uc req) (rs_upgrade r)")
  have s: "search_upgrades uc (hm_get uc ''upgrade'' (rq_headers req)) r =
      (case f of Some h \<Rightarrow> Ok (Some h)
       | None \<Rightarrow> if hm_get uc ''upgrade'' (rq_headers req) \<noteq> [] then Err () else Ok None, r\<lparr>rs_upgrade := m\<rparr>)"
    using False f by (simp add: search_upgrades_def requested_def Let_def split: option.split)
  show ?thesis
    using find_upgrade_first [where uc = uc and ps = "requested uc req" and m = "rs_upgrade r"] names
    by (cases f)
       (auto simp: extract_io_handler_def s f Let_def hm_get_set_raw set_status_def status_def split: prod.splits)
qed

theorem io_upgrade_witness:
  "map_option snd (fst (extract_io_handler lowercase
     ((request_new None False Get \<lparr>o_path = ''/'', o_query = None\<rparr> :: nat Request)\<lparr>rq_headers := [(''Upgrade'', [''websocket''])]\<rparr>)
     (add_upgrade lowercase ''WebSocket'' 7 response_new :: (nat, nat) Response))) = Some 7
   \<and> lowercase ''Connection'' \<noteq> lowercase ''Upgrade''"
proof -
  let ?req = "(request_new None False Get \<lparr>o_path = ''/'', o_query = None\<rparr> :: nat Request)\<lparr>rq_headers := [(''Upgrade'', [''websocket''])]\<rparr>"
  let ?r = "add_upgrade lowercase ''WebSocket'' 7 response_new :: (nat, nat) Response"
  have names: "lowercase ''Connection'' \<noteq> lowercase ''Upgrade''" by code_simp
  have "trim ''websocket'' = ''websocket''" by (simp add: uri_eval)
  moreover have "lowercase ''Upgrade'' = lowercase ''upgrade''" by code_simp
  ultimately have req: "requested lowercase ?req = [''websocket'']" by (simp add: requested_def hm_get_def)
  have reg: "im_get lowercase ''websocket'' (rs_upgrade ?r) = Some 7" by code_simp
  show ?thesis
    using io_upgrade [OF names, where req = ?req and r = ?r] names req reg
    by (cases "extract_io_handler lowercase ?req ?r"; cases "fst (extract_io_handler lowercase ?req ?r)")
       (auto simp: Cons_eq_append_conv)
qed

end
