(* ===== verification/DataLimits.thy ===== *)
theory DataLimits
  imports MediaTypes
begin

text \<open>
  Data limits (\<open>core/lib/src/data/limits.rs\<close>): a vector of named limits kept sorted by name without regard
  to case, with hierarchical lookup by a slash-separated name or by a list of layers.

  The order of \<open>Uncased\<close> names belongs to the crate \<open>uncased\<close> and is the parameter \<open>ucmp\<close>; that it is a
  total order whose equality is that of the key function \<open>uc\<close> is the hypothesis \<open>uncased_order\<close>.
  \<open>binary_search_by\<close> and the order of \<open>str\<close> are those of the standard library.  Limits are numbers of bytes.
\<close>

section \<open>Model: searching\<close>

datatype ordering = Less | Equal | Greater

fun reverse :: "ordering \<Rightarrow> ordering" where
  "reverse Less = Greater"
| "reverse Equal = Equal"
| "reverse Greater = Less"

text \<open>The comparison of slices and iterators: element by element, a proper prefix first.\<close>

fun list_cmp :: "('a \<Rightarrow> 'a \<Rightarrow> ordering) \<Rightarrow> 'a list \<Rightarrow> 'a list \<Rightarrow> ordering" where
  "list_cmp cmp [] [] = Equal"
| "list_cmp cmp [] (b # bs) = Less"
| "list_cmp cmp (a # as) [] = Greater"
| "list_cmp cmp (a # as) (b # bs) = (case cmp a b of Equal \<Rightarrow> list_cmp cmp as bs | c \<Rightarrow> c)"

definition byte_cmp :: "byte \<Rightarrow> byte \<Rightarrow> ordering" where
  "byte_cmp a b =
     (if (of_char a :: nat) < of_char b then Less else if a = b then Equal else Greater)"

definition str_cmp :: "str \<Rightarrow> str \<Rightarrow> ordering" where
  "str_cmp = list_cmp byte_cmp"

function bsb_loop :: "('a \<Rightarrow> ordering) \<Rightarrow> 'a list \<Rightarrow> nat \<Rightarrow> nat \<Rightarrow> nat" where
  "bsb_loop cmp xs base len =
     (if len > 1 then
        let half = len div 2; mid = base + half
        in bsb_loop cmp xs (if cmp (xs ! mid) = Greater then base else mid) (len - half)
      else base)"
  by pat_completeness auto
termination by (relation "measure (\<lambda>(cmp, xs, base, len). len)") auto

declare bsb_loop.simps [simp del]

definition binary_search_by :: "('a \<Rightarrow> ordering) \<Rightarrow> 'a list \<Rightarrow> (nat, nat) result" where
  "binary_search_by cmp xs =
     (if xs = [] then Err 0
      else let base = bsb_loop cmp xs 0 (length xs)
           in case cmp (xs ! base) of Equal \<Rightarrow> Ok base | Less \<Rightarrow> Err (base + 1) | Greater \<Rightarrow> Err base)"

section \<open>Model: limits\<close>

type_synonym ByteUnit = nat
type_synonym uncased_cmp = "str \<Rightarrow> str \<Rightarrow> ordering"

record Limits =
  li_limits :: "(str \<times> ByteUnit) list"

definition kibibytes :: "nat \<Rightarrow> ByteUnit" where "kibibytes n = n * 2 ^ 10"
definition mebibytes :: "nat \<Rightarrow> ByteUnit" where "mebibytes n = n * 2 ^ 20"

definition limits_new :: Limits where
  "limits_new = \<lparr>li_limits = []\<rparr>"

definition limit :: "uncased_cmp \<Rightarrow> str \<Rightarrow> ByteUnit \<Rightarrow> Limits \<Rightarrow> Limits" where
  "limit ucmp name n self =
     (let v = li_limits self
      in case binary_search_by (\<lambda>(k, _). ucmp k name) v of
           Ok i \<Rightarrow> \<lparr>li_limits = v[i := (fst (v ! i), n)]\<rparr>
         | Err i \<Rightarrow> \<lparr>li_limits = take i v @ (name, n) # drop i v\<rparr>)"

definition limits_default :: "uncased_cmp \<Rightarrow> Limits" where
  "limits_default ucmp =
     (limit ucmp ''msgpack'' (mebibytes 1)
     (limit ucmp ''json'' (mebibytes 1)
     (limit ucmp ''bytes'' (kibibytes 8)
     (limit ucmp ''string'' (kibibytes 8)
     (limit ucmp ''file'' (mebibytes 1)
     (limit ucmp ''data-form'' (mebibytes 2)
     (limit ucmp ''form'' (kibibytes 32) limits_new)))))))"

definition exact_limit :: "uncased_cmp \<Rightarrow> str \<Rightarrow> Limits \<Rightarrow> ByteUnit option" where
  "exact_limit ucmp name self =
     (case binary_search_by (\<lambda>(k, _). ucmp k name) (li_limits self) of
        Ok i \<Rightarrow> Some (snd (li_limits self ! i))
      | Err _ \<Rightarrow> None)"

text \<open>\<open>rmatch_indices('/')\<close>: the positions of the slashes, last first.\<close>

definition rmatch_indices :: "str \<Rightarrow> nat list" where
  "rmatch_indices name = rev (filter (\<lambda>i. name ! i = CHR ''/'') [0..<length name])"

fun get_loop :: "uncased_cmp \<Rightarrow> Limits \<Rightarrow> str \<Rightarrow> nat list \<Rightarrow> ByteUnit option" where
  "get_loop ucmp self name [] = exact_limit ucmp name self"
| "get_loop ucmp self name (i # is) =
     (case exact_limit ucmp name self of
        Some exact \<Rightarrow> Some exact
      | None \<Rightarrow> get_loop ucmp self (take i name) is)"

definition limits_get :: "uncased_cmp \<Rightarrow> str \<Rightarrow> Limits \<Rightarrow> ByteUnit option" where
  "limits_get ucmp name self = get_loop ucmp self name (rmatch_indices name)"

fun find_loop :: "Limits \<Rightarrow> str list \<Rightarrow> nat list \<Rightarrow> ByteUnit option" where
  "find_loop self layers [] = None"
| "find_loop self layers (j # js) =
     (case binary_search_by (\<lambda>(k, _). list_cmp str_cmp (split (CHR ''/'') k) (take j layers)) (li_limits self) of
        Ok i \<Rightarrow> Some (snd (li_limits self ! i))
      | Err _ \<Rightarrow> find_loop self layers js)"

definition limits_find :: "str list \<Rightarrow> Limits \<Rightarrow> ByteUnit option" where
  "limits_find layers self = find_loop self layers (rev [1..<length layers + 1])"

section \<open>Lemmas: binary search\<close>

text \<open>A vector is partitioned by a comparison when the smaller elements stand before the greater ones.\<close>

definition partitioned :: "('a \<Rightarrow> ordering) \<Rightarrow> 'a list \<Rightarrow> bool" where
  "partitioned cmp xs = sorted_wrt (\<lambda>a b. cmp a = Less \<or> cmp b = Greater) xs"

lemma partitioned_nth:
  "partitioned cmp xs \<Longrightarrow> i < j \<Longrightarrow> j < length xs \<Longrightarrow> cmp (xs ! i) = Less \<or> cmp (xs ! j) = Greater"
  unfolding partitioned_def by (rule sorted_wrt_nth_less)

lemma bsb_loop_spec:
  assumes "partitioned cmp xs" and "0 < len" and "base + len \<le> length xs"
    and "base = 0 \<or> cmp (xs ! base) \<noteq> Greater"
    and "\<forall>j. base + len \<le> j \<and> j < length xs \<longrightarrow> cmp (xs ! j) = Greater"
  shows "let b = bsb_loop cmp xs base len in
    b < length xs \<and> (b = 0 \<or> cmp (xs ! b) \<noteq> Greater) \<and> (\<forall>j. b < j \<and> j < length xs \<longrightarrow> cmp (xs ! j) = Greater)"
  using assms
proof (induction cmp xs base len rule: bsb_loop.induct)
  case (1 cmp xs base len)
  show ?case
  proof (cases "len > 1")
    case False
    then have "len = 1" using 1(3) by simp
    moreover have "bsb_loop cmp xs base 1 = base" by (subst bsb_loop.simps) simp
    ultimately show ?thesis using 1(4-6) by (auto simp: Let_def)
  next
    case True
    let ?half = "len div 2" and ?mid = "base + len div 2"
    have mid: "?mid < length xs" "base < ?mid" "?mid < base + len" using True 1(4) by auto
    have step: "bsb_loop cmp xs base len = bsb_loop cmp xs (if cmp (xs ! ?mid) = Greater then base else ?mid) (len - ?half)"
      using True by (subst bsb_loop.simps) (simp add: Let_def)
    show ?thesis
    proof (cases "cmp (xs ! ?mid) = Greater")
      case g: True
      have "cmp (xs ! j) = Greater" if "base + (len - ?half) \<le> j" "j < length xs" for j
      proof (cases "j \<le> ?mid")
        case True
        have "len - ?half \<ge> ?half" by simp
        then have "j = ?mid" using True that(1) by linarith
        then show ?thesis using g by simp
      next
        case False
        then show ?thesis using partitioned_nth [OF 1(2), of ?mid j] g that(2) by auto
      qed
      then show ?thesis
        unfolding step using g 1(1) [OF True refl refl] 1(2,4,5) True by simp
    next
      case False
      then show ?thesis
        unfolding step using 1(1) [OF True refl refl] 1(2,4,6) True mid by simp
    qed
  qed
qed

lemma binary_search_by_spec:
  assumes "partitioned cmp xs"
  shows "case binary_search_by cmp xs of
      Ok i \<Rightarrow> i < length xs \<and> cmp (xs ! i) = Equal
    | Err i \<Rightarrow> i \<le> length xs \<and> (\<forall>j < i. cmp (xs ! j) = Less) \<and> (\<forall>j. i \<le> j \<and> j < length xs \<longrightarrow> cmp (xs ! j) = Greater)"
proof (cases "xs = []")
  case False
  define b where "b = bsb_loop cmp xs 0 (length xs)"
  have b: "b < length xs" "b = 0 \<or> cmp (xs ! b) \<noteq> Greater" "\<forall>j. b < j \<and> j < length xs \<longrightarrow> cmp (xs ! j) = Greater"
  proof -
    have "\<forall>j. 0 + length xs \<le> j \<and> j < length xs \<longrightarrow> cmp (xs ! j) = Greater" by auto
    then show "b < length xs" "b = 0 \<or> cmp (xs ! b) \<noteq> Greater" "\<forall>j. b < j \<and> j < length xs \<longrightarrow> cmp (xs ! j) = Greater"
      using bsb_loop_spec [OF assms, of "length xs" 0] False by (simp_all add: b_def Let_def)
  qed
  have before: "cmp (xs ! j) = Less" if "j < b" "cmp (xs ! b) = Less" for j
    using partitioned_nth [OF assms that(1) b(1)] that(2) by simp
  have after: "cmp (xs ! j) = Greater" if "b \<le> j" "j < length xs" "cmp (xs ! b) = Greater" for j
    using that b(3) by (cases "j = b") auto
  have result: "binary_search_by cmp xs =
      (case cmp (xs ! b) of Equal \<Rightarrow> Ok b | Less \<Rightarrow> Err (b + 1) | Greater \<Rightarrow> Err b)"
    unfolding b_def binary_search_by_def Let_def using False by simp
  show ?thesis
  proof (cases "cmp (xs ! b)")
    case Less
    then have "\<forall>j < b + 1. cmp (xs ! j) = Less" using before by (simp add: less_Suc_eq)
    moreover have "\<forall>j. b + 1 \<le> j \<and> j < length xs \<longrightarrow> cmp (xs ! j) = Greater" using b(3) by simp
    ultimately show ?thesis using Less b(1) by (simp add: result)
  next
    case Greater
    then have "b = 0" using b(2) by simp
    then show ?thesis using Greater after by (simp add: result)
  qed (use b(1) in \<open>simp add: result\<close>)
qed (simp add: binary_search_by_def)

section \<open>Lemmas: the vector as a map\<close>

definition uncased_order :: "uncased_key \<Rightarrow> uncased_cmp \<Rightarrow> bool" where
  "uncased_order uc ucmp =
     ((\<forall>a b. ucmp a b = Equal \<longleftrightarrow> uc a = uc b) \<and> (\<forall>a b. ucmp b a = reverse (ucmp a b))
      \<and> (\<forall>a b c. ucmp a b = Less \<and> ucmp b c \<noteq> Greater \<longrightarrow> ucmp a c = Less))"

definition limits_wf :: "uncased_cmp \<Rightarrow> Limits \<Rightarrow> bool" where
  "limits_wf ucmp self = sorted_wrt (\<lambda>a b. ucmp (fst a) (fst b) = Less) (li_limits self)"

definition limits_map :: "uncased_key \<Rightarrow> Limits \<Rightarrow> str \<rightharpoonup> ByteUnit" where
  "limits_map uc self = map_of (map (\<lambda>(k, v). (uc k, v)) (li_limits self))"

lemma uncased_order_less:
  assumes "uncased_order uc ucmp"
  shows "ucmp a b = Less \<Longrightarrow> ucmp b c \<noteq> Greater \<Longrightarrow> ucmp a c = Less"
    and "ucmp a b \<noteq> Greater \<Longrightarrow> ucmp b c = Less \<Longrightarrow> ucmp a c = Less"
    and "ucmp a b = Equal \<longleftrightarrow> uc a = uc b" and "ucmp b a = reverse (ucmp a b)"
proof -
  show less: "ucmp a b = Less \<Longrightarrow> ucmp b c \<noteq> Greater \<Longrightarrow> ucmp a c = Less" for a b c
    using assms unfolding uncased_order_def by blast
  show rev: "ucmp b a = reverse (ucmp a b)" for a b using assms unfolding uncased_order_def by blast
  show eq: "ucmp a b = Equal \<longleftrightarrow> uc a = uc b" for a b using assms unfolding uncased_order_def by blast
  assume ab: "ucmp a b \<noteq> Greater" and bc: "ucmp b c = Less"
  show "ucmp a c = Less"
  proof (cases "ucmp a b = Equal")
    case True
    have "ucmp a c \<noteq> Equal" using True bc eq [of a b] eq [of a c] eq [of b c] by auto
    moreover have "ucmp a c \<noteq> Greater"
    proof
      assume "ucmp a c = Greater"
      then have "ucmp c a = Less" using rev [of c a] by simp
      then have "ucmp c b = Less" using True less [of c a b] by simp
      then show False using bc rev [of c b] by simp
    qed
    ultimately show ?thesis by (cases "ucmp a c") auto
  next
    case False
    then have "ucmp a b = Less" using ab by (cases "ucmp a b") auto
    then show ?thesis using less [of a b c] bc by simp
  qed
qed

lemma limits_partitioned:
  assumes "uncased_order uc ucmp" and "limits_wf ucmp self"
  shows "partitioned (\<lambda>(k, _). ucmp k name) (li_limits self)"
  using assms(2) unfolding partitioned_def limits_wf_def
proof (rule sorted_wrt_mono_rel [rotated])
  fix a b :: "str \<times> ByteUnit"
  assume "ucmp (fst a) (fst b) = Less"
  then show "(case a of (k, _) \<Rightarrow> ucmp k name) = Less \<or> (case b of (k, _) \<Rightarrow> ucmp k name) = Greater"
    using uncased_order_less(1) [OF assms(1), of "fst a" "fst b" name] by (auto simp: case_prod_beta)
qed

lemma limits_map_nth:
  assumes "uncased_order uc ucmp" and "limits_wf ucmp self" and "i < length (li_limits self)"
  shows "limits_map uc self (uc (fst (li_limits self ! i))) = Some (snd (li_limits self ! i))"
proof -
  have "distinct (map fst (map (\<lambda>(k, v). (uc k, v)) (li_limits self)))"
    using assms(2) uncased_order_less(3) [OF assms(1)] unfolding limits_wf_def
    by (auto simp: distinct_conv_nth sorted_wrt_iff_nth_less case_prod_beta)
       (metis linorder_neqE_nat ordering.distinct(1))
  moreover have "(uc (fst (li_limits self ! i)), snd (li_limits self ! i)) \<in> set (map (\<lambda>(k, v). (uc k, v)) (li_limits self))"
    using assms(3) by (force simp: case_prod_beta)
  ultimately show ?thesis unfolding limits_map_def by (rule map_of_is_SomeI)
qed

lemma exact_limit_map:
  assumes "uncased_order uc ucmp" and "limits_wf ucmp self"
  shows "exact_limit ucmp name self = limits_map uc self (uc name)"
proof (cases "binary_search_by (\<lambda>(k, _). ucmp k name) (li_limits self)")
  case (Inr i)
  then have "i < length (li_limits self)" "uc (fst (li_limits self ! i)) = uc name"
    using binary_search_by_spec [OF limits_partitioned [OF assms], of name] uncased_order_less(3) [OF assms(1)]
    by (auto simp: case_prod_beta)
  then show ?thesis using limits_map_nth [OF assms, of i] Inr by (simp add: exact_limit_def)
next
  case (Inl i)
  have "uc k \<noteq> uc name" if "(k, v) \<in> set (li_limits self)" for k v
  proof -
    obtain j where "j < length (li_limits self)" "li_limits self ! j = (k, v)"
      using \<open>(k, v) \<in> set (li_limits self)\<close> by (auto simp: in_set_conv_nth)
    then have "ucmp k name = Less \<or> ucmp k name = Greater"
      using binary_search_by_spec [OF limits_partitioned [OF assms], of name, unfolded Inl sum.case]
      by (cases "j < i") (auto simp: not_less dest: spec [of _ j])
    then show ?thesis using uncased_order_less(3) [OF assms(1), of k name] by auto
  qed
  then have "limits_map uc self (uc name) = None" by (force simp: limits_map_def map_of_eq_None_iff)
  then show ?thesis using Inl by (simp add: exact_limit_def)
qed

lemma limits_new_wf: "limits_wf ucmp limits_new"
  by (simp add: limits_wf_def limits_new_def)

text \<open>Both branches of \<open>limit\<close> put the new entry between the smaller and the greater names.\<close>

lemma limit_splits:
  assumes ord: "uncased_order uc ucmp" and wf: "limits_wf ucmp self"
  obtains a mid b k where "li_limits self = a @ mid @ b" and "li_limits (limit ucmp name n self) = a @ (k, n) # b"
    and "uc k = uc name" and "mid = [] \<or> (\<exists>x. mid = [(k, x)])"
    and "\<forall>e \<in> set a. ucmp (fst e) k = Less" and "\<forall>e \<in> set b. ucmp k (fst e) = Less"
proof (cases "binary_search_by (\<lambda>(k, _). ucmp k name) (li_limits self)")
  case (Inr i)
  let ?v = "li_limits self"
  note spec = binary_search_by_spec [OF limits_partitioned [OF assms], of name, unfolded Inr sum.case]
  then have i: "i < length ?v" "uc (fst (?v ! i)) = uc name"
    using uncased_order_less(3) [OF ord] by (auto simp: case_prod_beta)
  have v: "?v = take i ?v @ [?v ! i] @ drop (Suc i) ?v" using i(1) by (simp add: id_take_nth_drop)
  have l: "li_limits (limit ucmp name n self) = take i ?v @ (fst (?v ! i), n) # drop (Suc i) ?v"
    using i(1) by (simp add: limit_def Inr Let_def upd_conv_take_nth_drop)
  have "sorted_wrt (\<lambda>a b. ucmp (fst a) (fst b) = Less) (take i ?v @ [?v ! i] @ drop (Suc i) ?v)"
    using wf v unfolding limits_wf_def by simp
  then have "\<forall>e \<in> set (take i ?v). ucmp (fst e) (fst (?v ! i)) = Less"
    "\<forall>e \<in> set (drop (Suc i) ?v). ucmp (fst (?v ! i)) (fst e) = Less"
    by (simp_all only: sorted_wrt_append) auto
  then show thesis
    using v l i(2) by (intro that [of "take i ?v" "[?v ! i]" "drop (Suc i) ?v" "fst (?v ! i)"]) (auto simp: prod_eq_iff)
next
  case (Inl i)
  let ?v = "li_limits self"
  note spec = binary_search_by_spec [OF limits_partitioned [OF assms], of name, unfolded Inl sum.case]
  have l: "li_limits (limit ucmp name n self) = take i ?v @ (name, n) # drop i ?v"
    by (simp add: limit_def Inl Let_def)
  have "ucmp (fst e) name = Less" if "e \<in> set (take i ?v)" for e
    using spec that by (force simp: in_set_conv_nth case_prod_beta)
  moreover have "ucmp name (fst e) = Less" if "e \<in> set (drop i ?v)" for e
  proof -
    have "ucmp (fst e) name = Greater" using spec that by (force simp: in_set_conv_nth case_prod_beta)
    then show ?thesis using uncased_order_less(4) [OF ord, of name "fst e"] by simp
  qed
  ultimately show thesis by (intro that [of "take i ?v" "[]" "drop i ?v" name, OF _ l]) simp_all
qed

lemma limit_correct:
  assumes ord: "uncased_order uc ucmp" and wf: "limits_wf ucmp self"
  shows "limits_wf ucmp (limit ucmp name n self) \<and>
    limits_map uc (limit ucmp name n self) = (limits_map uc self)(uc name \<mapsto> n)"
proof -
  obtain a mid b k where v: "li_limits self = a @ mid @ b" "li_limits (limit ucmp name n self) = a @ (k, n) # b"
    and k: "uc k = uc name" and mid: "mid = [] \<or> (\<exists>x. mid = [(k, x)])"
    and a: "\<forall>e \<in> set a. ucmp (fst e) k = Less" and b: "\<forall>e \<in> set b. ucmp k (fst e) = Less"
    by (rule limit_splits [OF assms, of name n])
  have ab: "\<forall>x \<in> set a. \<forall>y \<in> set b. ucmp (fst x) (fst y) = Less"
    using a b uncased_order_less(1) [OF ord] by fastforce
  have wf': "limits_wf ucmp (limit ucmp name n self)"
    using wf a b ab unfolding limits_wf_def v by (auto simp: sorted_wrt_append)
  have "uc k \<notin> uc ` fst ` set a"
  proof
    assume "uc k \<in> uc ` fst ` set a"
    then obtain e where "e \<in> set a" "uc (fst e) = uc k" by (metis imageE)
    then show False using a uncased_order_less(3) [OF ord, of "fst e" k] by auto
  qed
  then have "map_of (map (\<lambda>(k, v). (uc k, v)) a) (uc k) = None"
    by (force simp: map_of_eq_None_iff)
  then have "limits_map uc (limit ucmp name n self) = (limits_map uc self)(uc k \<mapsto> n)"
    using mid by (auto simp: limits_map_def v map_add_def fun_eq_iff split: option.splits)
  then show ?thesis using wf' k by simp
qed

section \<open>Lemmas: hierarchical lookup\<close>

text \<open>\<open>ancestor name p\<close>: \<open>p\<close> is the name itself or what stands before one of its slashes.\<close>

definition ancestor :: "str \<Rightarrow> str \<Rightarrow> bool" where
  "ancestor name p = (p = name \<or> (\<exists>r. name = p @ ''/'' @ r))"

lemma get_loop_longest:
  assumes "sorted_wrt (>) is" and "\<forall>i \<in> set is. i < length name"
  shows "get_loop ucmp self name is = Some v \<longleftrightarrow>
    (\<exists>p. p \<in> insert name ((\<lambda>i. take i name) ` set is) \<and> exact_limit ucmp p self = Some v \<and>
      (\<forall>q. q \<in> insert name ((\<lambda>i. take i name) ` set is) \<and> length p < length q \<longrightarrow> exact_limit ucmp q self = None))"
  using assms
proof (induction ucmp self name "is" rule: get_loop.induct)
  case (1 ucmp self name)
  then show ?case by auto
next
  case (2 ucmp self name i "is")
  show ?case
  proof (cases "exact_limit ucmp name self")
    case (Some w)
    have "length (take j name) < length name" if "j \<in> set (i # is)" for j using 2(3) that by auto
    then show ?thesis using Some by auto
  next
    case None
    have i: "i < length name" using 2(3) by simp
    define S where "S = (\<lambda>j. take j name) ` set (i # is)"
    have "take j (take i name) = take j name" if "j \<in> set is" for j using 2(2) that by (auto simp: min_def)
    then have "(\<lambda>j. take j (take i name)) ` set is = (\<lambda>j. take j name) ` set is" by (rule image_cong [OF refl])
    then have img: "insert (take i name) ((\<lambda>j. take j (take i name)) ` set is) = S" by (simp add: S_def)
    have "sorted_wrt (>) is" "\<forall>j \<in> set is. j < length (take i name)" using 2(2) i by auto
    then have "get_loop ucmp self (take i name) is = Some v \<longleftrightarrow>
      (\<exists>p. p \<in> S \<and> exact_limit ucmp p self = Some v \<and>
        (\<forall>q. q \<in> S \<and> length p < length q \<longrightarrow> exact_limit ucmp q self = None))"
      using 2(1) [OF None] unfolding img by simp
    moreover have "(\<exists>p. p \<in> insert name S \<and> exact_limit ucmp p self = Some v \<and>
        (\<forall>q. q \<in> insert name S \<and> length p < length q \<longrightarrow> exact_limit ucmp q self = None)) \<longleftrightarrow>
      (\<exists>p. p \<in> S \<and> exact_limit ucmp p self = Some v \<and>
        (\<forall>q. q \<in> S \<and> length p < length q \<longrightarrow> exact_limit ucmp q self = None))"
      using None by (intro iff_exI) auto
    ultimately show ?thesis unfolding S_def [symmetric] by (simp add: None)
  qed
qed

lemma ancestors_rmatch: "insert name ((\<lambda>i. take i name) ` set (rmatch_indices name)) = {p. ancestor name p}"
proof -
  have "(\<exists>r. name = p @ ''/'' @ r) \<longleftrightarrow> (\<exists>i. i < length name \<and> name ! i = CHR ''/'' \<and> p = take i name)" for p
  proof
    assume "\<exists>r. name = p @ ''/'' @ r"
    then obtain r where "name = p @ ''/'' @ r" by blast
    then show "\<exists>i. i < length name \<and> name ! i = CHR ''/'' \<and> p = take i name"
      by (intro exI [of _ "length p"]) simp
  next
    assume "\<exists>i. i < length name \<and> name ! i = CHR ''/'' \<and> p = take i name"
    then obtain i where "i < length name" "name ! i = CHR ''/''" "p = take i name" by blast
    then have "name = p @ ''/'' @ drop (Suc i) name" using id_take_nth_drop [of i name] by simp
    then show "\<exists>r. name = p @ ''/'' @ r" by blast
  qed
  then show ?thesis by (auto simp: rmatch_indices_def ancestor_def)
qed

lemma limits_get_longest:
  "limits_get ucmp name self = Some v \<longleftrightarrow>
    (\<exists>p. ancestor name p \<and> exact_limit ucmp p self = Some v \<and>
      (\<forall>q. ancestor name q \<and> length p < length q \<longrightarrow> exact_limit ucmp q self = None))"
proof -
  have "sorted_wrt (>) (rmatch_indices name)"
    by (simp add: rmatch_indices_def sorted_wrt_rev sorted_wrt_filter)
  moreover have "\<forall>i \<in> set (rmatch_indices name). i < length name" by (simp add: rmatch_indices_def)
  ultimately have "get_loop ucmp self name (rmatch_indices name) = Some v \<longleftrightarrow>
    (\<exists>p. p \<in> {p. ancestor name p} \<and> exact_limit ucmp p self = Some v \<and>
      (\<forall>q. q \<in> {p. ancestor name p} \<and> length p < length q \<longrightarrow> exact_limit ucmp q self = None))"
    unfolding ancestors_rmatch [symmetric] by (rule get_loop_longest)
  then show ?thesis by (simp add: limits_get_def)
qed

section \<open>The order of names\<close>

text \<open>The order of \<open>str\<close> on lower-cased names satisfies what is asked of the order of \<open>Uncased\<close> names.\<close>

lemma byte_cmp_simps:
  "byte_cmp a b = Equal \<longleftrightarrow> a = b" "byte_cmp b a = reverse (byte_cmp a b)"
  "byte_cmp a b = Less \<longleftrightarrow> (of_char a :: nat) < of_char b"
  "byte_cmp a b = Greater \<longleftrightarrow> (of_char b :: nat) < of_char a"
proof -
  have inj: "(of_char a :: nat) = of_char b \<Longrightarrow> a = b" by simp
  show "byte_cmp a b = Equal \<longleftrightarrow> a = b" "byte_cmp b a = reverse (byte_cmp a b)"
    "byte_cmp a b = Less \<longleftrightarrow> (of_char a :: nat) < of_char b"
    "byte_cmp a b = Greater \<longleftrightarrow> (of_char b :: nat) < of_char a"
    using inj linorder_less_linear [of "of_char a :: nat" "of_char b"] by (auto simp: byte_cmp_def)
qed

lemma str_cmp_Cons: "str_cmp (a # as) (b # bs) = (case byte_cmp a b of Equal \<Rightarrow> str_cmp as bs | c \<Rightarrow> c)"
  unfolding str_cmp_def by simp

lemma str_cmp_Nil: "str_cmp [] [] = Equal" "str_cmp [] (b # bs) = Less" "str_cmp (a # as) [] = Greater"
  by (simp_all add: str_cmp_def)

lemma str_cmp_eq: "str_cmp as bs = Equal \<longleftrightarrow> as = bs"
proof (induction as arbitrary: bs)
  case Nil
  show ?case by (cases bs) (simp_all add: str_cmp_Nil)
next
  case (Cons a as)
  show ?case
  proof (cases bs)
    case (Cons b bs')
    then show ?thesis
      using Cons.IH [of bs'] byte_cmp_simps(1) [of a b] by (cases "byte_cmp a b") (simp_all add: str_cmp_Cons)
  qed (simp add: str_cmp_Nil)
qed

lemma str_cmp_reverse: "str_cmp bs as = reverse (str_cmp as bs)"
proof (induction as arbitrary: bs)
  case Nil
  then show ?case by (cases bs) (simp_all add: str_cmp_Nil)
next
  case (Cons a as)
  show ?case
  proof (cases bs)
    case (Cons b bs')
    then show ?thesis
      using Cons.IH [of bs'] byte_cmp_simps(2) [of b a]
      by (cases "byte_cmp a b") (simp_all add: str_cmp_Cons)
  qed (simp add: str_cmp_Nil)
qed

lemma str_cmp_trans: "str_cmp as bs = Less \<Longrightarrow> str_cmp bs cs = Less \<Longrightarrow> str_cmp as cs = Less"
proof (induction as arbitrary: bs cs)
  case Nil
  then show ?case by (cases bs; cases cs) (simp_all add: str_cmp_Nil)
next
  case (Cons a as)
  obtain b bs' where b: "bs = b # bs'" using Cons.prems(1) by (cases bs) (simp_all add: str_cmp_Nil)
  obtain c cs' where c: "cs = c # cs'" using Cons.prems(2) b by (cases cs) (simp_all add: str_cmp_Nil)
  have less: "(of_char a :: nat) < of_char b \<or> a = b \<and> str_cmp as bs' = Less"
    "(of_char b :: nat) < of_char c \<or> b = c \<and> str_cmp bs' cs' = Less"
    using Cons.prems byte_cmp_simps(1,3) [of a b] byte_cmp_simps(1,3) [of b c]
    by (cases "byte_cmp a b"; cases "byte_cmp b c"; simp add: b c str_cmp_Cons)+
  then consider "(of_char a :: nat) < of_char c" | "a = c" "str_cmp as cs' = Less"
    using Cons.IH [of bs' cs'] by auto
  then show ?case
    using byte_cmp_simps(1,3) [of a c] by cases (simp_all add: c str_cmp_Cons)
qed

definition lower_cmp :: uncased_cmp where
  "lower_cmp a b = str_cmp (lowercase a) (lowercase b)"

lemma lower_cmp_order: "uncased_order lowercase lower_cmp"
  unfolding uncased_order_def lower_cmp_def
proof (intro conjI allI impI)
  fix a b c
  assume "str_cmp (lowercase a) (lowercase b) = Less \<and> str_cmp (lowercase b) (lowercase c) \<noteq> Greater"
  then show "str_cmp (lowercase a) (lowercase c) = Less"
    using str_cmp_trans str_cmp_eq by (cases "str_cmp (lowercase b) (lowercase c)") metis+
qed (rule str_cmp_eq str_cmp_reverse)+

section \<open>Properties\<close>

text \<open>
  C29. Setting and looking up limits (\<open>Limits::limit\<close>, \<open>Limits::get\<close>, \<open>limits.rs\<close>): setting a limit keeps
  the vector sorted and strictly distinct and changes exactly the limit of that name, whatever its
  case; looking up a name gives the limit of its longest declared ancestor, the name itself first, and
  nothing exactly when no ancestor is declared.
\<close>

theorem limits_lookup:
  assumes "uncased_order uc ucmp" and "limits_wf ucmp self"
  shows "limits_wf ucmp (limit ucmp name n self)
    \<and> limits_map uc (limit ucmp name n self) = (limits_map uc self)(uc name \<mapsto> n)
    \<and> (limits_get ucmp key self = Some v \<longleftrightarrow>
        (\<exists>p. ancestor key p \<and> limits_map uc self (uc p) = Some v \<and>
          (\<forall>q. ancestor key q \<and> length p < length q \<longrightarrow> limits_map uc self (uc q) = None)))"
  using limit_correct [OF assms] limits_get_longest [of ucmp key self v] by (simp add: exact_limit_map [OF assms])

theorem limits_lookup_witness:
  "limits_wf lower_cmp (limit lower_cmp ''file/pdf'' 7 limits_new)
   \<and> limits_map lowercase (limit lower_cmp ''file/pdf'' 7 limits_new) (lowercase ''File/PDF'') = Some 7"
proof -
  have "lowercase ''File/PDF'' = lowercase ''file/pdf''" by code_simp
  then show ?thesis
    using limits_lookup [OF lower_cmp_order limits_new_wf, of "''file/pdf''" 7] by simp
qed

text \<open>
  Looking up by layers (\<open>Limits::find\<close>, \<open>limits.rs\<close>) does not return the same results as \<open>get\<close> on the
  joined name: the vector is sorted by whole names without regard to case, but searched in the order
  of the names split at slashes, with regard to case.  A limit with a hyphen next to one with a slash,
  or with a capital letter, is missed.
\<close>

theorem limits_find_misses:
  "(let l = limit lower_cmp ''data/xml'' 2 (limit lower_cmp ''data-form'' 4 (limit lower_cmp ''data'' 1 limits_new))
    in limits_get lower_cmp ''data/xml'' l = Some 2 \<and> limits_find [''data'', ''xml''] l = Some 1)
   \<and> (let l = limit lower_cmp ''File/PDF'' 3 limits_new
      in limits_get lower_cmp ''file/pdf'' l = Some 3 \<and> limits_find [''file'', ''pdf''] l = None)"
  by code_simp

end
