(* ===== verification/DataStreams.thy ===== *)
theory DataStreams
  imports EventStreams Lifecycle DataLimits
begin

text \<open>
  Data streams and data guards (\<open>core/lib/src/data\<close>: \<open>data_stream.rs\<close>, \<open>transform.rs\<close>, \<open>from_data.rs\<close>, the strict guards of
  \<open>capped.rs\<close>; the data guards of \<open>serde/json.rs\<close> and \<open>serde/msgpack.rs\<close>): the body of a request under a limit, through
  the transformers that fairings and guards attach, and what the guards of the library make of it.

  The raw body is a reader as in \<open>DataModel\<close>, whose reads are awaited; a transformer is a state with the two operations
  of \<open>Transform\<close>.  Reading may run forever when a transformer consumes everything it is given, so the loops are
  partial.  The buffer size that \<open>tokio::io::copy\<close> and \<open>read_to_string\<close> use is the parameter \<open>room\<close>.
\<close>

section \<open>Model: transformers\<close>

record ReadBuf =
  rb_filled :: str
  rb_capacity :: nat

record TransformBuf =
  tb_buf :: ReadBuf
  tb_cursor :: nat

definition tb_fresh :: "TransformBuf \<Rightarrow> str" where
  "tb_fresh self = drop (tb_cursor self) (rb_filled (tb_buf self))"

text \<open>Writing through \<open>fresh_mut\<close>, which keeps the length.\<close>

definition tb_set_fresh :: "(str \<Rightarrow> str) \<Rightarrow> TransformBuf \<Rightarrow> TransformBuf" where
  "tb_set_fresh f self =
     self\<lparr>tb_buf := (tb_buf self)\<lparr>rb_filled := take (tb_cursor self) (rb_filled (tb_buf self)) @ f (tb_fresh self)\<rparr>\<rparr>"

definition tb_spoil :: "TransformBuf \<Rightarrow> TransformBuf" where
  "tb_spoil self = self\<lparr>tb_buf := (tb_buf self)\<lparr>rb_filled := take (tb_cursor self) (rb_filled (tb_buf self))\<rparr>\<rparr>"

record ('t, 'e) TransformOps =
  tr_transform :: "'t \<Rightarrow> TransformBuf \<Rightarrow> (TransformBuf, 'e) result \<times> 't"
  tr_finish :: "'t \<Rightarrow> ReadBuf \<Rightarrow> (unit, 'e) result Poll \<times> ReadBuf \<times> 't"

definition default_finish :: "'t \<Rightarrow> ReadBuf \<Rightarrow> (unit, 'e) result Poll \<times> ReadBuf \<times> 't" where
  "default_finish t buf = (Ready (Ok ()), buf, t)"

text \<open>\<open>Inspect\<close> and \<open>InPlaceMap\<close>: the state of the closure is \<open>'t\<close>.\<close>

definition inspect_ops :: "('t \<Rightarrow> str \<Rightarrow> 't) \<Rightarrow> ('t, 'e) TransformOps" where
  "inspect_ops f = \<lparr>tr_transform = (\<lambda>t buf. (Ok buf, f t (tb_fresh buf))), tr_finish = default_finish\<rparr>"

definition inplace_map_ops :: "('t \<Rightarrow> TransformBuf \<Rightarrow> (TransformBuf, 'e) result \<times> 't) \<Rightarrow> ('t, 'e) TransformOps" where
  "inplace_map_ops f = \<lparr>tr_transform = f, tr_finish = default_finish\<rparr>"

section \<open>Model: data streams\<close>

record 'r BaseReader =
  br_chain :: "(str, 'r) Chain"
  br_limit :: nat

datatype ('r, 't) DataStream =
    Base "'r BaseReader"
  | Transform 't "('r, 't) DataStream" bool

definition data_stream_new :: "'t list \<Rightarrow> 'r Peekable \<Rightarrow> nat \<Rightarrow> ('r, 't) DataStream" where
  "data_stream_new transformers stream lmt =
     foldl (\<lambda>s t. Transform t s False)
       (Base \<lparr>br_chain = chain_new (pk_buffer stream) (pk_reader stream), br_limit = lmt\<rparr>) transformers"

definition data_open :: "nat \<Rightarrow> ('r, 't) Data \<Rightarrow> ('r, 't) DataStream" where
  "data_open lmt self = data_stream_new (da_transforms self) (da_stream self) lmt"

fun ds_base :: "('r, 't) DataStream \<Rightarrow> 'r BaseReader" where
  "ds_base (Base b) = b"
| "ds_base (Transform t s d) = ds_base s"

fun ds_set_base :: "'r BaseReader \<Rightarrow> ('r, 't) DataStream \<Rightarrow> ('r, 't) DataStream" where
  "ds_set_base b (Base _) = Base b"
| "ds_set_base b (Transform t s d) = Transform t (ds_set_base b s) d"

text \<open>\<open>Take\<close> over the chain of the peek buffer and the raw reader.\<close>

definition base_read :: "('r, 'e) reader \<Rightarrow> ('r BaseReader, 'e) reader" where
  "base_read read room self =
     (if br_limit self = 0 then (Ok [], self)
      else case chain_read DataModel.cursor_read read (min room (br_limit self)) (br_chain self) of
        (Ok bs, ch) \<Rightarrow> (Ok bs, self\<lparr>br_chain := ch, br_limit := br_limit self - length bs\<rparr>)
      | (Err e, ch) \<Rightarrow> (Err e, self\<lparr>br_chain := ch\<rparr>))"

fun ds_poll_read ::
  "('t, 'e) TransformOps \<Rightarrow> ('r, 'e) reader \<Rightarrow> ReadBuf \<Rightarrow> ('r, 't) DataStream \<Rightarrow>
    (unit, 'e) result Poll \<times> ReadBuf \<times> ('r, 't) DataStream" where
  "ds_poll_read ops read buf (Base b) =
     (case base_read read (rb_capacity buf - length (rb_filled buf)) b of
        (Ok bs, b) \<Rightarrow> (Ready (Ok ()), buf\<lparr>rb_filled := rb_filled buf @ bs\<rparr>, Base b)
      | (Err e, b) \<Rightarrow> (Ready (Err e), buf, Base b))"
| "ds_poll_read ops read buf (Transform t s inner_done) =
     (let init_fill = length (rb_filled buf);
          (p, buf', s', inner_done') =
            (if \<not> inner_done then
               (case ds_poll_read ops read buf s of (p, buf', s') \<Rightarrow> (p, buf', s', init_fill = length (rb_filled buf')))
             else (Ready (Ok ()), buf, s, inner_done))
      in if p \<noteq> Ready (Ok ()) then (p, buf', Transform t s' inner_done)
         else if inner_done' then
           (case tr_finish ops t buf' of (p, buf', t) \<Rightarrow> (p, buf', Transform t s' inner_done'))
         else
           (case tr_transform ops t \<lparr>tb_buf = buf', tb_cursor = init_fill\<rparr> of
              (Err e, t) \<Rightarrow> (Ready (Err e), buf', Transform t s' inner_done')
            | (Ok tbuf, t) \<Rightarrow>
                if length (rb_filled (tb_buf tbuf)) = init_fill
                then (Pending, tb_buf tbuf, Transform t s' inner_done')
                else (Ready (Ok ()), tb_buf tbuf, Transform t s' inner_done')))"

text \<open>An awaited read into an empty buffer: a stream that is pending has woken its task and is polled again.\<close>

partial_function (option) ds_read ::
  "('t, 'e) TransformOps \<Rightarrow> ('r, 'e) reader \<Rightarrow> nat \<Rightarrow> ('r, 't) DataStream \<Rightarrow>
    ((str, 'e) result \<times> ('r, 't) DataStream) option" where
  "ds_read ops read room s =
     (case ds_poll_read ops read \<lparr>rb_filled = [], rb_capacity = room\<rparr> s of (p, buf, s) \<Rightarrow>
        (case p of
           Pending \<Rightarrow> ds_read ops read room s
         | Ready r \<Rightarrow> Some (case r of Ok _ \<Rightarrow> Ok (rb_filled buf) | Err e \<Rightarrow> Err e, s)))"

text \<open>\<open>tokio::io::copy\<close> and \<open>read_to_end\<close>: reads until one gives nothing.\<close>

partial_function (option) ds_copy ::
  "('t, 'e) TransformOps \<Rightarrow> ('r, 'e) reader \<Rightarrow> nat \<Rightarrow> str \<Rightarrow> ('r, 't) DataStream \<Rightarrow>
    ((str, 'e) result \<times> ('r, 't) DataStream) option" where
  "ds_copy ops read room out s =
     Option.bind (ds_read ops read room s) (\<lambda>(r, s).
       (case r of
          Inl e \<Rightarrow> Some (Err e, s)
        | Inr bs \<Rightarrow> if bs = [] then Some (Ok out, s) else ds_copy ops read room (out @ bs) s))"

definition limit_exceeded ::
  "('r, 'e) reader \<Rightarrow> ('r, 't) DataStream \<Rightarrow> (bool, 'e) result \<times> ('r, 't) DataStream" where
  "limit_exceeded read self =
     (if br_limit (ds_base self) = 0 then
        (case base_read read 1 ((ds_base self)\<lparr>br_limit := 1\<rparr>) of
           (Ok bs, b) \<Rightarrow> (Ok (length bs \<noteq> 0), ds_set_base (b\<lparr>br_limit := 0\<rparr>) self)
         | (Err e, b) \<Rightarrow> (Err e, ds_set_base b self))
      else (Ok False, self))"

definition ds_hint :: "('r, 't) DataStream \<Rightarrow> nat" where
  "ds_hint self =
     (case ch_first (br_chain (ds_base self)) of
        Some cursor \<Rightarrow> min (length cursor) (br_limit (ds_base self))
      | None \<Rightarrow> 0)"

text \<open>The bytes given to the writer and \<open>N\<close>.\<close>

definition stream_to ::
  "('t, 'e) TransformOps \<Rightarrow> ('r, 'e) reader \<Rightarrow> nat \<Rightarrow> ('r, 't) DataStream \<Rightarrow> (str \<times> N, 'e) result option" where
  "stream_to ops read room self =
     map_option (\<lambda>(r, self).
         case r of
           Err e \<Rightarrow> Err e
         | Ok out \<Rightarrow>
             (case limit_exceeded read self of
                (Err e, _) \<Rightarrow> Err e
              | (Ok x, _) \<Rightarrow> Ok (out, \<lparr>n_written = length out, n_complete = (\<not> x)\<rparr>)))
       (ds_copy ops read room [] self)"

definition stream_precise_to ::
  "('t, 'e) TransformOps \<Rightarrow> ('r, 'e) reader \<Rightarrow> nat \<Rightarrow> ('r, 't) DataStream \<Rightarrow> (str \<times> nat, 'e) result option" where
  "stream_precise_to ops read room self =
     map_option (\<lambda>(r, _). map_sum id (\<lambda>out. (out, length out)) r) (ds_copy ops read room [] self)"

definition into_bytes ::
  "('t, 'e) TransformOps \<Rightarrow> ('r, 'e) reader \<Rightarrow> nat \<Rightarrow> ('r, 't) DataStream \<Rightarrow> (str Capped, 'e) result option" where
  "into_bytes ops read room self = map_option (map_sum id (\<lambda>(vec, n). capped_new vec n)) (stream_to ops read room self)"

text \<open>\<open>invalid\<close> is the error of \<open>read_to_string\<close> for bytes that are not UTF-8.\<close>

definition into_string ::
  "'e \<Rightarrow> ('t, 'e) TransformOps \<Rightarrow> ('r, 'e) reader \<Rightarrow> nat \<Rightarrow> ('r, 't) DataStream \<Rightarrow> (str Capped, 'e) result option" where
  "into_string invalid ops read room self =
     map_option (\<lambda>(r, self).
         case r of
           Err e \<Rightarrow> Err e
         | Ok out \<Rightarrow>
             if \<not> utf8 out then Err invalid
             else (case limit_exceeded read self of
                     (Err e, _) \<Rightarrow> Err e
                   | (Ok x, _) \<Rightarrow> Ok (capped_new out \<lparr>n_written = length out, n_complete = (\<not> x)\<rparr>)))
       (ds_copy ops read room [] self)"

section \<open>What is read\<close>

text \<open>
  Reading through transformers that change byte by byte, as \<open>Inspect\<close> and in-place maps of bytes do.  \<open>f\<close> says what a
  transformer makes of a byte; the state of a transformer may change while that does not.
\<close>

locale bytewise_data = async_reader read content
  for read :: "('r, 'e) reader" and content :: "'r \<Rightarrow> str" +
  fixes ops :: "('t, 'e) TransformOps" and f :: "'t \<Rightarrow> byte \<Rightarrow> byte"
  assumes never_fails: "fst (read room rd) \<noteq> Err e"
    and transforms: "\<exists>t'. tr_transform ops t buf = (Ok (tb_set_fresh (map (f t)) buf), t') \<and> f t' = f t"
    and finishes: "\<exists>t'. tr_finish ops t rbuf = (Ready (Ok ()), rbuf, t') \<and> f t' = f t"
begin

fun ds_map :: "('r, 't) DataStream \<Rightarrow> byte \<Rightarrow> byte" where
  "ds_map (Base b) = (\<lambda>c. c)"
| "ds_map (Transform t s d) = (\<lambda>c. f t (ds_map s c))"

definition base_rest :: "'r BaseReader \<Rightarrow> str" where
  "base_rest b = chain_content (\<lambda>s. s) content (br_chain b)"

definition ds_content :: "('r, 't) DataStream \<Rightarrow> str" where
  "ds_content s = map (ds_map s) (take (br_limit (ds_base s)) (base_rest (ds_base s)))"

fun ds_wf :: "('r, 't) DataStream \<Rightarrow> bool" where
  "ds_wf (Base b) = True"
| "ds_wf (Transform t s d) = (ds_wf s \<and> (d \<longrightarrow> ds_content s = []))"

text \<open>A step takes bytes from the base under its limit.\<close>

definition base_step :: "'r BaseReader \<Rightarrow> str \<Rightarrow> 'r BaseReader \<Rightarrow> bool" where
  "base_step b raw b' =
     (base_rest b = raw @ base_rest b' \<and> br_limit b = br_limit b' + length raw
      \<and> (raw = [] \<longrightarrow> br_limit b = 0 \<or> base_rest b = []))"

lemma chain_never_fails:
  "\<exists>bs ch'. chain_read DataModel.cursor_read read room ch = (Ok bs, ch')"
proof -
  have s: "\<exists>bs ch'. chain_second read room c = (Ok bs, ch')" for c :: "(str, 'r) Chain"
    using never_fails [of room "ch_second c"]
    by (cases "read room (ch_second c)"; cases "fst (read room (ch_second c))") (auto simp: chain_second_def)
  show ?thesis
    using s [of ch] s [of "ch\<lparr>ch_first := None\<rparr>"]
    by (cases "ch_first ch") (auto simp: chain_read_def DataModel.cursor_read_def split: list.splits)
qed

end

sublocale bytewise_data \<subseteq> body: two_readers "DataModel.cursor_read :: (str, 'e) reader" "\<lambda>s. s" read content
  by unfold_locales

context bytewise_data
begin

lemma base_read_step:
  assumes "0 < room"
  shows "\<exists>raw b'. base_read read room b = (Ok raw, b') \<and> length raw \<le> room \<and> base_step b raw b'"
proof (cases "br_limit b = 0")
  case True
  then show ?thesis by (simp add: base_read_def base_step_def)
next
  case False
  let ?room = "min room (br_limit b)"
  obtain raw ch where ch: "chain_read DataModel.cursor_read read ?room (br_chain b) = (Ok raw, ch)"
    using chain_never_fails by blast
  have "0 < ?room" using assms False by simp
  then show ?thesis using body.chain_read_ok [OF _ ch] False ch
    by (auto simp: base_read_def base_step_def base_rest_def)
qed

lemma poll_step:
  "ds_wf s \<Longrightarrow> length (rb_filled buf) < rb_capacity buf \<Longrightarrow>
    \<exists>raw s'. ds_poll_read ops read buf s = (Ready (Ok ()), buf\<lparr>rb_filled := rb_filled buf @ map (ds_map s) raw\<rparr>, s')
      \<and> ds_wf s' \<and> ds_map s' = ds_map s \<and> base_step (ds_base s) raw (ds_base s')"
proof (induction s)
  case (Base b)
  then obtain raw b' where "base_read read (rb_capacity buf - length (rb_filled buf)) b = (Ok raw, b')" "base_step b raw b'"
    using base_read_step [of "rb_capacity buf - length (rb_filled buf)" b] by auto
  then show ?case by (intro exI [of _ raw] exI [of _ "Base b'"]) simp
next
  case (Transform t s d)
  show ?case
  proof (cases d)
    case True
    obtain t' where t': "tr_finish ops t buf = (Ready (Ok ()), buf, t')" "f t' = f t" using finishes by blast
    have "take (br_limit (ds_base s)) (base_rest (ds_base s)) = []" using Transform.prems True by (simp add: ds_content_def)
    then have "base_step (ds_base s) [] (ds_base s)" by (auto simp: base_step_def)
    then show ?thesis using True t' Transform.prems by (intro exI [of _ "[]"]) simp
  next
    case False
    obtain raw s' where s': "ds_poll_read ops read buf s =
        (Ready (Ok ()), buf\<lparr>rb_filled := rb_filled buf @ map (ds_map s) raw\<rparr>, s')"
      "ds_wf s'" "ds_map s' = ds_map s" "base_step (ds_base s) raw (ds_base s')"
      using Transform by auto
    let ?buf = "buf\<lparr>rb_filled := rb_filled buf @ map (ds_map s) raw\<rparr>"
    show ?thesis
    proof (cases "raw = []")
      case True
      obtain t' where t': "tr_finish ops t buf = (Ready (Ok ()), buf, t')" "f t' = f t" using finishes by blast
      have "ds_content s' = []" using True s'(4) by (auto simp: base_step_def ds_content_def)
      then show ?thesis using True False t' s' by (intro exI [of _ "[]"]) simp
    next
      case raw: False
      let ?tb = "\<lparr>tb_buf = ?buf, tb_cursor = length (rb_filled buf)\<rparr>"
      obtain t' where t': "tr_transform ops t ?tb = (Ok (tb_set_fresh (map (f t)) ?tb), t')" "f t' = f t"
        using transforms by blast
      have "tb_buf (tb_set_fresh (map (f t)) ?tb) = buf\<lparr>rb_filled := rb_filled buf @ map (\<lambda>c. f t (ds_map s c)) raw\<rparr>"
        by (simp add: tb_set_fresh_def tb_fresh_def comp_def)
      then show ?thesis using raw False t' s' by (intro exI [of _ raw]) simp
    qed
  qed
qed

lemma read_step:
  assumes "ds_wf s" "0 < room"
  shows "\<exists>raw s'. ds_read ops read room s = Some (Ok (map (ds_map s) raw), s')
    \<and> ds_wf s' \<and> ds_map s' = ds_map s \<and> base_step (ds_base s) raw (ds_base s')"
proof -
  obtain raw s' where s': "ds_poll_read ops read \<lparr>rb_filled = [], rb_capacity = room\<rparr> s =
      (Ready (Ok ()), \<lparr>rb_filled = map (ds_map s) raw, rb_capacity = room\<rparr>, s')"
    "ds_wf s'" "ds_map s' = ds_map s" "base_step (ds_base s) raw (ds_base s')"
    using poll_step [OF assms(1), of "\<lparr>rb_filled = [], rb_capacity = room\<rparr>"] assms(2) by auto
  then show ?thesis by (intro exI [of _ raw] exI [of _ s']) (simp add: ds_read.simps [of ops read room s])
qed

lemma base_step_trans:
  "base_step b raw b' \<Longrightarrow> base_rest b' = raw' @ base_rest b'' \<Longrightarrow> br_limit b' = br_limit b'' + length raw' \<Longrightarrow>
    base_rest b = (raw @ raw') @ base_rest b'' \<and> br_limit b = br_limit b'' + length (raw @ raw')"
  by (simp add: base_step_def)

text \<open>Copying returns, and has taken from the base all there is under the limit.\<close>

lemma copy_all:
  assumes "ds_wf s" "0 < room"
  shows "\<exists>raw s'. ds_copy ops read room out s = Some (Ok (out @ map (ds_map s) raw), s')
    \<and> base_rest (ds_base s) = raw @ base_rest (ds_base s') \<and> br_limit (ds_base s) = br_limit (ds_base s') + length raw
    \<and> (br_limit (ds_base s') = 0 \<or> base_rest (ds_base s') = [])"
  using assms(1)
proof (induction "length (base_rest (ds_base s))" arbitrary: s out rule: less_induct)
  case less
  obtain raw s1 where s1: "ds_read ops read room s = Some (Ok (map (ds_map s) raw), s1)" "ds_wf s1"
    "ds_map s1 = ds_map s" "base_step (ds_base s) raw (ds_base s1)"
    using read_step [OF less.prems assms(2)] by blast
  show ?case
  proof (cases "raw = []")
    case True
    then show ?thesis using s1
      by (intro exI [of _ "[]"] exI [of _ s1]) (auto simp: ds_copy.simps [of ops read room out s] base_step_def)
  next
    case False
    then have "length (base_rest (ds_base s1)) < length (base_rest (ds_base s))" using s1(4) by (simp add: base_step_def)
    then obtain raw' s' where s': "ds_copy ops read room (out @ map (ds_map s) raw) s1 =
        Some (Ok ((out @ map (ds_map s) raw) @ map (ds_map s1) raw'), s')"
      "base_rest (ds_base s1) = raw' @ base_rest (ds_base s')"
      "br_limit (ds_base s1) = br_limit (ds_base s') + length raw'"
      "br_limit (ds_base s') = 0 \<or> base_rest (ds_base s') = []"
      using less.hyps [OF _ s1(2)] by blast
    then show ?thesis using False s1 base_step_trans [OF s1(4) s'(2) s'(3)]
      by (intro exI [of _ "raw @ raw'"] exI [of _ s']) (simp add: ds_copy.simps [of ops read room out s])
  qed
qed

text \<open>Whether more was there than the limit.\<close>

lemma exceeded_iff:
  assumes "br_limit (ds_base s) = 0 \<or> base_rest (ds_base s) = []"
  shows "fst (limit_exceeded read s) = Ok (base_rest (ds_base s) \<noteq> [])"
proof (cases "br_limit (ds_base s) = 0")
  case True
  let ?b = "(ds_base s)\<lparr>br_limit := 1\<rparr>"
  obtain raw b' where b': "base_read read 1 ?b = (Ok raw, b')" "base_step ?b raw b'"
    using base_read_step [of 1 ?b] by auto
  then have "raw = [] \<longleftrightarrow> base_rest (ds_base s) = []" by (auto simp: base_step_def base_rest_def)
  then show ?thesis using True b'(1) by (simp add: limit_exceeded_def)
next
  case False
  then show ?thesis using assms by (simp add: limit_exceeded_def)
qed

lemma stream_to_all:
  assumes "ds_wf s" "0 < room"
  defines "rest \<equiv> base_rest (ds_base s)" and "lmt \<equiv> br_limit (ds_base s)"
  shows "stream_to ops read room s =
      Some (Ok (map (ds_map s) (take lmt rest), \<lparr>n_written = min lmt (length rest), n_complete = (length rest \<le> lmt)\<rparr>))
    \<and> into_string invalid ops read room s =
      Some (if utf8 (map (ds_map s) (take lmt rest))
        then Ok (capped_new (map (ds_map s) (take lmt rest))
          \<lparr>n_written = min lmt (length rest), n_complete = (length rest \<le> lmt)\<rparr>)
        else Err invalid)"
proof -
  obtain raw s' where s': "ds_copy ops read room [] s = Some (Ok (map (ds_map s) raw), s')"
    "rest = raw @ base_rest (ds_base s')" "lmt = br_limit (ds_base s') + length raw"
    "br_limit (ds_base s') = 0 \<or> base_rest (ds_base s') = []"
    using copy_all [OF assms(1,2), of "[]"] unfolding rest_def lmt_def by auto
  have raw: "raw = take lmt rest" "length raw = min lmt (length rest)" "base_rest (ds_base s') \<noteq> [] \<longleftrightarrow> \<not> length rest \<le> lmt"
    using s'(2-4) by auto
  obtain s'' where "limit_exceeded read s' = (Ok (\<not> length rest \<le> lmt), s'')"
    using exceeded_iff [OF s'(4)] raw(3) by (cases "limit_exceeded read s'") auto
  then show ?thesis using s'(1) raw by (simp add: stream_to_def into_string_def)
qed

end

end
