(* ===== verification/DataGuards.thy ===== *)
theory DataGuards
  imports DataStreams
begin

text \<open>
  Data guards (\<open>core/lib/src/data/from_data.rs\<close>, the strict guards of \<open>data/capped.rs\<close>, \<open>serde/json.rs\<close>, \<open>serde/msgpack.rs\<close>):
  what the guards of the library make of the body of a request under its limits.

  The errors of \<open>std::io\<close> that the code makes itself are constructors of \<open>IoError\<close>; those of the raw reader are opaque with a
  flag that says whether their kind is \<open>UnexpectedEof\<close>.  The decoders of \<open>serde_json\<close> and \<open>rmp_serde\<close> are parameters.
\<close>

section \<open>Model\<close>

datatype 'x IoError = InvalidUtf8 | LimitEof | RawIo bool 'x

fun is_eof :: "'x IoError \<Rightarrow> bool" where
  "is_eof InvalidUtf8 = False"
| "is_eof LimitEof = True"
| "is_eof (RawIo eof _) = eof"

type_synonym ('v, 'err, 'r, 't) data_outcome = "('v, Status \<times> 'err, ('r, 't) Data \<times> Status) Outcome"

text \<open>What the guards use of a request and of its reader: the limits, the transformers, the reader and its buffer size.\<close>

record ('r, 't, 'x) DataEnv =
  de_ucmp :: uncased_cmp
  de_limits :: Limits
  de_ops :: "('t, 'x IoError) TransformOps"
  de_read :: "('r, 'x IoError) reader"
  de_room :: nat

definition limit_or :: "str \<Rightarrow> ByteUnit \<Rightarrow> ('r, 't, 'x) DataEnv \<Rightarrow> ByteUnit" where
  "limit_or name dflt req = (case limits_get (de_ucmp req) name (de_limits req) of Some l \<Rightarrow> l | None \<Rightarrow> dflt)"

definition open_string :: "ByteUnit \<Rightarrow> ('r, 't, 'x) DataEnv \<Rightarrow> ('r, 't) Data \<Rightarrow> (str Capped, 'x IoError) result option" where
  "open_string l req data = into_string InvalidUtf8 (de_ops req) (de_read req) (de_room req) (data_open l data)"

definition open_bytes :: "ByteUnit \<Rightarrow> ('r, 't, 'x) DataEnv \<Rightarrow> ('r, 't) Data \<Rightarrow> (str Capped, 'x IoError) result option" where
  "open_bytes l req data = into_bytes (de_ops req) (de_read req) (de_room req) (data_open l data)"

definition capped_string_from_data ::
  "('r, 't, 'x) DataEnv \<Rightarrow> ('r, 't) Data \<Rightarrow> (str Capped, 'x IoError, 'r, 't) data_outcome option" where
  "capped_string_from_data req data =
     map_option (\<lambda>r. data_or_error r Status_BadRequest) (open_string (limit_or ''string'' (kibibytes 8) req) req data)"

definition capped_bytes_from_data ::
  "('r, 't, 'x) DataEnv \<Rightarrow> ('r, 't) Data \<Rightarrow> (str Capped, 'x IoError, 'r, 't) data_outcome option" where
  "capped_bytes_from_data req data =
     map_option (\<lambda>r. data_or_error r Status_BadRequest) (open_bytes (limit_or ''bytes'' (kibibytes 8) req) req data)"

text \<open>\<open>Capped<&str>\<close>, \<open>&RawStr\<close>, \<open>Cow<str>\<close>, \<open>&[u8]\<close>: the value is mapped, through the cache of the request.\<close>

definition capped_map_from_data ::
  "('a \<Rightarrow> 'b) \<Rightarrow> ('a Capped, 'x IoError, 'r, 't) data_outcome option \<Rightarrow> ('b Capped, 'x IoError, 'r, 't) data_outcome option" where
  "capped_map_from_data f o' = map_option (outcome_map (capped_map f)) o'"

text \<open>The strict guards: \<open>String\<close>, \<open>&str\<close>, \<open>Vec<u8>\<close> and so on.\<close>

definition strict_from_data :: "('v Capped, 'x IoError, 'r, 't) data_outcome \<Rightarrow> ('v, 'x IoError, 'r, 't) data_outcome" where
  "strict_from_data o' =
     (case o' of
        Success p \<Rightarrow> if is_complete p then Success (into_inner p) else Error (Status_BadRequest, LimitEof)
      | Forward d \<Rightarrow> Forward d
      | Error e \<Rightarrow> Error e)"

definition string_from_data ::
  "('r, 't, 'x) DataEnv \<Rightarrow> ('r, 't) Data \<Rightarrow> (str, 'x IoError, 'r, 't) data_outcome option" where
  "string_from_data req data = map_option strict_from_data (capped_string_from_data req data)"

definition bytes_from_data ::
  "('r, 't, 'x) DataEnv \<Rightarrow> ('r, 't) Data \<Rightarrow> (str, 'x IoError, 'r, 't) data_outcome option" where
  "bytes_from_data req data = map_option strict_from_data (capped_bytes_from_data req data)"

definition data_from_data :: "('r, 't) Data \<Rightarrow> (('r, 't) Data, unit, 'r, 't) data_outcome" where
  "data_from_data data = Success data"

fun result_from_data :: "('v, 'e, 'r, 't) data_outcome \<Rightarrow> (('v, 'e) result, unit, 'r, 't) data_outcome" where
  "result_from_data (Success v) = Success (Ok v)"
| "result_from_data (Error (_, e)) = Success (Err e)"
| "result_from_data (Forward d) = Forward d"

fun option_from_data :: "('v, 'e, 'r, 't) data_outcome \<Rightarrow> ('v option, unit, 'r, 't) data_outcome" where
  "option_from_data (Success v) = Success (Some v)"
| "option_from_data (Error _) = Success None"
| "option_from_data (Forward _) = Success None"

text \<open>JSON: \<open>parse\<close> is \<open>serde_json::from_str\<close> and \<open>is_data\<close> whether an error is of the category \<open>Data\<close>.\<close>

datatype ('x, 'p) JsonError = JsonIo "'x IoError" | JsonParse str 'p

definition json_from_str :: "(str \<Rightarrow> ('v, 'p) result) \<Rightarrow> str \<Rightarrow> ('v, ('x, 'p) JsonError) result" where
  "json_from_str parse s = (case parse s of Ok v \<Rightarrow> Ok v | Err e \<Rightarrow> Err (JsonParse s e))"

definition json_read ::
  "(str \<Rightarrow> ('v, 'p) result) \<Rightarrow> ('r, 't, 'x) DataEnv \<Rightarrow> ('r, 't) Data \<Rightarrow> ('v, ('x, 'p) JsonError) result option" where
  "json_read parse req data =
     map_option (\<lambda>r.
         case r of
           Ok s \<Rightarrow> if is_complete s then json_from_str parse (into_inner s) else Err (JsonIo LimitEof)
         | Err e \<Rightarrow> Err (JsonIo e))
       (open_string (limit_or ''json'' (mebibytes 1) req) req data)"

definition json_from_data ::
  "(str \<Rightarrow> ('v, 'p) result) \<Rightarrow> ('p \<Rightarrow> bool) \<Rightarrow> ('r, 't, 'x) DataEnv \<Rightarrow> ('r, 't) Data \<Rightarrow>
    ('v, ('x, 'p) JsonError, 'r, 't) data_outcome option" where
  "json_from_data parse is_data req data =
     map_option (\<lambda>r.
         case r of
           Ok value \<Rightarrow> Success value
         | Err e \<Rightarrow>
             (case e of
                JsonIo e' \<Rightarrow>
                  if is_eof e' then Error (Status_PayloadTooLarge, JsonIo e') else Error (Status_BadRequest, JsonIo e')
              | JsonParse s e' \<Rightarrow>
                  if is_data e' then Error (Status_UnprocessableEntity, JsonParse s e')
                  else Error (Status_BadRequest, JsonParse s e')))
       (json_read parse req data)"

text \<open>MessagePack: \<open>parse\<close> is \<open>rmp_serde::from_slice\<close>.\<close>

datatype ('x, 'm) MsgPackError =
    InvalidDataRead "'x IoError" | TypeMismatch 'm | OutOfRangeError | LengthMismatch nat | OtherMsgPack 'm

definition msgpack_read ::
  "(str \<Rightarrow> ('v, ('x, 'm) MsgPackError) result) \<Rightarrow> ('r, 't, 'x) DataEnv \<Rightarrow> ('r, 't) Data \<Rightarrow>
    ('v, ('x, 'm) MsgPackError) result option" where
  "msgpack_read parse req data =
     map_option (\<lambda>r.
         case r of
           Ok s \<Rightarrow> if is_complete s then parse (into_inner s) else Err (InvalidDataRead LimitEof)
         | Err e \<Rightarrow> Err (InvalidDataRead e))
       (open_bytes (limit_or ''msgpack'' (mebibytes 1) req) req data)"

definition msgpack_from_data ::
  "(str \<Rightarrow> ('v, ('x, 'm) MsgPackError) result) \<Rightarrow> ('r, 't, 'x) DataEnv \<Rightarrow> ('r, 't) Data \<Rightarrow>
    ('v, ('x, 'm) MsgPackError, 'r, 't) data_outcome option" where
  "msgpack_from_data parse req data =
     map_option (\<lambda>r.
         case r of
           Ok value \<Rightarrow> Success value
         | Err e \<Rightarrow>
             (case e of
                InvalidDataRead e' \<Rightarrow>
                  if is_eof e' then Error (Status_PayloadTooLarge, e) else Error (Status_BadRequest, e)
              | TypeMismatch _ \<Rightarrow> Error (Status_UnprocessableEntity, e)
              | OutOfRangeError \<Rightarrow> Error (Status_UnprocessableEntity, e)
              | LengthMismatch _ \<Rightarrow> Error (Status_UnprocessableEntity, e)
              | OtherMsgPack _ \<Rightarrow> Error (Status_BadRequest, e)))
       (msgpack_read parse req data)"

section \<open>What the guards read\<close>

definition data_body :: "('r \<Rightarrow> str) \<Rightarrow> ('r, 't) Data \<Rightarrow> str" where
  "data_body content d = pk_buffer (da_stream d) @ content (pk_reader (da_stream d))"

text \<open>What the transformers, in the order they were attached, make of a byte.\<close>

definition byte_map :: "('t \<Rightarrow> byte \<Rightarrow> byte) \<Rightarrow> 't list \<Rightarrow> byte \<Rightarrow> byte" where
  "byte_map f ts b = foldl (\<lambda>c t. f t c) b ts"

context bytewise_data
begin

lemma opened:
  "ds_wf (data_open l d) \<and> ds_map (data_open l d) = byte_map f (da_transforms d)
    \<and> base_rest (ds_base (data_open l d)) = data_body content d \<and> br_limit (ds_base (data_open l d)) = l"
proof -
  have "ds_wf (foldl (\<lambda>s t. Transform t s False) s ts) = ds_wf s
      \<and> ds_map (foldl (\<lambda>s t. Transform t s False) s ts) = (\<lambda>b. byte_map f ts (ds_map s b))
      \<and> ds_base (foldl (\<lambda>s t. Transform t s False) s ts) = ds_base s" for s :: "('r, 't) DataStream" and ts
    by (induction ts arbitrary: s) (simp_all add: byte_map_def)
  then show ?thesis
    by (simp add: data_open_def data_stream_new_def base_rest_def data_body_def chain_content_def chain_new_def)
qed

lemma read_opened:
  assumes "0 < room"
  shows "into_bytes ops read room (data_open l d) =
      Some (Ok (capped_new (map (byte_map f (da_transforms d)) (take l (data_body content d)))
        \<lparr>n_written = min l (length (data_body content d)), n_complete = (length (data_body content d) \<le> l)\<rparr>))
    \<and> into_string invalid ops read room (data_open l d) =
      Some (if utf8 (map (byte_map f (da_transforms d)) (take l (data_body content d)))
        then Ok (capped_new (map (byte_map f (da_transforms d)) (take l (data_body content d)))
          \<lparr>n_written = min l (length (data_body content d)), n_complete = (length (data_body content d) \<le> l)\<rparr>)
        else Err invalid)"
  using stream_to_all [of "data_open l d" room invalid] opened [of l d] assms by (simp add: into_bytes_def)

end

interpretation inspected: bytewise_data "DataModel.cursor_read :: (str, 'x IoError) reader" "\<lambda>s. s" "inspect_ops g"
  "\<lambda>_ b. b" for g :: "'t \<Rightarrow> str \<Rightarrow> 't"
  by unfold_locales (simp_all add: DataModel.cursor_read_def inspect_ops_def default_finish_def tb_set_fresh_def tb_fresh_def)

interpretation mapped: bytewise_data "DataModel.cursor_read :: (str, 'x IoError) reader" "\<lambda>s. s"
  "inplace_map_ops (\<lambda>t buf. (Ok (tb_set_fresh (map (h t)) buf), t))" h for h :: "'t \<Rightarrow> byte \<Rightarrow> byte"
  by unfold_locales (simp_all add: DataModel.cursor_read_def inplace_map_ops_def default_finish_def)

lemma json_guard:
  assumes "bytewise_data (de_read req) content (de_ops req) f" and "0 < de_room req"
  shows "json_from_data parse is_data req d = Some (
      let body = data_body content d; l = limit_or ''json'' (mebibytes 1) req;
          text = map (byte_map f (da_transforms d)) (take l body)
      in if \<not> utf8 text then Error (Status_BadRequest, JsonIo InvalidUtf8)
         else if length body \<le> l then
           (case parse text of
              Ok v \<Rightarrow> Success v
            | Err e \<Rightarrow> Error (if is_data e then Status_UnprocessableEntity else Status_BadRequest, JsonParse text e))
         else Error (Status_PayloadTooLarge, JsonIo LimitEof))"
  using bytewise_data.read_opened [OF assms]
  by (simp add: json_from_data_def json_read_def open_string_def json_from_str_def capped_new_def is_complete_def
      into_inner_def Let_def split: sum.splits)

section \<open>Properties\<close>

text \<open>
  C31. The guards of the library on a body that is read without error, through transformers that map bytes.  Strings and
  bytes: the guard has the whole body, transformed, when it is within the limit of its name, and is an error 400
  otherwise.  JSON: the same, parsed, with 413 for a body above the limit and 422 or 400 for one that does not parse.  The
  part of the body within the limit has to be UTF-8 for strings and JSON, and 400 is the answer when it is not.
\<close>

theorem data_guards_exact:
  fixes req :: "('r, 't, 'x) DataEnv" and d :: "('r, 't) Data"
  assumes "bytewise_data (de_read req) content (de_ops req) f" and "0 < de_room req"
  shows "string_from_data req d = Some (
      let body = data_body content d; l = limit_or ''string'' (kibibytes 8) req;
          text = map (byte_map f (da_transforms d)) (take l body)
      in if \<not> utf8 text then Error (Status_BadRequest, InvalidUtf8)
         else if length body \<le> l then Success text else Error (Status_BadRequest, LimitEof))
    \<and> bytes_from_data req d = Some (
      let body = data_body content d; l = limit_or ''bytes'' (kibibytes 8) req
      in if length body \<le> l then Success (map (byte_map f (da_transforms d)) body) else Error (Status_BadRequest, LimitEof))
    \<and> json_from_data parse is_data req d = Some (
      let body = data_body content d; l = limit_or ''json'' (mebibytes 1) req;
          text = map (byte_map f (da_transforms d)) (take l body)
      in if \<not> utf8 text then Error (Status_BadRequest, JsonIo InvalidUtf8)
         else if length body \<le> l then
           (case parse text of
              Ok v \<Rightarrow> Success v
            | Err e \<Rightarrow> Error (if is_data e then Status_UnprocessableEntity else Status_BadRequest, JsonParse text e))
         else Error (Status_PayloadTooLarge, JsonIo LimitEof))"
  using bytewise_data.read_opened [OF assms]
  by (intro conjI json_guard [OF assms])
    (simp_all add: string_from_data_def bytes_from_data_def capped_string_from_data_def capped_bytes_from_data_def
      open_string_def open_bytes_def strict_from_data_def capped_new_def is_complete_def into_inner_def Let_def)

definition sample_env :: "(str, unit, unit) DataEnv" where
  "sample_env = \<lparr>de_ucmp = str_cmp, de_limits = \<lparr>li_limits = [(''json'', 3), (''string'', 5)]\<rparr>,
     de_ops = inspect_ops (\<lambda>t _. t), de_read = DataModel.cursor_read, de_room = 2\<rparr>"

lemma sample_env_bytewise:
  "bytewise_data (de_read sample_env) (\<lambda>s. s) (de_ops sample_env) (\<lambda>_ b. b)" "0 < de_room sample_env"
  using inspected.bytewise_data_axioms by (simp_all add: sample_env_def)

lemma sample_env_limits: "limit_or ''string'' n sample_env = 5" "limit_or ''json'' n sample_env = 3"
  by (simp_all add: sample_env_def limit_or_def limits_get_def rmatch_indices_def exact_limit_def binary_search_by_def
      bsb_loop.simps str_cmp_def byte_cmp_def)

lemma byte_map_id: "byte_map (\<lambda>_ b. b) ts = (\<lambda>b. b)"
  by (induction ts) (auto simp: byte_map_def)

theorem data_guards_exact_witness:
  "string_from_data sample_env (data_from ''hello'') = Some (Success ''hello'')
    \<and> string_from_data sample_env (data_from ''hello!'') = Some (Error (Status_BadRequest, LimitEof))
    \<and> json_from_data (\<lambda>s. Err s) (\<lambda>_. False) sample_env (data_from ''hello'') =
        (Some (Error (Status_PayloadTooLarge, JsonIo LimitEof)) :: (unit, (unit, str) JsonError, str, unit) data_outcome option)"
proof -
  note g = data_guards_exact [OF sample_env_bytewise]
  show ?thesis
    unfolding g [THEN conjunct1] g [THEN conjunct2, THEN conjunct2]
    by (simp add: sample_env_limits byte_map_id data_body_def data_from_def data_new_def peekable_new_def between_def)
qed

text \<open>
  A body of JSON above the limit is an error 400 instead of 413 when the limit falls within a character.
\<close>

lemma json_limit_in_character:
  "json_from_data (\<lambda>s. Err s) (\<lambda>_. False) sample_env (data_from [CHR ''a'', CHR ''b'', CHR 0xC3, CHR 0xA9]) =
     (Some (Error (Status_BadRequest, JsonIo InvalidUtf8)) :: (unit, (unit, str) JsonError, str, unit) data_outcome option)"
  unfolding json_guard [OF sample_env_bytewise]
  by (simp add: sample_env_limits byte_map_id data_body_def data_from_def data_new_def peekable_new_def between_def)

end
