(* ===== verification/FormData.thy ===== *)
theory FormData
  imports FormGuards DataGuards
begin

text \<open>
  The form guard on a request (\<open>core/lib/src/form/parser.rs\<close>, \<open>Form::from_data\<close> of \<open>form.rs\<close>): choosing a parser by the
  content type, reading the body under its limit, and pushing what the parser yields.

  The multipart parser of the crate \<open>multer\<close> is a parameter, a state with the operation \<open>next_field\<close>; it never ends for a
  source that never ends, so the loop over the fields is partial.  Errors of \<open>std::io\<close> become values of the
  type of foreign errors by \<open>of_io\<close>.
\<close>

section \<open>Model\<close>

















section \<open>What is pushed\<close>











section \<open>Properties\<close>





end
