(* ===== verification/FormValidate.thy ===== *)
theory FormValidate
  imports FormParsing
begin

text \<open>
  Validation of form fields (\<open>core/lib/src/form/validate.rs\<close>): the validators that a derived form runs on its
  fields, and the errors they report.

  Lengths are 64-bit words; the integers that \<open>rg\<close> compares are those of \<open>isize\<close>, 64 bits with sign, and
  saturating arithmetic is written out.  What a value contains, and how an item is printed, are parameters where the
  code is generic in them.  A \<open>char\<close> is its UTF-8 encoding, and a string contains it where its bytes occur.
\<close>

section \<open>Model: ranges\<close>

datatype 'l Bound = Included 'l | Excluded 'l | Unbounded

type_synonym 'l range = "'l Bound \<times> 'l Bound"

text \<open>\<open>RangeBounds::contains\<close>.\<close>

definition range_contains :: "('l :: ord) range \<Rightarrow> 'l \<Rightarrow> bool" where
  "range_contains r v =
     ((case fst r of Included s \<Rightarrow> s \<le> v | Excluded s \<Rightarrow> s < v | Unbounded \<Rightarrow> True)
      \<and> (case snd r of Included e \<Rightarrow> v \<le> e | Excluded e \<Rightarrow> v < e | Unbounded \<Rightarrow> True))"

definition u64_max :: nat where
  "u64_max = 2 ^ 64 - 1"

definition isize_min :: int where
  "isize_min = - (2 ^ 63)"

definition isize_max :: int where
  "isize_max = 2 ^ 63 - 1"

section \<open>Model: validators\<close>

definition validation :: "str \<Rightarrow> ('t, 'x) form_result" where
  "validation msg = Err [error_validation msg]"

definition validate_msg :: "str \<Rightarrow> 'v \<Rightarrow> (unit, 'x) form_result" where
  "validate_msg e v = validation e"

definition validate_eq :: "('a \<Rightarrow> 'b \<Rightarrow> bool) \<Rightarrow> 'a \<Rightarrow> 'b \<Rightarrow> (unit, 'x) form_result" where
  "validate_eq eq a b = (if \<not> eq a b then validation ''value does not match expected value'' else Ok ())"

definition validate_dbg_eq :: "('a \<Rightarrow> 'b \<Rightarrow> bool) \<Rightarrow> ('b \<Rightarrow> str) \<Rightarrow> 'a \<Rightarrow> 'b \<Rightarrow> (unit, 'x) form_result" where
  "validate_dbg_eq eq debug a b = (if \<not> eq a b then validation (''value must be '' @ debug b) else Ok ())"

definition validate_neq :: "('a \<Rightarrow> 'b \<Rightarrow> bool) \<Rightarrow> 'a \<Rightarrow> 'b \<Rightarrow> (unit, 'x) form_result" where
  "validate_neq eq a b = (if eq a b then validation ''value is equal to an invalid value'' else Ok ())"

text \<open>The lengths of strings, vectors and maps, of an option and of a result (\<open>Len\<close>).\<close>

definition len_list :: "'a list \<Rightarrow> 64 word" where
  "len_list v = of_nat (length v)"

definition len_option :: "('v \<Rightarrow> 64 word) \<Rightarrow> 'v option \<Rightarrow> 64 word" where
  "len_option len v = (case v of Some x \<Rightarrow> len x | None \<Rightarrow> 0)"

definition len_result :: "('v \<Rightarrow> 64 word) \<Rightarrow> ('v, 'x) form_result \<Rightarrow> 64 word" where
  "len_result len v = len_option len (case v of Ok x \<Rightarrow> Some x | Err _ \<Rightarrow> None)"

definition len_bounds :: "64 word range \<Rightarrow> nat option \<times> nat option" where
  "len_bounds rg =
     (let start = (case fst rg of
            Included v \<Rightarrow> Some (unat v) | Excluded v \<Rightarrow> Some (min (unat v + 1) u64_max) | Unbounded \<Rightarrow> None);
          end' = (case snd rg of
            Included v \<Rightarrow> Some (unat v) | Excluded v \<Rightarrow> Some (unat v - 1) | Unbounded \<Rightarrow> None)
      in (start, end'))"

definition validate_len :: "('v \<Rightarrow> 64 word) \<Rightarrow> 'v \<Rightarrow> 64 word range \<Rightarrow> (unit, 'x) form_result" where
  "validate_len len value rg =
     (if \<not> range_contains rg (len value)
      then (case len_bounds rg of (start, end') \<Rightarrow> Err [error_from (InvalidLength start end')])
      else Ok ())"

text \<open>What strings, vectors, options and results contain (\<open>Contains\<close>).\<close>

definition contains_str :: "str \<Rightarrow> str \<Rightarrow> bool" where
  "contains_str s t = list_ex (\<lambda>i. starts_with (drop i s) t) [0..<length s + 1]"

definition contains_chars :: "str \<Rightarrow> str list \<Rightarrow> bool" where
  "contains_chars s cs = list_ex (contains_str s) cs"

definition contains_vec :: "('t \<Rightarrow> 't \<Rightarrow> bool) \<Rightarrow> 't list \<Rightarrow> 't \<Rightarrow> bool" where
  "contains_vec eq v item = list_ex (\<lambda>x. eq x item) v"

definition contains_option :: "('v \<Rightarrow> 'i \<Rightarrow> bool) \<Rightarrow> 'v option \<Rightarrow> 'i \<Rightarrow> bool" where
  "contains_option has v item = (case v of Some x \<Rightarrow> has x item | None \<Rightarrow> False)"

definition contains_result :: "('v \<Rightarrow> 'i \<Rightarrow> bool) \<Rightarrow> ('v, 'x) form_result \<Rightarrow> 'i \<Rightarrow> bool" where
  "contains_result has v item = (case v of Ok x \<Rightarrow> has x item | Err _ \<Rightarrow> False)"

definition validate_contains :: "('v \<Rightarrow> 'i \<Rightarrow> bool) \<Rightarrow> 'v \<Rightarrow> 'i \<Rightarrow> (unit, 'x) form_result" where
  "validate_contains has value item =
     (if \<not> has value item then validation ''value does not contain expected item'' else Ok ())"

definition validate_dbg_contains ::
  "('v \<Rightarrow> 'i \<Rightarrow> bool) \<Rightarrow> ('i \<Rightarrow> str) \<Rightarrow> 'v \<Rightarrow> 'i \<Rightarrow> (unit, 'x) form_result" where
  "validate_dbg_contains has debug value item =
     (if \<not> has value item then validation (''value must contain '' @ debug item) else Ok ())"

definition validate_omits :: "('v \<Rightarrow> 'i \<Rightarrow> bool) \<Rightarrow> 'v \<Rightarrow> 'i \<Rightarrow> (unit, 'x) form_result" where
  "validate_omits has value item =
     (if has value item then validation ''value contains a disallowed item'' else Ok ())"

definition validate_dbg_omits ::
  "('v \<Rightarrow> 'i \<Rightarrow> bool) \<Rightarrow> ('i \<Rightarrow> str) \<Rightarrow> 'v \<Rightarrow> 'i \<Rightarrow> (unit, 'x) form_result" where
  "validate_dbg_omits has debug value item =
     (if has value item then validation (''value cannot contain '' @ debug item) else Ok ())"

text \<open>The value is an integer of any width; \<open>try_into\<close> succeeds when it is one of \<open>isize\<close>.\<close>

definition try_into_isize :: "int \<Rightarrow> int option" where
  "try_into_isize v = (if isize_min \<le> v \<and> v \<le> isize_max then Some v else None)"

definition range_bounds :: "int range \<Rightarrow> int option \<times> int option" where
  "range_bounds rg =
     (let start = (case fst rg of
            Included v \<Rightarrow> Some v | Excluded v \<Rightarrow> Some (min (v + 1) isize_max) | Unbounded \<Rightarrow> None);
          end' = (case snd rg of
            Included v \<Rightarrow> Some v | Excluded v \<Rightarrow> Some (max (v - 1) isize_min) | Unbounded \<Rightarrow> None)
      in (start, end'))"

definition validate_range :: "int \<Rightarrow> int range \<Rightarrow> (unit, 'x) form_result" where
  "validate_range value rg =
     (if (case try_into_isize value of Some v \<Rightarrow> range_contains rg v | None \<Rightarrow> False) then Ok ()
      else (case range_bounds rg of (start, end') \<Rightarrow> Err [error_from (OutOfRange start end')]))"

fun any_contained :: "('v \<Rightarrow> 'i \<Rightarrow> bool) \<Rightarrow> 'v \<Rightarrow> 'i list \<Rightarrow> bool" where
  "any_contained has value [] = False"
| "any_contained has value (item # items) = (if has value item then True else any_contained has value items)"

definition validate_one_of :: "('v \<Rightarrow> 'i \<Rightarrow> bool) \<Rightarrow> ('i \<Rightarrow> str) \<Rightarrow> 'v \<Rightarrow> 'i list \<Rightarrow> (unit, 'x) form_result" where
  "validate_one_of has debug value items =
     (if any_contained has value items then Ok ()
      else Err [error_from (InvalidChoice (map debug items))])"

text \<open>\<open>file_ct\<close> is the content type of the file.\<close>

definition validate_ext :: "uncased_key \<Rightarrow> MediaType option \<Rightarrow> MediaType \<Rightarrow> (unit, 'x) form_result" where
  "validate_ext uc file_ct ty =
     (if (case file_ct of Some ct \<Rightarrow> mt_eq uc ct ty | None \<Rightarrow> False) then Ok ()
      else validation
        (case (Option.bind file_ct (extension uc), extension uc ty) of
           (Some a, Some b) \<Rightarrow> ''invalid file type: .'' @ a @ '', must be .'' @ b
         | (Some a, None) \<Rightarrow> ''invalid file type: .'' @ a @ '', must be '' @ mt_display ty
         | (None, Some b) \<Rightarrow> ''file type must be .'' @ b
         | (None, None) \<Rightarrow> ''file type must be '' @ mt_display ty))"

definition validate_with :: "'v \<Rightarrow> ('v \<Rightarrow> bool) \<Rightarrow> str \<Rightarrow> (unit, 'x) form_result" where
  "validate_with value f msg = (if \<not> f value then validation msg else Ok ())"

definition validate_try_with :: "('e \<Rightarrow> str) \<Rightarrow> 'v \<Rightarrow> ('v \<Rightarrow> ('t, 'e) result) \<Rightarrow> (unit, 'x) form_result" where
  "validate_try_with disp value f = (case f value of Ok _ \<Rightarrow> Ok () | Err e \<Rightarrow> validation (disp e))"

section \<open>Properties\<close>

definition admits :: "('n :: linorder) option \<times> 'n option \<Rightarrow> 'n \<Rightarrow> bool" where
  "admits b n = ((case fst b of Some s \<Rightarrow> s \<le> n | None \<Rightarrow> True) \<and> (case snd b of Some e \<Rightarrow> n \<le> e | None \<Rightarrow> True))"

definition isize :: "int \<Rightarrow> bool" where
  "isize v = (isize_min \<le> v \<and> v \<le> isize_max)"

definition bound_isize :: "int Bound \<Rightarrow> bool" where
  "bound_isize b = (case b of Included v \<Rightarrow> isize v | Excluded v \<Rightarrow> isize v | Unbounded \<Rightarrow> True)"

lemma len_bounds_within:
  "range_contains rg n \<longleftrightarrow>
     admits (len_bounds rg) (unat n) \<and> fst rg \<noteq> Excluded (- 1) \<and> snd rg \<noteq> Excluded 0"
proof -
  have b: "unat v < 2 ^ 64" for v :: "64 word" using unsigned_less [of v, where ?'a = nat] by simp
  have m: "unat (- 1 :: 64 word) = u64_max" by (simp add: u64_max_def unsigned_minus_1_eq_mask mask_eq_exp_minus_1)
  have e: "v = - 1 \<longleftrightarrow> unat v = u64_max" for v :: "64 word" using m by (metis word_unat_eq_iff)
  have z: "v = 0 \<longleftrightarrow> unat v = 0" for v :: "64 word" by (simp add: unat_eq_0)
  have s: "min (Suc (unat v)) u64_max \<le> unat n \<longleftrightarrow> unat v < unat n \<or> unat v = u64_max \<and> unat n = u64_max" for v :: "64 word"
    using b [of v] b [of n] by (auto simp: u64_max_def min_def)
  have "unat n \<le> u64_max" using b [of n] by (simp add: u64_max_def)
  then show ?thesis by (cases "fst rg"; cases "snd rg")
      (auto simp: range_contains_def admits_def len_bounds_def e z s word_le_nat_alt word_less_nat_alt)
qed

text \<open>
  C33. Validation of lengths and integers (\<open>len\<close>, \<open>range\<close>) accepts exactly what the range contains, and for \<open>range\<close>
  only integers of \<open>isize\<close>, so that an open rg of an unsigned type rejects the integers above.  The bounds in the error
  are the closed interval of the values accepted, and no bound overflows: only a rg that excludes the
  least end or the greatest start, which accepts nothing, is reported by a bound it does not accept.
\<close>

theorem validate_bounds:
  assumes "bound_isize (fst r)" and "bound_isize (snd r)"
  shows "validate_len len value rg =
      (if range_contains rg (len value) then Ok ()
       else Err [error_from (InvalidLength (fst (len_bounds rg)) (snd (len_bounds rg)))])
    \<and> (range_contains rg n \<longleftrightarrow>
        admits (len_bounds rg) (unat n) \<and> fst rg \<noteq> Excluded (- 1) \<and> snd rg \<noteq> Excluded 0)
    \<and> validate_range v r =
      (if isize v \<and> range_contains r v then Ok () else Err [error_from (OutOfRange (fst (range_bounds r)) (snd (range_bounds r)))])
    \<and> (isize v \<and> range_contains r v \<longleftrightarrow>
        isize v \<and> admits (range_bounds r) v \<and> fst r \<noteq> Excluded isize_max \<and> snd r \<noteq> Excluded isize_min)"
proof (intro conjI)
  show "isize v \<and> range_contains r v \<longleftrightarrow>
      isize v \<and> admits (range_bounds r) v \<and> fst r \<noteq> Excluded isize_max \<and> snd r \<noteq> Excluded isize_min"
    using assms by (cases "fst r"; cases "snd r")
      (auto simp: range_contains_def admits_def range_bounds_def bound_isize_def isize_def isize_max_def isize_min_def)
qed (use len_bounds_within in \<open>simp_all add: validate_len_def validate_range_def try_into_isize_def isize_def split_beta\<close>)

theorem validate_bounds_witness:
  "validate_len len_list ''abcdef'' (Included 1, Excluded 5) =
      (Err [error_from (InvalidLength (Some 1) (Some 4))] :: (unit, unit) form_result)
    \<and> validate_range (2 ^ 63) (Included 0, Unbounded) =
      (Err [error_from (OutOfRange (Some 0) None)] :: (unit, unit) form_result)"
proof -
  let ?r = "(Included 0, Unbounded) :: int range"
  have b: "bound_isize (fst ?r)" "bound_isize (snd ?r)" by (simp_all add: bound_isize_def isize_def isize_min_def isize_max_def)
  note v = validate_bounds [OF b]
  show ?thesis unfolding v [THEN conjunct1] v [THEN conjunct2, THEN conjunct2, THEN conjunct1]
    by (simp add: isize_def isize_min_def isize_max_def range_contains_def len_list_def len_bounds_def range_bounds_def)
qed

text \<open>An empty range is reported by a bound that it does not accept.\<close>

lemma empty_range_reported:
  "validate_len len_list [] (Unbounded, Excluded 0) =
     (Err [error_from (InvalidLength None (Some 0))] :: (unit, unit) form_result)"
  by (simp add: validate_len_def range_contains_def len_list_def len_bounds_def)

lemma any_contained_iff: "any_contained has value items \<longleftrightarrow> (\<exists>i \<in> set items. has value i)"
  by (induction items) auto

text \<open>The validators on what a value contains accept in exactly opposite cases.\<close>

lemma validate_contains_laws:
  "validate_contains has value item = Ok () \<longleftrightarrow> has value item"
  "validate_omits has value item = Ok () \<longleftrightarrow> \<not> has value item"
  "validate_one_of has debug value items = Ok () \<longleftrightarrow> (\<exists>i \<in> set items. validate_contains has value i = Ok ())"
  by (simp_all add: validate_contains_def validate_omits_def validate_one_of_def validation_def any_contained_iff)

lemma contains_str_iff: "contains_str s t \<longleftrightarrow> (\<exists>a b. s = a @ t @ b)"
proof
  assume "contains_str s t"
  then obtain i b where "drop i s = t @ b" by (auto simp: contains_str_def list_ex_iff starts_with_def Sublist.prefix_def)
  then show "\<exists>a b. s = a @ t @ b" by (metis append_take_drop_id)
next
  assume "\<exists>a b. s = a @ t @ b"
  then obtain a b where s: "s = a @ t @ b" by blast
  then have "starts_with (drop (length a) s) t" by (simp add: starts_with_def)
  moreover have "length a \<in> set [0..<length s + 1]" using s by simp
  ultimately show "contains_str s t" unfolding contains_str_def list_ex_iff by blast
qed

end
