(* ===== verification/UriFmt.thy ===== *)
theory UriFmt
  imports UriValues
begin

text \<open>
  Rendering URIs from typed values: the encode sets, the \<open>Formatter\<close>, \<open>UriDisplay\<close> of strings and collections, and
  \<open>RouteUriBuilder\<close> with its prefixes and suffixes (\<open>core/http/src/uri/fmt/\<close> \<open>encoding.rs\<close>, \<open>part.rs\<close>,
  \<open>formatter.rs\<close>, \<open>uri_display.rs\<close>).

  A formatter writes to a \<open>String\<close>, which never fails, so an implementation of \<open>UriDisplay\<close> is the sequence of calls
  it makes on the formatter, one of which may be an error of its own that ends it.  The percent encoder
  \<open>enc\<close> and its set of control characters come from the crate \<open>percent_encoding\<close> and are parameters.
\<close>

section \<open>Model: encode sets\<close>

type_synonym AsciiSet = "byte \<Rightarrow> bool"
type_synonym percent_encoder = "AsciiSet \<Rightarrow> str \<Rightarrow> str"

definition set_add :: "byte \<Rightarrow> AsciiSet \<Rightarrow> AsciiSet" where
  "set_add b s = s(b := True)"

definition set_remove :: "byte \<Rightarrow> AsciiSet \<Rightarrow> AsciiSet" where
  "set_remove b s = s(b := False)"

function set_from_table_loop :: "byte list \<Rightarrow> nat \<Rightarrow> AsciiSet \<Rightarrow> AsciiSet" where
  "set_from_table_loop table i s =
     (if i < 0x80 then set_from_table_loop table (i + 1) (if table ! i = CHR 0x00 then set_add (char_of i) s else s)
      else s)"
  by auto
termination by (relation "measure (\<lambda>(_, i, _). 0x80 - i)") auto

declare set_from_table_loop.simps [simp del]

definition set_from_table :: "AsciiSet \<Rightarrow> byte list \<Rightarrow> AsciiSet" where
  "set_from_table controls table = set_from_table_loop table 0 (set_add (CHR 0x00) controls)"

definition PATH_SET :: "AsciiSet \<Rightarrow> AsciiSet" where
  "PATH_SET controls = set_from_table controls PATH_CHARS"

datatype Kind = Path | Query

fun UNSAFE_ENCODE_SET :: "AsciiSet \<Rightarrow> Kind \<Rightarrow> AsciiSet" where
  "UNSAFE_ENCODE_SET controls Path = set_add (CHR ''%'') (PATH_SET controls)"
| "UNSAFE_ENCODE_SET controls Query =
     set_add (CHR ''+'') (set_add (CHR ''%'') (set_remove (CHR ''?'') (PATH_SET controls)))"

fun ENCODE_SET :: "AsciiSet \<Rightarrow> Kind \<Rightarrow> AsciiSet" where
  "ENCODE_SET controls Path = set_add slash (UNSAFE_ENCODE_SET controls Path)"
| "ENCODE_SET controls Query = set_add (CHR ''='') (set_add amp (UNSAFE_ENCODE_SET controls Query))"

definition DEFAULT_ENCODE_SET :: "AsciiSet \<Rightarrow> AsciiSet" where
  "DEFAULT_ENCODE_SET controls =
     set_add (CHR ''='') (set_add amp (set_add (CHR ''+'') (set_add (CHR ''%'') (ENCODE_SET controls Path))))"

definition percent_encode :: "percent_encoder \<Rightarrow> AsciiSet \<Rightarrow> str \<Rightarrow> str" where
  "percent_encode enc controls string = enc (DEFAULT_ENCODE_SET controls) string"

section \<open>Model: the formatter\<close>

fun DELIMITER :: "Kind \<Rightarrow> byte" where
  "DELIMITER Path = slash"
| "DELIMITER Query = amp"

record Formatter =
  fm_prefixes :: "str list"
  fm_inner :: str
  fm_previous :: bool
  fm_fresh :: bool

definition formatter_new :: "str \<Rightarrow> Formatter" where
  "formatter_new inner = \<lparr>fm_prefixes = [], fm_inner = inner, fm_previous = False, fm_fresh = True\<rparr>"

definition refresh :: "Formatter \<Rightarrow> Formatter" where
  "refresh self = self\<lparr>fm_fresh := True\<rparr>"

definition refreshed :: "(Formatter \<Rightarrow> Formatter \<times> bool) \<Rightarrow> Formatter \<Rightarrow> Formatter \<times> bool" where
  "refreshed f self = (let (self, result) = f (refresh self) in (refresh self, result))"

definition write_raw :: "Kind \<Rightarrow> str \<Rightarrow> Formatter \<Rightarrow> Formatter" where
  "write_raw k string self =
     (let self =
        (if fm_fresh self then
           let self = (if fm_previous self then self\<lparr>fm_inner := fm_inner self @ [DELIMITER k]\<rparr> else self)
           in if k = Query \<and> fm_prefixes self \<noteq> []
              then self\<lparr>fm_inner := push_segments (CHR ''.'') 0 (fm_prefixes self) (fm_inner self) @ ''=''\<rparr>
              else self
         else self)
      in self\<lparr>fm_fresh := False, fm_previous := True, fm_inner := fm_inner self @ string\<rparr>)"

definition fmt_with_prefix :: "str \<Rightarrow> (Formatter \<Rightarrow> Formatter \<times> bool) \<Rightarrow> Formatter \<Rightarrow> Formatter \<times> bool" where
  "fmt_with_prefix name f self =
     (let (self, result) = f (self\<lparr>fm_prefixes := fm_prefixes self @ [name]\<rparr>)
      in (self\<lparr>fm_prefixes := butlast (fm_prefixes self)\<rparr>, result))"

text \<open>The calls an implementation of \<open>UriDisplay::fmt\<close> makes; \<open>False\<close> is an error result.\<close>

datatype call = WriteRaw str | WriteValue "call list" | WriteNamedValue str "call list" | Refresh | Fail

fun run_call :: "Kind \<Rightarrow> call \<Rightarrow> Formatter \<Rightarrow> Formatter \<times> bool"
  and run_calls :: "Kind \<Rightarrow> call list \<Rightarrow> Formatter \<Rightarrow> Formatter \<times> bool" where
  "run_call k (WriteRaw s) f = (write_raw k s f, True)"
| "run_call k (WriteValue v) f = refreshed (\<lambda>f. run_calls k v f) f"
| "run_call k (WriteNamedValue name v) f =
     refreshed (\<lambda>f. fmt_with_prefix name (\<lambda>f. refreshed (\<lambda>f. run_calls k v f) f) f) f"
| "run_call k Refresh f = (refresh f, True)"
| "run_call k Fail f = (f, False)"
| "run_calls k [] f = (f, True)"
| "run_calls k (c # cs) f = (case run_call k c f of (f, r) \<Rightarrow> if r then run_calls k cs f else (f, False))"

section \<open>Model: displaying values\<close>

definition display_str :: "percent_encoder \<Rightarrow> AsciiSet \<Rightarrow> str \<Rightarrow> call list" where
  "display_str enc controls s = [WriteRaw (percent_encode enc controls s)]"

definition display_option :: "call list option \<Rightarrow> call list" where
  "display_option v = (case v of Some v \<Rightarrow> v | None \<Rightarrow> [])"

definition display_vec :: "call list list \<Rightarrow> call list" where
  "display_vec vs = map WriteValue vs"

fun display_map :: "nat \<Rightarrow> (call list \<times> call list) list \<Rightarrow> call list" where
  "display_map i [] = []"
| "display_map i ((key, val) # rest) =
     WriteNamedValue (''k:'' @ nat_to_string i) key # WriteNamedValue (''v:'' @ nat_to_string i) val
     # display_map (Suc i) rest"

text \<open>The components of a path, and its display: prefixes and the root are skipped.\<close>

datatype Component = Prefix | RootDir | CurDir | ParentDir | Normal str

fun component_as_os_str :: "Component \<Rightarrow> str" where
  "component_as_os_str CurDir = ''.''"
| "component_as_os_str ParentDir = ''..''"
| "component_as_os_str (Normal s) = s"
| "component_as_os_str _ = ''/''"

fun display_path :: "percent_encoder \<Rightarrow> AsciiSet \<Rightarrow> Component list \<Rightarrow> call list" where
  "display_path enc controls [] = []"
| "display_path enc controls (component # rest) =
     (case component of
        Prefix \<Rightarrow> display_path enc controls rest
      | RootDir \<Rightarrow> display_path enc controls rest
      | _ \<Rightarrow> WriteValue (display_str enc controls (component_as_os_str component))
             # display_path enc controls rest)"

section \<open>Model: building route URIs\<close>

datatype 'a UriArgumentsKind = Static str | Dynamic 'a

datatype UriQueryArgument = Raw str | NameValue str "call list" | Value "call list"

record RouteUriBuilder =
  rb_path :: str
  rb_query :: "str option"

definition write_path_arg :: "call list \<Rightarrow> Formatter \<Rightarrow> Formatter" where
  "write_path_arg v f = fst (run_call Path (WriteValue v) f)"

fun write_query_arg :: "UriQueryArgument \<Rightarrow> Formatter \<Rightarrow> Formatter" where
  "write_query_arg (Raw v) f = fst (run_call Query (WriteRaw v) f)"
| "write_query_arg (NameValue n v) f = fst (run_call Query (WriteNamedValue n v) f)"
| "write_query_arg (Value v) f = fst (run_call Query (WriteValue v) f)"

definition builder_new ::
  "call list list UriArgumentsKind \<Rightarrow> UriQueryArgument list UriArgumentsKind option \<Rightarrow> RouteUriBuilder" where
  "builder_new path_args query_args =
     \<lparr>rb_path = (case path_args of
          Static path \<Rightarrow> path
        | Dynamic args \<Rightarrow> fm_inner (fold write_path_arg args (formatter_new ''/''))),
      rb_query = (case query_args of
          None \<Rightarrow> None
        | Some (Static query) \<Rightarrow> Some query
        | Some (Dynamic args) \<Rightarrow>
            let string = fm_inner (fold write_query_arg args (formatter_new []))
            in if string \<noteq> [] then Some string else None)\<rparr>"

definition origin_append :: "origin \<Rightarrow> str \<Rightarrow> str option \<Rightarrow> origin" where
  "origin_append self path query =
     (let prefix = clear_query (into_normalized self)
      in if o_path prefix = ''/'' then origin_new path query
         else if path = ''/'' then prefix\<lparr>o_query := query\<rparr>
         else if has_trailing_slash prefix \<and> starts_with path ''/''
         then origin_new (o_path prefix @ drop 1 path) query
         else origin_new (o_path prefix @ path) query)"

definition absolute_append :: "Absolute \<Rightarrow> str \<Rightarrow> str option \<Rightarrow> Absolute option" where
  "absolute_append self path query = do {
     prefix \<leftarrow> absolute_normalize self;
     let prefix = absolute_clear_query prefix;
     prefix_path \<leftarrow> absolute_path prefix;
     Some (if path = ''/'' then absolute_set_query query prefix
           else if prefix_path = [] \<or> prefix_path = ''/'' then absolute_set_query query (absolute_set_path path prefix)
           else absolute_set_query query (absolute_set_path (prefix_path @ path) prefix)) }"

definition prepend_reference_origin :: "Origin \<Rightarrow> Reference \<Rightarrow> Reference option" where
  "prepend_reference_origin pre self = with_query_fragment_of self (reference_from_origin pre)"

definition prepend_reference_absolute :: "Absolute \<Rightarrow> Reference \<Rightarrow> Reference option" where
  "prepend_reference_absolute pre self = with_query_fragment_of self (reference_from_absolute pre)"

definition prepend_absolute_origin :: "Origin \<Rightarrow> Absolute \<Rightarrow> Origin option" where
  "prepend_absolute_origin pre self =
     (case ab_query self of
        None \<Rightarrow> Some pre
      | Some query \<Rightarrow> do {
          own \<leftarrow> raw_origin_query pre;
          if own = None
          then map_option (\<lambda>q. raw_origin_set_query (Some q) pre) (into_concrete query (ab_source self))
          else Some pre })"

definition prepend_absolute_absolute :: "Absolute \<Rightarrow> Absolute \<Rightarrow> Absolute option" where
  "prepend_absolute_absolute pre self =
     (case ab_query self of
        None \<Rightarrow> Some pre
      | Some query \<Rightarrow> do {
          own \<leftarrow> absolute_query pre;
          if own = None
          then map_option (\<lambda>q. absolute_set_query (Some q) pre) (into_concrete query (ab_source self))
          else Some pre })"

definition builder_render :: "RouteUriBuilder \<Rightarrow> Origin" where
  "builder_render self = raw_origin_new (rb_path self) (rb_query self)"

definition builder_with_suffix :: "Reference \<Rightarrow> RouteUriBuilder \<Rightarrow> Reference option" where
  "builder_with_suffix suf self = prepend_reference_origin (builder_render self) suf"

section \<open>Lemmas: encode sets\<close>

lemma ex_ge_split: "(\<exists>j \<ge> i. P j) \<longleftrightarrow> P i \<or> (\<exists>j \<ge> Suc i. P j)" for i :: nat
  by (metis Suc_le_eq le_eq_less_or_eq order_refl)

lemma set_from_table_loop_iff:
  "set_from_table_loop table i s c \<longleftrightarrow> s c \<or> (\<exists>j. i \<le> j \<and> j < 0x80 \<and> table ! j = CHR 0x00 \<and> c = char_of j)"
proof (induction table i s rule: set_from_table_loop.induct)
  case (1 table i s)
  show ?case
  proof (cases "i < 0x80")
    case True
    have "(\<exists>j. i \<le> j \<and> j < 0x80 \<and> table ! j = CHR 0x00 \<and> c = char_of j)
        \<longleftrightarrow> table ! i = CHR 0x00 \<and> c = char_of i \<or> (\<exists>j. i + 1 \<le> j \<and> j < 0x80 \<and> table ! j = CHR 0x00 \<and> c = char_of j)"
      using True ex_ge_split [of i "\<lambda>j. j < 0x80 \<and> table ! j = CHR 0x00 \<and> c = char_of j"] by simp
    then show ?thesis using 1 [OF True] True
      by (subst set_from_table_loop.simps) (auto simp: set_add_def)
  next
    case False
    then show ?thesis using set_from_table_loop.simps [of table i s] by auto
  qed
qed

lemma PATH_SET_iff: "is_ascii c \<Longrightarrow> \<not> PATH_SET controls c \<Longrightarrow> is_pchar c"
proof -
  assume "is_ascii c" "\<not> PATH_SET controls c"
  moreover have "c = char_of (of_char c :: nat)" by simp
  ultimately show ?thesis
    by (fastforce simp: PATH_SET_def set_from_table_def set_from_table_loop_iff is_pchar_def is_ascii_def)
qed

text \<open>A byte that strings are not encoded at may stand in a path and is no delimiter of paths or queries.\<close>

lemma DEFAULT_ENCODE_SET_iff:
  "is_ascii c \<Longrightarrow> \<not> DEFAULT_ENCODE_SET controls c \<Longrightarrow> is_pchar c \<and> c \<notin> set ''/&=+%''"
  using PATH_SET_iff [of c controls] by (auto simp: DEFAULT_ENCODE_SET_def set_add_def split: if_splits)

section \<open>Lemmas: the formatter\<close>

text \<open>
  What a formatter has written is a list of items between delimiters; a raw write starts an item when the
  formatter is fresh and continues the last one otherwise.
\<close>

type_synonym items = "str list \<times> bool"

definition item_head :: "Kind \<Rightarrow> str list \<Rightarrow> str" where
  "item_head k pre = (if k = Query \<and> pre \<noteq> [] then join (CHR ''.'') pre @ ''='' else [])"

fun spec_call :: "Kind \<Rightarrow> str list \<Rightarrow> call \<Rightarrow> items \<Rightarrow> items \<times> bool"
  and spec_calls :: "Kind \<Rightarrow> str list \<Rightarrow> call list \<Rightarrow> items \<Rightarrow> items \<times> bool" where
  "spec_call k pre (WriteRaw s) (its, fr) =
     ((if fr then its @ [item_head k pre @ s] else butlast its @ [last its @ s], False), True)"
| "spec_call k pre (WriteValue v) (its, fr) = (case spec_calls k pre v (its, True) of ((its, fr), r) \<Rightarrow> ((its, True), r))"
| "spec_call k pre (WriteNamedValue name v) (its, fr) =
     (case spec_calls k (pre @ [name]) v (its, True) of ((its, fr), r) \<Rightarrow> ((its, True), r))"
| "spec_call k pre Refresh (its, fr) = ((its, True), True)"
| "spec_call k pre Fail st = (st, False)"
| "spec_calls k pre [] st = (st, True)"
| "spec_calls k pre (c # cs) st = (case spec_call k pre c st of (st, r) \<Rightarrow> if r then spec_calls k pre cs st else (st, False))"

fun written :: "Kind \<Rightarrow> str \<Rightarrow> str list \<Rightarrow> items \<Rightarrow> Formatter \<Rightarrow> bool" where
  "written k base pre (its, fr) f =
     (fm_inner f = base @ join (DELIMITER k) its \<and> fm_previous f = (its \<noteq> []) \<and> fm_fresh f = fr
      \<and> (fr \<or> its \<noteq> []) \<and> fm_prefixes f = pre)"

lemma join_snoc: "xs \<noteq> [] \<Longrightarrow> join c (xs @ [x]) = join c xs @ c # x"
  by (induction c xs rule: join.induct) (simp_all add: join_Cons)

lemma join_extend: "xs \<noteq> [] \<Longrightarrow> join c (butlast xs @ [last xs @ s]) = join c xs @ s"
proof (cases xs rule: rev_cases)
  case (snoc ys y)
  then show "join c (butlast xs @ [last xs @ s]) = join c xs @ s" by (cases "ys = []") (simp_all add: join_snoc)
qed simp

lemma write_raw_written:
  assumes "written k base pre (its, fr) f"
  shows "written k base pre (if fr then its @ [item_head k pre @ s] else butlast its @ [last its @ s], False) (write_raw k s f)"
  using assms by (auto simp: write_raw_def Let_def item_head_def push_segments_join join_snoc join_extend)

lemma run_written:
  "written k base pre st f \<Longrightarrow>
     (case run_call k c f of (f', r) \<Rightarrow> case spec_call k pre c st of (st', r') \<Rightarrow> r = r' \<and> written k base pre st' f')"
  "written k base pre st f \<Longrightarrow>
     (case run_calls k cs f of (f', r) \<Rightarrow> case spec_calls k pre cs st of (st', r') \<Rightarrow> r = r' \<and> written k base pre st' f')"
proof (induction k pre c st and k pre cs st arbitrary: f and f rule: spec_call_spec_calls.induct)
  case (1 k pre s its fr)
  from write_raw_written [OF this] show ?case by simp
next
  case (2 k pre v its fr)
  then have "written k base pre (its, True) (refresh f)" by (simp add: refresh_def)
  from 2(1) [OF this] show ?case by (auto simp: refreshed_def refresh_def split: prod.splits)
next
  case (3 k pre name v its fr)
  then have "written k base (pre @ [name]) (its, True) (refresh ((refresh f)\<lparr>fm_prefixes := fm_prefixes (refresh f) @ [name]\<rparr>))"
    by (simp add: refresh_def)
  from 3(1) [OF this] show ?case by (auto simp: refreshed_def refresh_def fmt_with_prefix_def split: prod.splits)
next
  case (7 k pre c cs st)
  obtain f1 r1 where f1: "run_call k c f = (f1, r1)" by (cases "run_call k c f")
  obtain st1 where st1: "spec_call k pre c st = (st1, r1)" "written k base pre st1 f1"
    using 7(1) [OF 7(3)] f1 by (auto split: prod.splits)
  show ?case using 7(2) [OF st1(1) [symmetric] _ st1(2)] f1 st1 by (cases r1) simp_all
qed (simp_all add: refresh_def)

section \<open>Lemmas: building\<close>

lemma spec_value: "spec_call k pre (WriteValue [WriteRaw s]) (its, fr) = ((its @ [item_head k pre @ s], True), True)"
  by simp

lemma spec_named: "spec_call Query [] (WriteNamedValue n [WriteRaw s]) (its, fr) = ((its @ [n @ ''='' @ s], True), True)"
  by (simp add: item_head_def)

lemma write_arg_written:
  assumes "written k base [] st f" and "spec_call k [] c st = (st', r)"
  shows "written k base [] st' (fst (run_call k c f))"
  using run_written(1) [OF assms(1), of c] assms(2) by (auto split: prod.splits)

lemma fold_path_args:
  "written Path base [] (its, fr) f \<Longrightarrow>
   fm_inner (fold write_path_arg (map (\<lambda>s. [WriteRaw s]) es) f) = base @ join slash (its @ es)"
proof (induction es arbitrary: its fr f)
  case (Cons e es)
  have "spec_call Path [] (WriteValue [WriteRaw e]) (its, fr) = ((its @ [e], True), True)" by (simp add: item_head_def)
  from write_arg_written [OF Cons(2) this] Cons(1) [of "its @ [e]" True] show ?case by (simp add: write_path_arg_def)
qed simp

lemma fold_query_args:
  "written Query base [] (its, fr) f \<Longrightarrow>
   fm_inner (fold write_query_arg (map (\<lambda>(n, e). NameValue n [WriteRaw e]) nes) f)
     = base @ join amp (its @ map (\<lambda>(n, e). n @ ''='' @ e) nes)"
proof (induction nes arbitrary: its fr f)
  case (Cons ne nes)
  obtain n e where ne: "ne = (n, e)" by (cases ne)
  from write_arg_written [OF Cons(2) spec_named, of n e] Cons(1) [of "its @ [n @ ''='' @ e]" True]
  show ?case by (simp add: ne)
qed simp

lemma formatter_new_written: "written k base [] ([], True) (formatter_new base)"
  by (simp add: formatter_new_def)

lemma builder_path:
  "rb_path (builder_new (Dynamic (map (\<lambda>s. [WriteRaw s]) es)) q) = slash # join slash es"
  using fold_path_args [OF formatter_new_written [of Path "''/''"], of es] by (simp add: builder_new_def)

lemma builder_query:
  "rb_query (builder_new p (Some (Dynamic (map (\<lambda>(n, e). NameValue n [WriteRaw e]) nes)))) =
     (if nes = [] then None else Some (join amp (map (\<lambda>(n, e). n @ ''='' @ e) nes)))"
proof -
  have "join amp (map (\<lambda>(n, e). n @ ''='' @ e) nes) = [] \<longleftrightarrow> nes = []"
    by (cases nes rule: list.exhaust [where ?'a = "str \<times> str"]; cases "tl nes") (auto split: prod.splits)
  then show ?thesis
    using fold_query_args [OF formatter_new_written [of Query "[]"], of nes] by (simp add: builder_new_def Let_def)
qed

section \<open>Lemmas: encoding and decoding\<close>

text \<open>
  What the percent encoder and decoder promise: a byte is kept only if it is ASCII and not in the set, and
  otherwise becomes a percent sign and two hexadecimal digits; decoding inverts encoding on valid text when
  the percent sign is encoded, leaves text without percent signs alone, and borrows only its input.
\<close>

definition codec_ok :: "(str \<Rightarrow> bool) \<Rightarrow> percent_encoder \<Rightarrow> lossy_decoder \<Rightarrow> bool" where
  "codec_ok valid enc pd =
     ((\<forall>S s. S (CHR ''%'') \<longrightarrow> valid s \<longrightarrow> cow_val (pd (enc S s)) = s)
      \<and> (\<forall>S s. enc S s = [] \<longleftrightarrow> s = [])
      \<and> (\<forall>S s. \<forall>c \<in> set (enc S s). c \<in> set ''%0123456789ABCDEF'' \<or> is_ascii c \<and> \<not> S c)
      \<and> (\<forall>s. valid s \<longrightarrow> CHR ''%'' \<notin> set s \<longrightarrow> cow_val (pd s) = s)
      \<and> (\<forall>s t. pd s = Borrowed t \<longrightarrow> t = s) \<and> valid [])"

definition param_name_ok :: "(str \<Rightarrow> bool) \<Rightarrow> str \<Rightarrow> bool" where
  "param_name_ok valid n = (n \<noteq> [] \<and> valid n \<and> list_all (\<lambda>c. is_pchar c \<and> c \<notin> set ''&=+%'') n)"

lemma encoded_chars:
  assumes "codec_ok valid enc pd" and "c \<in> set (percent_encode enc controls s)"
  shows "is_pchar c \<and> c \<notin> set ''/&=+''"
proof -
  have "c \<in> set ''%0123456789ABCDEF'' \<or> is_ascii c \<and> \<not> DEFAULT_ENCODE_SET controls c"
    using assms by (simp add: codec_ok_def percent_encode_def)
  then show ?thesis
  proof
    assume "c \<in> set ''%0123456789ABCDEF''"
    moreover have "list_all (\<lambda>c. is_pchar c \<and> c \<notin> set ''/&=+'') ''%0123456789ABCDEF''"
      by (simp add: is_pchar_iff class_sets)
    ultimately show ?thesis by (simp add: list_all_iff del: set_simps)
  qed (use DEFAULT_ENCODE_SET_iff [of c controls] in auto)
qed

lemma decode_encoded:
  assumes "codec_ok valid enc pd" and "valid s"
  shows "decode_path pd (percent_encode enc controls s) = s"
    and "decode_query pd (percent_encode enc controls s) = s"
proof -
  have set: "DEFAULT_ENCODE_SET controls (CHR ''%'')" by (simp add: DEFAULT_ENCODE_SET_def set_add_def)
  have bor: "\<And>u t. pd u = Borrowed t \<Longrightarrow> t = u" using assms(1) by (simp add: codec_ok_def)
  have dec: "cow_val (pd (percent_encode enc controls s)) = s"
    and nil: "percent_encode enc controls s = [] \<longleftrightarrow> s = []"
    using assms set by (simp_all add: codec_ok_def percent_encode_def)
  show "decode_path pd (percent_encode enc controls s) = s"
    using dec nil by (cases "s = []") (simp_all add: decode_path_def percent_decode_lossy_def)
  have "CHR ''+'' \<notin> set (percent_encode enc controls s)" using encoded_chars [OF assms(1), of "CHR ''+''" controls s] by auto
  then have "replace_plus (percent_encode enc controls s) = Borrowed (percent_encode enc controls s)"
    by (simp add: replace_plus_eq)
  then show "decode_query pd (percent_encode enc controls s) = s"
    using dec bor [of "percent_encode enc controls s"]
    by (cases "pd (percent_encode enc controls s)") (auto simp: decode_query_def url_decode_lossy_def)
qed

lemma decode_name:
  assumes "codec_ok valid enc pd" and "param_name_ok valid n"
  shows "decode_query pd n = n"
proof -
  have "CHR ''+'' \<notin> set n" "CHR ''%'' \<notin> set n" using assms(2) by (auto simp: param_name_ok_def list_all_iff)
  then have "replace_plus n = Borrowed n" "cow_val (pd n) = n"
    using assms by (simp_all add: replace_plus_eq codec_ok_def param_name_ok_def)
  then show ?thesis by (auto simp: decode_query_def url_decode_lossy_def split: cow.splits)
qed

lemma printable_encoded: "codec_ok valid enc pd \<Longrightarrow> list_all printable (percent_encode enc controls s)"
  using encoded_chars is_pchar_printable by (fastforce simp: list_all_iff)

lemma trim_end_printable_all: "list_all printable s \<Longrightarrow> trim_end s = s"
  by (cases s rule: rev_cases) (simp_all add: trim_end_snoc_printable)

lemma segments_of_encoded:
  assumes "codec_ok valid enc pd" and "list_all (\<lambda>s. valid s \<and> s \<noteq> []) args" and "args \<noteq> []"
  shows "path_segments pd (slash # join slash (map (percent_encode enc controls) args)) = args"
proof -
  let ?es = "map (percent_encode enc controls) args"
  have ne: "?es \<noteq> []" "\<And>e. e \<in> set ?es \<Longrightarrow> slash \<notin> set e"
    using assms(3) encoded_chars [OF assms(1)] by auto
  have "trim_end (last ?es) = last ?es"
    using printable_encoded [OF assms(1)] assms(3) by (intro trim_end_printable_all) (simp add: last_map)
  then have raw: "path_raw_segments (slash # join slash ?es) = ?es"
    using raw_segments_join [of ?es] ne by (simp del: map_is_Nil_conv)
  have full: "e \<noteq> []" if "e \<in> set ?es" for e
    using that assms(1,2) by (auto simp: codec_ok_def percent_encode_def list_all_iff)
  have "filter (\<lambda>s. s \<noteq> []) (butlast ?es) = butlast ?es"
    by (rule filter_True) (use full in_set_butlastD in fast)
  then have "path_segments pd (slash # join slash ?es) = map (decode_path pd) ?es"
    unfolding path_segments_eq raw using ne(1) by simp
  also have "\<dots> = args"
    using decode_encoded(1) [OF assms(1)] assms(2) by (simp add: list_all_iff map_idI)
  finally show ?thesis .
qed

lemma pairs_of_encoded:
  assumes "codec_ok valid enc pd" and "list_all (\<lambda>(n, v). param_name_ok valid n \<and> valid v) pairs" and "pairs \<noteq> []"
  shows "query_segments pd (join amp (map (\<lambda>(n, v). n @ ''='' @ percent_encode enc controls v) pairs)) = pairs"
proof -
  let ?f = "\<lambda>(n, v). n @ ''='' @ percent_encode enc controls v"
  have chars: "printable c \<and> c \<noteq> amp" if "c \<in> set (?f nv)" "nv \<in> set pairs" for c nv
    using that assms(2) encoded_chars [OF assms(1)] is_pchar_printable
    by (fastforce simp: list_all_iff param_name_ok_def printable_def)
  have "\<forall>c \<in> set (join amp (map ?f pairs)). printable c"
  proof
    fix c
    assume "c \<in> set (join amp (map ?f pairs))"
    then have "c = amp \<or> (\<exists>nv \<in> set pairs. c \<in> set (?f nv))" using set_join [of amp "map ?f pairs"] by auto
    then show "printable c" using chars printable_amp by blast
  qed
  moreover have "amp \<notin> set p" if "p \<in> set (map ?f pairs)" for p
  proof -
    from that obtain nv where "nv \<in> set pairs" "p = ?f nv" by auto
    then show ?thesis using chars [of amp nv] by blast
  qed
  then have "split amp (join amp (map ?f pairs)) = map ?f pairs" using assms(3) by (intro split_join) auto
  moreover have "join amp (map ?f pairs) \<noteq> []"
    using assms(3) by (cases pairs; cases "tl pairs") (auto split: prod.splits)
  ultimately have raw: "query_raw_segments (join amp (map ?f pairs)) = map ?f pairs"
    by (simp add: query_raw_segments_printable)
  have one: "split_at_byte (CHR ''='') (?f (n, v)) = (n, percent_encode enc controls v)
      \<and> decode_query pd n = n \<and> decode_query pd (percent_encode enc controls v) = v" if "(n, v) \<in> set pairs" for n v
  proof -
    have "CHR ''='' \<notin> set n" "param_name_ok valid n" "valid v"
      using that assms(2) by (auto simp: list_all_iff param_name_ok_def)
    moreover from this have "split_once (CHR ''='') (?f (n, v)) = Some (n, percent_encode enc controls v)"
      by (simp add: split_once_Some)
    ultimately show ?thesis
      using decode_name [OF assms(1)] decode_encoded(2) [OF assms(1)]
      by (simp add: split_at_byte_eq is_ascii_def)
  qed
  have "filter (\<lambda>s. s \<noteq> []) (map ?f pairs) = map ?f pairs" by (auto intro!: filter_True)
  then have "query_segments pd (join amp (map ?f pairs))
      = map (\<lambda>nv. case split_at_byte (CHR ''='') (?f nv) of (k, v) \<Rightarrow> (decode_query pd k, decode_query pd v)) pairs"
    unfolding query_segments_def raw by (simp add: comp_def)
  also have "\<dots> = pairs" using one by (intro map_idI) auto
  finally show ?thesis .
qed

section \<open>Properties\<close>

text \<open>
  C24. Rendering and routing agree (\<open>RouteUriBuilder::new\<close>, \<open>Formatter\<close>, \<open>UriDisplay for str\<close>, \<open>uri/fmt/\<close>; \<open>Path::segments\<close>
  and \<open>Query::segments\<close>, \<open>path_query.rs\<close>): the URI built from nonempty strings for its path and named strings for its
  query has exactly these strings as decoded path segments and these pairs as decoded query fields, in order.
\<close>

theorem route_uri_round_trip:
  assumes "codec_ok valid enc pd" and "list_all (\<lambda>s. valid s \<and> s \<noteq> []) args" and "args \<noteq> []"
    and "list_all (\<lambda>(n, v). param_name_ok valid n \<and> valid v) pairs"
  shows "case builder_new (Dynamic (map (display_str enc controls) args))
           (Some (Dynamic (map (\<lambda>(n, v). NameValue n (display_str enc controls v)) pairs))) of
      b \<Rightarrow> path_segments pd (rb_path b) = args
        \<and> (case rb_query b of None \<Rightarrow> [] | Some q \<Rightarrow> query_segments pd q) = pairs"
proof -
  have "map (display_str enc controls) args = map (\<lambda>s. [WriteRaw s]) (map (percent_encode enc controls) args)"
    "map (\<lambda>(n, v). NameValue n (display_str enc controls v)) pairs
      = map (\<lambda>(n, e). NameValue n [WriteRaw e]) (map (\<lambda>(n, v). (n, percent_encode enc controls v)) pairs)"
    by (auto simp: display_str_def)
  moreover have "(\<lambda>(n, e). n @ ''='' @ e) \<circ> (\<lambda>(n, v). (n, percent_encode enc controls v))
      = (\<lambda>(n, v). n @ ''='' @ percent_encode enc controls v)" by auto
  ultimately show ?thesis
    using segments_of_encoded [OF assms(1-3)] pairs_of_encoded [OF assms(1,4)]
    by (simp only: builder_path builder_query) (auto simp: map_map)
qed

text \<open>A codec for the witnesses: escaping and unescaping of ASCII text.\<close>

definition hex_char :: "nat \<Rightarrow> byte" where
  "hex_char n = ''0123456789ABCDEF'' ! n"

definition ascii_enc :: percent_encoder where
  "ascii_enc S s = concat (map (\<lambda>c. if S c \<or> \<not> is_ascii c
     then [CHR ''%'', hex_char (of_char c div 16), hex_char (of_char c mod 16)] else [c]) s)"

definition unhex :: "byte \<Rightarrow> nat option" where
  "unhex c = memchr c ''0123456789ABCDEF''"

fun ascii_dec :: "str \<Rightarrow> str" where
  "ascii_dec [] = []"
| "ascii_dec (c # r) =
     (if c = CHR ''%'' then
        (case r of
           a # b # r' \<Rightarrow>
             (case (unhex a, unhex b) of
                (Some x, Some y) \<Rightarrow> char_of (16 * x + y) # ascii_dec r'
              | _ \<Rightarrow> c # ascii_dec r)
         | _ \<Rightarrow> c # ascii_dec r)
      else c # ascii_dec r)"

definition ascii_pd :: lossy_decoder where
  "ascii_pd s = (if ascii_dec s = s then Borrowed s else Owned (ascii_dec s))"

lemma hex_char_inverse: "n < 16 \<Longrightarrow> unhex (hex_char n) = Some n"
proof -
  have "\<forall>n \<in> set [0 ..< 16]. unhex (hex_char n) = Some n" by (simp add: upt_rec unhex_def hex_char_def)
  then show "n < 16 \<Longrightarrow> ?thesis" by simp
qed

lemma hex_char_in: "n < 16 \<Longrightarrow> hex_char n \<in> set ''0123456789ABCDEF''"
  unfolding hex_char_def by (rule nth_mem) simp

lemma ascii_dec_enc: "S (CHR ''%'') \<Longrightarrow> ascii_dec (ascii_enc S s) = s"
proof (induction s)
  case (Cons c s)
  have "(of_char c :: nat) div 16 < 16" "(of_char c :: nat) mod 16 < 16" by (simp_all add: less_mult_imp_div_less)
  then show ?case using Cons by (auto simp: ascii_enc_def hex_char_inverse)
qed (simp add: ascii_enc_def)

lemma ascii_dec_plain: "CHR ''%'' \<notin> set s \<Longrightarrow> ascii_dec s = s"
  by (induction s) auto

lemma ascii_codec_ok: "codec_ok (list_all is_ascii) ascii_enc ascii_pd"
proof -
  have hex: "hex_char (of_char x div 16) \<in> set ''0123456789ABCDEF''"
    "hex_char (of_char x mod 16) \<in> set ''0123456789ABCDEF''" for x :: byte
    by (simp_all add: hex_char_in less_mult_imp_div_less del: set_simps)
  have chars: "c \<in> insert (CHR ''%'') (set ''0123456789ABCDEF'') \<or> is_ascii c \<and> \<not> S c" if "c \<in> set (ascii_enc S s)" for S s c
  proof -
    from that obtain x where "c \<in> set (if S x \<or> \<not> is_ascii x
      then [CHR ''%'', hex_char (of_char x div 16), hex_char (of_char x mod 16)] else [x])"
      by (unfold ascii_enc_def set_concat set_map) blast
    then have "c = CHR ''%'' \<or> c = hex_char (of_char x div 16) \<or> c = hex_char (of_char x mod 16) \<or> is_ascii c \<and> \<not> S c"
      by (auto split: if_splits)
    then show ?thesis using hex [of x] by blast
  qed
  have nil: "ascii_enc S s = [] \<longleftrightarrow> s = []" for S s by (cases s) (simp_all add: ascii_enc_def)
  have val: "cow_val (ascii_pd s) = ascii_dec s" "ascii_pd s = Borrowed t \<Longrightarrow> t = s" for s t
    by (auto simp: ascii_pd_def split: if_splits)
  have digits: "set ''%0123456789ABCDEF'' = insert (CHR ''%'') (set ''0123456789ABCDEF'')" by simp
  show ?thesis
    unfolding codec_ok_def digits using chars nil val(2) by (simp add: val(1) ascii_dec_enc ascii_dec_plain del: list.set)
qed

theorem route_uri_round_trip_witness:
  "case builder_new (Dynamic (map (display_str ascii_enc (\<lambda>_. False)) [''a/b'']))
      (Some (Dynamic (map (\<lambda>(n, v). NameValue n (display_str ascii_enc (\<lambda>_. False) v)) [(''q'', ''1&2'')]))) of
   b \<Rightarrow> path_segments ascii_pd (rb_path b) = [''a/b'']
     \<and> (case rb_query b of None \<Rightarrow> [] | Some q \<Rightarrow> query_segments ascii_pd q) = [(''q'', ''1&2'')]"
  by (rule route_uri_round_trip [OF ascii_codec_ok])
    (simp_all add: is_ascii_def param_name_ok_def is_pchar_iff class_sets)

text \<open>
  A suffix given to \<open>uri!\<close> (\<open>RouteUriBuilder::with_suffix\<close>, \<open>formatter.rs\<close>; \<open>Reference::with_query_fragment_of\<close>,
  \<open>reference.rs\<close>) adds its query, if the route has none, and its fragment when they are strings of their own, as in
  a constant; it panics for every suffix that was parsed, whose query or fragment is a pair of indices, because
  they are looked up in the route's URI, which has no source, and not in the suffix.
\<close>

theorem with_suffix_exact:
  "builder_with_suffix suf b =
     (if rb_query b = None \<and> (\<exists>i j. rf_query suf = Some (Indexed i j)) \<or> (\<exists>i j. rf_fragment suf = Some (Indexed i j))
      then None
      else Some (reference_const_new None None (rb_path b)
        (case rb_query b of Some q \<Rightarrow> Some q
           | None \<Rightarrow> map_option (\<lambda>x. case x of Concrete q \<Rightarrow> q | Indexed i j \<Rightarrow> []) (rf_query suf))
        (map_option (\<lambda>x. case x of Concrete f \<Rightarrow> f | Indexed i j \<Rightarrow> []) (rf_fragment suf))))"
proof (cases b)
  case (fields path query)
  have ind: "into_concrete x None = (case x of Concrete t \<Rightarrow> Some t | Indexed i j \<Rightarrow> None)" for x
    by (cases x) (simp_all add: into_concrete_def)
  show ?thesis
    by (cases "rf_query suf"; cases "rf_fragment suf"; cases query)
      (auto simp: fields builder_with_suffix_def prepend_reference_origin_def builder_render_def with_query_fragment_of_def
        reference_query_def reference_fragment_def ind reference_from_origin_def raw_origin_new_def reference_const_new_def split: IndexedStr.splits)
qed

text \<open>With a parsed prefix the text of the suffix is cut out of the prefix.\<close>

definition parsed_prefix :: Absolute where
  "parsed_prefix = \<lparr>ab_source = Some ''http://rocket.rs'', ab_scheme = Indexed 0 4,
     ab_authority = Some (authority_const_new None ''rocket.rs'' None), ab_path = Indexed 16 16, ab_query = None\<rparr>"

definition parsed_suffix :: Reference where
  "parsed_suffix = \<lparr>rf_source = Some ''?id=1'', rf_scheme = None, rf_authority = None, rf_path = Indexed 0 0,
     rf_query = Some (Indexed 1 5), rf_fragment = None\<rparr>"

lemma parsed_suffix_reads_prefix:
  "reference_query parsed_suffix = Some (Some ''id=1'')"
  "map_option reference_query (prepend_reference_absolute parsed_prefix parsed_suffix) = Some (Some (Some ''ttp:''))"
  by (simp_all add: parsed_suffix_def parsed_prefix_def prepend_reference_absolute_def with_query_fragment_of_def
      reference_from_absolute_def reference_query_def reference_fragment_def opt_text_def from_cow_source_def into_concrete_def
      str_slice_def is_char_boundary_def)

section \<open>Prefixes\<close>

lemma split_append: "split c (a @ c # b) = split c a @ split c b"
proof (induction a)
  case (Cons x a)
  then show ?case by (cases "split c a") auto
qed simp

lemma raw_segments_rooted: "list_all printable t \<Longrightarrow> path_raw_segments (slash # t) = split slash t"
  by (simp add: raw_segments_slash trim_end_printable_all)

lemma normalized_last:
  assumes "path_is_normalized True (slash # t)" and "list_all printable t" and "t \<noteq> []"
  shows "if last t = slash then \<exists>u. t = u @ ''/'' \<and> [] \<notin> set (split slash u) else [] \<notin> set (split slash t)"
proof -
  have n: "[] \<notin> set (butlast (split slash t))"
    using assms(1) by (simp add: path_is_normalized_iff raw_segments_rooted [OF assms(2)])
  show ?thesis
  proof (cases "last t = slash")
    case True
    then have t: "t = butlast t @ ''/''" using assms(3) by (metis append_butlast_last_id)
    then have "split slash t = split slash (butlast t) @ [[]]" using split_append [of slash "butlast t" "[]"] by simp
    then show ?thesis using True n t by (auto intro!: exI [of _ "butlast t"])
  next
    case False
    then have "last (split slash t) \<noteq> []" using assms(3) by (simp add: last_split_eq_Nil)
    then show ?thesis using False n by (metis append_butlast_last_id in_set_conv_decomp split_nonempty rotate1.simps(2) set_rotate1 insert_iff list.simps(15))
  qed
qed

lemma raw_segments_subset: "x \<in> set (path_raw_segments p) \<Longrightarrow> set x \<subseteq> set p"
proof -
  let ?t = "case strip_prefix slash (trim p) of Some r \<Rightarrow> r | None \<Rightarrow> trim p"
  assume "x \<in> set (path_raw_segments p)"
  then have "set x \<subseteq> set ?t" by (auto simp: path_raw_segments_def Let_def dest: split_subset)
  also have "set ?t \<subseteq> set (trim p)" by (cases "trim p") auto
  also have "\<dots> \<subseteq> set p" by (rule set_trim)
  finally show ?thesis .
qed

text \<open>The normalized path of an origin: a slash and printable text with the same nonempty segments.\<close>

lemma normalized_prefix:
  assumes "list_all printable (o_path u)"
  shows "\<exists>t. o_path (into_normalized u) = slash # t \<and> list_all printable t \<and> path_is_normalized True (slash # t)
    \<and> filter (\<lambda>s. s \<noteq> []) (split slash t) = filter (\<lambda>s. s \<noteq> []) (path_raw_segments (o_path u))"
proof -
  let ?p = "o_path u" and ?n = "o_path (into_normalized u)"
  let ?xs = "filter (\<lambda>s. s \<noteq> []) (path_raw_segments ?p)"
  have n: "?n = (if path_is_normalized True ?p then ?p else path_to_normalized True True ?p)"
    by (simp add: into_normalized_def normalize_path)
  have norm: "path_is_normalized True ?n" using n to_normalized_is_normalized by simp
  then obtain t where t: "?n = slash # t" by (auto simp: path_is_normalized_iff neq_Nil_conv)
  have "set (join slash ?xs) \<subseteq> insert slash (set ?p)"
    using set_join [of slash ?xs] raw_segments_subset [of _ ?p] by fastforce
  then have "set ?n \<subseteq> insert slash (set ?p)" by (auto simp: n path_to_normalized_eq Let_def)
  then have pr: "list_all printable t" using assms t by (auto simp: list_all_iff printable_def)
  have "trim_end (last ?xs) = last ?xs \<and> last ?xs \<noteq> []" if "?xs \<noteq> []"
  proof -
    have l: "last ?xs \<in> set (path_raw_segments ?p)" "last ?xs \<noteq> []" using last_in_set [OF that] by simp_all
    have "list_all printable (last ?xs)" using raw_segments_subset [OF l(1)] assms by (auto simp: list_all_iff)
    then show ?thesis using l(2) trim_end_printable_all by blast
  qed
  moreover have "filter (\<lambda>s. s \<noteq> []) (butlast ?xs) = butlast ?xs"
    by (rule filter_True) (auto dest: in_set_butlastD)
  ultimately have "filter (\<lambda>s. s \<noteq> []) (path_raw_segments ?n) = ?xs"
    by (cases "?xs = []") (simp_all add: n path_to_normalized_raw_segments Let_def)
  then show ?thesis using t pr norm raw_segments_rooted [OF pr] by auto
qed

lemma raw_segments_appended:
  assumes "list_all printable t" and "list_all printable r" and "path_is_normalized True (slash # r)"
  shows "path_raw_segments (slash # t @ slash # r) = split slash t @ path_raw_segments (slash # r)"
    and "path_is_normalized True (slash # t @ slash # r) \<longleftrightarrow> [] \<notin> set (split slash t)"
proof -
  have "list_all printable (t @ slash # r)" using assms by (simp add: printable_def)
  from raw_segments_rooted [OF this] show raw: "path_raw_segments (slash # t @ slash # r) = split slash t @ path_raw_segments (slash # r)"
    by (simp add: split_append raw_segments_rooted [OF assms(2)])
  show "path_is_normalized True (slash # t @ slash # r) \<longleftrightarrow> [] \<notin> set (split slash t)"
    using assms(3) by (auto simp: path_is_normalized_iff raw butlast_append)
qed

lemma origin_append_normalized:
  assumes "list_all printable r" and "path_is_normalized True (slash # r)" and "r \<noteq> []" and "list_all printable (o_path u)"
  shows "path_is_normalized True (o_path (origin_append u (slash # r) q))
    \<and> path_raw_segments (o_path (origin_append u (slash # r) q))
      = filter (\<lambda>s. s \<noteq> []) (path_raw_segments (o_path u)) @ path_raw_segments (slash # r)"
proof -
  obtain t where t: "o_path (into_normalized u) = slash # t" "list_all printable t" "path_is_normalized True (slash # t)"
    and seg: "filter (\<lambda>s. s \<noteq> []) (split slash t) = filter (\<lambda>s. s \<noteq> []) (path_raw_segments (o_path u))"
    using normalized_prefix [OF assms(4)] by blast
  consider "t = []" | w where "t = w @ ''/''" "[] \<notin> set (split slash w)"
    | "t \<noteq> []" "last t \<noteq> slash" "[] \<notin> set (split slash t)"
    using normalized_last [OF t(3,2)] by (cases "t = []"; cases "last t = slash") auto
  then show ?thesis
  proof cases
    case 1
    then show ?thesis using assms(2) seg [symmetric] t(1)
      by (simp add: origin_append_def clear_query_def origin_new_def)
  next
    case 2
    then have w: "list_all printable w" using t(2) by simp
    have "o_path (origin_append u (slash # r) q) = slash # w @ slash # r"
      using 2(1) t(1) assms(3)
      by (simp add: origin_append_def clear_query_def origin_new_def has_trailing_slash_def ends_with_singleton starts_with_def Let_def)
    moreover have "split slash t = split slash w @ [[]]" using split_append [of slash w "[]"] 2(1) by simp
    then have "filter (\<lambda>s. s \<noteq> []) (split slash t) = split slash w" using 2(2) by (auto simp: filter_id_conv)
    ultimately show ?thesis using raw_segments_appended [OF w assms(1,2)] 2(2) seg by simp
  next
    case 3
    then have "o_path (origin_append u (slash # r) q) = slash # t @ slash # r"
      using t(1) assms(3) by (simp add: origin_append_def clear_query_def origin_new_def has_trailing_slash_def ends_with_singleton)
    moreover have "filter (\<lambda>s. s \<noteq> []) (split slash t) = split slash t" using 3(3) by (auto simp: filter_id_conv)
    ultimately show ?thesis using raw_segments_appended [OF t(2) assms(1,2)] 3(3) seg by simp
  qed
qed

text \<open>
  A route's path appended to a prefix (\<open>ValidRoutePrefix::append\<close>, \<open>formatter.rs\<close>): with an origin as prefix the
  result is normalized and consists of the nonempty segments of the prefix and the segments of the route.  With
  an absolute URI as prefix the paths are joined as they are, so that the result is normalized only if the
  prefix does not end in a slash.
\<close>

theorem append_prefix:
  assumes "list_all printable r" and "path_is_normalized True (slash # r)" and "r \<noteq> []"
    and "list_all printable (o_path u)" and "list_all printable p" and "path_is_normalized True p"
  shows "path_is_normalized True (o_path (origin_append u (slash # r) q))
    \<and> path_raw_segments (o_path (origin_append u (slash # r) q))
        = filter (\<lambda>s. s \<noteq> []) (path_raw_segments (o_path u)) @ path_raw_segments (slash # r)
    \<and> (\<exists>a p'. absolute_append (absolute_const_new scheme (Some au) p None) (slash # r) q = Some a
         \<and> absolute_path a = Some p' \<and> (path_is_normalized True p' \<longleftrightarrow> p = ''/'' \<or> \<not> ends_with p ''/''))"
proof -
  obtain t where t: "p = slash # t" "list_all printable t" using assms(5,6) by (auto simp: path_is_normalized_iff neq_Nil_conv)
  let ?p = "if t = [] then slash # r else slash # t @ slash # r"
  have "path_is_normalized True ?p \<longleftrightarrow> p = ''/'' \<or> \<not> ends_with p ''/''"
    using raw_segments_appended(2) [OF t(2) assms(1,2)] normalized_last [of t] assms(2,6) t split_append [of slash _ "[]"]
    by (auto simp: ends_with_singleton split: if_splits)
  moreover have "\<exists>a. absolute_append (absolute_const_new scheme (Some au) p None) (slash # r) q = Some a
      \<and> absolute_path a = Some ?p"
    using assms(3,6) by (simp add: t absolute_append_def absolute_normalize_def absolute_const_new_def absolute_path_def
        absolute_query_def absolute_clear_query_def absolute_set_query_def absolute_set_path_def Let_def)
  ultimately show ?thesis using origin_append_normalized [OF assms(1-4)] by blast
qed

theorem append_prefix_witness:
  "path_is_normalized True (o_path (origin_append (origin_new ''/a//b/'' None) ''/c'' None))
   \<and> (\<exists>a p'. absolute_append (absolute_const_new ''http'' (Some (authority_const_new None ''h'' None)) ''/a/'' None) ''/c'' None = Some a
        \<and> absolute_path a = Some p' \<and> \<not> path_is_normalized True p')"
proof -
  let ?u = "origin_new ''/a//b/'' None"
  have "list_all printable ''c''" "path_is_normalized True ''/c''" "''c'' \<noteq> []" "list_all printable (o_path ?u)"
    "list_all printable ''/a/''" "path_is_normalized True ''/a/''"
    by (simp_all add: uri_eval origin_new_def)
  from append_prefix [OF this, of None "''http''" "authority_const_new None ''h'' None"]
  show ?thesis by (auto simp: ends_with_singleton)
qed

end
