(* ===== verification/RouteMacros.thy ===== *)
theory RouteMacros
  imports Router UriFmt
begin

text \<open>
  The route attribute (\<open>core/codegen/src/attribute\<close>: \<open>param/mod.rs\<close>, \<open>param/parse.rs\<close>, \<open>route/parse.rs\<close>): how the
  segments of \<open>#[get("/a/<b>?<c..>", data = "<d>")]\<close> become parameters, and the parameters guards of the handler's
  arguments.

  Spans are left out, and so are the warnings of the lints, which change neither what is accepted nor what is
  generated; a diagnostic is a value, and the diagnostics of a route the list in which they are pushed.  The types of
  the arguments are of an arbitrary type \<open>'t\<close>.  The predicates of the crate \<open>unicode-xid\<close> on characters beyond ASCII
  are the record \<open>xid\<close>.
\<close>

section \<open>Model: parameters\<close>

record Dynamic =
  dy_name :: str
  dy_index :: nat
  dy_trailing :: bool

record 't Guard =
  g_source :: Dynamic
  g_fn_ident :: str
  g_ty :: 't

datatype 't Parameter = Static str | Ignored Dynamic | Dynamic Dynamic | Guard "'t Guard"

definition p_static :: "'t Parameter \<Rightarrow> str option" where
  "p_static self = (case self of Static s \<Rightarrow> Some s | _ \<Rightarrow> None)"

definition p_ignored :: "'t Parameter \<Rightarrow> Dynamic option" where
  "p_ignored self = (case self of Ignored d \<Rightarrow> Some d | _ \<Rightarrow> None)"

definition p_dynamic :: "'t Parameter \<Rightarrow> Dynamic option" where
  "p_dynamic self = (case self of Dynamic d \<Rightarrow> Some d | Guard g \<Rightarrow> Some (g_source g) | _ \<Rightarrow> None)"

definition p_take_dynamic :: "'t Parameter \<Rightarrow> Dynamic option" where
  "p_take_dynamic self = (case self of Dynamic d \<Rightarrow> Some d | Guard g \<Rightarrow> Some (g_source g) | _ \<Rightarrow> None)"

text \<open>Writing through \<open>dynamic_mut\<close>.\<close>

definition p_dynamic_mut :: "(Dynamic \<Rightarrow> Dynamic) \<Rightarrow> 't Parameter \<Rightarrow> 't Parameter" where
  "p_dynamic_mut f self =
     (case self of
        Dynamic d \<Rightarrow> Dynamic (f d)
      | Guard g \<Rightarrow> Guard (g\<lparr>g_source := f (g_source g)\<rparr>)
      | _ \<Rightarrow> self)"

definition p_guard :: "'t Parameter \<Rightarrow> 't Guard option" where
  "p_guard self = (case self of Guard g \<Rightarrow> Some g | _ \<Rightarrow> None)"

definition is_wild :: "Dynamic \<Rightarrow> bool" where
  "is_wild self = (dy_name self = ''_'')"

definition guard_from :: "Dynamic \<Rightarrow> str \<Rightarrow> 't \<Rightarrow> 't Guard" where
  "guard_from source fn_ident ty = \<lparr>g_source = source, g_fn_ident = fn_ident, g_ty = ty\<rparr>"

section \<open>Model: identifiers\<close>

record xid =
  xid_start :: "nat \<Rightarrow> bool"
  xid_continue :: "nat \<Rightarrow> bool"

text \<open>The scalar values of a UTF-8 text, \<open>str::chars\<close>: the leading byte tells how many bytes follow.\<close>

definition utf8_extra :: "byte \<Rightarrow> nat" where
  "utf8_extra b =
     (let n = of_char b :: nat in if n < 0xC0 then 0 else if n < 0xE0 then 1 else if n < 0xF0 then 2 else 3)"

definition utf8_lead :: "byte \<Rightarrow> nat" where
  "utf8_lead b =
     (let n = of_char b :: nat
      in if n < 0xC0 then n else if n < 0xE0 then n mod 0x20 else if n < 0xF0 then n mod 0x10 else n mod 8)"

function str_chars :: "str \<Rightarrow> nat list" where
  "str_chars [] = []"
| "str_chars (b # bs) =
     foldl (\<lambda>a c. a * 0x40 + of_char c mod 0x40) (utf8_lead b) (take (utf8_extra b) bs)
       # str_chars (drop (utf8_extra b) bs)"
  by pat_completeness auto
termination by (relation "measure length") auto

definition is_ascii_alphabetic :: "nat \<Rightarrow> bool" where
  "is_ascii_alphabetic c = (65 \<le> c \<and> c \<le> 90 \<or> 97 \<le> c \<and> c \<le> 122)"

definition is_ascii_alphanumeric :: "nat \<Rightarrow> bool" where
  "is_ascii_alphanumeric c = (is_ascii_alphabetic c \<or> 48 \<le> c \<and> c \<le> 57)"

definition is_ident_start :: "xid \<Rightarrow> nat \<Rightarrow> bool" where
  "is_ident_start x c = (is_ascii_alphabetic c \<or> c = 95 \<or> 0x7f < c \<and> xid_start x c)"

definition is_ident_continue :: "xid \<Rightarrow> nat \<Rightarrow> bool" where
  "is_ident_continue x c = (is_ascii_alphanumeric c \<or> c = 95 \<or> 0x7f < c \<and> xid_continue x c)"

definition is_valid_ident :: "xid \<Rightarrow> str \<Rightarrow> bool" where
  "is_valid_ident x string =
     (case str_chars string of
        c # cs \<Rightarrow> is_ident_start x c \<and> list_all (is_ident_continue x) cs
      | [] \<Rightarrow> False)"

section \<open>Model: parsing parameters\<close>

datatype param_error_kind = Empty | BadIdent | IgnoredParam | EarlyTrailing | NoTrailing | StaticParam

record param_error =
  pe_segment :: str
  pe_source :: str
  pe_kind :: param_error_kind

definition param_error_new :: "str \<Rightarrow> param_error_kind \<Rightarrow> param_error" where
  "param_error_new segment kind = \<lparr>pe_segment = segment, pe_source = segment, pe_kind = kind\<rparr>"

definition param_error_source :: "str \<Rightarrow> param_error \<Rightarrow> param_error" where
  "param_error_source src self = self\<lparr>pe_source := src\<rparr>"

fun param_error_message :: "param_error_kind \<Rightarrow> str" where
  "param_error_message Empty = ''parameters cannot be empty''"
| "param_error_message BadIdent = ''invalid identifier''"
| "param_error_message IgnoredParam = ''parameter must be named''"
| "param_error_message NoTrailing = ''parameter cannot be trailing''"
| "param_error_message EarlyTrailing = ''unexpected text after trailing parameter''"
| "param_error_message StaticParam = ''unexpected static parameter''"

definition parameter_parse :: "xid \<Rightarrow> Kind \<Rightarrow> str \<Rightarrow> ('t Parameter, param_error) result" where
  "parameter_parse x P segment =
     (if starts_with segment ''<'' \<and> ends_with segment ''>'' then
        let name = take (length segment - 2) (drop 1 segment);
            trailing = ends_with name ''..'';
            name = (if trailing then take (length name - 2) name else name)
        in if name = [] then Err (param_error_new name Empty)
           else if \<not> is_valid_ident x name then Err (param_error_new name BadIdent)
           else
             let dynamic = \<lparr>dy_name = name, dy_index = 0, dy_trailing = trailing\<rparr>
             in if is_wild dynamic \<and> P \<noteq> Path then Err (param_error_new name IgnoredParam)
                else if is_wild dynamic then Ok (Ignored dynamic)
                else Ok (Dynamic dynamic)
      else if segment = [] then Err (param_error_new segment Empty)
      else Ok (Static segment))"

fun part_delimiter :: "Kind \<Rightarrow> byte" where
  "part_delimiter Path = slash"
| "part_delimiter Query = amp"

text \<open>
  The closure that \<open>parse_many\<close> maps over the enumerated segments, with the trailing parameter it has captured.
\<close>

fun parse_segments ::
  "xid \<Rightarrow> Kind \<Rightarrow> str \<Rightarrow> str option \<Rightarrow> nat \<Rightarrow> str list \<Rightarrow> ('t Parameter, param_error) result list" where
  "parse_segments x P src trailing i [] = []"
| "parse_segments x P src trailing i (segment # rest) =
     (case trailing of
        Some trail \<Rightarrow>
          Err (param_error_source src (param_error_new trail EarlyTrailing))
            # parse_segments x P src trailing (Suc i) rest
      | None \<Rightarrow>
          (case parameter_parse x P segment of
             Err e \<Rightarrow> Err (param_error_source src e) # parse_segments x P src None (Suc i) rest
           | Ok parsed \<Rightarrow>
               let trailing = (case p_dynamic parsed of
                   Some d \<Rightarrow> if dy_trailing d then Some segment else None | None \<Rightarrow> None)
               in Ok (p_dynamic_mut (\<lambda>d. d\<lparr>dy_index := i\<rparr>) parsed)
                    # parse_segments x P src trailing (Suc i) rest))"

definition parse_many :: "xid \<Rightarrow> Kind \<Rightarrow> str \<Rightarrow> ('t Parameter, param_error) result list" where
  "parse_many x P src =
     parse_segments x P src None 0 (filter (\<lambda>s. s \<noteq> []) (split (part_delimiter P) src))"

definition dynamic_parse :: "xid \<Rightarrow> Kind \<Rightarrow> str \<Rightarrow> (Dynamic, param_error) result" where
  "dynamic_parse x P segment =
     (case parameter_parse x P segment :: (unit Parameter, param_error) result of
        Err e \<Rightarrow> Err e
      | Ok (Dynamic d) \<Rightarrow> Ok d
      | Ok (Ignored d) \<Rightarrow> Ok d
      | Ok (Guard g) \<Rightarrow> Ok (g_source g)
      | Ok (Static _) \<Rightarrow> Err (param_error_new segment StaticParam))"

text \<open>The value of \<open>data = "<name>"\<close>.\<close>

definition dynamic_from_meta :: "xid \<Rightarrow> str \<Rightarrow> (Dynamic, param_error) result" where
  "dynamic_from_meta x string =
     (case dynamic_parse x Path string of
        Err e \<Rightarrow> Err e
      | Ok param \<Rightarrow>
          if is_wild param then Err (param_error_new string IgnoredParam)
          else if dy_trailing param then Err (param_error_new string NoTrailing)
          else Ok param)"

definition candidate_from_malformed :: "xid \<Rightarrow> nat list \<Rightarrow> nat list" where
  "candidate_from_malformed x segment =
     (let candidate = map snd (filter (\<lambda>(i, c). i = 0 \<and> is_ident_start x c \<or> i \<noteq> 0 \<and> is_ident_continue x c)
                                 (enumerate 0 segment))
      in if candidate = [] then str_chars ''param'' else candidate)"

section \<open>Model: routes\<close>

datatype 't fn_arg = Typed str 't | WildArg | OtherArg

text \<open>\<open>Name::from(&Ident)\<close>: the identifier without the marker of raw identifiers.\<close>

definition name_from :: "str \<Rightarrow> str" where
  "name_from ident = (if starts_with ident ''r#'' then drop 2 ident else ident)"

text \<open>An \<open>IndexMap\<close> from names to the argument's identifier and type.\<close>

type_synonym 't argument_map = "(str \<times> str \<times> 't) list"

definition args_insert :: "str \<Rightarrow> str \<times> 't \<Rightarrow> 't argument_map \<Rightarrow> 't argument_map" where
  "args_insert name val args =
     (if name \<in> fst ` set args then map (\<lambda>(n, v). if n = name then (n, val) else (n, v)) args
      else args @ [(name, val)])"

record attribute =
  at_uri :: origin
  at_method :: "Method option"
  at_data :: "Dynamic option"
  at_format :: "MediaType option"
  at_rank :: "int option"

datatype diag =
    InvalidUri uri_error | EmptySegments
  | NoPayload | UnnamedArgument | MalformedArgument | ParamDiag param_error | UnusedParameter str | DuplicateParameter str

record 't macro_route =
  mr_attr :: attribute
  mr_path_params :: "'t Parameter list"
  mr_query_params :: "'t Parameter list"
  mr_data_guard :: "'t Guard option"
  mr_request_guards :: "'t Guard list"
  mr_arguments :: "'t argument_map"

definition route_uri_from_meta :: "str \<Rightarrow> (origin, diag) result" where
  "route_uri_from_meta string =
     (case parse_route string of
        Err e \<Rightarrow> Err (InvalidUri e)
      | Ok origin \<Rightarrow> if \<not> is_normalized origin then Err EmptySegments else Ok origin)"

definition upgrade_dynamic :: "'t argument_map \<Rightarrow> Dynamic \<Rightarrow> ('t Guard, diag) result" where
  "upgrade_dynamic args param =
     (case map_of args (dy_name param) of
        Some (ident, ty) \<Rightarrow> Ok (guard_from param ident ty)
      | None \<Rightarrow> Err (UnusedParameter (dy_name param)))"

definition upgrade_param :: "'t argument_map \<Rightarrow> 't Parameter \<Rightarrow> ('t Parameter, diag) result" where
  "upgrade_param args param =
     (case p_take_dynamic param of
        None \<Rightarrow> Ok param
      | Some d \<Rightarrow> (case upgrade_dynamic args d of Ok g \<Rightarrow> Ok (Guard g) | Err e \<Rightarrow> Err e))"

fun collect_arguments :: "'t fn_arg list \<Rightarrow> 't argument_map \<Rightarrow> 't argument_map \<times> diag list" where
  "collect_arguments [] args = (args, [])"
| "collect_arguments (Typed ident ty # rest) args =
     collect_arguments rest (args_insert (name_from ident) (ident, ty) args)"
| "collect_arguments (WildArg # rest) args =
     (let (args, diags) = collect_arguments rest args in (args, UnnamedArgument # diags))"
| "collect_arguments (OtherArg # rest) args =
     (let (args, diags) = collect_arguments rest args in (args, MalformedArgument # diags))"

definition collect_params ::
  "'t argument_map \<Rightarrow> ('t Parameter, param_error) result list \<Rightarrow> 't Parameter list \<times> diag list" where
  "collect_params args ps =
     (let upgraded = map (\<lambda>p. case p of Err e \<Rightarrow> Err (ParamDiag e) | Ok p \<Rightarrow> upgrade_param args p) ps
      in (List.map_filter (\<lambda>p. case p of Ok p \<Rightarrow> Some p | Err _ \<Rightarrow> None) upgraded,
          List.map_filter (\<lambda>p. case p of Ok _ \<Rightarrow> None | Err e \<Rightarrow> Some e) upgraded))"

text \<open>The loop that replaces each parameter in an \<open>IndexSet\<close> compared by name.\<close>

fun duplicate_diags :: "str list \<Rightarrow> Dynamic list \<Rightarrow> diag list" where
  "duplicate_diags seen [] = []"
| "duplicate_diags seen (p # ps) =
     (if dy_name p \<in> set seen then DuplicateParameter (dy_name p) # duplicate_diags seen ps
      else duplicate_diags (dy_name p # seen) ps)"

definition data_diags :: "attribute \<Rightarrow> diag list" where
  "data_diags attr =
     (case (at_data attr, at_method attr) of
        (Some _, Some m) \<Rightarrow> if allows_request_body m = Some False then [NoPayload] else []
      | _ \<Rightarrow> [])"

definition opt_list :: "'a option \<Rightarrow> 'a list" where
  "opt_list v = (case v of None \<Rightarrow> [] | Some a \<Rightarrow> [a])"

definition request_guards :: "'t argument_map \<Rightarrow> 't Guard list \<Rightarrow> 't Guard list" where
  "request_guards args others =
     map (\<lambda>(index, name, ident, ty). \<lparr>g_source = \<lparr>dy_name = name, dy_index = index, dy_trailing = False\<rparr>,
           g_fn_ident = ident, g_ty = ty\<rparr>)
       (enumerate 0 (filter (\<lambda>(name, _). list_all (\<lambda>g. dy_name (g_source g) \<noteq> name) others) args))"

definition macro_route_from :: "xid \<Rightarrow> attribute \<Rightarrow> 't fn_arg list \<Rightarrow> ('t macro_route, diag list) result" where
  "macro_route_from x attr inputs =
     (let (arguments, arg_diags) = collect_arguments inputs [];
          (path_params, path_diags) = collect_params arguments (parse_many x Path (o_path (at_uri attr)));
          (query_params, query_diags) =
            (case o_query (at_uri attr) of
               Some q \<Rightarrow> collect_params arguments (parse_many x Query q)
             | None \<Rightarrow> ([], []));
          upgraded = map_option (upgrade_dynamic arguments) (at_data attr);
          data_guard = (case upgraded of Some (Ok g) \<Rightarrow> Some g | _ \<Rightarrow> None);
          guard_diags = (case upgraded of Some (Err e) \<Rightarrow> [e] | _ \<Rightarrow> []);
          all_dyn = List.map_filter p_dynamic path_params @ List.map_filter p_dynamic query_params
            @ map g_source (opt_list data_guard);
          others = List.map_filter p_guard path_params @ List.map_filter p_guard query_params @ opt_list data_guard;
          diags = data_diags attr @ arg_diags @ path_diags @ query_diags @ guard_diags @ duplicate_diags [] all_dyn
      in if diags = []
         then Ok \<lparr>mr_attr = attr, mr_path_params = path_params, mr_query_params = query_params,
                  mr_data_guard = data_guard, mr_request_guards = request_guards arguments others,
                  mr_arguments = arguments\<rparr>
         else Err diags)"

definition param_guards :: "'t macro_route \<Rightarrow> 't Guard list" where
  "param_guards self = List.map_filter p_guard (mr_path_params self)"

definition query_guards :: "'t macro_route \<Rightarrow> 't Guard list" where
  "query_guards self = List.map_filter p_guard (mr_query_params self)"

definition route_guards :: "'t macro_route \<Rightarrow> 't Guard list" where
  "route_guards self =
     param_guards self @ query_guards self @ opt_list (mr_data_guard self) @ mr_request_guards self"

section \<open>Lemmas: parameters\<close>

text \<open>
  What a parameter of an accepted route says of the segment it was parsed from, which the router classifies with
  \<open>segment_from\<close>: the same kind, the same name, and the position at which the handler reads the value.
\<close>

definition param_shape :: "'t argument_map \<Rightarrow> nat \<times> str \<Rightarrow> 't Parameter \<Rightarrow> bool" where
  "param_shape args is p =
     (let s = segment_from (snd is)
      in case p of
           Static v \<Rightarrow> \<not> seg_dynamic s \<and> seg_value s = v
         | Ignored d \<Rightarrow>
             seg_dynamic s \<and> seg_value s = ''_'' \<and> dy_name d = ''_'' \<and> dy_trailing d = seg_dynamic_trail s
         | Dynamic d \<Rightarrow> False
         | Guard g \<Rightarrow>
             seg_dynamic s \<and> seg_value s = dy_name (g_source g) \<and> seg_value s \<noteq> ''_''
             \<and> dy_trailing (g_source g) = seg_dynamic_trail s \<and> dy_index (g_source g) = fst is
             \<and> map_of args (dy_name (g_source g)) = Some (g_fn_ident g, g_ty g))"

definition named_trailing :: "'t Parameter \<Rightarrow> bool" where
  "named_trailing p = (case p_dynamic p of Some d \<Rightarrow> dy_trailing d | None \<Rightarrow> False)"

definition upgrades :: "'t argument_map \<Rightarrow> ('t Parameter, param_error) result \<Rightarrow> 't Parameter \<Rightarrow> bool" where
  "upgrades args r p = (case r of Ok q \<Rightarrow> upgrade_param args q = Ok p | Err _ \<Rightarrow> False)"

lemma upgrades_simps [simp]:
  "upgrades args (Ok q) p \<longleftrightarrow> upgrade_param args q = Ok p" "\<not> upgrades args (Err e) p"
  by (simp_all add: upgrades_def)

lemmas param_defs = p_static_def p_ignored_def p_dynamic_def p_take_dynamic_def p_dynamic_mut_def p_guard_def

lemma upgrade_dynamic_Ok:
  "upgrade_dynamic args d = Ok g \<longleftrightarrow> g_source g = d \<and> map_of args (dy_name d) = Some (g_fn_ident g, g_ty g)"
  by (cases g) (auto simp: upgrade_dynamic_def guard_from_def split: option.splits)

lemma upgrade_param_trailing:
  "upgrade_param args q = Ok p \<Longrightarrow> named_trailing p = named_trailing q"
  by (cases q)
    (auto simp: upgrade_param_def param_defs named_trailing_def upgrade_dynamic_Ok split: sum.splits option.splits)

lemma named_trailing_mut [simp]:
  "named_trailing (p_dynamic_mut (\<lambda>d. d\<lparr>dy_index := i\<rparr>) q) = named_trailing q"
  by (cases q) (simp_all add: named_trailing_def param_defs)

lemma parameter_parse_shape:
  assumes "parameter_parse x P s = Ok q" "upgrade_param args (p_dynamic_mut (\<lambda>d. d\<lparr>dy_index := i\<rparr>) q) = Ok p"
  shows "param_shape args (i, s) p"
proof (cases q)
  case (Static v)
  then show ?thesis using assms
    by (auto simp: parameter_parse_def param_shape_def segment_from_def upgrade_param_def param_defs Let_def
        split: if_splits)
next
  case (Ignored d)
  then show ?thesis using assms
    by (auto simp: parameter_parse_def param_shape_def segment_from_def upgrade_param_def param_defs Let_def is_wild_def
        split: if_splits)
next
  case (Dynamic d)
  then show ?thesis using assms
    by (auto simp: parameter_parse_def param_shape_def segment_from_def upgrade_param_def param_defs Let_def is_wild_def
        upgrade_dynamic_Ok split: if_splits sum.splits)
next
  case (Guard g)
  then show ?thesis using assms by (auto simp: parameter_parse_def Let_def split: if_splits)
qed

lemma parse_segments_trailing:
  "list_all2 (upgrades args) (parse_segments x P src (Some t) i ss) ps \<longleftrightarrow> ss = [] \<and> ps = []"
  by (cases ss; cases ps) auto

lemma parse_segments_shape:
  fixes args :: "'t argument_map"
  assumes "list_all2 (upgrades args) (parse_segments x P src None i ss) ps"
  shows "list_all2 (param_shape args) (enumerate i ss) ps \<and> list_all (\<lambda>p. \<not> named_trailing p) (butlast ps)"
  using assms
proof (induction ss arbitrary: i ps)
  case Nil
  then show ?case by simp
next
  case (Cons s ss)
  obtain q :: "'t Parameter" where q: "parameter_parse x P s = Ok q"
    using Cons.prems by (cases "parameter_parse x P s :: ('t Parameter, param_error) result") (auto simp: list_all2_Cons1)
  let ?q = "p_dynamic_mut (\<lambda>d. d\<lparr>dy_index := i\<rparr>) q"
    and ?t = "case p_dynamic q of Some d \<Rightarrow> if dy_trailing d then Some s else None | None \<Rightarrow> None"
  obtain p ps' where ps: "ps = p # ps'" and p: "upgrade_param args ?q = Ok p"
    and rest: "list_all2 (upgrades args) (parse_segments x P src ?t (Suc i) ss) ps'"
    using Cons.prems q by (auto simp: Let_def list_all2_Cons1)
  have shape: "param_shape args (i, s) p" using q p by (rule parameter_parse_shape)
  have t: "?t = (if named_trailing p then Some s else None)"
  proof -
    have "?t = (if named_trailing q then Some s else None)" by (simp add: named_trailing_def split: option.split)
    then show ?thesis using upgrade_param_trailing [OF p] by simp
  qed
  show ?case
  proof (cases "named_trailing p")
    case True
    then have "ss = [] \<and> ps' = []" using rest t by (simp add: parse_segments_trailing)
    then show ?thesis using ps shape by simp
  next
    case False
    then have "list_all2 (param_shape args) (enumerate (Suc i) ss) ps'
        \<and> list_all (\<lambda>p. \<not> named_trailing p) (butlast ps')"
      using Cons.IH rest t by simp
    then show ?thesis using ps shape False by simp
  qed
qed

lemma map_filter_results:
  "List.map_filter (\<lambda>p. case p of Ok _ \<Rightarrow> None | Err e \<Rightarrow> Some e) rs = [] \<Longrightarrow>
   list_all2 (\<lambda>r p. r = Ok p) rs (List.map_filter (\<lambda>p. case p of Ok p \<Rightarrow> Some p | Err _ \<Rightarrow> None) rs)"
  by (induction rs) (auto simp: List.map_filter_simps split: sum.splits)

lemma collect_params_ok:
  assumes "collect_params args ps = (qs, [])"
  shows "list_all2 (upgrades args) ps qs"
proof -
  let ?u = "\<lambda>p. case p of Err e \<Rightarrow> Err (ParamDiag e) | Ok p \<Rightarrow> upgrade_param args p"
  have "list_all2 (\<lambda>r p. r = Ok p) (map ?u ps) qs"
    using assms map_filter_results [of "map ?u ps"] by (simp add: collect_params_def Let_def)
  then show ?thesis
    by (auto simp: list_all2_map1 upgrades_def elim!: list_all2_mono split: sum.splits)
qed

lemma parse_many_shape:
  assumes "collect_params args (parse_many x P src) = (ps, [])"
  shows "list_all2 (param_shape args) (enumerate 0 (filter (\<lambda>s. s \<noteq> []) (split (part_delimiter P) src))) ps"
    and "list_all (\<lambda>p. \<not> named_trailing p) (butlast ps)"
  using parse_segments_shape collect_params_ok [OF assms] unfolding parse_many_def by blast+

section \<open>Lemmas: guards\<close>

lemma duplicate_diags_Nil:
  "duplicate_diags seen ps = [] \<longleftrightarrow> distinct (map dy_name ps) \<and> dy_name ` set ps \<inter> set seen = {}"
  by (induction ps arbitrary: seen) auto

lemma shape_dynamic:
  "list_all2 (param_shape args) is ps \<Longrightarrow>
   List.map_filter p_dynamic ps = map g_source (List.map_filter p_guard ps)"
  by (induction rule: list_all2_induct)
    (auto simp: List.map_filter_simps param_defs param_shape_def Let_def split: Parameter.splits)

definition bound_to :: "'t argument_map \<Rightarrow> 't Guard \<Rightarrow> bool" where
  "bound_to args g = (map_of args (dy_name (g_source g)) = Some (g_fn_ident g, g_ty g))"

lemma shape_bound:
  "list_all2 (param_shape args) is ps \<Longrightarrow> list_all (bound_to args) (List.map_filter p_guard ps)"
  by (induction rule: list_all2_induct)
    (auto simp: List.map_filter_simps param_defs param_shape_def bound_to_def Let_def split: Parameter.splits)

definition guard_arg :: "'t Guard \<Rightarrow> str \<times> str \<times> 't" where
  "guard_arg g = (dy_name (g_source g), g_fn_ident g, g_ty g)"

lemma guard_arg_bound: "distinct (map fst args) \<Longrightarrow> bound_to args g \<longleftrightarrow> guard_arg g \<in> set args"
  by (simp add: bound_to_def guard_arg_def)

lemma request_guards_args:
  "map guard_arg (request_guards args others) =
     filter (\<lambda>(name, _). name \<notin> set (map (fst \<circ> guard_arg) others)) args"
proof -
  have "map (guard_arg \<circ> (\<lambda>(index, name, ident, ty). \<lparr>g_source = \<lparr>dy_name = name, dy_index = index, dy_trailing = False\<rparr>,
      g_fn_ident = ident, g_ty = ty\<rparr>)) (enumerate n xs) = xs" for n and xs :: "'a argument_map"
    by (induction xs arbitrary: n) (auto simp: guard_arg_def)
  then show ?thesis
    by (simp add: request_guards_def) (auto simp: guard_arg_def list_all_iff intro!: filter_cong)
qed

text \<open>
  Guards whose names are distinct arguments, with the request guards for what remains, use each argument once.
\<close>

lemma guards_partition:
  assumes d: "distinct (map fst args)" and o: "distinct (map (fst \<circ> guard_arg) others)"
    and b: "list_all (bound_to args) others"
  shows "mset (map guard_arg (others @ request_guards args others)) = mset args"
proof -
  let ?n = "set (map (fst \<circ> guard_arg) others)"
  have sub: "guard_arg ` set others \<subseteq> set args" using b guard_arg_bound [OF d] by (auto simp: list_all_iff)
  have "mset (map guard_arg others) = mset (filter (\<lambda>(name, _). name \<in> ?n) args)"
  proof (rule set_eq_iff_mset_eq_distinct [THEN iffD1])
    show "distinct (map guard_arg others)" using o by (simp add: distinct_map comp_inj_on_iff inj_on_def)
    show "distinct (filter (\<lambda>(name, _). name \<in> ?n) args)" using d by (simp add: distinct_map)
    have "a \<in> guard_arg ` set others" if "a \<in> set args" "fst a \<in> ?n" for a
      using that sub d by (auto simp: distinct_map inj_on_def)
    moreover have "fst a \<in> ?n" if "a \<in> guard_arg ` set others" for a using that by auto
    ultimately have "guard_arg ` set others = {a \<in> set args. fst a \<in> ?n}" using sub by blast
    then show "set (map guard_arg others) = set (filter (\<lambda>(name, _). name \<in> ?n) args)"
      by (simp add: case_prod_unfold)
  qed
  moreover have "mset (filter (\<lambda>(name, _). name \<in> ?n) args) + mset (filter (\<lambda>(name, _). name \<notin> ?n) args) = mset args"
    using multiset_partition [of "mset args" "\<lambda>(name, _). name \<in> ?n"] by (simp add: case_prod_unfold)
  ultimately show ?thesis by (simp add: request_guards_args)
qed

text \<open>The keys of the arguments are distinct, and each is the name of its identifier.\<close>

definition args_inv :: "'t argument_map \<Rightarrow> bool" where
  "args_inv args = (distinct (map fst args) \<and> list_all (\<lambda>(name, ident, ty). name = name_from ident) args)"

lemma args_inv_insert: "args_inv args \<Longrightarrow> args_inv (args_insert (name_from ident) (ident, ty) args)"
proof -
  assume a: "args_inv args"
  have "map (fst \<circ> (\<lambda>(n, v). if n = name_from ident then (n, ident, ty) else (n, v))) args = map fst args" by auto
  then show ?thesis
    using a by (auto simp: args_insert_def args_inv_def list_all_iff simp del: map_eq_conv split: if_splits)
qed

lemma collect_arguments_inv: "args_inv args \<Longrightarrow> args_inv (fst (collect_arguments inputs args))"
  by (induction inputs args rule: collect_arguments.induct) (simp_all add: args_inv_insert case_prod_unfold Let_def)

lemma args_inv_idents: "args_inv args \<Longrightarrow> distinct (map (fst \<circ> snd) args)"
proof -
  assume a: "args_inv args"
  then have "map (name_from \<circ> (fst \<circ> snd)) args = map fst args"
    by (auto simp: args_inv_def list_all_iff)
  then have "distinct (map name_from (map (fst \<circ> snd) args))"
    using a by (simp add: args_inv_def del: map_eq_conv)
  then show ?thesis unfolding distinct_map by blast
qed

lemma path_raw_segments_split:
  "list_all printable p \<Longrightarrow> starts_with p ''/'' \<Longrightarrow>
   filter (\<lambda>s. s \<noteq> []) (path_raw_segments p) = filter (\<lambda>s. s \<noteq> []) (split slash p)"
  by (cases p) (auto simp: raw_segments_slash trim_end_all_printable starts_with_def)

lemma macro_route_facts:
  assumes "macro_route_from x attr inputs = Ok r"
  shows "list_all2 (param_shape (mr_arguments r))
           (enumerate 0 (filter (\<lambda>s. s \<noteq> []) (split slash (o_path (at_uri attr))))) (mr_path_params r)"
    and "list_all (\<lambda>p. \<not> named_trailing p) (butlast (mr_path_params r))"
    and "list_all (\<lambda>p. \<not> named_trailing p) (butlast (mr_query_params r))"
    and "mset (map guard_arg (route_guards r)) = mset (mr_arguments r)"
    and "args_inv (mr_arguments r)"
proof -
  obtain args ad where c: "collect_arguments inputs [] = (args, ad)" by fastforce
  obtain pp pd where pp: "collect_params args (parse_many x Path (o_path (at_uri attr))) = (pp, pd)" by fastforce
  obtain qp qd where qp: "(case o_query (at_uri attr) of
      Some q \<Rightarrow> collect_params args (parse_many x Query q) | None \<Rightarrow> ([], [])) = (qp, qd)" by fastforce
  define dg where "dg = (case map_option (upgrade_dynamic args) (at_data attr) of Some (Ok g) \<Rightarrow> Some g | _ \<Rightarrow> None)"
  let ?others = "List.map_filter p_guard pp @ List.map_filter p_guard qp @ opt_list dg"
  have r: "mr_path_params r = pp" "mr_query_params r = qp" "mr_data_guard r = dg" "mr_arguments r = args"
      "mr_request_guards r = request_guards args ?others" and nil: "pd = []" "qd = []"
    and dup: "duplicate_diags [] (List.map_filter p_dynamic pp @ List.map_filter p_dynamic qp
      @ map g_source (opt_list dg)) = []"
    using assms by (auto simp: macro_route_from_def c pp qp Let_def dg_def split: if_splits)
  have path: "list_all2 (param_shape args) (enumerate 0 (filter (\<lambda>s. s \<noteq> []) (split slash (o_path (at_uri attr))))) pp"
      "list_all (\<lambda>p. \<not> named_trailing p) (butlast pp)"
    using parse_many_shape [OF pp [unfolded nil]] by simp_all
  obtain es where query: "list_all2 (param_shape args) es qp" "list_all (\<lambda>p. \<not> named_trailing p) (butlast qp)"
    using qp nil(2) parse_many_shape by (cases "o_query (at_uri attr)") fastforce+
  have inv: "args_inv args" using collect_arguments_inv [of "[]" inputs] c by (simp add: args_inv_def)
  then have args: "distinct (map fst args)" by (simp add: args_inv_def)
  have "distinct (map (fst \<circ> guard_arg) ?others)"
    using dup unfolding duplicate_diags_Nil shape_dynamic [OF path(1)] shape_dynamic [OF query(1)]
    by (simp add: guard_arg_def comp_def)
  moreover have "list_all (bound_to args) (opt_list dg)"
    by (auto simp: dg_def opt_list_def bound_to_def upgrade_dynamic_Ok split: option.splits sum.splits)
  ultimately have "mset (map guard_arg (route_guards r)) = mset args"
    using guards_partition [OF args, of ?others] shape_bound [OF path(1)] shape_bound [OF query(1)]
    by (simp add: route_guards_def param_guards_def query_guards_def r)
  then show "mset (map guard_arg (route_guards r)) = mset (mr_arguments r)" by (simp add: r)
  show "args_inv (mr_arguments r)" using inv by (simp add: r)
  show "list_all2 (param_shape (mr_arguments r))
      (enumerate 0 (filter (\<lambda>s. s \<noteq> []) (split slash (o_path (at_uri attr))))) (mr_path_params r)"
    using path(1) by (simp add: r)
  show "list_all (\<lambda>p. \<not> named_trailing p) (butlast (mr_path_params r))" using path(2) by (simp add: r)
  show "list_all (\<lambda>p. \<not> named_trailing p) (butlast (mr_query_params r))" using query(2) by (simp add: r)
qed

section \<open>Properties\<close>

text \<open>
  C9. The route attribute (\<open>Route::from\<close>, \<open>route/parse.rs\<close>; \<open>Parameter::parse_many\<close>, \<open>param/parse.rs\<close>): for a route that
  is accepted, the path parameters are, one for one, the segments that the router sees, static and dynamic, trailing
  and not, alike, each guard with the index of its segment; a named trailing parameter comes last, in the path and in
  the query; and the guards of the path, the query, the data and the request together use every argument of the
  handler exactly once, with its identifier and its type.
\<close>

theorem macro_route_sound:
  assumes "macro_route_from x attr inputs = Ok r" and "route_uri_from_meta s = Ok (at_uri attr)"
    and "list_all printable s"
  shows "list_all2 (param_shape (mr_arguments r))
           (enumerate 0 (filter (\<lambda>s. s \<noteq> []) (path_raw_segments (o_path (at_uri attr))))) (mr_path_params r)
    \<and> list_all (\<lambda>p. \<not> named_trailing p) (butlast (mr_path_params r))
    \<and> list_all (\<lambda>p. \<not> named_trailing p) (butlast (mr_query_params r))
    \<and> mset (map guard_arg (route_guards r)) = mset (mr_arguments r)
    \<and> args_inv (mr_arguments r)"
proof -
  have "list_all printable (o_path (at_uri attr)) \<and> starts_with (o_path (at_uri attr)) ''/''"
    using assms(2,3) parse_route_Ok
    by (fastforce simp: route_uri_from_meta_def origin_display_def split: sum.splits if_splits option.splits)
  then show ?thesis using macro_route_facts [OF assms(1)] path_raw_segments_split by metis
qed

definition ascii_xid :: xid where
  "ascii_xid = \<lparr>xid_start = (\<lambda>_. False), xid_continue = (\<lambda>_. False)\<rparr>"

lemma one_letter_idents [simp]:
  "is_valid_ident ascii_xid ''b''" "is_valid_ident ascii_xid ''c''" "is_valid_ident ascii_xid ''_''"
  by (simp_all add: is_valid_ident_def utf8_lead_def utf8_extra_def is_ident_start_def is_ascii_alphabetic_def)

lemmas macro_eval = parse_many_def parameter_parse_def param_error_source_def param_error_new_def is_wild_def
  starts_with_def ends_with_def suffix_to_prefix param_defs

lemmas collect_eval = collect_params_def upgrade_param_def upgrade_dynamic_def List.map_filter_simps

definition sample_attr :: attribute where
  "sample_attr =
     \<lparr>at_uri = origin_new ''/a/<b>'' (Some ''d=1&<c..>''), at_method = Some Get, at_data = None,
      at_format = None, at_rank = None\<rparr>"

definition sample_args :: "nat argument_map" where
  "sample_args = [(''c'', ''c'', 1), (''g'', ''g'', 2), (''b'', ''r#b'', 3)]"

lemma sample_path:
  "collect_params sample_args (parse_many ascii_xid Path ''/a/<b>'') =
     ([Static ''a'', Guard (guard_from \<lparr>dy_name = ''b'', dy_index = 1, dy_trailing = False\<rparr> ''r#b'' 3)], [])"
  by (simp add: macro_eval collect_eval sample_args_def Let_def)

lemma sample_query:
  "collect_params sample_args (parse_many ascii_xid Query ''d=1&<c..>'') =
     ([Static ''d=1'', Guard (guard_from \<lparr>dy_name = ''c'', dy_index = 1, dy_trailing = True\<rparr> ''c'' 1)], [])"
  by (simp add: macro_eval collect_eval sample_args_def Let_def)

lemma sample_arguments:
  "collect_arguments [Typed ''c'' 1, Typed ''g'' 2, Typed ''r#b'' 3] [] = (sample_args, [])"
  by (simp add: args_insert_def sample_args_def name_from_def starts_with_def)

lemma sample_accepted:
  "macro_route_from ascii_xid sample_attr [Typed ''c'' 1, Typed ''g'' 2, Typed ''r#b'' 3] =
     Ok \<lparr>mr_attr = sample_attr,
         mr_path_params =
           [Static ''a'', Guard (guard_from \<lparr>dy_name = ''b'', dy_index = 1, dy_trailing = False\<rparr> ''r#b'' 3)],
         mr_query_params =
           [Static ''d=1'', Guard (guard_from \<lparr>dy_name = ''c'', dy_index = 1, dy_trailing = True\<rparr> ''c'' 1)],
         mr_data_guard = None,
         mr_request_guards = [guard_from \<lparr>dy_name = ''g'', dy_index = 0, dy_trailing = False\<rparr> ''g'' 2],
         mr_arguments = sample_args\<rparr>"
  unfolding macro_route_from_def sample_arguments
  by (simp add: sample_attr_def origin_new_def sample_path sample_query data_diags_def opt_list_def
      List.map_filter_simps p_dynamic_def p_guard_def guard_from_def request_guards_def)
    (simp add: sample_args_def)

lemma sample_uri: "route_uri_from_meta ''/a/<b>?d=1&<c..>'' = Ok (at_uri sample_attr)"
  by (simp add: route_uri_from_meta_def parse_route_def sample_attr_def starts_with_def origin_new_def
      is_normalized_def path_is_normalized_def query_is_normalized_def raw_segments_slash
      trim_end_all_printable query_raw_segments_printable printable_def Let_def)

theorem macro_route_sound_witness:
  "let r = \<lparr>mr_attr = sample_attr,
         mr_path_params =
           [Static ''a'', Guard (guard_from \<lparr>dy_name = ''b'', dy_index = 1, dy_trailing = False\<rparr> ''r#b'' 3)],
         mr_query_params =
           [Static ''d=1'', Guard (guard_from \<lparr>dy_name = ''c'', dy_index = 1, dy_trailing = True\<rparr> ''c'' 1)],
         mr_data_guard = None,
         mr_request_guards = [guard_from \<lparr>dy_name = ''g'', dy_index = 0, dy_trailing = False\<rparr> ''g'' 2],
         mr_arguments = sample_args\<rparr>
   in mset (map guard_arg (route_guards r)) = mset sample_args"
  using macro_route_sound [OF sample_accepted sample_uri] by (simp add: printable_def Let_def)

text \<open>
  An ignored trailing parameter need not come last: \<open>dynamic_mut\<close> is \<open>None\<close> for it, so \<open>parse_many\<close> does not note it.
  The segments of \<open>/<_..>/foo\<close> are accepted; the router stops comparing at the trailing segment, so that the route
  matches every path of two segments and no other.
\<close>

lemma ignored_trailing_not_final:
  "parse_many x Path ''/<_..>/foo'' =
     [Ok (Ignored \<lparr>dy_name = ''_'', dy_index = 0, dy_trailing = True\<rparr>), Ok (Static ''foo'')]"
proof -
  have "is_valid_ident x ''_''"
    by (simp add: is_valid_ident_def utf8_lead_def utf8_extra_def is_ident_start_def is_ascii_alphabetic_def)
  then show ?thesis by (simp add: macro_eval Let_def)
qed

lemma ignored_trailing_matches:
  assumes "path_raw_segments (o_path uri) = [''<_..>'', ''foo'']" "ru_metadata (rt_uri rt) = metadata_from pd b uri"
  shows "paths_match pd rt req \<longleftrightarrow> length (path_segments pd (o_path (rq_uri req))) = 2"
proof -
  have "path_loop (map segment_from [''<_..>'', ''foo'']) ss" for ss
    by (cases ss) (simp_all add: segment_from_def starts_with_def ends_with_def suffix_to_prefix)
  moreover have "\<not> seg_dynamic_trail (segment_from ''foo'')"
    by (simp add: segment_from_def starts_with_def)
  ultimately show ?thesis
    by (auto simp: paths_match_def assms metadata_from_def Let_def segments_num_def segments_new_def)
qed

end
