(* ===== verification/Endpoints.thy ===== *)
theory Endpoints
  imports Prelude
begin

text \<open>
  Endpoints of connections and listeners (\<open>core/lib/src/listener/endpoint.rs\<close>): TCP and QUIC sockets, Unix sockets,
  endpoints of other kinds, and TLS around any of them.

  An address is a pair of an IP address and a port; parsing and printing addresses is done by the standard library and
  printing a custom endpoint by its own implementation, all arguments here.
\<close>

section \<open>Model\<close>

record 'ip SocketAddr =
  sa_ip :: 'ip
  sa_port :: u16

datatype ('ip, 't, 'u) Endpoint =
    Tcp "'ip SocketAddr"
  | Quic "'ip SocketAddr"
  | Unix str
  | Tls "('ip, 't, 'u) Endpoint" "'t option"
  | CustomEndpoint 'u

fun ep_tcp :: "('ip, 't, 'u) Endpoint \<Rightarrow> 'ip SocketAddr option" where
  "ep_tcp (Tcp addr) = Some addr"
| "ep_tcp (Tls addr _) = ep_tcp addr"
| "ep_tcp _ = None"

fun ep_quic :: "('ip, 't, 'u) Endpoint \<Rightarrow> 'ip SocketAddr option" where
  "ep_quic (Quic addr) = Some addr"
| "ep_quic (Tls addr _) = ep_tcp addr"
| "ep_quic _ = None"

fun ep_socket_addr :: "('ip, 't, 'u) Endpoint \<Rightarrow> 'ip SocketAddr option" where
  "ep_socket_addr (Quic addr) = Some addr"
| "ep_socket_addr (Tcp addr) = Some addr"
| "ep_socket_addr (Tls inner _) = ep_socket_addr inner"
| "ep_socket_addr _ = None"

fun ep_ip :: "('ip, 't, 'u) Endpoint \<Rightarrow> 'ip option" where
  "ep_ip (Quic addr) = Some (sa_ip addr)"
| "ep_ip (Tcp addr) = Some (sa_ip addr)"
| "ep_ip (Tls inner _) = ep_ip inner"
| "ep_ip _ = None"

fun ep_port :: "('ip, 't, 'u) Endpoint \<Rightarrow> u16 option" where
  "ep_port (Quic addr) = Some (sa_port addr)"
| "ep_port (Tcp addr) = Some (sa_port addr)"
| "ep_port (Tls inner _) = ep_port inner"
| "ep_port _ = None"

fun ep_unix :: "('ip, 't, 'u) Endpoint \<Rightarrow> str option" where
  "ep_unix (Unix addr) = Some addr"
| "ep_unix (Tls addr _) = ep_unix addr"
| "ep_unix _ = None"

fun ep_tls :: "('ip, 't, 'u) Endpoint \<Rightarrow> ('ip, 't, 'u) Endpoint option" where
  "ep_tls (Tls addr _) = Some addr"
| "ep_tls _ = None"

fun ep_tls_config :: "('ip, 't, 'u) Endpoint \<Rightarrow> 't option" where
  "ep_tls_config (Tls _ config) = config"
| "ep_tls_config _ = None"

definition is_tcp :: "('ip, 't, 'u) Endpoint \<Rightarrow> bool" where "is_tcp self = (ep_tcp self \<noteq> None)"
definition is_quic :: "('ip, 't, 'u) Endpoint \<Rightarrow> bool" where "is_quic self = (ep_quic self \<noteq> None)"
definition is_unix :: "('ip, 't, 'u) Endpoint \<Rightarrow> bool" where "is_unix self = (ep_unix self \<noteq> None)"
definition is_tls :: "('ip, 't, 'u) Endpoint \<Rightarrow> bool" where "is_tls self = (ep_tls self \<noteq> None)"

definition with_tls :: "'t \<Rightarrow> ('ip, 't, 'u) Endpoint \<Rightarrow> ('ip, 't, 'u) Endpoint" where
  "with_tls tls self = (if is_tls self then self else Tls self (Some tls))"

definition assume_tls :: "('ip, 't, 'u) Endpoint \<Rightarrow> ('ip, 't, 'u) Endpoint" where
  "assume_tls self = (if is_tls self then self else Tls self None)"

text \<open>\<open>Display\<close>, with the \<open>mtls\<close> feature: \<open>mutual\<close> says whether a configuration asks for client certificates.\<close>

fun ep_display :: "('ip SocketAddr \<Rightarrow> str) \<Rightarrow> ('u \<Rightarrow> str) \<Rightarrow> ('t \<Rightarrow> bool) \<Rightarrow> ('ip, 't, 'u) Endpoint \<Rightarrow> str" where
  "ep_display disp cust mutual (Tcp addr) = ''http://'' @ disp addr"
| "ep_display disp cust mutual (Quic addr) = ''http://'' @ disp addr"
| "ep_display disp cust mutual (Unix addr) = ''unix:'' @ addr"
| "ep_display disp cust mutual (CustomEndpoint inner) = cust inner"
| "ep_display disp cust mutual (Tls inner c) =
     (case (ep_tcp inner, ep_quic inner) of
        (Some addr, _) \<Rightarrow> ''https://'' @ disp addr @ '' (TCP''
      | (None, Some addr) \<Rightarrow> ''https://'' @ disp addr @ '' (QUIC''
      | (None, None) \<Rightarrow> ep_display disp cust mutual inner @ '' (TLS'')
     @ (case c of Some cfg \<Rightarrow> if mutual cfg then '' + mTLS'' else [] | None \<Rightarrow> [])
     @ '')''"

fun ep_debug :: "('ip SocketAddr \<Rightarrow> str) \<Rightarrow> ('u \<Rightarrow> str) \<Rightarrow> ('ip, 't, 'u) Endpoint \<Rightarrow> str" where
  "ep_debug disp cust (Tcp a) = ''tcp:'' @ disp a"
| "ep_debug disp cust (Quic a) = ''quic:'' @ disp a @ '']''"
| "ep_debug disp cust (Unix a) = ''unix:'' @ a"
| "ep_debug disp cust (Tls e _) = ''unix:'' @ ep_debug disp cust e"
| "ep_debug disp cust (CustomEndpoint e) = cust e"

definition parse_tcp ::
  "(str \<Rightarrow> ('ip SocketAddr, 'e) result) \<Rightarrow> (str \<Rightarrow> ('ip, 'e) result) \<Rightarrow> str \<Rightarrow> u16 \<Rightarrow> ('ip SocketAddr, 'e) result" where
  "parse_tcp sock ip s def_port =
     (case sock s of
        Ok a \<Rightarrow> Ok a
      | Err _ \<Rightarrow> (case ip s of Ok i \<Rightarrow> Ok \<lparr>sa_ip = i, sa_port = def_port\<rparr> | Err e \<Rightarrow> Err e))"

definition ep_from_str ::
  "(str \<Rightarrow> str) \<Rightarrow> (str \<Rightarrow> ('ip SocketAddr, 'e) result) \<Rightarrow> (str \<Rightarrow> ('ip, 'e) result) \<Rightarrow> str \<Rightarrow>
    (('ip, 't, 'u) Endpoint, 'e) result" where
  "ep_from_str uc sock ip string =
     (let tcp = (\<lambda>s. case parse_tcp sock ip (trim s) 8000 of Ok a \<Rightarrow> Ok (Tcp a) | Err e \<Rightarrow> Err e)
      in case split_once (CHR '':'') string of
           Some (proto, s) \<Rightarrow>
             if uc (trim proto) = uc ''tcp'' then tcp s
             else if uc (trim proto) = uc ''unix'' then Ok (Unix (trim s))
             else tcp string
         | None \<Rightarrow> tcp string)"

text \<open>Custom endpoints are compared by what they print.\<close>

fun ep_eq :: "('u \<Rightarrow> str) \<Rightarrow> ('ip, 't, 'u) Endpoint \<Rightarrow> ('ip, 't, 'u) Endpoint \<Rightarrow> bool" where
  "ep_eq cust (Tcp a) (Tcp b) = (a = b)"
| "ep_eq cust (Quic a) (Quic b) = (a = b)"
| "ep_eq cust (Unix a) (Unix b) = (a = b)"
| "ep_eq cust (Tls a _) (Tls b _) = ep_eq cust a b"
| "ep_eq cust (CustomEndpoint a) (CustomEndpoint b) = (cust a = cust b)"
| "ep_eq cust _ _ = False"

section \<open>Lemmas\<close>

text \<open>The endpoint inside all layers of TLS.\<close>

fun ep_base :: "('ip, 't, 'u) Endpoint \<Rightarrow> ('ip, 't, 'u) Endpoint" where
  "ep_base (Tls e _) = ep_base e"
| "ep_base e = e"

lemma ep_base_not_tls: "ep_base e \<noteq> Tls x c"
  by (induction e) auto

lemma ep_tcp_base: "ep_tcp e = Some a \<longleftrightarrow> ep_base e = Tcp a"
  by (induction e) auto

lemma ep_unix_base: "ep_unix e = Some p \<longleftrightarrow> ep_base e = Unix p"
  by (induction e) auto

lemma ep_socket_addr_base: "ep_socket_addr e = Some a \<longleftrightarrow> ep_base e = Tcp a \<or> ep_base e = Quic a"
  by (induction e) auto

lemma ep_ip_port_base:
  "ep_ip e = map_option sa_ip (ep_socket_addr e)" "ep_port e = map_option sa_port (ep_socket_addr e)"
  by (induction e) auto

lemma ep_eq_equivalence:
  "ep_eq cust e e" "ep_eq cust a b \<Longrightarrow> ep_eq cust b a" "ep_eq cust a b \<Longrightarrow> ep_eq cust b c \<Longrightarrow> ep_eq cust a c"
proof -
  show "ep_eq cust e e" by (induction e) auto
  show "ep_eq cust a b \<Longrightarrow> ep_eq cust b a" by (induction cust a b rule: ep_eq.induct) auto
  show "ep_eq cust a b \<Longrightarrow> ep_eq cust b c \<Longrightarrow> ep_eq cust a c"
  proof (induction cust a b arbitrary: c rule: ep_eq.induct)
    case (4 cust a _ b _)
    then show ?case by (cases c) auto
  qed (auto elim: ep_eq.elims)
qed

section \<open>Properties\<close>

text \<open>
  Looking through TLS (\<open>Endpoint::tcp\<close>, \<open>quic\<close>, \<open>unix\<close>, \<open>socket_addr\<close>, \<open>with_tls\<close>): the TCP, Unix and socket addresses of an
  endpoint are those of what TLS wraps, and TLS is never wrapped around TLS by \<open>with_tls\<close>.  The QUIC address
  is not: an endpoint with TLS over QUIC, which every QUIC listener has, reports no QUIC address, and one with TLS over
  TCP reports its TCP address as a QUIC address.
\<close>

theorem endpoint_addresses:
  "ep_tcp (with_tls t e) = ep_tcp e \<and> ep_unix (with_tls t e) = ep_unix e
    \<and> ep_socket_addr (with_tls t e) = ep_socket_addr e
    \<and> is_tls (with_tls t e) \<and> with_tls t (with_tls t' e) = with_tls t' e
    \<and> ep_ip e = map_option sa_ip (ep_socket_addr e)
    \<and> (ep_quic e = Some a \<longleftrightarrow> (if is_tls e then ep_base e = Tcp a else e = Quic a))
    \<and> \<not> is_quic (with_tls t (Quic a)) \<and> is_quic (with_tls t (Tcp a))"
proof -
  have "ep_quic e = Some a \<longleftrightarrow> (if is_tls e then ep_base e = Tcp a else e = Quic a)"
    by (cases e) (auto simp: is_tls_def ep_tcp_base)
  then show ?thesis
    by (cases e) (simp_all add: with_tls_def is_tls_def is_quic_def ep_ip_port_base)
qed

end
