(* ===== verification/IncomingRequests.thy ===== *)
theory IncomingRequests
  imports Lifecycle FormCollections UriValues Endpoints
begin

text \<open>
  Requests as they arrive (\<open>core/lib/src/request/request.rs\<close>): the conversion from hyper's parts with the errors it
  collects, the addresses of the client, the request-local cache, and query values.

  The record \<open>Incoming\<close> adds to the request that routing reads what the connection gives: the version, the errors, the
  peer, the host and the received cookies.  The parsers of hosts, cookies and IP addresses are arguments.
\<close>

section \<open>Model: the conversion from hyper\<close>

datatype HttpVersion = Http09 | Http10 | Http11 | Http2 | Http3

text \<open>The versions of the crate \<open>http\<close>, in their order.\<close>

datatype hyper_version = HTTP_09 | HTTP_10 | HTTP_11 | HTTP_2 | HTTP_3

fun from_hyper_version :: "hyper_version \<Rightarrow> HttpVersion" where
  "from_hyper_version HTTP_09 = Http09"
| "from_hyper_version HTTP_10 = Http10"
| "from_hyper_version HTTP_11 = Http11"
| "from_hyper_version HTTP_2 = Http2"
| "from_hyper_version HTTP_3 = Http3"

definition before_http2 :: "hyper_version \<Rightarrow> bool" where
  "before_http2 v = (v = HTTP_09 \<or> v = HTTP_10 \<or> v = HTTP_11)"

record hyper_parts =
  hy_method :: str
  hy_uri :: str
  hy_path_and_query :: "(str \<times> str option) option"
  hy_host :: "(str \<times> u16 option) option"
  hy_version :: hyper_version
  hy_headers :: "(str \<times> str) list"

datatype RequestError = InvalidUri str | BadMethod str

record 'ep ConnectionMeta =
  cm_peer_endpoint :: "'ep option"
  cm_server_name :: "str option"

record ('h, 'k, 'ep) Incoming =
  in_request :: "'h Request"
  in_version :: "HttpVersion option"
  in_errors :: "RequestError list"
  in_connection :: "'ep ConnectionMeta"
  in_host :: "Host option"
  in_jar :: 'k

text \<open>The codecs of other crates: \<open>add_original\<close> and \<open>parse_encoded\<close> of \<open>cookie\<close>, \<open>Host::parse_bytes\<close>.\<close>

record 'k incoming_ext =
  ix_add_original :: "Cookie \<Rightarrow> 'k \<Rightarrow> 'k"
  ix_parse_encoded :: "str \<Rightarrow> Cookie option"
  ix_host_parse :: "str \<Rightarrow> Host option"

definition connection_new :: "('ep, 'e) result \<Rightarrow> str option \<Rightarrow> 'ep ConnectionMeta" where
  "connection_new endpoint server_name =
     \<lparr>cm_peer_endpoint = ok_opt endpoint, cm_server_name = server_name\<rparr>"

definition hyper_methods :: "(str \<times> Method) list" where
  "hyper_methods =
     [(''GET'', Get), (''PUT'', Put), (''POST'', Post), (''DELETE'', Delete), (''OPTIONS'', Method.Options),
      (''HEAD'', Head), (''TRACE'', Trace), (''CONNECT'', Connect), (''PATCH'', Patch)]"

definition hyper_method :: "str \<Rightarrow> Method \<times> RequestError list" where
  "hyper_method m =
     (case map_of hyper_methods m of
        Some k \<Rightarrow> (k, [])
      | None \<Rightarrow> (case method_try_from m of Ok k \<Rightarrow> (k, []) | Err _ \<Rightarrow> (Get, [BadMethod m])))"

definition hyper_origin :: "hyper_parts \<Rightarrow> origin \<times> RequestError list" where
  "hyper_origin hyper =
     (case hy_path_and_query hyper of
        Some (path, query) \<Rightarrow> (origin_new path query, [])
      | None \<Rightarrow> (origin_root, [InvalidUri (hy_uri hyper)]))"

text \<open>\<open>HeaderMap::get\<close> and \<open>get_all\<close> of hyper; its names are lower case.\<close>

definition hyper_get_all :: "str \<Rightarrow> hyper_parts \<Rightarrow> str list" where
  "hyper_get_all name hyper = map snd (filter (\<lambda>h. fst h = name) (hy_headers hyper))"

definition incoming_host :: "'k incoming_ext \<Rightarrow> hyper_parts \<Rightarrow> Host option" where
  "incoming_host ix hyper =
     (if before_http2 (hy_version hyper) then
        (case hyper_get_all ''host'' hyper of h # _ \<Rightarrow> ix_host_parse ix h | [] \<Rightarrow> None)
      else map_option (\<lambda>(h, port). Host (authority_const_new None h port)) (hy_host hyper))"

definition add_cookies :: "'k incoming_ext \<Rightarrow> str \<Rightarrow> 'k \<Rightarrow> 'k" where
  "add_cookies ix header jar =
     (if \<not> utf8 header then jar
      else fold (\<lambda>cookie_str jar. case ix_parse_encoded ix cookie_str of
             Some cookie \<Rightarrow> ix_add_original ix cookie jar | None \<Rightarrow> jar)
           (map trim (split (CHR '';'') header)) jar)"

definition incoming_header :: "ext \<Rightarrow> str \<times> str \<Rightarrow> 'h Request \<Rightarrow> 'h Request" where
  "incoming_header x h request =
     (if \<not> utf8 (snd h) then request else add_header x (header_new (fst h) (snd h)) request)"

definition from_hyp ::
  "ext \<Rightarrow> 'k incoming_ext \<Rightarrow> str option \<Rightarrow> bool \<Rightarrow> 'k \<Rightarrow> hyper_parts \<Rightarrow> 'ep ConnectionMeta \<Rightarrow>
    (('h, 'k, 'ep) Incoming, ('h, 'k, 'ep) Incoming) result" where
  "from_hyp x ix proxy_header secure empty_jar hyper connection =
     (let (m, e1) = hyper_method (hy_method hyper);
          (uri, e2) = hyper_origin hyper;
          request = request_new proxy_header secure m uri;
          jar = fold (add_cookies ix) (hyper_get_all ''cookie'' hyper) empty_jar;
          request = fold (incoming_header x) (hy_headers hyper) request;
          incoming = \<lparr>in_request = request, in_version = Some (from_hyper_version (hy_version hyper)),
            in_errors = e1 @ e2, in_connection = connection, in_host = incoming_host ix hyper, in_jar = jar\<rparr>
      in if in_errors incoming = [] then Ok incoming else Err incoming)"

definition error_display :: "RequestError \<Rightarrow> str" where
  "error_display e =
     (case e of
        InvalidUri u \<Rightarrow> ''invalid origin URI: '' @ u
      | BadMethod m \<Rightarrow> ''invalid or unrecognized method: '' @ m)"

section \<open>Model: addresses, host and cache\<close>

definition remote :: "('h, 'k, 'ep) Incoming \<Rightarrow> 'ep option" where
  "remote self = cm_peer_endpoint (in_connection self)"

definition set_remote :: "'ep \<Rightarrow> ('h, 'k, 'ep) Incoming \<Rightarrow> ('h, 'k, 'ep) Incoming" where
  "set_remote endpoint self = self\<lparr>in_connection := (in_connection self)\<lparr>cm_peer_endpoint := Some endpoint\<rparr>\<rparr>"

definition set_host :: "Host \<Rightarrow> ('h, 'k, 'ep) Incoming \<Rightarrow> ('h, 'k, 'ep) Incoming" where
  "set_host host self = self\<lparr>in_host := Some host\<rparr>"

definition real_ip :: "ext \<Rightarrow> (str \<Rightarrow> ('ip, 'e) result) \<Rightarrow> str option \<Rightarrow> 'h Request \<Rightarrow> 'ip option" where
  "real_ip x parse_ip ip_header self =
     Option.bind ip_header (\<lambda>h. Option.bind (hm_get_one (x_uc x) h (rq_headers self)) (\<lambda>ip. ok_opt (parse_ip ip)))"

definition proxy_proto :: "ext \<Rightarrow> 'h Request \<Rightarrow> ProxyProto option" where
  "proxy_proto x self =
     map_option (proxy_proto_from (x_uc x))
       (Option.bind (rq_proxy_header self) (\<lambda>h. hm_get_one (x_uc x) h (rq_headers self)))"

definition client_ip ::
  "ext \<Rightarrow> (str \<Rightarrow> ('ip, 'e) result) \<Rightarrow> str option \<Rightarrow> ('h, 'k, ('ip, 't, 'u) Endpoint) Incoming \<Rightarrow> 'ip option" where
  "client_ip x parse_ip ip_header self =
     (case real_ip x parse_ip ip_header (in_request self) of
        Some ip \<Rightarrow> Some ip
      | None \<Rightarrow> Option.bind (remote self) ep_ip)"

text \<open>The cache holds at most one value of each type.\<close>

definition local_cache :: "'ty \<Rightarrow> 'v \<Rightarrow> ('ty \<rightharpoonup> 'v) \<Rightarrow> 'v \<times> ('ty \<rightharpoonup> 'v)" where
  "local_cache ty v cache = (case cache ty of Some w \<Rightarrow> (w, cache) | None \<Rightarrow> (v, cache(ty \<mapsto> v)))"

definition param :: "ext \<Rightarrow> (str \<Rightarrow> ('t, 'e) result) \<Rightarrow> nat \<Rightarrow> 'h Request \<Rightarrow> ('t, 'e) result option" where
  "param x from_param n self = map_option from_param (routed_segment x n self)"

definition request_segments ::
  "ext \<Rightarrow> (str segments \<Rightarrow> ('t, 'e) result) \<Rightarrow> nat \<Rightarrow> 'h Request \<Rightarrow> ('t, 'e) result" where
  "request_segments x from_segments n self = from_segments (routed_segments x n self)"

section \<open>Model: query values\<close>

fun any_opt :: "('a \<Rightarrow> bool option) \<Rightarrow> 'a list \<Rightarrow> bool option" where
  "any_opt p [] = Some False"
| "any_opt p (x # xs) = Option.bind (p x) (\<lambda>b. if b then Some True else any_opt p xs)"

definition query_value ::
  "ext \<Rightarrow> ('c, 'd, 'x, 't) FromForm \<Rightarrow> str \<Rightarrow> 'h Request \<Rightarrow> ('t, 'x) form_result option option" where
  "query_value x T name self =
     (let fields = map value_field_from (query_fields x self);
          is_named = (\<lambda>f. view_eq_str (vf_name f) name)
      in Option.bind (any_opt is_named fields) (\<lambda>found.
           if \<not> found then Some None
           else Option.bind (filter_opt is_named fields) (\<lambda>fs.
             map_option Some (Option.bind (push_all (\<lambda>c f. ff_push_value T c (field_shift f)) (ff_init T Lenient) fs)
               (ff_finalize T)))))"

section \<open>Lemmas\<close>

lemma header_new_sel: "h_name (header_new n v) = n" "h_value (header_new n v) = v"
  by (simp_all add: header_new_def)

lemma add_header_fields:
  "rq_headers (add_header x h r) = hm_add (x_uc x) h (rq_headers r)"
  "rq_method (add_header x h r) = rq_method r" "rq_uri (add_header x h r) = rq_uri r"
  "rq_proxy_header (add_header x h r) = rq_proxy_header r" "rq_route (add_header x h r) = rq_route r"
  by (auto simp: add_header_def bust_header_cache_def content_type_def accept_def Let_def split: option.split)

text \<open>Whether a header makes a connection secure: the configured header with the value \<open>https\<close>.\<close>

definition secures :: "ext \<Rightarrow> str option \<Rightarrow> str \<times> str \<Rightarrow> bool" where
  "secures x ph h =
     (x_uc x (fst h) \<noteq> x_uc x ''Content-Type'' \<and> x_uc x (fst h) \<noteq> x_uc x ''Accept''
      \<and> map_option (x_uc x) ph = Some (x_uc x (fst h)) \<and> is_https (proxy_proto_from (x_uc x) (snd h)))"

lemma add_header_secure:
  "rq_secure (add_header x (header_new n v) r) \<longleftrightarrow> rq_secure r \<or> secures x (rq_proxy_header r) (n, v)"
  by (auto simp: add_header_def bust_header_cache_def content_type_def accept_def secures_def header_new_def Let_def
      split: option.split)

definition text_headers :: "(str \<times> str) list \<Rightarrow> (str \<times> str) list" where
  "text_headers hs = filter (\<lambda>h. utf8 (snd h)) hs"

lemma incoming_headers:
  assumes "x_uc x ''Content-Type'' \<noteq> x_uc x ''Accept''" and "caches_coherent x r"
  shows "let r' = fold (incoming_header x) hs r in caches_coherent x r' \<and> rq_method r' = rq_method r \<and> rq_uri r' = rq_uri r \<and> rq_proxy_header r' = rq_proxy_header r
    \<and> hm_get (x_uc x) n (rq_headers r') =
        hm_get (x_uc x) n (rq_headers r) @ map snd (filter (\<lambda>h. x_uc x (fst h) = x_uc x n) (text_headers hs))
    \<and> (rq_secure r' \<longleftrightarrow> rq_secure r \<or> list_ex (secures x (rq_proxy_header r)) (text_headers hs))"
  using assms(2) unfolding Let_def
proof (induction hs arbitrary: r)
  case (Cons h hs)
  show ?case
  proof (cases "utf8 (snd h)")
    case True
    let ?r = "add_header x (header_new (fst h) (snd h)) r"
    have c: "caches_coherent x ?r" using assms(1) Cons.prems by (rule add_header_coherent)
    show ?thesis using Cons.IH [OF c] True
      by (simp add: incoming_header_def text_headers_def add_header_fields add_header_secure hm_get_add header_new_sel)
  qed (use Cons in \<open>simp add: incoming_header_def text_headers_def\<close>)
qed (simp add: text_headers_def)

lemma hyper_method_known:
  "snd (hyper_method m) = [] \<longleftrightarrow> (\<exists>k. m = as_str k \<or> m = lowercase (as_str k))"
  "m = as_str k \<or> m = lowercase (as_str k) \<Longrightarrow> fst (hyper_method m) = k"
proof -
  have t: "method_try_from m = Ok j \<longleftrightarrow> m = as_str j \<or> m = lowercase (as_str j)" for j
    unfolding method_try_from_def
    using match_method_Ok [of m ALL_VARIANTS j] match_method_hit [of j ALL_VARIANTS m] ALL_VARIANTS_complete by blast
  have h: "map_of hyper_methods m = Some j \<Longrightarrow> m = as_str j" for j
    by (auto simp: hyper_methods_def split: if_splits)
  have e: "hyper_method m = (case method_try_from m of Inr j \<Rightarrow> (j, []) | Inl _ \<Rightarrow> (Get, [BadMethod m]))"
  proof (cases "map_of hyper_methods m")
    case (Some j)
    then have "method_try_from m = Ok j" using t [of j] h by blast
    then show ?thesis using Some by (simp add: hyper_method_def)
  qed (simp add: hyper_method_def)
  show "snd (hyper_method m) = [] \<longleftrightarrow> (\<exists>k. m = as_str k \<or> m = lowercase (as_str k))"
    unfolding e t [symmetric] by (cases "method_try_from m") simp_all
  show "m = as_str k \<or> m = lowercase (as_str k) \<Longrightarrow> fst (hyper_method m) = k"
    unfolding e t [symmetric] by simp
qed

section \<open>Properties\<close>

text \<open>
  C39. What a request is made of (\<open>Request::from_hyp\<close>): the conversion succeeds exactly when the method is known, in upper
  or in lower case, and the URI has a path; the request then has this method and this path and query.  In both cases
  its headers are exactly those received whose value is UTF-8, in order, its parsed headers agree with them, and it
  counts as secure when the server or the configured proxy header says so.
\<close>

theorem from_hyp_request:
  fixes in' :: "('h, 'k, 'ep) Incoming"
  assumes "x_uc x ''Content-Type'' \<noteq> x_uc x ''Accept''"
    and "in' = (case from_hyp x ix ph secure jar hyper conn of Inl i \<Rightarrow> i | Inr i \<Rightarrow> i)"
  shows "(isl (from_hyp x ix ph secure jar hyper conn) \<longleftrightarrow>
      \<not> ((\<exists>k. hy_method hyper = as_str k \<or> hy_method hyper = lowercase (as_str k)) \<and> hy_path_and_query hyper \<noteq> None))
    \<and> (hy_method hyper = as_str k \<or> hy_method hyper = lowercase (as_str k) \<longrightarrow> rq_method (in_request in') = k)
    \<and> (hy_path_and_query hyper = Some (p, q) \<longrightarrow> rq_uri (in_request in') = origin_new p q)
    \<and> caches_coherent x (in_request in')
    \<and> hm_get (x_uc x) n (rq_headers (in_request in')) =
        map snd (filter (\<lambda>h. x_uc x (fst h) = x_uc x n) (text_headers (hy_headers hyper)))
    \<and> (rq_secure (in_request in') \<longleftrightarrow> secure \<or> list_ex (secures x ph) (text_headers (hy_headers hyper)))
    \<and> in_connection in' = conn \<and> in_host in' = incoming_host ix hyper"
proof -
  obtain m e1 where m: "hyper_method (hy_method hyper) = (m, e1)" by (cases "hyper_method (hy_method hyper)")
  obtain u e2 where u: "hyper_origin hyper = (u, e2)" by (cases "hyper_origin hyper")
  let ?r0 = "request_new ph secure m u :: 'h Request"
  have r: "in_request in' = fold (incoming_header x) (hy_headers hyper) ?r0"
    and c: "in_connection in' = conn" "in_host in' = incoming_host ix hyper"
    and l: "isl (from_hyp x ix ph secure jar hyper conn) \<longleftrightarrow> e1 @ e2 \<noteq> []"
    unfolding assms(2) by (auto simp: from_hyp_def m u Let_def)
  have "caches_coherent x ?r0"
    by (simp add: caches_coherent_def request_new_def hm_new_def im_inv_def im_keys_def)
  note I = incoming_headers [OF assms(1) this, of "hy_headers hyper" n, unfolded Let_def, folded r]
  have e2: "e2 = [] \<longleftrightarrow> hy_path_and_query hyper \<noteq> None"
    "hy_path_and_query hyper = Some (p, q) \<Longrightarrow> u = origin_new p q"
    using u by (auto simp: hyper_origin_def split: option.splits)
  have m1: "e1 = [] \<longleftrightarrow> (\<exists>k. hy_method hyper = as_str k \<or> hy_method hyper = lowercase (as_str k))"
    and m2: "hy_method hyper = as_str k \<or> hy_method hyper = lowercase (as_str k) \<Longrightarrow> m = k"
    using hyper_method_known [of "hy_method hyper"] unfolding m by simp_all
  have r0: "rq_method ?r0 = m" "rq_uri ?r0 = u" "rq_proxy_header ?r0 = ph" "rq_secure ?r0 = secure"
    "hm_get (x_uc x) n (rq_headers ?r0) = []"
    by (simp_all add: request_new_def hm_get_def hm_new_def)
  show ?thesis using I m2 e2(2) unfolding r0 l append_is_Nil_conv append_Nil m1 e2(1) c by blast
qed

theorem from_hyp_request_witness:
  "\<exists>i :: (unit, unit, unit) Incoming. from_hyp plain_ext \<lparr>ix_add_original = (\<lambda>_ j. j), ix_parse_encoded = (\<lambda>_. None), ix_host_parse = (\<lambda>_. None)\<rparr>
      (Some ''x-proto'') False () \<lparr>hy_method = ''get'', hy_uri = ''/a?b'', hy_path_and_query = Some (''/a'', Some ''b''),
        hy_host = None, hy_version = HTTP_11, hy_headers = [(''x-proto'', ''https''), (''accept'', [CHR 0xFF])]\<rparr>
      \<lparr>cm_peer_endpoint = None :: unit option, cm_server_name = None\<rparr> = Ok i
    \<and> rq_method (in_request i) = Get \<and> rq_uri (in_request i) = origin_new ''/a'' (Some ''b'')
    \<and> hm_get (x_uc plain_ext) ''accept'' (rq_headers (in_request i)) = [] \<and> rq_secure (in_request i)"
proof -
  let ?hyper = "\<lparr>hy_method = ''get'', hy_uri = ''/a?b'', hy_path_and_query = Some (''/a'', Some ''b''),
        hy_host = None, hy_version = HTTP_11, hy_headers = [(''x-proto'', ''https''), (''accept'', [CHR 0xFF])]\<rparr>"
  let ?ix = "\<lparr>ix_add_original = (\<lambda>_ j. j), ix_parse_encoded = (\<lambda>_. None), ix_host_parse = (\<lambda>_. None)\<rparr> :: unit incoming_ext"
  let ?conn = "\<lparr>cm_peer_endpoint = None :: unit option, cm_server_name = None\<rparr>"
  let ?r = "from_hyp plain_ext ?ix (Some ''x-proto'') False () ?hyper ?conn
      :: ((unit, unit, unit) Incoming, (unit, unit, unit) Incoming) result"
  have n: "x_uc plain_ext ''Content-Type'' \<noteq> x_uc plain_ext ''Accept''" by code_simp
  have F: "(isl ?r \<longleftrightarrow>
      \<not> ((\<exists>k. hy_method ?hyper = as_str k \<or> hy_method ?hyper = lowercase (as_str k)) \<and> hy_path_and_query ?hyper \<noteq> None))
    \<and> (hy_method ?hyper = as_str Get \<or> hy_method ?hyper = lowercase (as_str Get) \<longrightarrow> rq_method (in_request i) = Get)
    \<and> (hy_path_and_query ?hyper = Some (''/a'', Some ''b'') \<longrightarrow> rq_uri (in_request i) = origin_new ''/a'' (Some ''b''))
    \<and> hm_get (x_uc plain_ext) ''accept'' (rq_headers (in_request i)) =
        map snd (filter (\<lambda>h. x_uc plain_ext (fst h) = x_uc plain_ext ''accept'') (text_headers (hy_headers ?hyper)))
    \<and> (rq_secure (in_request i) \<longleftrightarrow> False \<or> list_ex (secures plain_ext (Some ''x-proto'')) (text_headers (hy_headers ?hyper)))"
    if "i = (case ?r of Inl i \<Rightarrow> i | Inr i \<Rightarrow> i)" for i :: "(unit, unit, unit) Incoming"
    using from_hyp_request [OF n that] by blast
  have k: "hy_method ?hyper = lowercase (as_str Get)" by code_simp
  have t: "text_headers (hy_headers ?hyper) = [(''x-proto'', ''https'')]" by code_simp
  have s: "secures plain_ext (Some ''x-proto'') (''x-proto'', ''https'')" by code_simp
  have a: "x_uc plain_ext ''x-proto'' \<noteq> x_uc plain_ext ''accept''" by code_simp
  have "\<exists>k. hy_method ?hyper = as_str k \<or> hy_method ?hyper = lowercase (as_str k)" using k by blast
  moreover have "hy_path_and_query ?hyper \<noteq> None" by simp
  ultimately have "\<not> isl ?r" using conjunct1 [OF F [OF refl]] by blast
  then obtain i where i: "?r = Ok i" by (cases ?r) auto
  have "i = (case ?r of Inl i \<Rightarrow> i | Inr i \<Rightarrow> i)" unfolding i by simp
  from F [OF this] show ?thesis unfolding i t using k s a by (intro exI [of _ i]) (simp add: t)
qed

text \<open>
  A second proxy header makes a connection secure although \<open>proxy_proto\<close>, which reads the first, says otherwise.
\<close>

lemma secure_by_second_header:
  fixes r0 :: "'h Request"
  defines "r0 \<equiv> request_new (Some ''x-proto'') False Get origin_root"
    and "hs \<equiv> [(''x-proto'', ''http''), (''x-proto'', ''https'')]"
  shows "rq_secure (fold (incoming_header plain_ext) hs r0)
    \<and> proxy_proto plain_ext (fold (incoming_header plain_ext) hs r0) = Some PHttp"
proof -
  let ?r = "fold (incoming_header plain_ext) hs r0"
  have r0: "rq_headers r0 = []" "rq_secure r0 = False" "rq_proxy_header r0 = Some ''x-proto''"
    by (simp_all add: r0_def request_new_def hm_new_def)
  have "caches_coherent plain_ext r0"
    by (simp add: r0_def caches_coherent_def request_new_def hm_new_def im_inv_def im_keys_def)
  moreover have "x_uc plain_ext ''Content-Type'' \<noteq> x_uc plain_ext ''Accept''" by code_simp
  ultimately have I: "rq_proxy_header ?r = Some ''x-proto''"
      "hm_get (x_uc plain_ext) ''x-proto'' (rq_headers ?r) =
        map snd (filter (\<lambda>h. x_uc plain_ext (fst h) = x_uc plain_ext ''x-proto'') (text_headers hs))"
      "rq_secure ?r \<longleftrightarrow> list_ex (secures plain_ext (Some ''x-proto'')) (text_headers hs)"
    using incoming_headers [of plain_ext r0 hs "''x-proto''"] unfolding Let_def r0 by (simp_all add: hm_get_def)
  have "list_ex (secures plain_ext (Some ''x-proto'')) (text_headers hs)" unfolding hs_def by code_simp
  moreover have "map snd (filter (\<lambda>h. x_uc plain_ext (fst h) = x_uc plain_ext ''x-proto'') (text_headers hs)) =
      [''http'', ''https'']" unfolding hs_def by code_simp
  ultimately have "rq_secure ?r" and "hm_get (x_uc plain_ext) ''x-proto'' (rq_headers ?r) = [''http'', ''https'']"
    using I by simp_all
  moreover from this have "hm_get_one (x_uc plain_ext) ''x-proto'' (rq_headers ?r) = Some ''http''"
    by (simp add: hm_get_one_def hm_get_def split: option.splits)
  moreover have "proxy_proto_from (x_uc plain_ext) ''http'' = PHttp" by code_simp
  ultimately show ?thesis using I(1) by (simp add: proxy_proto_def)
qed

lemma any_opt_total: "\<forall>x \<in> set xs. p x = Some (q x) \<Longrightarrow> any_opt p xs = Some (list_ex q xs)"
  by (induction xs) auto

lemma filter_opt_total: "\<forall>x \<in> set xs. p x = Some (q x) \<Longrightarrow> filter_opt p xs = Some (filter q xs)"
  by (induction xs) auto

text \<open>The fields of a query whose first key is the name.\<close>

definition first_keys :: "str \<Rightarrow> str list" where
  "first_keys n = (if n = [] then [] else [slice_key True (take (shift_len n) n)])"

definition named_fields :: "ext \<Rightarrow> str \<Rightarrow> 'h Request \<Rightarrow> ValueField list" where
  "named_fields x name self =
     map value_field_from (filter (\<lambda>nv. name_keys name = Some (first_keys (fst nv))) (query_fields x self))"

text \<open>
  A value of the query (\<open>Request::query_value\<close>): there is none exactly when no field has the name as its first key,
  and otherwise it is parsed, leniently, from the fields that do, in order and without that key.
\<close>

theorem query_value_spec:
  assumes "name_keys name \<noteq> None" and "list_all (\<lambda>(n, v). eq_sign \<notin> set n) (query_fields x r)"
  shows "query_value x T name r =
    (if named_fields x name r = [] then Some None
     else map_option Some (form_run T Lenient (map (\<lambda>f. Inl (field_shift f)) (named_fields x name r))))"
proof -
  obtain ks where ks: "name_keys name = Some ks" using assms(1) by blast
  let ?q = "\<lambda>n. ks = first_keys n"
  have v: "view_eq_str (vf_name (value_field_from nv)) name = Some (?q (fst nv))" if "nv \<in> set (query_fields x r)" for nv
  proof -
    have "eq_sign \<notin> set (fst nv)" using that assms(2) by (auto simp: list_all_iff)
    then show ?thesis using view_eq_first_key [OF _ ks] by (simp add: value_field_from_def first_keys_def)
  qed
  let ?fs = "map value_field_from (query_fields x r)"
  let ?p = "\<lambda>f. view_eq_str (vf_name f) name"
  have p: "\<forall>f \<in> set ?fs. ?p f = Some (?q (nv_name (vf_name f)))"
    using v by (auto simp: value_field_from_def view_new_def shift_def)
  have n: "filter (\<lambda>f. ?q (nv_name (vf_name f))) ?fs = named_fields x name r"
    by (simp add: named_fields_def ks filter_map comp_def value_field_from_def view_new_def shift_def)
  have "list_ex (\<lambda>f. ?q (nv_name (vf_name f))) ?fs \<longleftrightarrow> named_fields x name r \<noteq> []"
    unfolding n [symmetric] by (simp add: list_ex_iff filter_empty_conv)
  then have "any_opt ?p ?fs = Some (named_fields x name r \<noteq> [])" using any_opt_total [OF p] by simp
  moreover have "filter_opt ?p ?fs = Some (named_fields x name r)" using filter_opt_total [OF p] n by simp
  ultimately show ?thesis
    unfolding query_value_def Let_def by (simp add: form_run_def push_all_map push_field_def)
qed

theorem query_value_spec_witness:
  "query_value plain_ext (ff_vec (ff_field (parse_field Ok :: (unit, unit, str) FromFormField))) ''a''
     (request_new None False Get (origin_new ''/'' (Some ''a=1&b=2&a=3'')) :: unit Request) = Some (Some (Ok [''1'', ''3'']))"
proof -
  let ?r = "request_new None False Get (origin_new ''/'' (Some ''a=1&b=2&a=3'')) :: unit Request"
  let ?T = "ff_field (parse_field Ok :: (unit, unit, str) FromFormField)"
  have q: "query_fields plain_ext ?r = [(''a'', ''1''), (''b'', ''2''), (''a'', ''3'')]"
    by (simp add: query_fields_def request_new_def origin_new_def query_segments_def query_raw_segments_def
        trim_printable_ends printable_def decode_query_def url_decode_lossy_def plain_ext_def replace_plus_def
        memchr_iter_def split_at_byte_def is_ascii_def Let_def)
  have k: "name_keys ''a'' = Some [''a'']"
    by (simp add: name_keys_eq slices.simps shift_len_def start_delim_def slice_key_def)
  have n: "named_fields plain_ext ''a'' ?r = [value_field_from (''a'', ''1''), value_field_from (''a'', ''3'')]"
    unfolding named_fields_def q k by (simp add: first_keys_def shift_len_def start_delim_def slice_key_def)
  have d: "field_key (Inl (field_shift (value_field_from (''a'', v))) :: unit field) = None" for v
    by (simp add: field_key_def field_name_def field_shift_def value_field_from_def view_new_def shift_def shift_len_def
        start_delim_def view_key_def key_lossy_def)
  have f: "form_run ?T Lenient (map shift_field [Inl (field_shift (value_field_from (''a'', v)))]) = Some (Ok v)" for v
    by (simp add: field_form_spec counts_def field_result_def parse_field_def Lenient_def shift_field_def
        field_shift_def value_field_from_def)
  have "query_value plain_ext (ff_vec ?T) ''a'' ?r = map_option Some
      (form_run (ff_vec ?T) Lenient (map (\<lambda>f. Inl (field_shift f)) (named_fields plain_ext ''a'' ?r)))"
    using query_value_spec [of "''a''" plain_ext ?r "ff_vec ?T"] k q n by simp
  then show ?thesis unfolding n
    using f [of "''1''"] f [of "''3''"] by (simp add: vec_form_spec d same_key_def vec_collect_def)
qed

end
