(* ===== verification/RouteHandlers.thy ===== *)
theory RouteHandlers
  imports RouteMacros IncomingRequests
begin

text \<open>
  The handlers that the route attribute generates (\<open>core/codegen/src/attribute/route/mod.rs\<close>) and the parameters they
  parse (\<open>core/lib/src/request/from_param.rs\<close>, \<open>core/lib/src/route/handler.rs\<close>).

  A generated handler is the code between the quotes, executed: its guards run one after the other, each binding a
  variable or returning early.  What the types of the arguments implement is the record \<open>types\<close>, a value of any type
  an element of \<open>'v\<close>; the function decorated is \<open>handler_fn\<close>, and \<open>respond_to\<close> what its result does.  \<open>None\<close> is a
  panic, or a variable that is not bound, which does not compile.
\<close>

section \<open>Model: parameters of the path\<close>

datatype empty_error = EmptyParam

definition from_param_str :: "str \<Rightarrow> (str, empty_error) result" where
  "from_param_str p = (if p = [] then Err EmptyParam else Ok p)"

definition from_param_string :: "str \<Rightarrow> (str, empty_error) result" where
  "from_param_string p = (if p = [] then Err EmptyParam else Ok p)"

definition from_param_parse :: "(str \<Rightarrow> ('t, 'e) result) \<Rightarrow> str \<Rightarrow> ('t, 'e) result" where
  "from_param_parse from_str p = from_str p"

definition from_param_path_buf :: "bool \<Rightarrow> str \<Rightarrow> (str list, path_error) result" where
  "from_param_path_buf windows p = to_path_buf windows False (segments_new [p])"

definition from_param_result :: "(str \<Rightarrow> ('t, 'e) result) \<Rightarrow> str \<Rightarrow> (('t, 'e) result, 'i) result" where
  "from_param_result T p = (case T p of Ok v \<Rightarrow> Ok (Ok v) | Err e \<Rightarrow> Ok (Err e))"

definition from_param_option :: "(str \<Rightarrow> ('t, 'e) result) \<Rightarrow> str \<Rightarrow> ('t option, 'i) result" where
  "from_param_option T p = (case T p of Ok v \<Rightarrow> Ok (Some v) | Err _ \<Rightarrow> Ok None)"

definition from_param_either ::
  "(str \<Rightarrow> ('a, 'e) result) \<Rightarrow> (str \<Rightarrow> ('b, 'f) result) \<Rightarrow> str \<Rightarrow> ('a + 'b, 'e \<times> 'f) result" where
  "from_param_either A B p =
     (case A p of
        Ok a \<Rightarrow> Ok (Inl a)
      | Err a \<Rightarrow> (case B p of Ok b \<Rightarrow> Ok (Inr b) | Err b \<Rightarrow> Err (a, b)))"

definition from_segments_segments :: "str segments \<Rightarrow> (str segments, 'i) result" where
  "from_segments_segments s = Ok s"

definition from_segments_path_buf :: "bool \<Rightarrow> str segments \<Rightarrow> (str list, path_error) result" where
  "from_segments_path_buf windows s = to_path_buf windows False s"

definition from_segments_result :: "(str segments \<Rightarrow> ('t, 'e) result) \<Rightarrow> str segments \<Rightarrow> (('t, 'e) result, 'i) result" where
  "from_segments_result T s = (case T s of Ok v \<Rightarrow> Ok (Ok v) | Err e \<Rightarrow> Ok (Err e))"

definition from_segments_option :: "(str segments \<Rightarrow> ('t, 'e) result) \<Rightarrow> str segments \<Rightarrow> ('t option, 'i) result" where
  "from_segments_option T s = (case T s of Ok v \<Rightarrow> Ok (Some v) | Err _ \<Rightarrow> Ok None)"

section \<open>Model: guards\<close>






section \<open>Model: the query\<close>






fun unwrap_all :: "('v, 'x) form_result list \<Rightarrow> 'v list option" where
  "unwrap_all [] = Some []"
| "unwrap_all (Ok v # rs) = map_option (\<lambda>vs. v # vs) (unwrap_all rs)"
| "unwrap_all (Err _ # rs) = None"


section \<open>Model: the handler\<close>







text \<open>The static information of a route, from which the route is built when it is mounted.\<close>

definition route_static_info :: "str \<Rightarrow> 'f \<Rightarrow> 't macro_route \<Rightarrow> 'f RouteStaticInfo" where
  "route_static_info name handler mr =
     (let a = mr_attr mr
      in \<lparr>ri_name = name, ri_method = at_method a, ri_uri = origin_display (at_uri a), ri_format = at_format a,
          ri_handler = handler, ri_rank = at_rank a\<rparr>)"

section \<open>Lemmas: the query\<close>














section \<open>Lemmas: the handler\<close>














lemma unwrap_all_Some: "unwrap_all rs = Some vs \<longleftrightarrow> rs = map Ok vs"
  by (induction rs arbitrary: vs rule: unwrap_all.induct) auto

lemma unwrap_all_Ok [simp]: "unwrap_all (map Ok vs) = Some vs"
  by (simp add: unwrap_all_Some)






















section \<open>Lemmas: the segments of a routed request\<close>

lemma p_guard_simps:
  "p_guard (Guard g) = Some g" "p_guard (Static v) = None" "p_guard (Ignored d) = None" "p_guard (Dynamic d) = None"
  by (simp_all add: p_guard_def)

lemma routed_segment_at:
  assumes "rq_route req = Some rt"
    and "base_len (ru_metadata (rt_uri rt)) + n < length (path_segments (x_pd x) (o_path (rq_uri req)))"
  shows "routed_segment x n req =
    Some (path_segments (x_pd x) (o_path (rq_uri req)) ! (base_len (ru_metadata (rt_uri rt)) + n))"
proof -
  have "min (base_len (ru_metadata (rt_uri rt))) (length (path_segments (x_pd x) (o_path (rq_uri req))))
      = base_len (ru_metadata (rt_uri rt))"
    using assms(2) by linarith
  then show ?thesis using assms
    by (simp add: routed_segment_def routed_segments_def segments_get_def segments_skip_def segments_new_def Let_def)
qed

lemma guard_index:
  "list_all2 (param_shape args) (enumerate n ss) ps \<Longrightarrow> g \<in> set (List.map_filter p_guard ps) \<Longrightarrow>
   n \<le> dy_index (g_source g) \<and> dy_index (g_source g) < n + length ss"
proof (induction ss arbitrary: n ps)
  case (Cons s ss)
  then obtain p qs where ps: "ps = p # qs" "param_shape args (n, s) p"
      "list_all2 (param_shape args) (enumerate (Suc n) ss) qs"
    by (auto simp: list_all2_Cons1)
  show ?case
  proof (cases "p = Guard g")
    case True
    then show ?thesis using ps(2) by (simp add: param_shape_def Let_def)
  next
    case False
    then have "g \<in> set (List.map_filter p_guard qs)"
      using Cons.prems(2) ps(1) by (cases p) (auto simp: List.map_filter_simps p_guard_simps)
    then show ?thesis using Cons.IH [OF ps(3)] by simp
  qed
qed simp

lemma nonempty_segments:
  assumes "pd_nonempty pd" "list_all printable t"
  shows "length (filter (\<lambda>s. s \<noteq> []) (path_segments pd (slash # t))) = length (filter (\<lambda>s. s \<noteq> []) (split slash (slash # t)))"
proof -
  have "filter (\<lambda>s. s \<noteq> []) (filter (\<lambda>s. s \<noteq> []) (butlast xs) @ [last xs]) = filter (\<lambda>s. s \<noteq> []) xs"
    if "xs \<noteq> []" for xs :: "str list"
    using that by (cases xs rule: rev_cases) auto
  from this [OF split_nonempty] show ?thesis
    by (simp add: path_segments_eq raw_segments_printable [OF assms(2)] filter_decode [OF assms(1)] del: map_append)
qed

lemma path_segments_le: "length (path_segments pd p) \<le> length (path_raw_segments p)"
proof -
  have "length (path_segments pd p) = length (filter (\<lambda>s. s \<noteq> []) (butlast (path_raw_segments p))) + 1"
    by (simp add: path_segments_eq)
  moreover have "length (butlast (path_raw_segments p)) + 1 = length (path_raw_segments p)"
    using raw_segments_nonempty [of p] by (cases "path_raw_segments p" rule: rev_cases) auto
  ultimately show ?thesis using length_filter_le [of "\<lambda>s. s \<noteq> []" "butlast (path_raw_segments p)"] by linarith
qed

section \<open>Properties\<close>

text \<open>
  C8. From the attribute to the request: when a generated route has been mounted and matches the request it is run for, the
  segment of every parameter that is not trailing exists (\<open>param_guard_decl\<close>: "internal invariant broken" is never
  reported), and it is the segment of the request's path that many places after those of the base.
\<close>

theorem routed_params_found:
  assumes "macro_route_from x' attr inputs = Ok mr" and "route_uri_from_meta s = Ok (at_uri attr)"
    and "list_all printable s" and "origin_parse_sound (x_origin_parse x)" and "pd_nonempty (x_pd x)"
    and "try_new x base s = Ok (rt_uri rt)" and "rq_route req = Some rt" and "paths_match (x_pd x) rt req"
  shows "list_all (\<lambda>g. let i = base_len (ru_metadata (rt_uri rt)) + dy_index (g_source g);
                           path = path_segments (x_pd x) (o_path (rq_uri req))
                       in i < length path \<and> routed_segment x (dy_index (g_source g)) req = Some (path ! i))
           (param_guards mr)"
proof -
  let ?u = "rt_uri rt" and ?segs = "\<lambda>u. path_segments (x_pd x) (o_path u)"
  have ps: "parse_route s = Ok (at_uri attr)"
    using assms(2) by (auto simp: route_uri_from_meta_def split: sum.splits if_splits)
  obtain t where t: "o_path (at_uri attr) = slash # t" "list_all printable t"
    using parse_route_Ok [OF ps] assms(3) by (auto simp: starts_with_def prefix_def origin_display_def split: option.splits)
  obtain b r where "parse_route s = Ok r" and un: "ru_unmounted ?u = into_normalized r"
    and md: "ru_metadata ?u = metadata_from (x_pd x) (ru_base ?u) (ru_uri ?u)"
    using assms(4,6) by (rule try_new_OkE)
  then have un: "?segs (ru_unmounted ?u) = ?segs (at_uri attr)"
    using ps by (simp add: into_normalized_segments)
  have "base_len (ru_metadata ?u) + dy_index (g_source g) < length (?segs (rq_uri req))" if g: "g \<in> set (param_guards mr)" for g
  proof -
    let ?N = "length (filter (\<lambda>s. s \<noteq> []) (?segs (at_uri attr)))"
    have i: "dy_index (g_source g) < ?N"
      using guard_index [OF macro_route_facts(1) [OF assms(1)]] g nonempty_segments [OF assms(5) t(2)] t(1)
      by (simp add: param_guards_def)
    have "?segs (ru_unmounted ?u) = [[]]" if "o_path (ru_unmounted ?u) = ''/''"
      using that by (simp add: path_segments_eq raw_segments_printable)
    then have "o_path (ru_unmounted ?u) \<noteq> ''/''"
      using i unfolding un [symmetric] by (auto simp del: un)
    then have "base_len (ru_metadata ?u) + length (?segs (at_uri attr)) = length (?segs (ru_uri ?u))"
      using try_new_segments [OF assms(4,5,3,6)] un by simp
    moreover have "length (?segs (ru_uri ?u)) \<le> length (?segs (rq_uri req))"
      using assms(8) path_segments_le [of "x_pd x" "o_path (ru_uri ?u)"]
      by (auto simp: paths_match_def md metadata_from_def segments_num_def segments_new_def Let_def split: if_splits)
    moreover have "?N \<le> length (?segs (at_uri attr))" by simp
    ultimately show ?thesis using i by linarith
  qed
  then show ?thesis using routed_segment_at [OF assms(7)] by (simp add: list_all_iff Let_def)
qed






theorem routed_params_found_witness:
  "\<exists>u. try_new plain_ext ''/api'' ''/a/<b>?d=1&<c..>'' = Ok u
     \<and> routed_segment plain_ext 1
         (set_route \<lparr>rt_name = None, rt_method = Some Get, rt_handler = (), rt_uri = u, rt_rank = 0, rt_format = None\<rparr>
           (request_new None False Get (origin_new ''/api/a/x'' None))) = Some ''x''"
proof -
  let ?s = "''/a/<b>?d=1&<c..>''"
  have "\<exists>u. try_new plain_ext ''/api'' ?s = Ok u \<and> uri_segments (ru_metadata u) = map segment_from [''api'', ''a'', ''<b>'']
      \<and> base_len (ru_metadata u) = 1"
    by (simp add: try_new_def plain_eval metadata_from_def path_segments_eq raw_segments_slash trim_end_all_printable
        printable_def decode_path_def percent_decode_lossy_def)
  then obtain u where u: "try_new plain_ext ''/api'' ?s = Ok u"
      "uri_segments (ru_metadata u) = map segment_from [''api'', ''a'', ''<b>'']" "base_len (ru_metadata u) = 1"
    by blast
  let ?rt = "\<lparr>rt_name = None, rt_method = Some Get, rt_handler = (), rt_uri = u, rt_rank = 0, rt_format = None\<rparr>"
  let ?r = "set_route ?rt (request_new None False Get (origin_new ''/api/a/x'' None))"
  have path: "path_segments (x_pd plain_ext) (o_path (rq_uri ?r)) = [''api'', ''a'', ''x'']"
    by (simp add: set_route_def request_new_def origin_new_def plain_ext_def path_segments_eq raw_segments_slash
        trim_end_all_printable printable_def decode_path_def percent_decode_lossy_def)
  have m: "paths_match (x_pd plain_ext) ?rt ?r"
    by (simp add: paths_match_def path u(2) segments_num_def segments_new_def segments_items_drop segment_from_def
        starts_with_def ends_with_def suffix_to_prefix)
  have "try_new plain_ext ''/api'' ?s = Ok (rt_uri ?rt)" "rq_route ?r = Some ?rt"
    using u(1) by (simp_all add: set_route_def)
  note found = routed_params_found [OF sample_accepted sample_uri _ plain_origin_parse_sound plain_pd_nonempty this m]
  have "routed_segment plain_ext 1 ?r = Some ([''api'', ''a'', ''x''] ! 2)"
    using found unfolding path
    by (simp add: printable_def param_guards_def List.map_filter_simps p_guard_simps guard_from_def u(3) Let_def)
  then show ?thesis using u(1) by auto
qed

end
