(* ===== verification/DerivedForms.thy ===== *)
theory DerivedForms
  imports FormGuards RouteMacros
begin

text \<open>
  Derived form types (\<open>core/codegen/src/derive\<close>: \<open>from_form.rs\<close>, \<open>form_field.rs\<close>, \<open>from_form_field.rs\<close>): what the
  derives accept, and the implementations of \<open>FromForm\<close> for structures and of \<open>FromFormField\<close> for enumerations that
  they generate.

  The types of the fields are given by their own implementations; their values are of one type \<open>'v\<close>, and the value
  of a structure is the list of those of its fields.  The expressions in attributes are given by their values: a
  default by the option it evaluates to, a validator by the fields it reads and a function of their values.  The
  function \<open>uc\<close> gives the key by which uncased names are compared.
\<close>

section \<open>Model: attributes\<close>

datatype FieldName = Cased str | Uncased str

fun field_name_str :: "FieldName \<Rightarrow> str" where
  "field_name_str (Cased n) = n"
| "field_name_str (Uncased n) = n"

fun field_name_eq :: "uncased_key \<Rightarrow> FieldName \<Rightarrow> FieldName \<Rightarrow> bool" where
  "field_name_eq uc (Cased a) (Cased b) = (a = b)"
| "field_name_eq uc (Cased a) (Uncased u) = (uc a = uc u)"
| "field_name_eq uc (Uncased u) (Cased a) = (uc a = uc u)"
| "field_name_eq uc (Uncased u1) (Uncased u2) = (uc u1 = uc u2)"

definition CONTROL_CHARS :: "byte list" where
  "CONTROL_CHARS = ''&=?.[]''"

definition is_valid_field_name :: "str \<Rightarrow> bool" where
  "is_valid_field_name s =
     (if s = ''isindex'' \<or> s = [] then False
      else list_all (\<lambda>c. 0x21 \<le> (of_char c :: nat) \<and> (of_char c :: nat) \<le> 0x7e \<and> c \<notin> set CONTROL_CHARS) s)"

text \<open>A field name in an attribute, once its text is known: \<open>None\<close> is the diagnostic.\<close>

definition field_name_from_meta :: "FieldName \<Rightarrow> FieldName option" where
  "field_name_from_meta n = (if \<not> is_valid_field_name (field_name_str n) then None else Some n)"

record ('x, 'v) validator =
  vd_reads :: "nat list"
  vd_check :: "'v list \<Rightarrow> (unit, 'x) form_result"

record ('x, 'v) FieldAttr =
  fa_name :: "FieldName option"
  fa_validate :: "('x, 'v) validator option"
  fa_default :: "'v option option"
  fa_default_with :: "'v option option"

record ('c, 'd, 'x, 'v) struct_field =
  sf_ident :: "str option"
  sf_attrs :: "('x, 'v) FieldAttr list"
  sf_ty :: "('c, 'd, 'x, 'v) FromForm"

record ('c, 'd, 'x, 'v) struct_def =
  sd_attrs :: "('x, 'v) FieldAttr list"
  sd_fields :: "('c, 'd, 'x, 'v) struct_field list"

definition field_names :: "('c, 'd, 'x, 'v) struct_field \<Rightarrow> FieldName list" where
  "field_names self =
     (let attr_names = List.map_filter fa_name (sf_attrs self)
      in if attr_names = []
         then (case sf_ident self of Some ident \<Rightarrow> [Cased (name_from ident)] | None \<Rightarrow> attr_names)
         else attr_names)"

definition first_field_name :: "('c, 'd, 'x, 'v) struct_field \<Rightarrow> FieldName option" where
  "first_field_name self = (case field_names self of [] \<Rightarrow> None | n # _ \<Rightarrow> Some n)"

definition name_buf_opt :: "('c, 'd, 'x, 'v) struct_field \<Rightarrow> str option \<Rightarrow> NameBuf option" where
  "name_buf_opt self parent_name =
     (case field_names self of
        [] \<Rightarrow> None
      | n # _ \<Rightarrow> Some (buf_from_parts parent_name (Borrowed (field_name_str n))))"

definition are_unnamed :: "('c, 'd, 'x, 'v) struct_def \<Rightarrow> bool" where
  "are_unnamed sd = list_all (\<lambda>f. sf_ident f = None) (sd_fields sd)"

text \<open>The expression of type \<open>Option\<close> in \<open>default\<close> and \<open>default_with\<close>, if there is one.\<close>

definition field_default ::
  "('c, 'd, 'x, 'v) struct_def \<Rightarrow> ('c, 'd, 'x, 'v) struct_field \<Rightarrow> ('v option option, unit) result" where
  "field_default sd f =
     (let attrs = sf_attrs f @ sd_attrs sd;
          exprs = List.map_filter fa_default attrs;
          withs = List.map_filter fa_default_with attrs
      in if 1 < length exprs \<or> 1 < length withs then Err ()
         else case (exprs, withs) of
                (e1 # _, e2 # _) \<Rightarrow> Err ()
              | (e # _, []) \<Rightarrow> Ok (Some e)
              | ([], e # _) \<Rightarrow> Ok (Some e)
              | ([], []) \<Rightarrow> Ok None)"

definition field_validators ::
  "('c, 'd, 'x, 'v) struct_def \<Rightarrow> ('c, 'd, 'x, 'v) struct_field \<Rightarrow> ('x, 'v) validator list" where
  "field_validators sd f = List.map_filter fa_validate (sf_attrs f @ sd_attrs sd)"

section \<open>Model: duplicates\<close>

text \<open>
  All values of all keys in one vector, with the number of values up to and including those of each key; the first
  value that equals a later one is reported with that one.
\<close>

fun key_map :: "nat \<Rightarrow> 'v list list \<Rightarrow> nat list" where
  "key_map n [] = []"
| "key_map n (vs # rest) = (n + length vs) # key_map (n + length vs) rest"

definition key_of :: "'v list list \<Rightarrow> nat \<Rightarrow> nat option" where
  "key_of keys k = find (\<lambda>i. k < i) (key_map 0 keys)"

fun duplicate_from :: "('v \<Rightarrow> 'v \<Rightarrow> bool) \<Rightarrow> nat \<Rightarrow> 'v list \<Rightarrow> (nat \<times> nat) option" where
  "duplicate_from eq i [] = None"
| "duplicate_from eq i (a # rest) =
     (case find_index (\<lambda>b. eq b a) rest of
        Some j \<Rightarrow> Some (i, i + 1 + j)
      | None \<Rightarrow> duplicate_from eq (i + 1) rest)"

definition first_duplicate :: "('v \<Rightarrow> 'v \<Rightarrow> bool) \<Rightarrow> 'v list list \<Rightarrow> (nat option \<times> nat option) option" where
  "first_duplicate eq keys =
     map_option (\<lambda>(i, j). (key_of keys i, key_of keys j)) (duplicate_from eq 0 (concat keys))"

section \<open>Model: structures\<close>

datatype derive_error = NoFields | TupleFields | ConflictingNames | NameConflict | DuplicateDefault

definition derive_validate :: "uncased_key \<Rightarrow> ('c, 'd, 'x, 'v) struct_def \<Rightarrow> derive_error option" where
  "derive_validate uc sd =
     (if sd_fields sd = [] then Some NoFields
      else if are_unnamed sd \<and> length (sd_fields sd) \<noteq> 1 then Some TupleFields
      else case first_duplicate (field_name_eq uc) (map field_names (sd_fields sd)) of
             Some (a, b) \<Rightarrow> if a = b then Some ConflictingNames else Some NameConflict
           | None \<Rightarrow>
               if list_ex (\<lambda>f. case field_default sd f of Err _ \<Rightarrow> True | Ok _ \<Rightarrow> False) (sd_fields sd)
               then Some DuplicateDefault else None)"

record ('c, 'x) FormContext =
  dx_opts :: Options
  dx_errors :: "'x Errors"
  dx_parent :: "str option"
  dx_fields :: "'c option list"

definition derived_init :: "('c, 'd, 'x, 'v) struct_def \<Rightarrow> Options \<Rightarrow> ('c, 'x) FormContext" where
  "derived_init sd opts =
     \<lparr>dx_opts = opts, dx_errors = [], dx_parent = None, dx_fields = map (\<lambda>_. None) (sd_fields sd)\<rparr>"

text \<open>The patterns of the arms of a field: its names, with or without regard to case.\<close>

definition field_matches :: "uncased_key \<Rightarrow> str \<Rightarrow> ('c, 'd, 'x, 'v) struct_field \<Rightarrow> bool" where
  "field_matches uc key f =
     list_ex (\<lambda>n. case n of Cased s \<Rightarrow> key = s | Uncased s \<Rightarrow> uc key = uc s) (field_names f)"

text \<open>The first arm that matches pushes to the context of its field, which is created when it is not there.\<close>

fun push_first ::
  "(('c, 'd, 'x, 'v) struct_field \<Rightarrow> 'c \<Rightarrow> 'c option) \<Rightarrow> Options \<Rightarrow> (('c, 'd, 'x, 'v) struct_field \<Rightarrow> bool) \<Rightarrow>
    ('c, 'd, 'x, 'v) struct_field list \<Rightarrow> 'c option list \<Rightarrow> 'c option list option" where
  "push_first push opts m (f # fs) (c # cs) =
     (if m f
      then map_option (\<lambda>c. Some c # cs) (push f (case c of Some c \<Rightarrow> c | None \<Rightarrow> ff_init (sf_ty f) opts))
      else map_option (\<lambda>cs. c # cs) (push_first push opts m fs cs))"
| "push_first push opts m _ cs = Some cs"

definition fields_map ::
  "uncased_key \<Rightarrow> ('c, 'd, 'x, 'v) struct_def \<Rightarrow> (('c, 'd, 'x, 'v) struct_field \<Rightarrow> 'c \<Rightarrow> 'c option) \<Rightarrow>
    NameView \<Rightarrow> 'x FormError \<Rightarrow> ('c, 'x) FormContext \<Rightarrow> ('c, 'x) FormContext option" where
  "fields_map uc sd push name unexpected c =
     (let c = c\<lparr>dx_parent := parent name\<rparr>;
          fs = sd_fields sd;
          key = key_lossy name
      in if are_unnamed sd
         then map_option (\<lambda>cs. c\<lparr>dx_fields := cs\<rparr>) (push_first push (dx_opts c) (\<lambda>_. True) fs (dx_fields c))
         else if list_ex (field_matches uc key) fs
         then map_option (\<lambda>cs. c\<lparr>dx_fields := cs\<rparr>)
                (push_first push (dx_opts c) (field_matches uc key) fs (dx_fields c))
         else if key = ''_method'' \<or> \<not> opt_strict (dx_opts c) then Some c
         else Some (c\<lparr>dx_errors := dx_errors c @ [unexpected]\<rparr>))"

definition derived_push_value ::
  "uncased_key \<Rightarrow> ('c, 'd, 'x, 'v) struct_def \<Rightarrow> ('c, 'x) FormContext \<Rightarrow> ValueField \<Rightarrow> ('c, 'x) FormContext option" where
  "derived_push_value uc sd c f =
     fields_map uc sd (\<lambda>fld ctxt. ff_push_value (sf_ty fld) ctxt (field_shift f)) (vf_name f) (value_unexpected f) c"

definition derived_push_data ::
  "uncased_key \<Rightarrow> ('c, 'd, 'x, 'v) struct_def \<Rightarrow> ('c, 'x) FormContext \<Rightarrow> 'd DataField \<Rightarrow> ('c, 'x) FormContext option" where
  "derived_push_data uc sd c f =
     fields_map uc sd (\<lambda>fld ctxt. ff_push_data (sf_ty fld) ctxt (data_field_shift f)) (df_name f) (data_unexpected f) c"

definition derived_push_error :: "('c, 'x) FormContext \<Rightarrow> 'x FormError \<Rightarrow> ('c, 'x) FormContext option" where
  "derived_push_error c e = Some (c\<lparr>dx_errors := dx_errors c @ [e]\<rparr>)"

definition with_name_opt :: "NameBuf option \<Rightarrow> 'x Errors \<Rightarrow> 'x Errors" where
  "with_name_opt name e = (case name of Some n \<Rightarrow> errors_set_name n e | None \<Rightarrow> e)"

text \<open>The value of a field without a context: the attribute's default unless strict, or else that of its type.\<close>

definition default_value ::
  "('c, 'd, 'x, 'v) struct_def \<Rightarrow> ('c, 'd, 'x, 'v) struct_field \<Rightarrow> Options \<Rightarrow> 'v option option" where
  "default_value sd f opts =
     (case field_default sd f of
        Ok (Some e) \<Rightarrow> Some (if opt_strict opts then None else e)
      | _ \<Rightarrow> ff_default (sf_ty f) opts)"

definition finalize_field ::
  "('c, 'd, 'x, 'v) struct_def \<Rightarrow> Options \<Rightarrow> str option \<Rightarrow> ('c, 'd, 'x, 'v) struct_field \<Rightarrow> 'c option \<Rightarrow>
    ('v, 'x) form_result option" where
  "finalize_field sd opts parent_name f ctxt =
     map_option
       (\<lambda>r. case r of
              Ok v \<Rightarrow> Ok v
            | Err e \<Rightarrow>
                let e = with_name_opt (name_buf_opt f parent_name) e
                in Err (if e = [] then [error_from UnknownError] else e))
       (case ctxt of
          None \<Rightarrow>
            map_option (\<lambda>d. case d of Some v \<Rightarrow> Ok v | None \<Rightarrow> Err [error_from Missing]) (default_value sd f opts)
        | Some c \<Rightarrow> ff_finalize (sf_ty f) c)"

text \<open>The fields are finalized one after the other, their errors added to those of the context.\<close>

fun finalize_fields ::
  "('c, 'd, 'x, 'v) struct_def \<Rightarrow> Options \<Rightarrow> str option \<Rightarrow> ('c, 'd, 'x, 'v) struct_field list \<Rightarrow> 'c option list \<Rightarrow>
    'x Errors \<Rightarrow> ('v option list \<times> 'x Errors) option" where
  "finalize_fields sd opts parent_name (f # fs) (c # cs) errors =
     Option.bind (finalize_field sd opts parent_name f c) (\<lambda>r.
       case r of
         Ok v \<Rightarrow>
           map_option (\<lambda>(vs, es). (Some v # vs, es)) (finalize_fields sd opts parent_name fs cs errors)
       | Err e \<Rightarrow>
           map_option (\<lambda>(vs, es). (None # vs, es)) (finalize_fields sd opts parent_name fs cs (errors @ e)))"
| "finalize_fields sd opts parent_name _ _ errors = Some ([], errors)"

text \<open>A validator runs when the field and every other field it reads have values.\<close>

definition run_validator ::
  "str option \<Rightarrow> ('c, 'd, 'x, 'v) struct_field \<Rightarrow> nat \<Rightarrow> 'v option list \<Rightarrow> ('x, 'v) validator \<Rightarrow> 'x Errors" where
  "run_validator parent_name f i values v =
     (case those (map (\<lambda>k. if k < length values then values ! k else None) (i # vd_reads v)) of
        None \<Rightarrow> []
      | Some vs \<Rightarrow>
          (case vd_check v vs of
             Ok _ \<Rightarrow> []
           | Err e \<Rightarrow> with_name_opt (name_buf_opt f parent_name) e))"

definition run_validators ::
  "('c, 'd, 'x, 'v) struct_def \<Rightarrow> str option \<Rightarrow> 'v option list \<Rightarrow> 'x Errors" where
  "run_validators sd parent_name values =
     concat (map (\<lambda>(i, f). concat (map (run_validator parent_name f i values) (field_validators sd f)))
       (enumerate 0 (sd_fields sd)))"

definition derived_finalize ::
  "('c, 'd, 'x, 'v) struct_def \<Rightarrow> ('c, 'x) FormContext \<Rightarrow> ('v list, 'x) form_result option" where
  "derived_finalize sd c =
     Option.bind (finalize_fields sd (dx_opts c) (dx_parent c) (sd_fields sd) (dx_fields c) (dx_errors c))
       (\<lambda>(values, errors).
          let errors = errors @ run_validators sd (dx_parent c) values
          in if errors \<noteq> [] then Some (Err errors) else map_option Ok (those values))"

definition ff_derived ::
  "uncased_key \<Rightarrow> ('c, 'd, 'x, 'v) struct_def \<Rightarrow> (('c, 'x) FormContext, 'd, 'x, 'v list) FromForm" where
  "ff_derived uc sd =
     \<lparr>ff_init = derived_init sd, ff_push_value = derived_push_value uc sd, ff_push_data = derived_push_data uc sd,
      ff_push_error = derived_push_error, ff_finalize = derived_finalize sd\<rparr>"

section \<open>Model: enumerations\<close>

record 'v variant =
  vr_ident :: str
  vr_values :: "str list"
  vr_builder :: 'v

definition form_field_values :: "'v variant \<Rightarrow> FieldName list" where
  "form_field_values self =
     (if vr_values self = [] then [Uncased (name_from (vr_ident self))] else map Uncased (vr_values self))"

definition enum_validate :: "uncased_key \<Rightarrow> 'v variant list \<Rightarrow> derive_error option" where
  "enum_validate uc variants =
     (if variants = [] then Some NoFields
      else case first_duplicate (field_name_eq uc) (map form_field_values variants) of
             Some (a, b) \<Rightarrow> if a = b then Some ConflictingNames else Some NameConflict
           | None \<Rightarrow> None)"

definition enum_from_value :: "uncased_key \<Rightarrow> 'v variant list \<Rightarrow> ValueField \<Rightarrow> ('v, 'x) form_result" where
  "enum_from_value uc variants f =
     (case find (\<lambda>v. list_ex (\<lambda>n. uc (vf_value f) = uc (field_name_str n)) (form_field_values v)) variants of
        Some v \<Rightarrow> Ok (vr_builder v)
      | None \<Rightarrow>
          Err [set_value (vf_value f) (set_name (buf_from_view (vf_name f))
            (error_from (InvalidChoice (map field_name_str (concat (map form_field_values variants))))))])"

definition derived_field :: "uncased_key \<Rightarrow> 'v variant list \<Rightarrow> ('d, 'x, 'v) FromFormField" where
  "derived_field uc variants =
     \<lparr>fff_from_value = enum_from_value uc variants, fff_from_data = from_data_default, fff_default = None\<rparr>"

section \<open>Lemmas: duplicates\<close>

lemma duplicate_from_None: "duplicate_from eq i vs = None \<longleftrightarrow> sorted_wrt (\<lambda>a b. \<not> eq b a) vs"
proof (induction vs arbitrary: i)
  case (Cons a vs)
  then show ?case
    using find_index_None [of "\<lambda>b. eq b a" vs] by (auto simp: list_all_iff split: option.split)
qed simp

lemma first_duplicate_None: "first_duplicate eq keys = None \<longleftrightarrow> sorted_wrt (\<lambda>a b. \<not> eq b a) (concat keys)"
  by (simp add: first_duplicate_def duplicate_from_None)

lemma sorted_wrt_concat:
  "sorted_wrt R (concat (map g fs)) \<Longrightarrow> sorted_wrt (\<lambda>f h. \<forall>a \<in> set (g f). \<forall>b \<in> set (g h). R a b) fs"
  by (induction fs) (auto simp: sorted_wrt_append)

text \<open>Names that do not conflict do not match the same key, so at most one field takes a form field.\<close>

lemma names_exclusive:
  assumes "first_duplicate (field_name_eq uc) (map field_names fs) = None"
  shows "sorted_wrt (\<lambda>f g. \<not> (field_matches uc key f \<and> field_matches uc key g)) fs"
proof -
  have "field_name_eq uc b a"
    if "case a of Cased s \<Rightarrow> key = s | Uncased s \<Rightarrow> uc key = uc s"
      "case b of Cased s \<Rightarrow> key = s | Uncased s \<Rightarrow> uc key = uc s" for a b
    using that by (cases a; cases b) simp_all
  then have excl: "\<not> (field_matches uc key f \<and> field_matches uc key g)"
    if "\<forall>a \<in> set (field_names f). \<forall>b \<in> set (field_names g). \<not> field_name_eq uc b a" for f g
    using that unfolding field_matches_def list_ex_iff by blast
  show ?thesis
  proof (rule sorted_wrt_mono_rel)
    show "sorted_wrt (\<lambda>f g. \<forall>a \<in> set (field_names f). \<forall>b \<in> set (field_names g). \<not> field_name_eq uc b a) fs"
      by (rule sorted_wrt_concat [OF assms [unfolded first_duplicate_None]])
  qed (rule excl)
qed

section \<open>Lemmas: pushing\<close>

definition takes_field :: "uncased_key \<Rightarrow> ('c, 'd, 'x, 'v) struct_def \<Rightarrow> 'd field \<Rightarrow> ('c, 'd, 'x, 'v) struct_field \<Rightarrow> bool" where
  "takes_field uc sd x f = (are_unnamed sd \<or> field_matches uc (key_lossy (field_name x)) f)"

definition unexpected_of :: "'d field \<Rightarrow> 'x FormError" where
  "unexpected_of x = (case x of Inl v \<Rightarrow> value_unexpected v | Inr d \<Rightarrow> data_unexpected d)"

text \<open>What one form field does to the context of one field of the structure.\<close>

definition field_step ::
  "uncased_key \<Rightarrow> ('c, 'd, 'x, 'v) struct_def \<Rightarrow> Options \<Rightarrow> ('c, 'd, 'x, 'v) struct_field \<Rightarrow> 'c option \<Rightarrow> 'd field \<Rightarrow>
    'c option option" where
  "field_step uc sd opts f ctxt x =
     (if takes_field uc sd x f
      then map_option Some (push_field (sf_ty f) (case ctxt of Some c \<Rightarrow> c | None \<Rightarrow> ff_init (sf_ty f) opts) (shift_field x))
      else Some ctxt)"

definition unexpected_in :: "uncased_key \<Rightarrow> ('c, 'd, 'x, 'v) struct_def \<Rightarrow> Options \<Rightarrow> 'd field \<Rightarrow> bool" where
  "unexpected_in uc sd opts x =
     (opt_strict opts \<and> key_lossy (field_name x) \<noteq> ''_method'' \<and> \<not> list_ex (takes_field uc sd x) (sd_fields sd))"

lemma push_first_those:
  "length cs = length fs \<Longrightarrow> sorted_wrt (\<lambda>f g. \<not> (m f \<and> m g)) fs \<Longrightarrow>
   push_first push opts m fs cs =
     those (map2 (\<lambda>f c. if m f then map_option Some (push f (case c of Some c \<Rightarrow> c | None \<Rightarrow> ff_init (sf_ty f) opts))
       else Some c) fs cs)"
proof (induction cs fs rule: list_induct2)
  case (Cons c cs f fs)
  show ?case
  proof (cases "m f")
    case True
    then have "\<forall>g \<in> set fs. \<not> m g" using Cons.prems by auto
    then have "those (map2 (\<lambda>f c. if m f then map_option Some (push f (case c of Some c \<Rightarrow> c | None \<Rightarrow> ff_init (sf_ty f) opts))
        else Some c) fs cs) = those (map Some cs)"
      using Cons.hyps by (intro arg_cong [where f = those]) (auto simp: list_eq_iff_nth_eq)
    moreover have "those (map Some cs) = Some cs" for cs :: "'a option list" by (induction cs) simp_all
    ultimately show ?thesis using True by (auto simp: option.case_eq_if split: option.split)
  next
    case False
    then show ?thesis using Cons by simp
  qed
qed simp

lemma push_field_derived:
  "push_field (ff_derived uc sd) c x =
     fields_map uc sd (\<lambda>f ctxt. push_field (sf_ty f) ctxt (shift_field x)) (field_name x) (unexpected_of x) c"
  by (cases x) (simp_all add: push_field_def ff_derived_def derived_push_value_def derived_push_data_def
      field_name_def shift_field_def unexpected_of_def)

text \<open>The structure's step as the steps of its fields, for an accepted structure.\<close>

definition accepted_struct :: "uncased_key \<Rightarrow> ('c, 'd, 'x, 'v) struct_def \<Rightarrow> bool" where
  "accepted_struct uc sd = (derive_validate uc sd = None)"

lemma takes_exclusive:
  assumes "accepted_struct uc sd"
  shows "sorted_wrt (\<lambda>f g. \<not> (takes_field uc sd x f \<and> takes_field uc sd x g)) (sd_fields sd)"
proof (cases "are_unnamed sd")
  case True
  then have "length (sd_fields sd) = 1"
    using assms by (auto simp: accepted_struct_def derive_validate_def split: if_splits)
  then show ?thesis by (cases "sd_fields sd") auto
next
  case False
  have "first_duplicate (field_name_eq uc) (map field_names (sd_fields sd)) = None"
    using assms by (auto simp: accepted_struct_def derive_validate_def split: if_splits option.splits)
  then show ?thesis using False names_exclusive by (simp add: takes_field_def)
qed

lemma push_step:
  assumes "accepted_struct uc sd" and "length (dx_fields c) = length (sd_fields sd)"
  shows "push_field (ff_derived uc sd) c x =
    map_option (\<lambda>cs. c\<lparr>dx_parent := parent (field_name x),
        dx_errors := dx_errors c @ (if unexpected_in uc sd (dx_opts c) x then [unexpected_of x] else []), dx_fields := cs\<rparr>)
      (those (map2 (\<lambda>f ctxt. field_step uc sd (dx_opts c) f ctxt x) (sd_fields sd) (dx_fields c)))"
proof -
  let ?push = "\<lambda>f ctxt. push_field (sf_ty f) ctxt (shift_field x)"
  have first: "push_first ?push (dx_opts c) (takes_field uc sd x) (sd_fields sd) (dx_fields c) =
      those (map2 (\<lambda>f ctxt. field_step uc sd (dx_opts c) f ctxt x) (sd_fields sd) (dx_fields c))"
    unfolding push_first_those [OF assms(2) takes_exclusive [OF assms(1)]] field_step_def ..
  have skip: "push_first ?push (dx_opts c) m fs cs = Some cs" if "\<not> list_ex m fs" for m fs cs
    using that by (induction fs arbitrary: cs) (case_tac cs; simp)+
  have m: "takes_field uc sd x = (\<lambda>_. True)" if "are_unnamed sd" using that by (auto simp: takes_field_def)
  have m': "takes_field uc sd x = field_matches uc (key_lossy (field_name x))" if "\<not> are_unnamed sd"
    using that by (auto simp: takes_field_def)
  have ne: "sd_fields sd \<noteq> []" using assms(1) by (auto simp: accepted_struct_def derive_validate_def)
  show ?thesis
  proof (cases "list_ex (takes_field uc sd x) (sd_fields sd)")
    case True
    then show ?thesis
      unfolding push_field_derived first [symmetric]
      by (cases "are_unnamed sd") (simp_all add: fields_map_def m m' unexpected_in_def Let_def)
  next
    case False
    then have "\<not> are_unnamed sd" using ne by (cases "sd_fields sd") (auto simp: takes_field_def)
    then show ?thesis
      unfolding push_field_derived first [symmetric] using False skip [OF False]
      by (auto simp: fields_map_def m' unexpected_in_def Let_def)
  qed
qed

section \<open>Lemmas: the value of a structure\<close>

definition field_share :: "uncased_key \<Rightarrow> ('c, 'd, 'x, 'v) struct_def \<Rightarrow> 'd field list \<Rightarrow> ('c, 'd, 'x, 'v) struct_field \<Rightarrow> 'd field list" where
  "field_share uc sd xs f = map shift_field (filter (\<lambda>x. takes_field uc sd x f) xs)"

definition unexpected_errors :: "uncased_key \<Rightarrow> ('c, 'd, 'x, 'v) struct_def \<Rightarrow> Options \<Rightarrow> 'd field list \<Rightarrow> 'x Errors" where
  "unexpected_errors uc sd opts xs = map unexpected_of (filter (unexpected_in uc sd opts) xs)"

definition last_parent :: "'d field list \<Rightarrow> str option" where
  "last_parent xs = (if xs = [] then None else parent (field_name (last xs)))"

lemma those_const: "those (map (\<lambda>f. Some a) fs) = Some (map (\<lambda>_. a) fs)"
  by (induction fs) simp_all

lemma derived_pushed:
  assumes "accepted_struct uc sd"
  shows "push_all (push_field (ff_derived uc sd)) (derived_init sd opts) xs =
    map_option (\<lambda>cs. \<lparr>dx_opts = opts, dx_errors = unexpected_errors uc sd opts xs, dx_parent = last_parent xs,
        dx_fields = cs\<rparr>)
      (those (map (\<lambda>f. push_all (field_step uc sd opts f) None xs) (sd_fields sd)))"
proof (induction xs rule: rev_induct)
  case Nil
  show ?case by (simp add: derived_init_def unexpected_errors_def last_parent_def those_const)
next
  case (snoc x xs)
  let ?g = "\<lambda>f. push_all (field_step uc sd opts f) None xs"
  let ?c = "\<lambda>cs. \<lparr>dx_opts = opts, dx_errors = unexpected_errors uc sd opts xs, dx_parent = last_parent xs, dx_fields = cs\<rparr>"
  have "push_field (ff_derived uc sd) (?c cs) x =
      map_option (\<lambda>cs. \<lparr>dx_opts = opts, dx_errors = unexpected_errors uc sd opts (xs @ [x]),
          dx_parent = last_parent (xs @ [x]), dx_fields = cs\<rparr>)
        (those (map2 (\<lambda>f ctxt. field_step uc sd opts f ctxt x) (sd_fields sd) cs))"
    if "those (map ?g (sd_fields sd)) = Some cs" for cs
    using push_step [OF assms, of "?c cs"] those_length [OF that]
    by (simp add: unexpected_errors_def last_parent_def cong: map_option_cong)
  then have "push_all (push_field (ff_derived uc sd)) (derived_init sd opts) (xs @ [x]) =
      map_option (\<lambda>cs. \<lparr>dx_opts = opts, dx_errors = unexpected_errors uc sd opts (xs @ [x]),
          dx_parent = last_parent (xs @ [x]), dx_fields = cs\<rparr>)
        (Option.bind (those (map ?g (sd_fields sd)))
          (\<lambda>cs. those (map2 (\<lambda>f ctxt. field_step uc sd opts f ctxt x) (sd_fields sd) cs)))"
    by (cases "those (map ?g (sd_fields sd))") (simp_all add: push_all_append snoc.IH)
  then show ?case unfolding those_bind by (simp add: push_all_append)
qed

lemma field_steps_Some:
  "push_all (field_step uc sd opts f) (Some c) xs = map_option Some (push_all (push_field (sf_ty f)) c (field_share uc sd xs f))"
proof (induction xs arbitrary: c)
  case (Cons x xs)
  then show ?case
    by (cases "push_field (sf_ty f) c (shift_field x)") (simp_all add: field_step_def field_share_def)
qed (simp add: field_share_def)

lemma field_steps_None:
  "push_all (field_step uc sd opts f) None xs =
     (if field_share uc sd xs f = [] then Some None
      else map_option Some (push_all (push_field (sf_ty f)) (ff_init (sf_ty f) opts) (field_share uc sd xs f)))"
proof (induction xs)
  case (Cons x xs)
  show ?case
  proof (cases "takes_field uc sd x f")
    case True
    then have "field_step uc sd opts f None x =
        map_option Some (push_field (sf_ty f) (ff_init (sf_ty f) opts) (shift_field x))"
      and share: "field_share uc sd (x # xs) f = shift_field x # field_share uc sd xs f"
      by (simp_all add: field_step_def field_share_def)
    then show ?thesis
      by (cases "push_field (sf_ty f) (ff_init (sf_ty f) opts) (shift_field x)") (simp_all add: field_steps_Some)
  next
    case False
    then show ?thesis using Cons by (simp add: field_step_def field_share_def)
  qed
qed (simp add: field_share_def)

text \<open>Errors of a field get its name, and are never none.\<close>

definition named_result :: "str option \<Rightarrow> ('c, 'd, 'x, 'v) struct_field \<Rightarrow> ('v, 'x) form_result \<Rightarrow> ('v, 'x) form_result" where
  "named_result parent_name f r =
     (case r of
        Ok v \<Rightarrow> Ok v
      | Err e \<Rightarrow> Err (if e = [] then [error_from UnknownError] else with_name_opt (name_buf_opt f parent_name) e))"

lemma with_name_opt_Nil [simp]: "with_name_opt n e = [] \<longleftrightarrow> e = []"
  by (simp add: with_name_opt_def errors_set_name_def split: option.split)

lemma finalize_field_named:
  "finalize_field sd opts p f ctxt =
     map_option (named_result p f)
       (case ctxt of
          None \<Rightarrow> map_option (\<lambda>d. case d of Some v \<Rightarrow> Ok v | None \<Rightarrow> Err [error_from Missing]) (default_value sd f opts)
        | Some c \<Rightarrow> ff_finalize (sf_ty f) c)"
  unfolding finalize_field_def
  by (intro arg_cong2 [where f = map_option] ext refl) (auto simp: named_result_def Let_def split: sum.split)

definition struct_field_result ::
  "uncased_key \<Rightarrow> ('c, 'd, 'x, 'v) struct_def \<Rightarrow> Options \<Rightarrow> 'd field list \<Rightarrow> ('c, 'd, 'x, 'v) struct_field \<Rightarrow>
    ('v, 'x) form_result option" where
  "struct_field_result uc sd opts xs f =
     map_option (named_result (last_parent xs) f)
       (if field_share uc sd xs f = []
        then map_option (\<lambda>d. case d of Some v \<Rightarrow> Ok v | None \<Rightarrow> Err [error_from Missing]) (default_value sd f opts)
        else form_run (sf_ty f) opts (field_share uc sd xs f))"

lemma struct_field_result_steps:
  "Option.bind (push_all (field_step uc sd opts f) None xs) (finalize_field sd opts (last_parent xs) f) =
     struct_field_result uc sd opts xs f"
  by (cases "push_all (push_field (sf_ty f)) (ff_init (sf_ty f) opts) (field_share uc sd xs f)")
    (simp_all add: field_steps_None struct_field_result_def finalize_field_named form_run_def)

lemma finalize_fields_those:
  "length cs = length fs \<Longrightarrow>
   finalize_fields sd opts p fs cs es =
     map_option (\<lambda>rs. (map ok_opt rs, es @ errs rs)) (those (map2 (finalize_field sd opts p) fs cs))"
proof (induction cs fs arbitrary: es rule: list_induct2)
  case (Cons c cs f fs)
  then show ?case
    by (cases "finalize_field sd opts p f c")
      (auto simp: ok_opt_def option.map_comp comp_def split: sum.split)
qed simp

lemma named_result_errors: "named_result p f r = Err e \<Longrightarrow> e \<noteq> []"
  by (cases r) (auto simp: named_result_def split: if_splits)

lemma struct_field_errors: "struct_field_result uc sd opts xs f = Some (Err e) \<Longrightarrow> e \<noteq> []"
  using named_result_errors [of "last_parent xs" f _ e] by (auto simp: struct_field_result_def)

lemma named_ok_values:
  assumes "those (map (struct_field_result uc sd opts xs) fs) = Some rs" and "errs rs = []"
  shows "those (map ok_opt rs) = Some (oks rs)"
  using assms
proof (induction fs arbitrary: rs)
  case (Cons f fs)
  then obtain r rs' where r: "struct_field_result uc sd opts xs f = Some r" "those (map (struct_field_result uc sd opts xs) fs) = Some rs'"
      "rs = r # rs'"
    by (auto split: option.splits)
  moreover have "errs (Inl e # rs') \<noteq> []" if "r = Inl e" for e using struct_field_errors [of uc sd opts xs f e] r(1) that by auto
  ultimately obtain v where "r = Ok v" using Cons.prems(2) by (cases r) auto
  then show ?case using Cons r by (simp add: ok_opt_def)
qed simp

lemma derived_form_run:
  assumes "derive_validate uc sd = None"
  shows "form_run (ff_derived uc sd) opts xs =
    map_option (\<lambda>rs. let errors = unexpected_errors uc sd opts xs @ errs rs
                         @ run_validators sd (last_parent xs) (map ok_opt rs)
                     in if errors \<noteq> [] then Err errors else Ok (oks rs))
      (those (map (struct_field_result uc sd opts xs) (sd_fields sd)))"
proof -
  have acc: "accepted_struct uc sd" using assms by (simp add: accepted_struct_def)
  let ?steps = "map (\<lambda>f. push_all (field_step uc sd opts f) None xs) (sd_fields sd)"
    and ?fin = "finalize_field sd opts (last_parent xs)"
  let ?result = "\<lambda>rs. let errors = unexpected_errors uc sd opts xs @ errs rs
      @ run_validators sd (last_parent xs) (map ok_opt rs)
    in if errors \<noteq> [] then Some (Err errors) else map_option Ok (those (map ok_opt rs))"
  have "form_run (ff_derived uc sd) opts xs =
      Option.bind (those ?steps) (\<lambda>cs. Option.bind (those (map2 ?fin (sd_fields sd) cs)) ?result)"
  proof (cases "those ?steps")
    case (Some cs)
    then have "length cs = length (sd_fields sd)" using those_length by force
    then show ?thesis
      using Some derived_pushed [OF acc, of opts xs]
      by (simp add: form_run_def ff_derived_def derived_finalize_def finalize_fields_those Let_def)
        (cases "those (map2 ?fin (sd_fields sd) cs)"; simp)
  next
    case None
    then show ?thesis using derived_pushed [OF acc, of opts xs] by (simp add: form_run_def ff_derived_def)
  qed
  also have "\<dots> = Option.bind (those (map (struct_field_result uc sd opts xs) (sd_fields sd))) ?result"
    using those_bind [of "\<lambda>f. push_all (field_step uc sd opts f) None xs" "sd_fields sd" ?fin]
    by (simp add: struct_field_result_steps flip: Option.bind_assoc)
  also have "\<dots> = map_option (\<lambda>rs. let errors = unexpected_errors uc sd opts xs @ errs rs
        @ run_validators sd (last_parent xs) (map ok_opt rs)
      in if errors \<noteq> [] then Err errors else Ok (oks rs)) (those (map (struct_field_result uc sd opts xs) (sd_fields sd)))"
    using named_ok_values [of uc sd opts xs "sd_fields sd"]
    by (cases "those (map (struct_field_result uc sd opts xs) (sd_fields sd))") (auto simp: Let_def)
  finally show ?thesis .
qed

section \<open>Lemmas: tuple structures and totality\<close>

text \<open>
  A tuple structure with one field: its field gets every form field, but shifted past the first key as well, although
  the structure itself has no key.  The documentation says that it is parsed exactly when its field is.
\<close>

definition newtype_def :: "('c, 'd, 'x, 'v) FromForm \<Rightarrow> ('c, 'd, 'x, 'v) struct_def" where
  "newtype_def T = \<lparr>sd_attrs = [], sd_fields = [\<lparr>sf_ident = None, sf_attrs = [], sf_ty = T\<rparr>]\<rparr>"

lemma newtype_form_run:
  assumes "xs \<noteq> []"
  shows "form_run (ff_derived uc (newtype_def T)) opts xs =
    map_option (\<lambda>r. case r of Ok v \<Rightarrow> Ok [v] | Err e \<Rightarrow> Err (if e = [] then [error_from UnknownError] else e))
      (form_run T opts (map shift_field xs))"
proof -
  let ?f = "\<lparr>sf_ident = None, sf_attrs = [], sf_ty = T\<rparr>"
  have u: "are_unnamed (newtype_def T)" by (simp add: are_unnamed_def newtype_def_def)
  have d: "derive_validate uc (newtype_def T) = None"
    by (simp add: derive_validate_def u first_duplicate_def newtype_def_def field_names_def List.map_filter_simps
        field_default_def)
  have "field_share uc (newtype_def T) xs ?f = map shift_field xs"
    by (simp add: field_share_def takes_field_def u)
  moreover have "unexpected_errors uc (newtype_def T) opts xs = []"
  proof -
    have "sd_fields (newtype_def T) = [?f]" by (simp add: newtype_def_def)
    then show ?thesis by (simp add: unexpected_errors_def unexpected_in_def [abs_def] takes_field_def u)
  qed
  moreover have "run_validators (newtype_def T) p vs = []" for p vs
    by (simp add: run_validators_def newtype_def_def field_validators_def List.map_filter_simps)
  moreover have "name_buf_opt ?f p = None" for p by (simp add: name_buf_opt_def field_names_def List.map_filter_simps)
  ultimately show ?thesis
    unfolding derived_form_run [OF d] using assms
    by (cases "form_run T opts (map shift_field xs)")
      (auto simp: struct_field_result_def named_result_def with_name_opt_def Let_def newtype_def_def split: sum.split)
qed

lemma derived_returns:
  assumes "derive_validate uc sd = None" and "\<And>f. f \<in> set (sd_fields sd) \<Longrightarrow> total_form (sf_ty f)"
  shows "total_form (ff_derived uc sd)"
proof
  fix opts and xs :: "'b field list"
  have "struct_field_result uc sd opts xs f \<noteq> None" if "f \<in> set (sd_fields sd)" for f
  proof -
    have t: "form_run (sf_ty f) opts ys \<noteq> None" for ys using assms(2) [OF that] by (rule total_form.returns)
    have "ff_default (sf_ty f) opts \<noteq> None" using t [of "[]"] by (simp add: ff_default_def form_run_def)
    then have "default_value sd f opts \<noteq> None" by (auto simp: default_value_def split: sum.split option.split)
    then show ?thesis using t by (simp add: struct_field_result_def)
  qed
  then have "None \<notin> set (map (struct_field_result uc sd opts xs) (sd_fields sd))" by (metis imageE set_map)
  then show "form_run (ff_derived uc sd) opts xs \<noteq> None"
    by (simp add: derived_form_run [OF assms(1)] those_None del: set_map)
qed

section \<open>Lemmas: enumerations\<close>

text \<open>A value selects the one variant that has it, whatever its case, and is an invalid choice otherwise.\<close>

lemma enum_from_value_iff:
  assumes "enum_validate uc variants = None" and "v \<in> set variants"
    and "\<exists>n \<in> set (form_field_values v). uc (vf_value f) = uc (field_name_str n)"
  shows "(enum_from_value uc variants f :: ('v, 'x) form_result) = Ok (vr_builder v)"
proof -
  let ?has = "\<lambda>v. \<exists>n \<in> set (form_field_values v). uc (vf_value f) = uc (field_name_str n)"
  have "first_duplicate (field_name_eq uc) (map form_field_values variants) = None"
    using assms(1) by (auto simp: enum_validate_def split: if_splits option.splits)
  then have s: "sorted_wrt (\<lambda>u w. \<forall>a \<in> set (form_field_values u). \<forall>b \<in> set (form_field_values w).
      \<not> field_name_eq uc b a) variants"
    by (intro sorted_wrt_concat) (simp add: first_duplicate_None)
  have unc: "a = Uncased (field_name_str a)" if "a \<in> set (form_field_values u)" for a and u :: "'v variant"
    using that by (auto simp: form_field_values_def split: if_splits)
  have "field_name_eq uc b a" if "a \<in> set (form_field_values u)" "b \<in> set (form_field_values w)"
      "uc (field_name_str a) = uc (field_name_str b)" for a b and u w :: "'v variant"
    using unc [OF that(1)] unc [OF that(2)] that(3) by (metis field_name_eq.simps(4))
  then have "sorted_wrt (\<lambda>u w. \<not> (?has u \<and> ?has w)) variants"
    using s by (rule_tac sorted_wrt_mono_rel [OF _ s]) fastforce
  then have "find ?has variants = Some v" using assms(2,3) by (induction variants) auto
  then show ?thesis by (simp add: enum_from_value_def list_ex_iff)
qed

section \<open>Properties\<close>

text \<open>
  C34. Derived structures (\<open>derive_from_form\<close>, \<open>from_form.rs\<close>): for a structure that the derive accepts, each of its fields
  is parsed alone, from the form fields whose first key is one of its names, without that key and in their order; a
  field that gets none takes its default, the attribute's only when the form is not strict; when nothing else fails
  the value is that of all fields.  Otherwise every error is reported: form fields that no field takes, when strict,
  the errors of the fields, with their names, and those of every validator whose fields have values.
\<close>

theorem derived_form_spec:
  assumes "derive_validate uc sd = None"
  shows "form_run (ff_derived uc sd) opts xs =
    map_option (\<lambda>rs. let errors = unexpected_errors uc sd opts xs @ errs rs
                         @ run_validators sd (last_parent xs) (map ok_opt rs)
                     in if errors \<noteq> [] then Err errors else Ok (oks rs))
      (those (map (struct_field_result uc sd opts xs) (sd_fields sd)))"
  using assms by (rule derived_form_run)

text \<open>A type that takes the last value pushed to it, for the witness.\<close>

definition keep_last :: "(str list, unit, unit, str) FromForm" where
  "keep_last =
     \<lparr>ff_init = (\<lambda>_. []), ff_push_value = (\<lambda>c f. Some (vf_value f # c)), ff_push_data = (\<lambda>c _. Some c),
      ff_push_error = default_push_error,
      ff_finalize = (\<lambda>c. Some (case c of [] \<Rightarrow> Err [error_from Missing] | v # _ \<Rightarrow> Ok v))\<rparr>"

definition plain_attr :: "(unit, str) FieldAttr" where
  "plain_attr = \<lparr>fa_name = None, fa_validate = None, fa_default = None, fa_default_with = None\<rparr>"

definition sample_struct :: "(str list, unit, unit, str) struct_def" where
  "sample_struct =
     \<lparr>sd_attrs = [],
      sd_fields =
        [\<lparr>sf_ident = Some ''a'', sf_attrs = [], sf_ty = keep_last\<rparr>,
         \<lparr>sf_ident = Some ''b'', sf_attrs = [plain_attr\<lparr>fa_default := Some (Some ''z'')\<rparr>], sf_ty = keep_last\<rparr>]\<rparr>"

lemma sample_struct_accepted: "derive_validate lowercase sample_struct = None"
  by (simp add: derive_validate_def sample_struct_def are_unnamed_def first_duplicate_def field_names_def plain_attr_def
      List.map_filter_simps name_from_def starts_with_def field_default_def)

lemmas struct_eval = sample_struct_def plain_attr_def field_names_def List.map_filter_simps name_from_def
  starts_with_def are_unnamed_def takes_field_def field_matches_def field_default_def

lemma key_a: "key_lossy (field_name (Inl (value_field_from (''a'', ''1'')))) = ''a''"
  by (simp add: field_name_def value_field_from_def key_lossy_def view_new_def shift_def shift_len_def start_delim_def Let_def)

theorem derived_form_spec_witness:
  "form_run (ff_derived lowercase sample_struct) Lenient [Inl (value_field_from (''a'', ''1''))] = Some (Ok [''1'', ''z''])"
proof -
  let ?x = "Inl (value_field_from (''a'', ''1'')) :: unit field"
  let ?a = "\<lparr>sf_ident = Some ''a'', sf_attrs = [], sf_ty = keep_last\<rparr>"
    and ?b = "\<lparr>sf_ident = Some ''b'', sf_attrs = [plain_attr\<lparr>fa_default := Some (Some ''z'')\<rparr>], sf_ty = keep_last\<rparr>"
  have shares: "field_share lowercase sample_struct [?x] ?a = [shift_field ?x]"
      "field_share lowercase sample_struct [?x] ?b = []"
    by (simp_all add: field_share_def struct_eval key_a)
  have run: "form_run keep_last Lenient [shift_field ?x] = Some (Ok ''1'')"
    by (simp add: form_run_def keep_last_def shift_field_def field_shift_def push_field_def value_field_from_def)
  have "struct_field_result lowercase sample_struct Lenient [?x] ?a = Some (Ok ''1'')"
    by (simp add: struct_field_result_def shares run named_result_def)
  moreover have "struct_field_result lowercase sample_struct Lenient [?x] ?b = Some (Ok ''z'')"
  proof -
    have "default_value sample_struct ?b Lenient = Some (Some ''z'')"
      by (simp add: default_value_def struct_eval Lenient_def)
    then show ?thesis by (simp add: struct_field_result_def shares named_result_def)
  qed
  moreover have "sd_fields sample_struct = [?a, ?b]" by (simp add: sample_struct_def)
  moreover have "run_validators sample_struct p vs = []" for p vs
    by (simp add: run_validators_def field_validators_def struct_eval)
  moreover have "unexpected_errors lowercase sample_struct Lenient [?x] = []"
    by (simp add: unexpected_errors_def unexpected_in_def Lenient_def)
  ultimately show ?thesis using derived_form_spec [OF sample_struct_accepted, of Lenient "[?x]"] by simp
qed

text \<open>The divergence for a tuple structure around a structure with a field \<open>a\<close>: the form \<open>a=1\<close> is lost.\<close>

lemma key_shifted: "key_lossy (field_name (shift_field (Inl (value_field_from (''a'', ''1''))))) = []"
  by (simp add: field_name_def shift_field_def field_shift_def value_field_from_def key_lossy_def view_new_def shift_def
      shift_len_def start_delim_def Let_def)

lemma newtype_loses_fields:
  "form_run (ff_derived lowercase (newtype_def (ff_derived lowercase sample_struct))) Lenient
     [Inl (value_field_from (''a'', ''1''))] \<noteq> Some (Ok [[''1'', ''z'']])"
proof -
  let ?x = "shift_field (Inl (value_field_from (''a'', ''1''))) :: unit field"
  let ?a = "\<lparr>sf_ident = Some ''a'', sf_attrs = [], sf_ty = keep_last\<rparr>"
  have "field_share lowercase sample_struct [?x] ?a = []"
    by (simp add: field_share_def struct_eval key_shifted)
  have "\<exists>e. struct_field_result lowercase sample_struct Lenient [?x] ?a = Some (Err e) \<and> e \<noteq> []"
  proof -
    have "default_value sample_struct ?a Lenient = Some None"
      by (simp add: default_value_def struct_eval ff_default_def keep_last_def)
    then show ?thesis using \<open>field_share lowercase sample_struct [?x] ?a = []\<close>
      by (simp add: struct_field_result_def named_result_def)
  qed
  then obtain e where "struct_field_result lowercase sample_struct Lenient [?x] ?a = Some (Err e)" "e \<noteq> []" by blast
  then have "\<nexists>v. form_run (ff_derived lowercase sample_struct) Lenient [?x] = Some (Ok v)"
    unfolding derived_form_run [OF sample_struct_accepted]
    by (auto simp: sample_struct_def Let_def split: option.splits if_splits)
  then show ?thesis by (auto simp: newtype_form_run split: sum.splits)
qed

end
