(* ===== verification/UriMacros.thy ===== *)
theory UriMacros
  imports RouteMacros
begin

text \<open>
  The \<open>uri!\<close> macro (\<open>core/codegen/src/bang\<close>: \<open>uri_parsing.rs\<close>, \<open>uri.rs\<close>; \<open>internal_uri_macro_decl\<close>,
  \<open>attribute/route/mod.rs\<close>): how the arguments of \<open>uri!("/prefix", route(e1, name = e2), "?suffix")\<close> are split and
  validated against the parameters of the route, and which arguments the generated code gives to \<open>RouteUriBuilder\<close>.

  A token tree is a comma or anything else.  An expression is of an arbitrary type \<open>'e\<close>; \<open>disp\<close> is what
  \<open>UriDisplay\<close> writes for it after the conversion \<open>FromUriParam\<close> to the type of the route's argument, and \<open>own\<close> what it
  writes for it as it is.  Spans and hints of diagnostics are left out; a call of \<open>expect\<close> or \<open>panic!\<close> that fails
  is the error \<open>Panic\<close>.
\<close>

section \<open>Model: arguments\<close>

datatype 'e ArgExpr = Expr 'e | IgnoredExpr

datatype 'e Arg = Unnamed "'e ArgExpr" | Named str str "'e ArgExpr"

datatype 'e Args = UnnamedArgs "'e Arg list" | NamedArgs "'e Arg list"


datatype macro_error =
    MixedArguments | NoMacroArguments | TooManyMacroArguments nat | LeftOverTokens
  | InvalidRouteUri | IgnoredPathParam | UnnamedExpected "Dynamic list" | CountMismatch nat nat
  | InvalidParameters "str list" "str list" "str list"
  | InvalidLiteral uri_error | PrefixWithQuery | SuffixNotQueryFragment | Panic

definition arg_parse :: "str option \<times> 'e ArgExpr \<Rightarrow> 'e Arg" where
  "arg_parse a = (case a of (Some ident, expr) \<Rightarrow> Named (name_from ident) ident expr | (None, expr) \<Rightarrow> Unnamed expr)"

definition is_named :: "'e Arg \<Rightarrow> bool" where
  "is_named self = (case self of Named _ _ _ \<Rightarrow> True | Unnamed _ \<Rightarrow> False)"

definition arg_unnamed :: "'e Arg \<Rightarrow> 'e ArgExpr option" where
  "arg_unnamed self = (case self of Unnamed expr \<Rightarrow> Some expr | Named _ _ _ \<Rightarrow> None)"

definition arg_named :: "'e Arg \<Rightarrow> (str \<times> str \<times> 'e ArgExpr) option" where
  "arg_named self = (case self of Named name ident expr \<Rightarrow> Some (name, ident, expr) | Unnamed _ \<Rightarrow> None)"





section \<open>Model: the parts of the invocation\<close>

datatype 'k token_tree = Comma | Tree 'k

fun token_stream :: "'k token_tree list \<Rightarrow> 'k list \<times> 'k token_tree list" where
  "token_stream [] = ([], [])"
| "token_stream (Comma # cursor) = ([], cursor)"
| "token_stream (Tree tt # cursor) = (let (stream, cursor) = token_stream cursor in (tt # stream, cursor))"

lemma token_stream_shorter: "fst (token_stream ts) \<noteq> [] \<Longrightarrow> length (snd (token_stream ts)) < length ts"
proof (induction ts rule: token_stream.induct)
  case (3 tt cursor)
  then show ?case by (cases "token_stream cursor"; cases "fst (token_stream cursor) = []")
    (auto intro: le_imp_less_Suc elim: token_stream.elims split: prod.splits)
qed simp_all

function macro_args :: "'k token_tree list \<Rightarrow> 'k list list \<times> 'k token_tree list" where
  "macro_args input =
     (if fst (token_stream input) = [] then ([], snd (token_stream input))
      else let (args, rest) = macro_args (snd (token_stream input)) in (fst (token_stream input) # args, rest))"
  by auto
termination by (relation "measure length") (simp_all add: token_stream_shorter)

declare macro_args.simps [simp del]

datatype 'k macro_shape = Unary "'k list" | Binary "'k list" "'k list" | Ternary "'k list" "'k list" "'k list"

definition uri_macro_parse :: "'k token_tree list \<Rightarrow> ('k macro_shape, macro_error) result" where
  "uri_macro_parse input =
     (let (args, rest) = macro_args input
      in case args of
           [] \<Rightarrow> Err NoMacroArguments
         | [a] \<Rightarrow> if rest = [] then Ok (Unary a) else Err LeftOverTokens
         | [a, b] \<Rightarrow> if rest = [] then Ok (Binary a b) else Err LeftOverTokens
         | [a, b, c] \<Rightarrow> if rest = [] then Ok (Ternary a b c) else Err LeftOverTokens
         | _ \<Rightarrow> Err (TooManyMacroArguments (length args)))"

section \<open>Model: prefixes and suffixes\<close>

datatype 'e uri_slot = SlotIgnored | SlotLit str | SlotExpr 'e

datatype 'e UriExpr = OriginLit Origin | AbsoluteLit Absolute | ReferenceLit Reference | UriExpr 'e

definition parse_prefix ::
  "(str \<Rightarrow> (Origin, uri_error) result) \<Rightarrow> (str \<Rightarrow> (Absolute, uri_error) result) \<Rightarrow> 'e uri_slot
   \<Rightarrow> ('e UriExpr option, macro_error) result" where
  "parse_prefix origin absolute input =
     (case input of
        SlotIgnored \<Rightarrow> Ok None
      | SlotExpr e \<Rightarrow> Ok (Some (UriExpr e))
      | SlotLit lit \<Rightarrow>
          (case origin lit of
             Ok og \<Rightarrow> (case raw_origin_query og of
                 None \<Rightarrow> Err Panic
               | Some (Some _) \<Rightarrow> Err PrefixWithQuery
               | Some None \<Rightarrow> Ok (Some (OriginLit og)))
           | Err e \<Rightarrow>
               (case absolute lit of
                  Ok a \<Rightarrow> (case absolute_query a of
                      None \<Rightarrow> Err Panic
                    | Some (Some _) \<Rightarrow> Err PrefixWithQuery
                    | Some None \<Rightarrow> Ok (Some (AbsoluteLit a)))
                | Err e2 \<Rightarrow> Err (InvalidLiteral (if starts_with lit ''/'' then e else e2)))))"

definition parse_suffix ::
  "(str \<Rightarrow> (Reference, uri_error) result) \<Rightarrow> 'e uri_slot \<Rightarrow> ('e UriExpr option, macro_error) result" where
  "parse_suffix reference input =
     (case input of
        SlotIgnored \<Rightarrow> Ok None
      | SlotExpr e \<Rightarrow> Ok (Some (UriExpr e))
      | SlotLit lit \<Rightarrow>
          (case reference lit of
             Err e \<Rightarrow> Err (InvalidLiteral e)
           | Ok uri \<Rightarrow>
               (case (reference_scheme uri, reference_path uri, reference_query uri, reference_fragment uri) of
                  (Some scheme, Some path, Some query, Some fragment) \<Rightarrow>
                    if scheme \<noteq> None \<or> rf_authority uri \<noteq> None \<or> path \<noteq> [] then Err SuffixNotQueryFragment
                    else if fragment = None then Ok (Some (AbsoluteLit (absolute_const_new [] None [] query)))
                    else Ok (Some (ReferenceLit uri))
                | _ \<Rightarrow> Err Panic)))"

text \<open>The constants that literals become, \<open>ToTokens for Absolute\<close> and \<open>for Reference\<close> (\<open>http_codegen.rs\<close>).\<close>

definition authority_tokens :: "Authority option \<Rightarrow> Authority option option" where
  "authority_tokens auth =
     (case auth of
        None \<Rightarrow> Some None
      | Some a \<Rightarrow> do {
          user_info \<leftarrow> authority_user_info a;
          host \<leftarrow> authority_host a;
          Some (Some (authority_const_new user_info host (au_port a))) })"

definition absolute_tokens :: "Absolute \<Rightarrow> Absolute option" where
  "absolute_tokens self = do {
     absolute \<leftarrow> absolute_normalize self;
     scheme \<leftarrow> absolute_scheme absolute;
     auth \<leftarrow> authority_tokens (ab_authority absolute);
     path \<leftarrow> absolute_path absolute;
     query \<leftarrow> absolute_query absolute;
     Some (absolute_const_new scheme auth path query) }"

definition reference_tokens :: "Reference \<Rightarrow> Reference option" where
  "reference_tokens self = do {
     reference \<leftarrow> reference_normalize self;
     scheme \<leftarrow> reference_scheme reference;
     auth \<leftarrow> authority_tokens (rf_authority reference);
     path \<leftarrow> reference_path reference;
     query \<leftarrow> reference_query reference;
     frag \<leftarrow> reference_fragment reference;
     Some (reference_const_new scheme auth path query frag) }"

section \<open>Model: the internal macro\<close>

record ('t, 'e) internal_uri_params =
  iu_route_uri :: origin
  iu_path_params :: "'t Parameter list"
  iu_query_params :: "'t Parameter list"
  iu_fn_args :: "(str \<times> 't) list"
  iu_args :: "'e Args"

















section \<open>Lemmas: parameters\<close>






fun fill_query :: "('t \<Rightarrow> 'e \<Rightarrow> call list) \<Rightarrow> 't Parameter list \<Rightarrow> 'e ArgExpr list \<Rightarrow> UriQueryArgument list" where
  "fill_query disp (Static v # ps) es = Raw v # fill_query disp ps es"
| "fill_query disp (Guard g # ps) (IgnoredExpr # es) = fill_query disp ps es"
| "fill_query disp (Guard g # ps) (Expr e # es) =
     (if dy_trailing (g_source g) then Value (disp (g_ty g) e) else NameValue (dy_name (g_source g)) (disp (g_ty g) e))
       # fill_query disp ps es"
| "fill_query _ _ _ = []"

definition is_slot :: "'t Parameter \<Rightarrow> bool" where
  "is_slot p = (p_static p = None)"

lemma is_slot_simps [simp]: "\<not> is_slot (Static v)" "is_slot (Ignored d)" "is_slot (Dynamic d)" "is_slot (Guard g)"
  by (simp_all add: is_slot_def p_static_def)

definition fn_args_of :: "'t Parameter list \<Rightarrow> (str \<times> 't) list" where
  "fn_args_of ps = map (\<lambda>g. (g_fn_ident g, g_ty g)) (List.map_filter p_guard ps)"

lemma fn_args_of_simps [simp]:
  "fn_args_of [] = []" "fn_args_of (Static v # ps) = fn_args_of ps" "fn_args_of (Ignored d # ps) = fn_args_of ps"
  "fn_args_of (Guard g # ps) = (g_fn_ident g, g_ty g) # fn_args_of ps"
  by (simp_all add: fn_args_of_def List.map_filter_simps p_guard_def)






section \<open>Lemmas: validation\<close>








section \<open>Lemmas: the macro of an accepted route\<close>


lemma p_ignored_mut [simp]: "p_ignored (p_dynamic_mut f q) = p_ignored q"
  by (cases q) (simp_all add: p_ignored_def p_dynamic_mut_def)



definition internal_of :: "'t macro_route \<Rightarrow> 't Parameter list \<Rightarrow> 't Parameter list \<Rightarrow> 'e Args \<Rightarrow> ('t, 'e) internal_uri_params" where
  "internal_of mr qs ms args =
     \<lparr>iu_route_uri = at_uri (mr_attr mr), iu_path_params = qs, iu_query_params = ms,
      iu_fn_args = fn_args_of (mr_path_params mr) @ fn_args_of (mr_query_params mr), iu_args = args\<rparr>"

lemma internal_of_simps [simp]:
  "iu_route_uri (internal_of mr qs ms args) = at_uri (mr_attr mr)"
  "iu_path_params (internal_of mr qs ms args) = qs" "iu_query_params (internal_of mr qs ms args) = ms"
  "iu_fn_args (internal_of mr qs ms args) = fn_args_of (mr_path_params mr) @ fn_args_of (mr_query_params mr)"
  "iu_args (internal_of mr qs ms args) = args"
  by (simp_all add: internal_of_def)






lemma arg_parse_simps [simp]:
  "arg_parse (None, e) = Unnamed e" "arg_parse (Some i, e) = Named (name_from i) i e"
  "is_named (Unnamed e) = False" "is_named (Named n i e) = True"
  "arg_unnamed (Unnamed e) = Some e" "arg_named (Named n i e) = Some (n, i, e)"
  by (simp_all add: arg_parse_def is_named_def arg_unnamed_def arg_named_def)



















section \<open>Lemmas: the path of the URI\<close>

text \<open>A displayed value stands for segments when, written as a value, it appends them, encoded, one item each.\<close>

definition denotes :: "percent_encoder \<Rightarrow> AsciiSet \<Rightarrow> call list \<Rightarrow> str list \<Rightarrow> bool" where
  "denotes enc controls v ss \<longleftrightarrow>
     (\<forall>its fr. spec_call Path [] (WriteValue v) (its, fr) = ((its @ map (percent_encode enc controls) ss, True), True))"


lemma denotes_path:
  "denotes enc controls (display_path enc controls cs)
     (map component_as_os_str (filter (\<lambda>c. c \<noteq> Prefix \<and> c \<noteq> RootDir) cs))"
proof -
  have "spec_calls Path [] (display_path enc controls cs) (its, True) =
      ((its @ map (percent_encode enc controls)
          (map component_as_os_str (filter (\<lambda>c. c \<noteq> Prefix \<and> c \<noteq> RootDir) cs)), True), True)" for its
    by (induction cs arbitrary: its) (auto simp: display_str_def item_head_def split: Component.split)
  then show ?thesis by (simp add: denotes_def)
qed




section \<open>Lemmas: matching\<close>









lemma those_Some_map [simp]: "those (map (\<lambda>a. Some (f a)) xs) = Some (map f xs)"
  by (induction xs) auto



section \<open>Lemmas: named arguments\<close>








section \<open>Properties\<close>


definition sample_mr :: "nat macro_route" where
  "sample_mr =
     \<lparr>mr_attr = sample_attr,
      mr_path_params =
        [Static ''a'', Guard (guard_from \<lparr>dy_name = ''b'', dy_index = 1, dy_trailing = False\<rparr> ''r#b'' 3)],
      mr_query_params =
        [Static ''d=1'', Guard (guard_from \<lparr>dy_name = ''c'', dy_index = 1, dy_trailing = True\<rparr> ''c'' 1)],
      mr_data_guard = None,
      mr_request_guards = [guard_from \<lparr>dy_name = ''g'', dy_index = 0, dy_trailing = False\<rparr> ''g'' 2],
      mr_arguments = sample_args\<rparr>"


lemma sample_mr_params [simp]:
  "mr_path_params sample_mr = [Static ''a'', Guard (guard_from \<lparr>dy_name = ''b'', dy_index = 1, dy_trailing = False\<rparr> ''r#b'' 3)]"
  "mr_query_params sample_mr = [Static ''d=1'', Guard (guard_from \<lparr>dy_name = ''c'', dy_index = 1, dy_trailing = True\<rparr> ''c'' 1)]"
  by (simp_all add: sample_mr_def)




text \<open>
  Static parts of the query among dynamic ones are written raw, without refreshing the formatter in between: two that
  follow each other are joined without an ampersand, so that the fields that the route asks for are not in the URI.
\<close>

lemma adjacent_statics:
  "rb_query (builder_new p (Some (UriArgumentsKind.Dynamic
       (fill_query (\<lambda>_. display_str enc controls) [Static a, Static b, Guard g] [Expr v])))) =
     Some (a @ b @ (if dy_trailing (g_source g) then ''&'' else ''&'' @ dy_name (g_source g) @ ''='') @ percent_encode enc controls v)"
  by (simp add: builder_new_def display_str_def formatter_new_def write_raw_def refreshed_def refresh_def fmt_with_prefix_def
      push_segments.simps Let_def)

text \<open>
  A path without dynamic parts is copied from the attribute as it is, although the router compares the segments of the
  attribute with decoded segments: the URI of a static route with an escape is not matched by the route.
\<close>

lemma static_escape_not_matched:
  assumes "o_path uri = ''/a%20b''" and "ru_metadata (rt_uri rt) = metadata_from ascii_pd base uri" and "o_path (rq_uri req) = o_path uri"
  shows "\<not> paths_match ascii_pd rt req"
proof -
  have "path_raw_segments ''/a%20b'' = [''a%20b'']" "path_segments ascii_pd ''/a%20b'' = [[CHR ''a'', char_of (32 :: nat), CHR ''b'']]"
    by (simp_all add: path_segments_eq raw_segments_slash trim_end_all_printable printable_def decode_path_def
        percent_decode_lossy_def ascii_pd_def unhex_def)
  then show ?thesis
    by (simp add: paths_match_def assms metadata_from_def segments_num_def segments_new_def segments_items_drop
        segment_from_def starts_with_def Let_def)
qed

text \<open>
  The constants that literal suffixes become have no source, so that, unlike a suffix that has been parsed at run time,
  they are always rendered.
\<close>

lemma absolute_suffix_rendered:
  assumes "parse_suffix reference (SlotLit lit) = Ok (Some (AbsoluteLit a))"
  shows "\<exists>c. absolute_tokens a = Some c \<and> prepend_absolute_origin (builder_render b) c \<noteq> None"
proof -
  obtain q where "a = absolute_const_new [] None [] q"
    using assms by (auto simp: parse_suffix_def split: sum.splits option.splits if_splits prod.splits)
  then have "\<exists>c. absolute_tokens a = Some c"
    by (cases q; cases "path_is_normalized False []") (simp_all add: absolute_tokens_def absolute_normalize_def absolute_const_new_def absolute_path_def absolute_query_def
        absolute_scheme_def authority_tokens_def opt_text_def from_cow_source_def Let_def)
  then obtain c where c: "absolute_tokens a = Some c" ..
  then obtain sc au p q where "c = absolute_const_new sc au p q"
    by (auto simp: absolute_tokens_def Option.bind_eq_Some_conv)
  then show ?thesis using c
    by (cases "rb_query b")
      (auto simp: prepend_absolute_origin_def absolute_const_new_def builder_render_def raw_origin_new_def raw_origin_query_def
        opt_text_def from_cow_source_def into_concrete_def split: option.split)
qed

lemma reference_suffix_rendered:
  assumes "reference_tokens r = Some c"
  shows "builder_with_suffix c b \<noteq> None"
proof -
  obtain sc au p q f where "c = reference_const_new sc au p q f"
    using assms by (auto simp: reference_tokens_def Option.bind_eq_Some_conv)
  then show ?thesis by (auto simp: with_suffix_exact reference_const_new_def)
qed

end
