(* ===== verification/Shutdown.thy ===== *)
theory Shutdown
  imports EventStreams
begin

text \<open>
  Shutdown (\<open>core/lib/src/shutdown/\<close> \<open>tripwire.rs\<close>, \<open>handle.rs\<close>, \<open>config.rs\<close>, \<open>sig.rs\<close>; \<open>core/lib/src/listener/cancellable.rs\<close>): the
  wire that is tripped once and wakes every task that waits for it, the three stages of a shutdown that the
  listener for signals goes through, and the I/O of connections that is cancelled in these stages.

  The fields \<open>tripped\<close> and \<open>notify\<close> are shared by the clones of a wire.  Calls on different clones run at the same time,
  so a poll and a trip are also given as the sequences of their accesses to the shared fields, and the runs of a wire
  are the interleavings of these accesses.  \<open>Notify\<close> is a type of the crate \<open>tokio\<close>: its operations are the record
  \<open>notify_ops\<close>, in which a future is named by the wire that owns it, and the waker with which a wire is polled is named
  by the wire.
\<close>

section \<open>Model: trip wires\<close>

record 'n notify_ops =
  nt_new :: 'n
  nt_notified :: "nat \<Rightarrow> 'n \<Rightarrow> 'n"
  nt_poll :: "nat \<Rightarrow> 'n \<Rightarrow> bool \<times> 'n"
  nt_drop :: "nat \<Rightarrow> 'n \<Rightarrow> 'n"
  nt_notify_waiters :: "'n \<Rightarrow> nat set \<times> 'n"

record 'n State =
  ws_tripped :: bool
  ws_notify :: 'n

definition wire_new :: "'n notify_ops \<Rightarrow> 'n State" where
  "wire_new ops = \<lparr>ws_tripped = False, ws_notify = nt_new ops\<rparr>"

definition set_event_none :: "'n notify_ops \<Rightarrow> nat \<Rightarrow> bool \<Rightarrow> 'n State \<Rightarrow> 'n State" where
  "set_event_none ops i event st = (if event then st\<lparr>ws_notify := nt_drop ops i (ws_notify st)\<rparr> else st)"

definition set_event_notified :: "'n notify_ops \<Rightarrow> nat \<Rightarrow> 'n State \<Rightarrow> 'n State" where
  "set_event_notified ops i st = st\<lparr>ws_notify := nt_notified ops i (ws_notify st)\<rparr>"

definition poll_event :: "'n notify_ops \<Rightarrow> nat \<Rightarrow> 'n State \<Rightarrow> bool \<times> 'n State" where
  "poll_event ops i st = (case nt_poll ops i (ws_notify st) of (ready, n) \<Rightarrow> (ready, st\<lparr>ws_notify := n\<rparr>))"

text \<open>The poll of wire \<open>i\<close>, whose field \<open>event\<close> is \<open>Some\<close> if \<open>event\<close>, when nothing runs at the same time.\<close>

definition wire_poll :: "'n notify_ops \<Rightarrow> nat \<Rightarrow> bool \<Rightarrow> 'n State \<Rightarrow> unit Poll \<times> bool \<times> 'n State" where
  "wire_poll ops i event st =
     (if ws_tripped st then (Ready (), False, set_event_none ops i event st)
      else let st = (if \<not> event then set_event_notified ops i st else st);
               (ready, st) = poll_event ops i st
           in if ready \<or> ws_tripped st then (Ready (), False, set_event_none ops i True st)
              else (Pending, True, st))"

definition is_terminated :: "'n State \<Rightarrow> bool" where
  "is_terminated st = ws_tripped st"

definition trip :: "'n notify_ops \<Rightarrow> 'n State \<Rightarrow> nat set \<times> 'n State" where
  "trip ops st = (case nt_notify_waiters ops (ws_notify st) of (woken, n) \<Rightarrow> (woken, \<lparr>ws_tripped = True, ws_notify = n\<rparr>))"

section \<open>Model: concurrent calls\<close>

datatype poll_pc = Idle "unit Poll option" | AtLoad | AtCreate | AtEvent | AtReload

text \<open>
  For each wire: whether its event is set, where its poll is, and whether its waker has been woken since that poll
  began; for each call of \<open>trip\<close>, whether it has stored \<open>tripped\<close> and not yet notified.
\<close>

record 'n wires =
  tw_state :: "'n State"
  tw_event :: "nat \<Rightarrow> bool"
  tw_pc :: "nat \<Rightarrow> poll_pc"
  tw_woken :: "nat \<Rightarrow> bool"
  tw_stored :: "nat \<Rightarrow> bool"

definition wires_init :: "'n notify_ops \<Rightarrow> 'n wires" where
  "wires_init ops =
     \<lparr>tw_state = wire_new ops, tw_event = (\<lambda>_. False), tw_pc = (\<lambda>_. Idle None), tw_woken = (\<lambda>_. False),
      tw_stored = (\<lambda>_. False)\<rparr>"

definition poll_begin :: "nat \<Rightarrow> 'n wires \<Rightarrow> 'n wires" where
  "poll_begin i s = s\<lparr>tw_pc := (tw_pc s)(i := AtLoad), tw_woken := (tw_woken s)(i := False)\<rparr>"

definition poll_return :: "'n notify_ops \<Rightarrow> nat \<Rightarrow> 'n wires \<Rightarrow> 'n wires" where
  "poll_return ops i s =
     s\<lparr>tw_state := set_event_none ops i (tw_event s i) (tw_state s), tw_event := (tw_event s)(i := False),
       tw_pc := (tw_pc s)(i := Idle (Some (Ready ())))\<rparr>"

definition poll_step :: "'n notify_ops \<Rightarrow> nat \<Rightarrow> 'n wires \<Rightarrow> 'n wires" where
  "poll_step ops i s =
     (case tw_pc s i of
        Idle _ \<Rightarrow> s
      | AtLoad \<Rightarrow>
          if ws_tripped (tw_state s) then poll_return ops i s
          else s\<lparr>tw_pc := (tw_pc s)(i := if tw_event s i then AtEvent else AtCreate)\<rparr>
      | AtCreate \<Rightarrow>
          s\<lparr>tw_state := set_event_notified ops i (tw_state s), tw_event := (tw_event s)(i := True),
            tw_pc := (tw_pc s)(i := AtEvent)\<rparr>
      | AtEvent \<Rightarrow>
          (case poll_event ops i (tw_state s) of
             (ready, st) \<Rightarrow>
               if ready then poll_return ops i (s\<lparr>tw_state := st\<rparr>)
               else s\<lparr>tw_state := st, tw_pc := (tw_pc s)(i := AtReload)\<rparr>)
      | AtReload \<Rightarrow>
          if ws_tripped (tw_state s) then poll_return ops i s
          else s\<lparr>tw_pc := (tw_pc s)(i := Idle (Some Pending))\<rparr>)"

definition wire_drop :: "'n notify_ops \<Rightarrow> nat \<Rightarrow> 'n wires \<Rightarrow> 'n wires" where
  "wire_drop ops i s =
     s\<lparr>tw_state := set_event_none ops i (tw_event s i) (tw_state s), tw_event := (tw_event s)(i := False),
       tw_pc := (tw_pc s)(i := Idle None)\<rparr>"

definition trip_store :: "nat \<Rightarrow> 'n wires \<Rightarrow> 'n wires" where
  "trip_store j s = s\<lparr>tw_state := (tw_state s)\<lparr>ws_tripped := True\<rparr>, tw_stored := (tw_stored s)(j := True)\<rparr>"

definition trip_notify :: "'n notify_ops \<Rightarrow> nat \<Rightarrow> 'n wires \<Rightarrow> 'n wires" where
  "trip_notify ops j s =
     (case nt_notify_waiters ops (ws_notify (tw_state s)) of
        (woken, n) \<Rightarrow>
          s\<lparr>tw_state := (tw_state s)\<lparr>ws_notify := n\<rparr>, tw_woken := (\<lambda>i. i \<in> woken \<or> tw_woken s i),
            tw_stored := (tw_stored s)(j := False)\<rparr>)"

inductive wires_next :: "'n notify_ops \<Rightarrow> 'n wires \<Rightarrow> 'n wires \<Rightarrow> bool" for ops where
  wn_begin: "tw_pc s i = Idle r \<Longrightarrow> wires_next ops s (poll_begin i s)"
| wn_step: "\<forall>r. tw_pc s i \<noteq> Idle r \<Longrightarrow> wires_next ops s (poll_step ops i s)"
| wn_drop: "tw_pc s i = Idle r \<Longrightarrow> wires_next ops s (wire_drop ops i s)"
| wn_store: "\<not> tw_stored s j \<Longrightarrow> wires_next ops s (trip_store j s)"
| wn_notify: "tw_stored s j \<Longrightarrow> wires_next ops s (trip_notify ops j s)"

inductive wires_reach :: "'n notify_ops \<Rightarrow> 'n wires \<Rightarrow> bool" for ops where
  wr_init: "wires_reach ops (wires_init ops)"
| wr_next: "wires_reach ops s \<Longrightarrow> wires_next ops s s' \<Longrightarrow> wires_reach ops s'"

section \<open>Model: configuration and signals\<close>

datatype Sig = Alrm | Chld | Hup | SigInt | Io | Pipe | Quit | Term | Usr1 | Usr2

fun sig_as_str :: "Sig \<Rightarrow> str" where
  "sig_as_str Alrm = ''SIGALRM''"
| "sig_as_str Chld = ''SIGCHLD''"
| "sig_as_str Hup = ''SIGHUP''"
| "sig_as_str SigInt = ''SIGINT''"
| "sig_as_str Io = ''SIGIO''"
| "sig_as_str Pipe = ''SIGPIPE''"
| "sig_as_str Quit = ''SIGQUIT''"
| "sig_as_str Term = ''SIGTERM''"
| "sig_as_str Usr1 = ''SIGUSR1''"
| "sig_as_str Usr2 = ''SIGUSR2''"

record ShutdownConfig =
  sc_ctrlc :: bool
  sc_signals :: "Sig set"
  sc_grace :: "32 word"
  sc_mercy :: "32 word"
  sc_force :: bool

definition shutdown_config_default :: ShutdownConfig where
  "shutdown_config_default = \<lparr>sc_ctrlc = True, sc_signals = {Term}, sc_grace = 2, sc_mercy = 3, sc_force = True\<rparr>"

text \<open>Durations are in seconds; \<open>enabled\<close> says which signals the system lets the process listen to.\<close>

definition sc_grace_duration :: "ShutdownConfig \<Rightarrow> nat" where
  "sc_grace_duration self = unat (ucast (sc_grace self) :: 64 word)"

definition sc_mercy_duration :: "ShutdownConfig \<Rightarrow> nat" where
  "sc_mercy_duration self = unat (ucast (sc_mercy self) :: 64 word)"

definition signal_stream :: "(Sig \<Rightarrow> bool) \<Rightarrow> ShutdownConfig \<Rightarrow> Sig set option" where
  "signal_stream enabled self =
     (if \<not> sc_ctrlc self \<and> sc_signals self = {} then None
      else let signals = (if sc_ctrlc self then insert SigInt (sc_signals self) else sc_signals self)
           in Some {s \<in> signals. enabled s})"

section \<open>Model: cancellable I/O\<close>

datatype stage = Start | GraceStage | MercyStage

datatype cancel_state = Active | Grace | Mercy

datatype 'e io_error = TimedOut | BrokenPipe | IoError 'e

record 'i Cancellable =
  cn_io :: "'i option"
  cn_state :: cancel_state

definition cancellable :: "'i \<Rightarrow> 'i Cancellable" where
  "cancellable io = \<lparr>cn_io = Some io, cn_state = Active\<rparr>"

text \<open>The call of the operation, \<open>do_io(io, cx)\<close>, in a state, and the cancellation of the I/O, \<open>poll_cancel\<close>.\<close>

definition pass_io ::
  "('i \<Rightarrow> ('a, 'e) result Poll \<times> 'i) \<Rightarrow> 'i \<Rightarrow> cancel_state \<Rightarrow> ('a, 'e io_error) result Poll \<times> 'i Cancellable" where
  "pass_io do_io io state =
     (case do_io io of (r, io) \<Rightarrow>
        (case r of
           Pending \<Rightarrow> Pending
         | Ready v \<Rightarrow> Ready (case v of Ok a \<Rightarrow> Ok a | Err e \<Rightarrow> Err (IoError e)),
         \<lparr>cn_io = Some io, cn_state = state\<rparr>))"

definition cancel_io ::
  "('i \<Rightarrow> (unit, 'e) result Poll \<times> 'i) \<Rightarrow> 'i \<Rightarrow> ('a, 'e io_error) result Poll \<times> 'i Cancellable" where
  "cancel_io cancel io =
     (case cancel io of (r, io) \<Rightarrow>
        (case r of
           Pending \<Rightarrow> (Pending, \<lparr>cn_io = Some io, cn_state = Mercy\<rparr>)
         | Ready result \<Rightarrow>
             (Ready (Err (case result of Ok _ \<Rightarrow> BrokenPipe | Err e \<Rightarrow> IoError e)), \<lparr>cn_io = None, cn_state = Mercy\<rparr>)))"

text \<open>The loop of \<open>poll_with\<close>: \<open>poll\<close> polls a stage, in a state of the wires that it may change.\<close>

function poll_loop ::
  "(stage \<Rightarrow> 's \<Rightarrow> bool \<times> 's) \<Rightarrow> ('i \<Rightarrow> (unit, 'e) result Poll \<times> 'i) \<Rightarrow> ('i \<Rightarrow> ('a, 'e) result Poll \<times> 'i) \<Rightarrow> 'i
   \<Rightarrow> cancel_state \<Rightarrow> 's \<Rightarrow> (('a, 'e io_error) result Poll \<times> 'i Cancellable) \<times> 's" where
  "poll_loop poll cancel do_io io Active s =
     (case poll Start s of
        (ready, s) \<Rightarrow> if ready then poll_loop poll cancel do_io io Grace s else (pass_io do_io io Active, s))"
| "poll_loop poll cancel do_io io Grace s =
     (case poll GraceStage s of
        (ready, s) \<Rightarrow> if ready then poll_loop poll cancel do_io io Mercy s else (pass_io do_io io Grace, s))"
| "poll_loop poll cancel do_io io Mercy s =
     (case poll MercyStage s of
        (ready, s) \<Rightarrow>
          if ready then ((Ready (Err TimedOut), \<lparr>cn_io = None, cn_state = Mercy\<rparr>), s) else (cancel_io cancel io, s))"
  by pat_completeness auto
termination
  by (relation "measure (\<lambda>(_, _, _, _, state, _). case state of Active \<Rightarrow> 2 | Grace \<Rightarrow> 1 | Mercy \<Rightarrow> 0)") auto

definition poll_with ::
  "(stage \<Rightarrow> 's \<Rightarrow> bool \<times> 's) \<Rightarrow> ('i \<Rightarrow> (unit, 'e) result Poll \<times> 'i) \<Rightarrow> ('i \<Rightarrow> ('a, 'e) result Poll \<times> 'i)
   \<Rightarrow> 'i Cancellable \<Rightarrow> 's \<Rightarrow> (('a, 'e io_error) result Poll \<times> 'i Cancellable) \<times> 's" where
  "poll_with poll cancel do_io self s =
     (case cn_io self of
        None \<Rightarrow> ((Ready (Err BrokenPipe), self), s)
      | Some io \<Rightarrow> poll_loop poll cancel do_io io (cn_state self) s)"

text \<open>\<open>Stream::poll_next\<close>: an error of the wrapper is an item.\<close>

definition cancellable_next ::
  "(stage \<Rightarrow> 's \<Rightarrow> bool \<times> 's) \<Rightarrow> ('i \<Rightarrow> (unit, 'e) result Poll \<times> 'i) \<Rightarrow> ('i \<Rightarrow> ('a, 'e) result option Poll \<times> 'i)
   \<Rightarrow> 'i Cancellable \<Rightarrow> 's \<Rightarrow> (('a, 'e io_error) result option Poll \<times> 'i Cancellable) \<times> 's" where
  "cancellable_next poll cancel next_item self s =
     (case poll_with poll cancel (\<lambda>io. case next_item io of (r, io) \<Rightarrow> (map_Poll Ok r, io)) self s of
        ((r, self), s) \<Rightarrow>
          ((case r of
              Pending \<Rightarrow> Pending
            | Ready (Ok v) \<Rightarrow> Ready (map_option (\<lambda>v. case v of Ok a \<Rightarrow> Ok a | Err e \<Rightarrow> Err (IoError e)) v)
            | Ready (Err e) \<Rightarrow> Ready (Some (Err e)), self), s))"

text \<open>The poll of a stage whose wires are the \<open>i\<close>th clones.\<close>

type_synonym 'n stages = "stage \<Rightarrow> bool \<times> 'n State"

definition stage_poll :: "'n notify_ops \<Rightarrow> nat \<Rightarrow> stage \<Rightarrow> 'n stages \<Rightarrow> bool \<times> 'n stages" where
  "stage_poll ops i k s =
     (case s k of (event, st) \<Rightarrow>
        (case wire_poll ops i event st of (r, event, st) \<Rightarrow> (r = Ready (), s(k := (event, st)))))"

section \<open>Model: the stages of a shutdown\<close>

datatype listener = Waiting | GraceUntil nat | MercyUntil nat | Finished

text \<open>
  For each stage, when it was notified; the clock; where the task that \<open>spawn_listener\<close> spawns is; and the connections.
\<close>

record 'i server =
  sv_at :: "stage \<Rightarrow> nat option"
  sv_now :: nat
  sv_listener :: listener
  sv_conns :: "nat \<Rightarrow> 'i Cancellable option"

definition server_init :: "'i server" where
  "server_init = \<lparr>sv_at = (\<lambda>_. None), sv_now = 0, sv_listener = Waiting, sv_conns = (\<lambda>_. None)\<rparr>"

definition notify_stage :: "stage \<Rightarrow> 'i server \<Rightarrow> 'i server" where
  "notify_stage k s = (if sv_at s k = None then s\<lparr>sv_at := (sv_at s)(k \<mapsto> sv_now s)\<rparr> else s)"

definition flags :: "'i server \<Rightarrow> stage \<Rightarrow> bool" where
  "flags s k = (sv_at s k \<noteq> None)"

definition flag_poll :: "stage \<Rightarrow> (stage \<Rightarrow> bool) \<Rightarrow> bool \<times> (stage \<Rightarrow> bool)" where
  "flag_poll k b = (b k, b)"

definition listener_step :: "ShutdownConfig \<Rightarrow> bool \<Rightarrow> 'i server \<Rightarrow> 'i server" where
  "listener_step config received s =
     (case sv_listener s of
        Waiting \<Rightarrow>
          if received then (notify_stage Start s)\<lparr>sv_listener := GraceUntil (sv_now s + sc_grace_duration config)\<rparr>
          else if flags s Start then s\<lparr>sv_listener := GraceUntil (sv_now s + sc_grace_duration config)\<rparr>
          else s
      | GraceUntil t \<Rightarrow>
          if t \<le> sv_now s
          then (notify_stage GraceStage s)\<lparr>sv_listener := MercyUntil (sv_now s + sc_mercy_duration config)\<rparr> else s
      | MercyUntil t \<Rightarrow>
          if t \<le> sv_now s then (notify_stage MercyStage s)\<lparr>sv_listener := Finished\<rparr> else s
      | Finished \<Rightarrow> s)"

definition conn_poll ::
  "('i \<Rightarrow> (unit, 'e) result Poll \<times> 'i) \<Rightarrow> ('i \<Rightarrow> ('a, 'e) result Poll \<times> 'i) \<Rightarrow> 'i Cancellable \<Rightarrow> 'i server
   \<Rightarrow> ('a, 'e io_error) result Poll \<times> 'i Cancellable" where
  "conn_poll cancel do_io c s = fst (poll_with flag_poll cancel do_io c (flags s))"

text \<open>
  The steps of the server during a shutdown: the listener runs, perhaps because a signal has arrived, an application
  notifies its handle, which is the one of the first stage, time passes, a connection is accepted, and one is polled.
\<close>

inductive server_next ::
  "ShutdownConfig \<Rightarrow> (Sig \<Rightarrow> bool) \<Rightarrow> ('i \<Rightarrow> (unit, 'e) result Poll \<times> 'i) \<Rightarrow> ('i \<Rightarrow> ('a, 'e) result Poll \<times> 'i) set
   \<Rightarrow> 'i server \<Rightarrow> 'i server \<Rightarrow> bool" for config enabled cancel ios where
  sn_signal: "signal_stream enabled config = Some sigs \<Longrightarrow> sigs \<noteq> {} \<Longrightarrow>
     server_next config enabled cancel ios s (listener_step config True s)"
| sn_listener: "server_next config enabled cancel ios s (listener_step config False s)"
| sn_notify: "server_next config enabled cancel ios s (notify_stage Start s)"
| sn_tick: "server_next config enabled cancel ios s (s\<lparr>sv_now := Suc (sv_now s)\<rparr>)"
| sn_accept: "server_next config enabled cancel ios s (s\<lparr>sv_conns := (sv_conns s)(k \<mapsto> cancellable io)\<rparr>)"
| sn_poll: "sv_conns s k = Some c \<Longrightarrow> do_io \<in> ios \<Longrightarrow> conn_poll cancel do_io c s = (r, c') \<Longrightarrow>
     server_next config enabled cancel ios s (s\<lparr>sv_conns := (sv_conns s)(k \<mapsto> c')\<rparr>)"

inductive server_reach ::
  "ShutdownConfig \<Rightarrow> (Sig \<Rightarrow> bool) \<Rightarrow> ('i \<Rightarrow> (unit, 'e) result Poll \<times> 'i) \<Rightarrow> ('i \<Rightarrow> ('a, 'e) result Poll \<times> 'i) set
   \<Rightarrow> 'i server \<Rightarrow> bool" for config enabled cancel ios where
  sr_init: "server_reach config enabled cancel ios server_init"
| sr_next: "server_reach config enabled cancel ios s \<Longrightarrow> server_next config enabled cancel ios s s' \<Longrightarrow>
     server_reach config enabled cancel ios s'"

section \<open>Model: waiting for the shutdown\<close>

text \<open>
  \<open>Rocket::try_wait_shutdown\<close>, in microseconds: \<open>strong_count\<close> is the number of references to the instance at a time, and the
  instance is unwrapped when there is no other.
\<close>

fun wait_loop :: "(nat \<Rightarrow> nat) \<Rightarrow> nat list \<Rightarrow> nat \<Rightarrow> nat" where
  "wait_loop strong_count [] t = t"
| "wait_loop strong_count (period # periods) t =
     (if strong_count t = 1 then t else wait_loop strong_count periods (t + period))"

definition wait_periods :: "ShutdownConfig \<Rightarrow> nat list" where
  "wait_periods config =
     (let wait = 250; secs = 1000000
      in [wait, sc_grace_duration config * secs, wait, sc_mercy_duration config * secs, wait * 4])"

definition try_wait_shutdown :: "(nat \<Rightarrow> nat) \<Rightarrow> ShutdownConfig \<Rightarrow> nat \<Rightarrow> nat \<times> bool" where
  "try_wait_shutdown strong_count config t =
     (let t = wait_loop strong_count (wait_periods config) t in (t, strong_count t = 1))"

section \<open>Lemmas: no wake-up is lost\<close>

text \<open>
  What \<open>tokio\<close> documents of \<open>Notify\<close>: a future waits from its creation, before it is polled, until waiters are notified, and
  is ready from then on; a poll that is not ready keeps the waker, and notifying wakes every waker that is kept.
  Here \<open>waits\<close> says that a future waits, and \<open>keeps\<close> that its waker is kept.
\<close>

definition notify_ok :: "'n notify_ops \<Rightarrow> (nat \<Rightarrow> 'n \<Rightarrow> bool) \<Rightarrow> (nat \<Rightarrow> 'n \<Rightarrow> bool) \<Rightarrow> bool" where
  "notify_ok ops waits keeps \<longleftrightarrow>
     (\<forall>i n. waits i (nt_notified ops i n))
     \<and> (\<forall>i j n. j \<noteq> i \<longrightarrow> waits j (nt_notified ops i n) = waits j n \<and> keeps j (nt_notified ops i n) = keeps j n)
     \<and> (\<forall>i n. fst (nt_poll ops i n) \<longleftrightarrow> \<not> waits i n)
     \<and> (\<forall>i j n. waits j (snd (nt_poll ops i n)) = waits j n)
     \<and> (\<forall>i n. waits i n \<longrightarrow> keeps i (snd (nt_poll ops i n)))
     \<and> (\<forall>i j n. j \<noteq> i \<longrightarrow> keeps j (snd (nt_poll ops i n)) = keeps j n)
     \<and> (\<forall>i j n. j \<noteq> i \<longrightarrow> waits j (nt_drop ops i n) = waits j n \<and> keeps j (nt_drop ops i n) = keeps j n)
     \<and> (\<forall>i n. keeps i n \<longrightarrow> i \<in> fst (nt_notify_waiters ops n))"

text \<open>
  The invariant of the runs: only after \<open>tripped\<close> is stored does a future stop waiting; a wire that is about to return
  pending, or has, keeps its waker or has been woken; and when \<open>tripped\<close> is stored and it has not been woken, the
  notification is still to come.
\<close>

definition wires_inv :: "(nat \<Rightarrow> 'n \<Rightarrow> bool) \<Rightarrow> (nat \<Rightarrow> 'n \<Rightarrow> bool) \<Rightarrow> 'n wires \<Rightarrow> bool" where
  "wires_inv waits keeps s \<longleftrightarrow>
     (\<forall>j. tw_stored s j \<longrightarrow> ws_tripped (tw_state s))
     \<and> (\<forall>i. tw_event s i \<and> \<not> waits i (ws_notify (tw_state s)) \<longrightarrow> ws_tripped (tw_state s))
     \<and> (\<forall>i. tw_pc s i \<in> {AtEvent, AtReload, Idle (Some Pending)} \<longrightarrow> tw_event s i)
     \<and> (\<forall>i. tw_pc s i \<in> {AtReload, Idle (Some Pending)} \<longrightarrow> tw_woken s i \<or> keeps i (ws_notify (tw_state s)))
     \<and> (\<forall>i. tw_pc s i = Idle (Some Pending) \<and> ws_tripped (tw_state s) \<longrightarrow> tw_woken s i \<or> (\<exists>j. tw_stored s j))
     \<and> (\<forall>i. tw_pc s i = Idle (Some (Ready ())) \<longrightarrow> ws_tripped (tw_state s))"

lemma wires_inv_init: "wires_inv waits keeps (wires_init ops)"
  by (simp add: wires_inv_def wires_init_def wire_new_def)

lemma wires_inv_begin: "wires_inv waits keeps s \<Longrightarrow> wires_inv waits keeps (poll_begin i s)"
  unfolding wires_inv_def poll_begin_def by auto

lemma wires_inv_store: "wires_inv waits keeps s \<Longrightarrow> wires_inv waits keeps (trip_store j s)"
  unfolding wires_inv_def trip_store_def by auto

lemma wires_inv_notify:
  assumes "notify_ok ops waits keeps" and "tw_stored s j" and "wires_inv waits keeps s"
  shows "wires_inv waits keeps (trip_notify ops j s)"
proof -
  obtain woken n where w: "nt_notify_waiters ops (ws_notify (tw_state s)) = (woken, n)"
    by (cases "nt_notify_waiters ops (ws_notify (tw_state s))")
  have "i \<in> woken" if "keeps i (ws_notify (tw_state s))" for i
    using assms(1) that w unfolding notify_ok_def by (metis fst_conv)
  moreover have "ws_tripped (tw_state s)" using assms(2,3) by (auto simp: wires_inv_def)
  ultimately show ?thesis using assms(3) unfolding wires_inv_def trip_notify_def w by simp blast
qed

lemma notify_of_event_none:
  assumes "notify_ok ops waits keeps" and "j \<noteq> i"
  shows "waits j (ws_notify (set_event_none ops i e st)) = waits j (ws_notify st)"
    and "keeps j (ws_notify (set_event_none ops i e st)) = keeps j (ws_notify st)"
  using assms by (auto simp: notify_ok_def set_event_none_def)

lemma tripped_set_event [simp]:
  "ws_tripped (set_event_none ops i e st) = ws_tripped st" "ws_tripped (set_event_notified ops i st) = ws_tripped st"
  "ws_tripped (snd (poll_event ops i st)) = ws_tripped st"
  by (simp_all add: set_event_none_def set_event_notified_def poll_event_def split: prod.split)

lemma wires_inv_end:
  assumes "notify_ok ops waits keeps" and "wires_inv waits keeps s" and "pc = Some (Ready ()) \<longrightarrow> ws_tripped (tw_state s)"
    and "pc \<noteq> Some Pending"
  shows "wires_inv waits keeps (s\<lparr>tw_state := set_event_none ops i (tw_event s i) (tw_state s),
     tw_event := (tw_event s)(i := False), tw_pc := (tw_pc s)(i := Idle pc)\<rparr>)"
  using assms(2-4) notify_of_event_none [OF assms(1)] unfolding wires_inv_def by auto

lemma wires_inv_drop:
  "notify_ok ops waits keeps \<Longrightarrow> wires_inv waits keeps s \<Longrightarrow> wires_inv waits keeps (wire_drop ops i s)"
  unfolding wire_drop_def by (rule wires_inv_end) simp_all

lemma wires_inv_return:
  "notify_ok ops waits keeps \<Longrightarrow> wires_inv waits keeps s \<Longrightarrow> ws_tripped (tw_state s) \<Longrightarrow> wires_inv waits keeps (poll_return ops i s)"
  unfolding poll_return_def by (rule wires_inv_end) simp_all

lemma wires_inv_create:
  assumes "notify_ok ops waits keeps" and "wires_inv waits keeps s" and "tw_pc s i = AtCreate"
  shows "wires_inv waits keeps (poll_step ops i s)"
proof -
  have "waits i (nt_notified ops i n)" "j \<noteq> i \<Longrightarrow> waits j (nt_notified ops i n) = waits j n"
      "j \<noteq> i \<Longrightarrow> keeps j (nt_notified ops i n) = keeps j n" for j n
    using assms(1) by (simp_all add: notify_ok_def)
  then show ?thesis using assms(2,3) unfolding wires_inv_def poll_step_def by (auto simp: set_event_notified_def)
qed

lemma notify_poll:
  assumes "notify_ok ops waits keeps" and "nt_poll ops i n = (ready, n')"
  shows "ready \<longleftrightarrow> \<not> waits i n" and "waits j n' = waits j n" and "j \<noteq> i \<Longrightarrow> keeps j n' = keeps j n" and "\<not> ready \<Longrightarrow> keeps i n'"
proof -
  note ok = assms(1) [unfolded notify_ok_def]
  show r: "ready \<longleftrightarrow> \<not> waits i n" using ok assms(2) by (metis fst_conv)
  show "waits j n' = waits j n" using ok assms(2) by (metis snd_conv)
  show "j \<noteq> i \<Longrightarrow> keeps j n' = keeps j n" using ok assms(2) by (metis snd_conv)
  show "\<not> ready \<Longrightarrow> keeps i n'" using ok assms(2) r by (metis snd_conv)
qed

lemma wires_inv_event:
  assumes "notify_ok ops waits keeps" and "wires_inv waits keeps s" and "tw_pc s i = AtEvent"
  shows "wires_inv waits keeps (poll_step ops i s)"
proof -
  obtain ready n where p: "nt_poll ops i (ws_notify (tw_state s)) = (ready, n)" by (cases "nt_poll ops i (ws_notify (tw_state s))")
  note poll = notify_poll [OF assms(1) p]
  have other: "keeps j n = keeps j (ws_notify (tw_state s))" if "tw_pc s j \<noteq> AtEvent" for j
    using poll(3) that assms(3) by metis
  show ?thesis
  proof (cases ready)
    case True
    have "wires_inv waits keeps (s\<lparr>tw_state := (tw_state s)\<lparr>ws_notify := n\<rparr>\<rparr>)"
      using assms(2) poll(2) unfolding wires_inv_def by (auto simp: other)
    moreover have "ws_tripped (tw_state s)" using True poll(1) assms(2,3) by (auto simp: wires_inv_def)
    ultimately show ?thesis
      using wires_inv_return [OF assms(1)] assms(3) True by (simp add: poll_step_def poll_event_def p)
  next
    case False
    then show ?thesis using assms(2,3) poll unfolding wires_inv_def poll_step_def
      by (auto simp: poll_event_def p)
  qed
qed

lemma wires_inv_step:
  assumes "notify_ok ops waits keeps" and "wires_inv waits keeps s"
  shows "wires_inv waits keeps (poll_step ops i s)"
proof (cases "tw_pc s i")
  case AtLoad
  then show ?thesis using assms wires_inv_return [OF assms]
    by (auto simp: poll_step_def wires_inv_def)
next
  case AtReload
  then show ?thesis using assms wires_inv_return [OF assms] by (auto simp: poll_step_def wires_inv_def)
next
  case (Idle r)
  then show ?thesis using assms(2) by (simp add: poll_step_def)
qed (use wires_inv_create [OF assms] wires_inv_event [OF assms] in blast)+

lemma wires_inv_next: "wires_next ops s s' \<Longrightarrow> notify_ok ops waits keeps \<Longrightarrow> wires_inv waits keeps s \<Longrightarrow> wires_inv waits keeps s'"
  by (cases rule: wires_next.cases) (auto intro: wires_inv_begin wires_inv_step wires_inv_drop wires_inv_store wires_inv_notify)

lemma wires_reach_inv: "wires_reach ops s \<Longrightarrow> notify_ok ops waits keeps \<Longrightarrow> wires_inv waits keeps s"
  by (induction rule: wires_reach.induct) (auto intro: wires_inv_init wires_inv_next)

section \<open>Lemmas: polling stages\<close>

text \<open>What polling a stage promises: it is ready exactly when the stage was notified, and notifies none.\<close>

locale shutdown_stages =
  fixes poll :: "stage \<Rightarrow> 's \<Rightarrow> bool \<times> 's" and tripped :: "stage \<Rightarrow> 's \<Rightarrow> bool" and ok :: "'s \<Rightarrow> bool"
  assumes poll_tripped: "ok s \<Longrightarrow> fst (poll k s) = tripped k s"
    and poll_keeps: "ok s \<Longrightarrow> tripped j (snd (poll k s)) = tripped j s"
    and poll_ok: "ok s \<Longrightarrow> ok (snd (poll k s))"
begin

lemma poll_cases:
  assumes "ok s"
  obtains s' where "poll k s = (tripped k s, s')" "ok s'" "\<And>j. tripped j s' = tripped j s"
proof (rule that [of "snd (poll k s)"])
  show "poll k s = (tripped k s, snd (poll k s))" using poll_tripped [OF assms, of k] by (simp add: prod_eq_iff)
qed (use poll_keeps [OF assms] poll_ok [OF assms] in blast)+

text \<open>Cancellable I/O on wires behaves as on the flags that say which stages were notified.\<close>

definition agrees :: "(('a, 'e io_error) result Poll \<times> 'i Cancellable) \<times> 's \<Rightarrow> 's
    \<Rightarrow> (('a, 'e io_error) result Poll \<times> 'i Cancellable) \<times> (stage \<Rightarrow> bool) \<Rightarrow> bool" where
  "agrees v s w \<longleftrightarrow> fst v = fst w \<and> ok (snd v) \<and> (\<forall>k. tripped k (snd v) = tripped k s)"

lemma loop_mercy:
  assumes "ok s"
  shows "agrees (poll_loop poll cancel do_io io Mercy s) s (poll_loop flag_poll cancel do_io io Mercy (\<lambda>k. tripped k s))"
  by (rule poll_cases [OF assms, of MercyStage]) (simp add: agrees_def flag_poll_def)

lemma loop_grace:
  assumes "ok s"
  shows "agrees (poll_loop poll cancel do_io io Grace s) s (poll_loop flag_poll cancel do_io io Grace (\<lambda>k. tripped k s))"
proof -
  obtain s' where s': "poll GraceStage s = (tripped GraceStage s, s')" "ok s'" "\<And>j. tripped j s' = tripped j s"
    using poll_cases [OF assms] by blast
  show ?thesis
    using s' loop_mercy [OF s'(2), of cancel do_io io]
    by (cases "tripped GraceStage s") (simp_all add: flag_poll_def agrees_def del: poll_loop.simps(3))
qed

lemma loop_refines:
  assumes "ok s"
  shows "agrees (poll_loop poll cancel do_io io state s) s (poll_loop flag_poll cancel do_io io state (\<lambda>k. tripped k s))"
proof (cases state)
  case Active
  obtain s' where s': "poll Start s = (tripped Start s, s')" "ok s'" "\<And>j. tripped j s' = tripped j s"
    using poll_cases [OF assms] by blast
  show ?thesis
    using s' loop_grace [OF s'(2), of cancel do_io io]
    by (cases "tripped Start s") (simp_all add: Active flag_poll_def agrees_def del: poll_loop.simps(2))
qed (use assms loop_grace loop_mercy in simp_all)

lemma poll_with_refines:
  assumes "ok s"
  shows "fst (poll_with poll cancel do_io c s) = fst (poll_with flag_poll cancel do_io c (\<lambda>k. tripped k s))"
  using loop_refines [OF assms, of cancel do_io] by (cases "cn_io c") (simp_all add: poll_with_def agrees_def)

end

interpretation flag: shutdown_stages flag_poll "\<lambda>k b. b k" "\<lambda>_. True"
  by unfold_locales (simp_all add: flag_poll_def)

text \<open>Wires, of which no future stops waiting before the wire is tripped, keep the promise.\<close>

definition stages_ok :: "(nat \<Rightarrow> 'n \<Rightarrow> bool) \<Rightarrow> nat \<Rightarrow> 'n stages \<Rightarrow> bool" where
  "stages_ok waits i s \<longleftrightarrow> (\<forall>k. fst (s k) \<and> \<not> waits i (ws_notify (snd (s k))) \<longrightarrow> ws_tripped (snd (s k)))"

lemma wire_poll_tripped:
  assumes "notify_ok ops waits keeps" and "event \<and> \<not> waits i (ws_notify st) \<longrightarrow> ws_tripped st"
    and "wire_poll ops i event st = (r, event', st')"
  shows "r = Ready () \<longleftrightarrow> ws_tripped st" and "ws_tripped st' = ws_tripped st"
    and "event' \<and> \<not> waits i (ws_notify st') \<longrightarrow> ws_tripped st'"
proof -
  let ?st = "if \<not> event then set_event_notified ops i st else st"
  obtain ready st'' where p: "poll_event ops i ?st = (ready, st'')" by (cases "poll_event ops i ?st")
  obtain n where n: "nt_poll ops i (ws_notify ?st) = (ready, n)" "st'' = ?st\<lparr>ws_notify := n\<rparr>"
    using p by (auto simp: poll_event_def split: prod.splits)
  have w: "waits i (ws_notify ?st)" if "\<not> ws_tripped st"
    using assms(1,2) that by (auto simp: notify_ok_def set_event_notified_def)
  note poll = notify_poll [OF assms(1) n(1)]
  have t: "ws_tripped st'' = ws_tripped st" using n(2) by simp
  show "r = Ready () \<longleftrightarrow> ws_tripped st" "ws_tripped st' = ws_tripped st" "event' \<and> \<not> waits i (ws_notify st') \<longrightarrow> ws_tripped st'"
    using assms(3) w poll(1,2) t n(2) unfolding wire_poll_def Let_def p by (auto split: if_splits)
qed

lemma wire_stages:
  assumes "notify_ok ops waits keeps"
  shows "shutdown_stages (stage_poll ops i) (\<lambda>k s. ws_tripped (snd (s k))) (stages_ok waits i)"
proof
  fix s :: "'a stages" and k j
  assume ok: "stages_ok waits i s"
  obtain r event' st' where p: "wire_poll ops i (fst (s k)) (snd (s k)) = (r, event', st')"
    by (metis prod.exhaust)
  have "fst (s k) \<and> \<not> waits i (ws_notify (snd (s k))) \<longrightarrow> ws_tripped (snd (s k))" using ok by (simp add: stages_ok_def)
  note w = wire_poll_tripped [OF assms this p]
  have sp: "stage_poll ops i k s = (r = Ready (), s(k := (event', st')))"
    by (simp add: stage_poll_def p case_prod_unfold)
  show "fst (stage_poll ops i k s) = ws_tripped (snd (s k))" using sp w(1) by simp
  show "ws_tripped (snd (snd (stage_poll ops i k s) j)) = ws_tripped (snd (s j))" using sp w(2) by simp
  show "stages_ok waits i (snd (stage_poll ops i k s))" using sp w(3) ok by (simp add: stages_ok_def)
qed

text \<open>A model of \<open>Notify\<close> that satisfies its documentation: which futures wait, and which of them keep a waker.\<close>

definition table_notify :: "(nat \<Rightarrow> bool \<times> bool) notify_ops" where
  "table_notify =
     \<lparr>nt_new = (\<lambda>_. (False, False)), nt_notified = (\<lambda>i n. n(i := (True, False))),
      nt_poll = (\<lambda>i n. if fst (n i) then (False, n(i := (True, True))) else (True, n)),
      nt_drop = (\<lambda>i n. n(i := (False, False))),
      nt_notify_waiters = (\<lambda>n. ({i. snd (n i)}, \<lambda>_. (False, False)))\<rparr>"

lemma table_notify_ok: "notify_ok table_notify (\<lambda>i n. fst (n i)) (\<lambda>i n. snd (n i))"
  by (simp add: notify_ok_def table_notify_def)

interpretation wire: shutdown_stages "stage_poll table_notify i" "\<lambda>k s. ws_tripped (snd (s k))" "stages_ok (\<lambda>i n. fst (n i)) i"
  by (rule wire_stages [OF table_notify_ok])

section \<open>Lemmas: the server\<close>

text \<open>The state in which a connection is after the notified stages have been seen.\<close>

fun seen :: "(stage \<Rightarrow> bool) \<Rightarrow> cancel_state \<Rightarrow> cancel_state" where
  "seen b Active = (if b Start then if b GraceStage then Mercy else Grace else Active)"
| "seen b Grace = (if b GraceStage then Mercy else Grace)"
| "seen b Mercy = Mercy"

lemma loop_seen:
  "fst (poll_loop flag_poll cancel do_io io state b) =
     (if seen b state \<noteq> Mercy then pass_io do_io io (seen b state)
      else if b MercyStage then (Ready (Err TimedOut), \<lparr>cn_io = None, cn_state = Mercy\<rparr>)
      else cancel_io cancel io)"
  by (cases state) (simp_all add: flag_poll_def)

lemma pass_io_conn: "snd (pass_io do_io io state) = \<lparr>cn_io = Some (snd (do_io io)), cn_state = state\<rparr>"
  by (simp add: pass_io_def split: prod.split)

lemma cancel_io_state: "cn_state (snd (cancel_io cancel io)) = Mercy"
  by (simp add: cancel_io_def split: prod.split Poll.split)

definition conn_ok :: "'i server \<Rightarrow> 'i Cancellable \<Rightarrow> bool" where
  "conn_ok s c \<longleftrightarrow>
     (cn_state c \<noteq> Active \<longrightarrow> flags s Start) \<and> (cn_state c = Mercy \<longrightarrow> flags s GraceStage)
     \<and> (cn_io c = None \<longrightarrow> cn_state c = Mercy)"

definition timing_inv :: "ShutdownConfig \<Rightarrow> 'i server \<Rightarrow> bool" where
  "timing_inv config s \<longleftrightarrow>
     (\<forall>k t. sv_at s k = Some t \<longrightarrow> t \<le> sv_now s)
     \<and> (\<forall>g. sv_at s GraceStage = Some g \<longrightarrow> (\<exists>t. sv_at s Start = Some t \<and> t + sc_grace_duration config \<le> g))
     \<and> (\<forall>m. sv_at s MercyStage = Some m \<longrightarrow> (\<exists>g. sv_at s GraceStage = Some g \<and> g + sc_mercy_duration config \<le> m))
     \<and> (case sv_listener s of
          Waiting \<Rightarrow> sv_at s GraceStage = None \<and> sv_at s MercyStage = None
        | GraceUntil u \<Rightarrow> sv_at s GraceStage = None \<and> sv_at s MercyStage = None
            \<and> (\<exists>t. sv_at s Start = Some t \<and> t + sc_grace_duration config \<le> u)
        | MercyUntil u \<Rightarrow> sv_at s MercyStage = None
            \<and> (\<exists>g. sv_at s GraceStage = Some g \<and> g + sc_mercy_duration config \<le> u)
        | Finished \<Rightarrow> sv_at s MercyStage \<noteq> None)"

definition server_inv :: "ShutdownConfig \<Rightarrow> 'i server \<Rightarrow> bool" where
  "server_inv config s \<longleftrightarrow> timing_inv config s \<and> (\<forall>k c. sv_conns s k = Some c \<longrightarrow> conn_ok s c)"

lemma flags_notify [simp]: "flags (notify_stage k s) j \<longleftrightarrow> j = k \<or> flags s j"
  by (auto simp: flags_def notify_stage_def)

lemma conn_ok_mono: "conn_ok s c \<Longrightarrow> (\<And>k. flags s k \<Longrightarrow> flags s' k) \<Longrightarrow> conn_ok s' c"
  by (auto simp: conn_ok_def)

lemma conn_ok_poll:
  assumes "conn_ok s c"
  shows "conn_ok s (snd (conn_poll cancel do_io c s))"
proof (cases "cn_io c")
  case (Some io)
  then show ?thesis using assms
    by (cases "cn_state c")
      (auto simp: conn_poll_def poll_with_def loop_seen pass_io_conn cancel_io_state conn_ok_def flag_poll_def)
qed (use assms in \<open>simp add: conn_poll_def poll_with_def\<close>)

lemma timing_conns [simp]:
  "timing_inv config (s\<lparr>sv_conns := cs\<rparr>) = timing_inv config s" "conn_ok (s\<lparr>sv_conns := cs\<rparr>) = conn_ok s"
  by (auto simp: timing_inv_def conn_ok_def flags_def fun_eq_iff cong: listener.case_cong)

lemma timing_notify: "timing_inv config s \<Longrightarrow> timing_inv config (notify_stage Start s)"
  by (cases "sv_listener s") (auto simp: timing_inv_def notify_stage_def)

lemma timing_listener: "timing_inv config s \<Longrightarrow> timing_inv config (listener_step config received s)"
  by (cases "sv_listener s") (auto simp: timing_inv_def listener_step_def notify_stage_def flags_def)

lemma timing_tick: "timing_inv config s \<Longrightarrow> timing_inv config (s\<lparr>sv_now := Suc (sv_now s)\<rparr>)"
  by (cases "sv_listener s") (auto simp: timing_inv_def le_Suc_eq)

lemma server_inv_mono:
  "server_inv config s \<Longrightarrow> timing_inv config s' \<Longrightarrow> sv_conns s' = sv_conns s \<Longrightarrow> (\<And>k. flags s k \<Longrightarrow> flags s' k) \<Longrightarrow>
   server_inv config s'"
  unfolding server_inv_def using conn_ok_mono [of s _ s'] by simp

lemma server_inv_conn: "server_inv config s \<Longrightarrow> conn_ok s c \<Longrightarrow> server_inv config (s\<lparr>sv_conns := (sv_conns s)(k \<mapsto> c)\<rparr>)"
  by (auto simp: server_inv_def)

lemma listener_conns [simp]:
  "sv_conns (notify_stage k s) = sv_conns s" "sv_conns (listener_step config received s) = sv_conns s"
  by (simp_all add: listener_step_def notify_stage_def split: listener.split)

lemma listener_flags: "flags s k \<Longrightarrow> flags (listener_step config received s) k"
  by (cases "sv_listener s") (simp_all add: listener_step_def notify_stage_def flags_def)

lemma server_inv_next:
  assumes "server_next config enabled cancel ios s s'" and "server_inv config s"
  shows "server_inv config s'"
proof -
  have t: "timing_inv config s" using assms(2) by (simp add: server_inv_def)
  note mono = server_inv_mono [OF assms(2)]
  have listener: "server_inv config (listener_step config received s)" for received
    by (rule mono [OF timing_listener [OF t]]) (simp_all add: listener_flags)
  from assms(1) show ?thesis
  proof (cases rule: server_next.cases)
    case (sn_signal sigs)
    then show ?thesis using listener by simp
  next
    case sn_listener
    then show ?thesis using listener by simp
  next
    case sn_notify
    then show ?thesis using mono [OF timing_notify [OF t]] by simp
  next
    case sn_tick
    then show ?thesis using mono [OF timing_tick [OF t]] by (simp add: flags_def)
  next
    case (sn_accept k io)
    then show ?thesis using assms(2) by (auto intro!: server_inv_conn simp: conn_ok_def cancellable_def)
  next
    case (sn_poll k c do_io r c')
    have "conn_ok s c" using sn_poll(2) assms(2) by (auto simp: server_inv_def)
    then have "conn_ok s c'" using conn_ok_poll [of s c cancel do_io] sn_poll(4) by simp
    then show ?thesis using sn_poll(1) server_inv_conn [OF assms(2)] by simp
  qed
qed

lemma server_inv_init: "server_inv config server_init"
  by (simp add: server_inv_def timing_inv_def server_init_def)

lemma server_reach_inv: "server_reach config enabled cancel ios s \<Longrightarrow> server_inv config s"
  by (induction rule: server_reach.induct) (auto intro: server_inv_init server_inv_next)

lemma durations:
  "sc_grace_duration config = unat (sc_grace config)" "sc_mercy_duration config = unat (sc_mercy config)"
proof -
  have "unat (ucast w :: 64 word) = unat w" for w :: "32 word"
  proof -
    have "unat w < 2 ^ 32" using unsigned_less [of w, where ?'a = nat] by simp
    then show ?thesis by (simp add: unsigned_ucast_eq take_bit_nat_eq_self)
  qed
  then show "sc_grace_duration config = unat (sc_grace config)" "sc_mercy_duration config = unat (sc_mercy config)"
    by (simp_all add: sc_grace_duration_def sc_mercy_duration_def)
qed

text \<open>The accesses of a poll that nothing interrupts are the poll.\<close>

lemma poll_uninterrupted:
  assumes "wire_poll ops i (tw_event s i) (tw_state s) = (r, event, st)"
  shows "let s' = (poll_step ops i ^^ 4) (poll_begin i s)
     in tw_pc s' i = Idle (Some r) \<and> tw_event s' i = event \<and> tw_state s' = st"
proof -
  let ?n = "ws_notify (if tw_event s i then tw_state s else set_event_notified ops i (tw_state s))"
  obtain ready n where "nt_poll ops i ?n = (ready, n)" by (cases "nt_poll ops i ?n")
  with assms show ?thesis
    by (cases "ws_tripped (tw_state s)"; cases "tw_event s i"; cases ready)
      (auto simp: numeral_eq_Suc poll_begin_def poll_step_def poll_return_def wire_poll_def poll_event_def)
qed

text \<open>
  Waiting ends within the periods, and it succeeds if the other references are gone by then: they have more time than
  the stages of the shutdown take together.
\<close>

lemma wait_loop_bounds:
  "t \<le> wait_loop strong_count periods t \<and> wait_loop strong_count periods t \<le> t + sum_list periods
   \<and> (strong_count (wait_loop strong_count periods t) = 1 \<or> wait_loop strong_count periods t = t + sum_list periods)"
proof (induction periods arbitrary: t)
  case (Cons p ps)
  show ?case using Cons.IH [of "t + p"] by (cases "strong_count t = 1") auto
qed simp

lemma wait_shutdown_succeeds:
  assumes "\<forall>u \<ge> t + (sc_grace_duration config + sc_mercy_duration config) * 1000000 + 1500. strong_count u = 1"
  shows "snd (try_wait_shutdown strong_count config t)"
    and "fst (try_wait_shutdown strong_count config t) \<le> t + (sc_grace_duration config + sc_mercy_duration config) * 1000000 + 1500"
  using assms wait_loop_bounds [of t strong_count "wait_periods config"]
  by (auto simp: try_wait_shutdown_def wait_periods_def Let_def algebra_simps)

section \<open>Properties\<close>

text \<open>
  C5. Trip wires (\<open>TripWire::poll\<close>, \<open>trip\<close>, \<open>tripwire.rs\<close>), in every interleaving of polls, drops and trips of any number of
  clones: a poll is ready only if the wire has been tripped; once \<open>trip\<close> has returned, every task whose last poll
  was pending has been woken, so no wake-up is lost; and a poll that begins after the wire is tripped is ready.
\<close>

theorem tripwire_no_lost_wakeup:
  assumes "notify_ok ops waits keeps" and "wires_reach ops s"
  shows "(tw_pc s i = Idle (Some (Ready ())) \<longrightarrow> ws_tripped (tw_state s))
    \<and> (tw_pc s i = Idle (Some Pending) \<and> ws_tripped (tw_state s) \<and> (\<forall>j. \<not> tw_stored s j) \<longrightarrow> tw_woken s i)
    \<and> (tw_pc s i = AtLoad \<and> ws_tripped (tw_state s) \<longrightarrow> tw_pc (poll_step ops i s) i = Idle (Some (Ready ())))"
proof -
  have "wires_inv waits keeps s" by (rule wires_reach_inv [OF assms(2,1)])
  then show ?thesis by (auto simp: wires_inv_def poll_step_def poll_return_def)
qed

lemma sample_wires_reach:
  "wires_reach table_notify (trip_notify table_notify 0 (trip_store 0
     ((poll_step table_notify 0 ^^ 4) (poll_begin 0 (wires_init table_notify)))))"
proof -
  let ?s = "\<lambda>n. (poll_step table_notify 0 ^^ n) (poll_begin 0 (wires_init table_notify))"
  have pc: "tw_pc (?s 0) 0 = AtLoad" "tw_pc (?s 1) 0 = AtCreate" "tw_pc (?s 2) 0 = AtEvent" "tw_pc (?s 3) 0 = AtReload"
      "\<not> tw_stored (?s 4) 0"
    by (simp_all add: numeral_eq_Suc poll_begin_def poll_step_def wires_init_def wire_new_def poll_event_def
        set_event_notified_def table_notify_def)
  have "wires_reach table_notify (?s 0)"
    using wr_next [OF wr_init wn_begin [of _ 0 None]] by (simp add: wires_init_def)
  then have "wires_reach table_notify (?s 1)" using wr_next [OF _ wn_step [of "?s 0" 0]] pc(1) by simp
  then have "wires_reach table_notify (?s 2)" using wr_next [OF _ wn_step [of "?s 1" 0]] pc(2) by (simp add: numeral_eq_Suc)
  then have "wires_reach table_notify (?s 3)" using wr_next [OF _ wn_step [of "?s 2" 0]] pc(3) by (simp add: numeral_eq_Suc)
  then have "wires_reach table_notify (?s 4)" using wr_next [OF _ wn_step [of "?s 3" 0]] pc(4) by (simp add: numeral_eq_Suc)
  then have "wires_reach table_notify (trip_store 0 (?s 4))" using wr_next [OF _ wn_store [of _ 0]] pc(5) by blast
  moreover have "tw_stored (trip_store 0 (?s 4)) 0" by (simp add: trip_store_def)
  ultimately show ?thesis by (rule wr_next [OF _ wn_notify])
qed

theorem tripwire_no_lost_wakeup_witness:
  "let s = trip_notify table_notify 0 (trip_store 0 ((poll_step table_notify 0 ^^ 4) (poll_begin 0 (wires_init table_notify))))
   in tw_pc s 0 = Idle (Some Pending) \<and> tw_woken s 0"
proof -
  let ?s = "trip_notify table_notify 0 (trip_store 0 ((poll_step table_notify 0 ^^ 4) (poll_begin 0 (wires_init table_notify))))"
  have "tw_pc ?s 0 = Idle (Some Pending)" "ws_tripped (tw_state ?s)" "\<forall>j. \<not> tw_stored ?s j"
    by (simp_all add: numeral_eq_Suc poll_begin_def poll_step_def wires_init_def wire_new_def poll_event_def
        set_event_notified_def table_notify_def trip_store_def trip_notify_def)
  then show ?thesis
    using tripwire_no_lost_wakeup [OF table_notify_ok sample_wires_reach, of 0] unfolding Let_def by blast
qed

text \<open>
  C6. The stages of a shutdown (\<open>Stages::spawn_listener\<close>, \<open>handle.rs\<close>; \<open>Cancellable::poll_with\<close>, \<open>cancellable.rs\<close>): in every run of
  the server, the operations of a connection whose I/O is not yet dropped go through until the grace stage, are
  replaced by cancelling the I/O from then on, and fail with a time-out, which drops it, from the mercy stage on; and
  the stages are at least the configured periods apart.  The stages polled as trip wires give the same.
\<close>

theorem shutdown_cancels_io:
  assumes "server_reach config enabled cancel ios s" and "sv_conns s k = Some c" and "cn_io c = Some io"
    and "notify_ok ops waits keeps" and "stages_ok waits i w" and "\<forall>j. ws_tripped (snd (w j)) = flags s j"
  shows "conn_poll cancel do_io c s =
      (if sv_at s Start = None then pass_io do_io io Active
       else if sv_at s GraceStage = None then pass_io do_io io Grace
       else if sv_at s MercyStage = None then cancel_io cancel io
       else (Ready (Err TimedOut), \<lparr>cn_io = None, cn_state = Mercy\<rparr>))
    \<and> fst (poll_with (stage_poll ops i) cancel do_io c w) = conn_poll cancel do_io c s
    \<and> (\<forall>g. sv_at s GraceStage = Some g \<longrightarrow> (\<exists>t. sv_at s Start = Some t \<and> t + unat (sc_grace config) \<le> g))
    \<and> (\<forall>m. sv_at s MercyStage = Some m \<longrightarrow> (\<exists>g. sv_at s GraceStage = Some g \<and> g + unat (sc_mercy config) \<le> m))"
proof (intro conjI)
  have inv: "timing_inv config s" "conn_ok s c" using server_reach_inv [OF assms(1)] assms(2) by (auto simp: server_inv_def)
  have order: "sv_at s GraceStage \<noteq> None \<Longrightarrow> sv_at s Start \<noteq> None" "sv_at s MercyStage \<noteq> None \<Longrightarrow> sv_at s GraceStage \<noteq> None"
    using inv(1) by (auto simp: timing_inv_def)
  show "conn_poll cancel do_io c s =
      (if sv_at s Start = None then pass_io do_io io Active
       else if sv_at s GraceStage = None then pass_io do_io io Grace
       else if sv_at s MercyStage = None then cancel_io cancel io
       else (Ready (Err TimedOut), \<lparr>cn_io = None, cn_state = Mercy\<rparr>))"
    using inv(2) order by (cases "cn_state c") (auto simp: conn_poll_def poll_with_def assms(3) loop_seen conn_ok_def flags_def flag_poll_def)
  have f: "(\<lambda>j. ws_tripped (snd (w j))) = flags s" using assms(6) by auto
  show "fst (poll_with (stage_poll ops i) cancel do_io c w) = conn_poll cancel do_io c s"
    using shutdown_stages.poll_with_refines [OF wire_stages [OF assms(4), of i], of w cancel do_io c] assms(5)
    by (simp add: conn_poll_def f)
  show "\<forall>g. sv_at s GraceStage = Some g \<longrightarrow> (\<exists>t. sv_at s Start = Some t \<and> t + unat (sc_grace config) \<le> g)"
    "\<forall>m. sv_at s MercyStage = Some m \<longrightarrow> (\<exists>g. sv_at s GraceStage = Some g \<and> g + unat (sc_mercy config) \<le> m)"
    using inv(1) by (simp_all add: timing_inv_def durations)
qed

definition sample_server :: "unit server" where
  "sample_server =
     \<lparr>sv_at = (\<lambda>_. None)(Start \<mapsto> 0, GraceStage \<mapsto> 2), sv_now = 2, sv_listener = MercyUntil 5,
      sv_conns = (\<lambda>_. None)(0 \<mapsto> cancellable ())\<rparr>"

lemma sample_server_reach: "server_reach shutdown_config_default enabled cancel ios sample_server"
proof -
  let ?r = "server_reach shutdown_config_default enabled cancel ios" and ?l = "listener_step shutdown_config_default False"
  let ?st = "\<lambda>a n l. \<lparr>sv_at = a, sv_now = n, sv_listener = l, sv_conns = (\<lambda>_. None)(0 \<mapsto> cancellable ())\<rparr>"
  have step: "?r s \<Longrightarrow> ?r (?l s)" "?r s \<Longrightarrow> ?r (notify_stage Start s)" "?r s \<Longrightarrow> ?r (s\<lparr>sv_now := Suc (sv_now s)\<rparr>)" for s
    by (blast intro: sr_next sn_listener sn_notify sn_tick)+
  have d: "sc_grace_duration shutdown_config_default = 2" "sc_mercy_duration shutdown_config_default = 3"
    by (simp_all add: durations shutdown_config_default_def)
  have "?r (server_init\<lparr>sv_conns := (sv_conns server_init)(0 \<mapsto> cancellable ())\<rparr>)" by (rule sr_next [OF sr_init sn_accept])
  then have "?r (?st (\<lambda>_. None) 0 Waiting)" by (simp add: server_init_def)
  from step(2) [OF this] have "?r (?st [Start \<mapsto> 0] 0 Waiting)" by (simp add: notify_stage_def)
  from step(1) [OF this] have "?r (?st [Start \<mapsto> 0] 0 (GraceUntil 2))" by (simp add: listener_step_def flags_def d numeral_2_eq_2)
  from step(3) [OF step(3) [OF this]] have "?r (?st [Start \<mapsto> 0] 2 (GraceUntil 2))" by (simp add: numeral_2_eq_2)
  from step(1) [OF this] show ?thesis by (simp add: listener_step_def notify_stage_def d sample_server_def)
qed

theorem shutdown_cancels_io_witness:
  "conn_poll (\<lambda>io. (Ready (Ok ()), io)) (\<lambda>io. (Ready (Ok 7), io)) (cancellable ()) sample_server =
     (Ready (Err BrokenPipe :: (nat, unit io_error) result), \<lparr>cn_io = None, cn_state = Mercy\<rparr>)"
proof -
  let ?w = "\<lambda>k. (False, \<lparr>ws_tripped = flags sample_server k, ws_notify = \<lambda>_. (False, False)\<rparr>)"
  have "sv_conns sample_server 0 = Some (cancellable ())" "cn_io (cancellable ()) = Some ()"
      "stages_ok (\<lambda>i n. fst (n i)) 0 ?w" "\<forall>j. ws_tripped (snd (?w j)) = flags sample_server j"
    by (simp_all add: sample_server_def cancellable_def stages_ok_def)
  from shutdown_cancels_io [OF sample_server_reach this(1,2) table_notify_ok this(3,4), where
      cancel = "\<lambda>io. (Ready (Ok () :: (unit, unit) result), io)" and do_io = "\<lambda>io. (Ready (Ok (7 :: nat)), io)"]
  show ?thesis by (simp add: sample_server_def cancel_io_def)
qed

end
