(* ===== verification/Spec2Isabelle.thy ===== *)
theory Spec2Isabelle
  imports Phases ShieldFairing StaticFiles FormData FormValidate RouteHandlers DerivedForms UriMacros Shutdown
begin

text \<open>
  A verification development of the Rocket web framework (\<open>src/core/http\<close> and \<open>src/core/lib\<close>).

  \<^bold>\<open>The program.\<close>  A Rocket server is built from routes, catchers, managed state and fairings.  It passes
  through three phases: \<open>Build\<close>, where everything is mounted and attached; \<open>Ignite\<close>, entered once the ignite
  fairings, the collision check of the router, the secret key check and the sentinels have passed; and \<open>Orbit\<close>,
  where requests are served.  A request is preprocessed (method override of forms, request fairings), routed to the
  matching routes in the order of their ranks, each of which succeeds, fails or forwards to the next, and answered by
  the catcher that fits when none succeeds.  Response fairings then see the response, whose body is stripped for
  \<open>HEAD\<close>, and the connection may be upgraded.  Below this are the HTTP types: URIs in their several forms, methods,
  statuses, media types, headers; and beside it the data of requests, forms, responders, cookies and files.

  \<^bold>\<open>The theories\<close>, each after those it uses, with the sources each translates (under \<open>src/core\<close>):

  \<^item> \<open>Prelude\<close>: bytes as 8-bit words, strings as lists of bytes, \<open>Result\<close> as a sum with \<open>Err\<close> and \<open>Ok\<close>, \<open>Cow\<close>, the
    functions of \<open>str\<close>, slices and \<open>Vec\<close> that several components call, ASCII case folding, decimal printing, the
    locale-free lemmas on lists, splitting, sorting and options shared below, and the named collections of them.

  \<^item> \<open>UriTables\<close> (\<open>http/src/parse/uri/tables.rs\<close>, \<open>parser.rs\<close>): the character tables as the \<open>const fn\<close> computes them,
    compared with the classes of the grammar, and the port accumulator with its 32-bit overflow check.

  \<^item> \<open>RawStr\<close> (\<open>http/src/raw_str.rs\<close>): decoding, HTML escaping, splitting at a byte.

  \<^item> \<open>UriPath\<close> (\<open>http/src/uri/path_query.rs\<close>, \<open>segments.rs\<close>, \<open>origin.rs\<close>): normalization of paths, queries and
    origins, the cursor over segments, and the conversion to file paths.

  \<^item> \<open>Method\<close>, \<open>Status\<close>, \<open>MediaTypes\<close> (\<open>http/src/method.rs\<close>, \<open>status.rs\<close>, \<open>header/media_type.rs\<close>,
    \<open>known_media_types.rs\<close>, \<open>content_type.rs\<close>, \<open>accept.rs\<close>): the tables the macros expand to and the operations on
    them.

  \<^item> \<open>Headers\<close>, \<open>HeaderLaws\<close> (\<open>http/src/header/header.rs\<close>, \<open>proxy_proto.rs\<close>): headers and header maps over an ordered
    map whose keys are equal up to case.  The locale \<open>header_store\<close> is the contract of a header collection; the
    interpretation \<open>hm\<close> discharges it for \<open>HeaderMap\<close>, and requests, responses and the shield use its laws.

  \<^item> \<open>RouteModel\<close>, \<open>RequestModel\<close>, \<open>Router\<close> (\<open>lib/src/route\<close>, \<open>lib/src/catcher/catcher.rs\<close>,
    \<open>lib/src/request/request.rs\<close>, \<open>lib/src/router\<close>): routes with the metadata of their URIs and default ranks,
    requests with the two cached headers, and collision, matching, finalization, routing and catching.  The locale
    \<open>collider\<close> states what a table sorted by rank needs of its items (two well-formed items that match one request and
    have equal ranks collide); it is interpreted for routes and for catchers.

  \<^item> \<open>Outcomes\<close> (\<open>lib/src/outcome.rs\<close>), \<open>Cookies\<close> (\<open>lib/src/http/cookies.rs\<close>), \<open>ResponseModel\<close> (\<open>lib/src/response/body.rs\<close>,
    \<open>response.rs\<close>), \<open>ErrorPages\<close> (the default catcher in \<open>lib/src/catcher/catcher.rs\<close>), \<open>Responders\<close>
    (\<open>lib/src/response/redirect.rs\<close>, \<open>status.rs\<close>, \<open>flash.rs\<close>, \<open>responder.rs\<close>).

  \<^item> \<open>Fairings\<close>, \<open>Sentinels\<close>, \<open>Phases\<close> (\<open>lib/src/fairing\<close>, \<open>lib/src/sentinel.rs\<close>, \<open>lib/src/rocket.rs\<close>,
    \<open>phase.rs\<close>, \<open>error.rs\<close>): the fairing vectors and their phases, the search for aborting sentinels, and the life of
    the server as operations on the state of each phase.

  \<^item> \<open>FormFields\<close>, \<open>DataModel\<close>, \<open>DataLimits\<close> (\<open>lib/src/form\<close>, \<open>lib/src/data\<close>, \<open>lib/src/util/chain.rs\<close>): names and
    fields of forms with the URL-encoded parser, the peek buffer over a reader, and the limits.  The locales
    \<open>async_reader\<close> and \<open>two_readers\<close> are the contracts of a reader with its remaining content and of two readers one
    after the other; a sublocale shows that \<open>Chain\<close> is a reader, and \<open>cursor\<close> and \<open>stream\<close> interpret them.

  \<^item> \<open>Lifecycle\<close> (\<open>lib/src/lifecycle.rs\<close>, the upgrade of \<open>lib/src/server.rs\<close>): preprocessing, dispatch, routing,
    catching, and the upgrade of connections, over all of the above.

  \<^item> \<open>UriValues\<close>, \<open>UriFmt\<close> (\<open>http/src/parse/indexed.rs\<close>, \<open>http/src/uri/authority.rs\<close>, \<open>host.rs\<close>, \<open>absolute.rs\<close>,
    \<open>reference.rs\<close>, \<open>http/src/uri/fmt\<close>): URIs as index ranges of a shared source, and the rendering of URIs from
    typed values that \<open>uri!\<close> expands to.

  \<^item> \<open>ShieldFairing\<close>, \<open>StaticFiles\<close> (\<open>lib/src/shield\<close>, \<open>lib/src/fs/file_name.rs\<close>, \<open>rewrite.rs\<close>, \<open>server.rs\<close>): the
    security headers and the file server.

  \<^bold>\<open>How code corresponds to definitions.\<close>  A struct is a record with the fields of the struct, an enum a datatype with
  its variants, a method a function of the same name where the name is free (with the prefix of its type otherwise:
  \<open>hm_add\<close> for \<open>HeaderMap::add\<close>).  Methods with \<open>&mut self\<close> return the new value; \<open>Result\<close> and \<open>Option\<close> are sums
  and options, and a panic is the value \<open>None\<close> of an outer option.  Machine integers are words where the code can
  reach their bounds (bytes, statuses, ports) and natural numbers or integers where it cannot without exhausting memory (lengths,
  ranks).  Asynchronous functions are sequential: each request is handled by one task, and the model composes the
  steps of that task; what other tasks share (managed state, fairings) is read only while requests are served.

  \<^bold>\<open>What is a parameter.\<close>  Code outside the repository and code of the user of the framework is an argument of the
  definitions: the handlers of routes and catchers and the hooks of fairings; readers, the file system and the clock;
  the crates \<open>uncased\<close> (the folding of case, with the hypothesis that it is a function of the name), \<open>percent-encoding\<close>,
  \<open>cookie\<close>, \<open>indexmap\<close> and \<open>pear\<close> (the parsers of media types and URIs).  The record \<open>x_ext\<close> of the request model
  groups those that routing needs.  Where a property needs something of such a parameter it is a hypothesis of the property, and
  its witness gives a concrete function for which it holds.

  \<^bold>\<open>What the theorems show.\<close>
  The server: whatever was mounted, a server in orbit has no failed fairing, no colliding route and no aborting
  sentinel, and serves each request with exactly the matching routes in rank order (\<open>Phases\<close>, \<open>Router\<close>); routing
  returns the first outcome that is not a forward, errors always end in a response, and the response sent has a body
  consistent with method, status and declared size (\<open>Lifecycle\<close>).
  URIs: normalization is idempotent and keeps the decoded parts, rendering and parsing of typed values are inverse, file
  paths never leave their directory, and the file server depends on nothing outside of it (\<open>UriPath\<close>, \<open>UriValues\<close>,
  \<open>UriFmt\<close>, \<open>StaticFiles\<close>).
  Headers: header maps refine maps from uncased names to lists of values, valid headers cannot inject a line, caches
  of parsed headers agree with the headers, and the shield sets exactly its policies.
  Data: peeking loses nothing, limits refine a case-insensitive map with lookup of ancestors, the form parser yields one
  field per nonempty piece.
  Several theorems are negative: they give the exact condition under which the code misses what its documentation
  promises.

  \<^bold>\<open>Termination and fuel.\<close>  No definition has fuel.  Loops that end are \<open>fun\<close> or \<open>function\<close> with a measure: the rest
  of a slice for parsers, the number of unvisited sentries for the sentinel search, the statuses left for the error
  loop (at most two catchers).  The two loops that may not end, the ignite phase (a hook may attach another fairing) and
  the iteration of the keys of a name, are \<open>partial_function (option)\<close>, and it is proved when they return.

  \<^bold>\<open>Not modelled.\<close>  The macros of \<open>core/codegen\<close> (they compute Rust syntax), the \<open>contrib\<close> crates (adapters of
  database pools, template engines and web sockets), listeners, TLS and the server loop around hyper (network I/O),
  configuration and its providers (figment), logging, the local client for tests, serialization with serde, and the pear
  grammars of URIs and media types.  Each is listed with its reason in the manifest.

  \<^bold>\<open>Plan.\<close>  Next come the values of forms (errors, contexts, validation and the derived \<open>FromForm\<close> of collections),
  parameter guards, data streams and server-sent events; then shutdown and the grammars of URIs.
\<close>

end
